(* ===== verification/Lk_Prelude.thy ===== *)
theory Lk_Prelude
  imports Main "HOL-Library.Word" "HOL-Library.Monad_Syntax"
begin

text \<open>
  What every component of the development shares: the machine types of the 32-bit ARM
  target (\<open>char\<close> is unsigned there, \<open>size_t\<close>, \<open>unsigned\<close>, pointers and
  \<open>unsigned long\<close> have 32 bits), the flat byte memory of the boot loader (one address
  space, no protection, addresses wrap), address ranges, NUL-terminated strings, the status
  codes of \<open>include/err.h\<close>, and lemmas on words and lists used by several components.
\<close>

unbundle bit_operations_syntax

named_theorems mem_simps
  \<comment> \<open>rewriting reads over writes of the byte memory\<close>

section \<open>Machine types\<close>

type_synonym u8 = "8 word"
type_synonym u16 = "16 word"
type_synonym u32 = "32 word"
type_synonym u64 = "64 word"
type_synonym ptr = "32 word"

text \<open>The byte memory: one flat 32-bit address space.\<close>

type_synonym mem = "ptr \<Rightarrow> u8"

section \<open>Status codes (include/err.h)\<close>

type_synonym status_t = int

abbreviation (input) NO_ERROR :: status_t where "NO_ERROR \<equiv> 0"
abbreviation (input) ERR_NOT_SUSPENDED :: status_t where "ERR_NOT_SUSPENDED \<equiv> -10"
abbreviation (input) ERR_OBJECT_DESTROYED :: status_t where "ERR_OBJECT_DESTROYED \<equiv> -11"
abbreviation (input) ERR_NOT_BLOCKED :: status_t where "ERR_NOT_BLOCKED \<equiv> -12"
abbreviation (input) ERR_TIMED_OUT :: status_t where "ERR_TIMED_OUT \<equiv> -13"

section \<open>Address arithmetic\<close>

lemma ptr_add_of_nat_eq_iff:
  fixes p :: ptr
  assumes "i < 2 ^ 32" and "j < 2 ^ 32"
  shows "p + of_nat i = p + of_nat j \<longleftrightarrow> i = j"
proof -
  have "p + of_nat i = p + of_nat j \<longleftrightarrow> (of_nat i :: ptr) = of_nat j" by simp
  also have "\<dots> \<longleftrightarrow> i = j"
    using assms by (simp add: word_of_nat_eq_iff take_bit_nat_eq_self)
  finally show ?thesis .
qed

lemma ptr_eq_add_unat: "(q :: ptr) = p + of_nat (unat (q - p))"
  by simp

lemma unat_of_nat_u32: "i < 2 ^ 32 \<Longrightarrow> unat (of_nat i :: u32) = i"
  by (simp add: unat_of_nat take_bit_nat_eq_self)

lemma unat_diff_add_of_nat:
  fixes p :: ptr
  assumes "i < 2 ^ 32"
  shows "unat (p + of_nat i - p) = i"
  using assms by (simp add: unat_of_nat_u32)

lemma unat_sub_one: "(q :: ptr) \<noteq> p \<Longrightarrow> unat (q - (p + 1)) = unat (q - p) - 1"
proof -
  assume "q \<noteq> p"
  then have "q - p \<noteq> 0" by simp
  moreover have "q - (p + 1) = (q - p) - 1" by simp
  ultimately show ?thesis using unat_minus_one by metis
qed

lemma unat_sub_self_neq: "(q :: ptr) \<noteq> p \<longleftrightarrow> 0 < unat (q - p)"
  by (metis eq_iff_diff_eq_0 not_gr_zero unat_eq_zero)

lemma unat_lt_2p32: "unat (x :: u32) < 2 ^ 32"
proof -
  have "unat x < 2 ^ LENGTH(32)" by (rule unsigned_less)
  then show ?thesis by simp
qed

lemma unat_minus_one_u32: "unat (-1 :: u32) = 2 ^ 32 - 1"
  by (simp add: unsigned_minus_1_eq_mask mask_eq_exp_minus_1)

lemma unat_add_of_nat_u32:
  "unat (x :: u32) + n < 2 ^ 32 \<Longrightarrow> unat (x + of_nat n) = unat x + n"
  by (simp add: unat_word_ariths unat_of_nat_u32)

lemma unat_diff_swap: "(p :: u32) \<noteq> q \<Longrightarrow> unat (p - q) + unat (q - p) = 2 ^ 32"
proof -
  assume "p \<noteq> q"
  then have "unat p \<noteq> unat q" by (metis unsigned_word_eqI)
  then show ?thesis
    using unat_lt_2p32 [of p] unat_lt_2p32 [of q] by (auto simp: unat_sub_if')
qed

lemma unat_diff_advance:
  "unat (q - p) + n < 2 ^ 32 \<Longrightarrow> unat ((q :: ptr) + of_nat n - p) = unat (q - p) + n"
  using unat_add_of_nat_u32 [of "q - p" n] by (simp add: algebra_simps)

lemma unat_diff_retreat:
  "n \<le> unat (q - p) \<Longrightarrow> unat ((q :: ptr) - (p + of_nat n)) = unat (q - p) - n"
proof -
  assume n: "n \<le> unat (q - p)"
  then have "n < 2 ^ 32" using unat_lt_2p32 [of "q - p"] by linarith
  then have "unat ((q - p) - of_nat n) = unat (q - p) - n"
    using n by (simp add: unat_sub word_le_nat_alt unat_of_nat_u32)
  then show ?thesis by (simp add: algebra_simps)
qed

lemma word_mod4: "unat (x AND 3 :: u32) = unat x mod 4"
proof -
  have "x AND 3 = take_bit 2 x" by (simp add: take_bit_eq_mask mask_eq_exp_minus_1)
  then show ?thesis by (simp add: unsigned_take_bit_eq take_bit_eq_mod unat_mod)
qed

lemma uint_less_numeral: "uint (x :: 'a :: len word) < numeral k \<longleftrightarrow> unat x < numeral k"
  by (simp only: uint_nat of_nat_less_numeral_iff)

lemma uint_le_numeral: "uint (x :: 'a :: len word) \<le> numeral k \<longleftrightarrow> unat x \<le> numeral k"
  by (simp only: uint_nat of_nat_le_numeral_iff)

lemma numeral_le_uint: "numeral k \<le> uint (x :: 'a :: len word) \<longleftrightarrow> numeral k \<le> unat x"
  by (simp only: not_less [symmetric] uint_less_numeral)

lemma sint_u32_small: "unat (x :: u32) < 2 ^ 31 \<Longrightarrow> sint x = int (unat x)"
proof -
  assume x: "unat x < 2 ^ 31"
  have eq: "int (unat x) = uint x" by simp
  from x have "unat x < 2147483648" by simp
  with eq have "uint x < 2147483648" by linarith
  then have "signed_take_bit 31 (uint x) = uint x"
    by (intro signed_take_bit_int_eq_self) (simp_all add: order_trans [of _ 0])
  then show ?thesis using sint_uint [of x] by simp
qed

lemma nat_sint_u32: "unat (x :: u32) < 2 ^ 31 \<Longrightarrow> nat (sint x) = unat x"
  by (simp only: sint_u32_small nat_int)

lemma sint_eq_0 [simp]: "sint (x :: 'a :: len word) = 0 \<longleftrightarrow> x = 0"
  by (metis signed_0 signed_word_eqI)

section \<open>Reading and writing ranges of the byte memory\<close>

definition rd :: "mem \<Rightarrow> ptr \<Rightarrow> nat \<Rightarrow> u8 list" where
  "rd m p n = map (\<lambda>i. m (p + of_nat i)) [0..<n]"

fun wr :: "mem \<Rightarrow> ptr \<Rightarrow> u8 list \<Rightarrow> mem" where
  "wr m p [] = m"
| "wr m p (x # xs) = wr (m(p := x)) (p + 1) xs"

text \<open>\<open>sep p n q k\<close>: the ranges \<open>[p, p+n)\<close> and \<open>[q, q+k)\<close> do not meet.\<close>

definition sep :: "ptr \<Rightarrow> nat \<Rightarrow> ptr \<Rightarrow> nat \<Rightarrow> bool" where
  "sep p n q k \<longleftrightarrow> n \<le> unat (q - p) \<and> k \<le> unat (p - q)"

lemma length_rd [simp]: "length (rd m p n) = n"
  by (simp add: rd_def)

lemma nth_rd [simp]: "i < n \<Longrightarrow> rd m p n ! i = m (p + of_nat i)"
  by (simp add: rd_def)

lemma rd_0 [simp]: "rd m p 0 = []"
  by (simp add: rd_def)

lemma rd_Suc: "rd m p (Suc n) = m p # rd m (p + 1) n"
  unfolding rd_def map_upt_Suc by (simp add: add.assoc)

lemma rd_cong: "(\<And>i. i < n \<Longrightarrow> m (p + of_nat i) = m' (p + of_nat i)) \<Longrightarrow> rd m p n = rd m' p n"
  by (simp add: rd_def)

lemma rd_add: "rd m p (n + k) = rd m p n @ rd m (p + of_nat n) k"
  by (induction n arbitrary: p) (simp_all add: rd_Suc ac_simps)

lemma wr_append: "wr m p (xs @ ys) = wr (wr m p xs) (p + of_nat (length xs)) ys"
  by (induction xs arbitrary: m p) (simp_all add: ac_simps)

lemma wr_apply:
  "length xs \<le> 2 ^ 32 \<Longrightarrow>
    wr m p xs q = (if unat (q - p) < length xs then xs ! unat (q - p) else m q)"
proof (induction xs arbitrary: m p)
  case Nil
  then show ?case by simp
next
  case (Cons x xs)
  show ?case
  proof (cases "q = p")
    case True
    have "unat (p - (p + 1)) = 2 ^ 32 - 1" by (simp add: unat_minus_one_u32)
    with True Cons show ?thesis by simp
  next
    case False
    then have pos: "0 < unat (q - p)" by (simp only: unat_sub_self_neq)
    have "wr m p (x # xs) q = wr (m(p := x)) (p + 1) xs q" by simp
    also have "\<dots> = (if unat (q - p) - 1 < length xs then xs ! (unat (q - p) - 1) else m q)"
      using Cons.prems False
      by (subst Cons.IH) (simp_all add: unat_sub_one [OF False] del: diff_add_eq_diff_diff_swap)
    also have "\<dots> = (if unat (q - p) < length (x # xs) then (x # xs) ! unat (q - p) else m q)"
      using pos by (auto simp: nth_Cons')
    finally show ?thesis .
  qed
qed

lemma wr_other: "length xs \<le> unat (q - p) \<Longrightarrow> wr m p xs q = m q"
  using unat_lt_2p32 [of "q - p"] by (simp add: wr_apply)

lemma wr_at: "i < length xs \<Longrightarrow> length xs \<le> 2 ^ 32 \<Longrightarrow> wr m p xs (p + of_nat i) = xs ! i"
  by (simp add: wr_apply unat_of_nat_u32)

lemma rd_wr_same: "length xs \<le> 2 ^ 32 \<Longrightarrow> rd (wr m p xs) p (length xs) = xs"
  by (rule nth_equalityI) (simp_all add: wr_at)

lemma sep_sym: "sep p n q k \<longleftrightarrow> sep q k p n"
  by (auto simp: sep_def)

lemma sep_le: "sep p n q k \<Longrightarrow> n' \<le> n \<Longrightarrow> k' \<le> k \<Longrightarrow> sep p n' q k'"
  by (simp add: sep_def)

lemma sep_unat:
  assumes "sep p n q k" and "i < n"
  shows "k \<le> unat (p + of_nat i - q)"
proof (cases "p = q")
  case True
  with assms show ?thesis by (simp add: sep_def)
next
  case False
  from unat_diff_swap [OF False] assms have "unat (p - q) + i < 2 ^ 32" by (simp add: sep_def)
  then have "unat (p + of_nat i - q) = unat (p - q) + i" by (rule unat_diff_advance)
  with assms show ?thesis by (simp add: sep_def)
qed

lemma rd_wr_sep: "sep p n q (length xs) \<Longrightarrow> rd (wr m q xs) p n = rd m p n"
  by (rule rd_cong) (simp add: wr_other sep_unat)

lemma rd_upd_sep: "n \<le> unat (q - p) \<Longrightarrow> rd (m(q := x)) p n = rd m p n"
proof (rule rd_cong)
  fix i
  assume n: "n \<le> unat (q - p)" and i: "i < n"
  then have "i < 2 ^ 32" using unat_lt_2p32 [of "q - p"] by linarith
  with n i have "p + of_nat i \<noteq> q" using unat_diff_add_of_nat [of i p] by auto
  then show "(m(q := x)) (p + of_nat i) = m (p + of_nat i)" by simp
qed

lemma wr_upd_comm:
  "length xs \<le> unat (q - p) \<Longrightarrow> wr (m(q := x)) p xs = (wr m p xs)(q := x)"
proof (induction xs arbitrary: m p)
  case Nil
  then show ?case by simp
next
  case (Cons y ys)
  then have q: "q \<noteq> p" by auto
  have len: "length ys \<le> unat (q - (p + 1))"
    using Cons.prems by (subst unat_sub_one [OF q]) simp
  have "wr (m(q := x)) p (y # ys) = wr (m(q := x, p := y)) (p + 1) ys" by simp
  also have "m(q := x, p := y) = m(p := y, q := x)" using q by (rule fun_upd_twist)
  also have "wr \<dots> (p + 1) ys = (wr (m(p := y)) (p + 1) ys)(q := x)" using len by (rule Cons.IH)
  finally show ?case by (simp only: wr.simps)
qed

lemma wr_wr_comm:
  assumes "sep p (length xs) q (length ys)" and "length xs \<le> 2 ^ 32" and "length ys \<le> 2 ^ 32"
  shows "wr (wr m p xs) q ys = wr (wr m q ys) p xs"
proof
  fix z
  have "length ys \<le> unat (z - q)" if "unat (z - p) < length xs"
    using sep_unat [OF assms(1) that] by simp
  then show "wr (wr m p xs) q ys z = wr (wr m q ys) p xs z"
    using assms(2,3) by (auto simp: wr_apply)
qed

lemma wr_rd_id: "n \<le> 2 ^ 32 \<Longrightarrow> wr m p (rd m p n) = m"
  by (rule ext) (simp add: wr_apply)

section \<open>NUL-terminated strings\<close>

text \<open>\<open>cstr m p xs\<close>: the bytes at \<open>p\<close> are the non-zero bytes \<open>xs\<close> and a zero byte.\<close>

fun cstr :: "mem \<Rightarrow> ptr \<Rightarrow> u8 list \<Rightarrow> bool" where
  "cstr m p [] \<longleftrightarrow> m p = 0"
| "cstr m p (x # xs) \<longleftrightarrow> m p = x \<and> x \<noteq> 0 \<and> cstr m (p + 1) xs"

lemma cstr_unique: "cstr m p xs \<Longrightarrow> cstr m p ys \<Longrightarrow> xs = ys"
proof (induction xs arbitrary: p ys)
  case Nil
  then show ?case by (cases ys) auto
next
  case (Cons x xs)
  then show ?case by (cases ys) auto
qed

lemma cstr_append_iff:
  "cstr m p (xs @ ys) \<longleftrightarrow> rd m p (length xs) = xs \<and> 0 \<notin> set xs \<and> cstr m (p + of_nat (length xs)) ys"
  by (induction xs arbitrary: p) (auto simp: rd_Suc ac_simps)

lemma cstr_iff:
  "cstr m p xs \<longleftrightarrow> rd m p (length xs) = xs \<and> 0 \<notin> set xs \<and> m (p + of_nat (length xs)) = 0"
  using cstr_append_iff [of m p xs "[]"] by simp

lemma cstr_nth: "cstr m p xs \<Longrightarrow> i < length xs \<Longrightarrow> m (p + of_nat i) = xs ! i"
  by (auto simp: cstr_iff) (metis nth_rd)

lemma cstr_nul: "cstr m p xs \<Longrightarrow> m (p + of_nat (length xs)) = 0"
  by (simp add: cstr_iff)

text \<open>Addresses wrap, so a terminated string is shorter than the address space.\<close>

lemma cstr_length: "cstr m p xs \<Longrightarrow> length xs < 2 ^ 32"
proof (rule ccontr)
  assume c: "cstr m p xs" and "\<not> length xs < 2 ^ 32"
  let ?k = "unat (of_nat (length xs) :: ptr)"
  have k: "?k < length xs" using unat_lt_2p32 [of "of_nat (length xs)"] \<open>\<not> _\<close> by simp
  from cstr_nth [OF c k] have "m (p + of_nat (length xs)) = xs ! ?k" by simp
  with cstr_nul [OF c] have "xs ! ?k = 0" by simp
  with k have "0 \<in> set xs" by (metis nth_mem)
  with c show False by (simp add: cstr_iff)
qed

lemma cstr_cong:
  assumes "cstr m p xs" and "\<And>i. i \<le> length xs \<Longrightarrow> m' (p + of_nat i) = m (p + of_nat i)"
  shows "cstr m' p xs"
proof -
  have "rd m' p (length xs) = rd m p (length xs)" by (rule rd_cong) (simp add: assms(2))
  with assms show ?thesis by (simp add: cstr_iff)
qed

lemma cstr_wr:
  assumes "0 \<notin> set xs" and "length xs < 2 ^ 32"
  shows "cstr (wr m p (xs @ [0])) p xs"
proof -
  let ?m = "wr m p (xs @ [0])"
  have "rd ?m p (length xs + 1) = xs @ [0]"
    using rd_wr_same [of "xs @ [0]" m p] assms(2) by simp
  then have "rd ?m p (length xs) @ rd ?m (p + of_nat (length xs)) 1 = xs @ [0]"
    by (simp only: rd_add)
  then have "rd ?m p (length xs) = xs" and "rd ?m (p + of_nat (length xs)) 1 = [0]"
    by (simp_all add: append_eq_append_conv)
  with assms(1) show ?thesis by (simp add: cstr_iff rd_Suc)
qed

end
