(* ===== verification/Lk_List.thy ===== *)
theory Lk_List
  imports Lk_Prelude
begin

text \<open>
  The intrusive circular doubly linked lists of \<open>include/list.h\<close>, on a heap of
  \<open>struct list_node\<close>s: every operation and macro, the loops over a list, and the refinement
  that lets the kernel theories read a list head as the sequence of its nodes. The last
  section states that contract as a locale and interprets it on the operations here.
\<close>

section \<open>The nodes and the operations\<close>

record nodes =
  prv :: "ptr \<Rightarrow> ptr"
  nxt :: "ptr \<Rightarrow> ptr"

definition set_prev :: "nodes \<Rightarrow> ptr \<Rightarrow> ptr \<Rightarrow> nodes" where
  "set_prev h p q = h\<lparr>prv := (prv h)(p := q)\<rparr>"

definition set_next :: "nodes \<Rightarrow> ptr \<Rightarrow> ptr \<Rightarrow> nodes" where
  "set_next h p q = h\<lparr>nxt := (nxt h)(p := q)\<rparr>"

definition containerof :: "ptr \<Rightarrow> u32 \<Rightarrow> ptr" where
  "containerof p offset = p - offset"

text \<open>What the \<open>_type\<close> macros do with the node they get.\<close>

definition container_or_null :: "ptr \<Rightarrow> u32 \<Rightarrow> ptr" where
  "container_or_null nod offset = (if nod \<noteq> 0 then containerof nod offset else 0)"

definition list_initialize :: "nodes \<Rightarrow> ptr \<Rightarrow> nodes" where
  "list_initialize h list = set_prev (set_next h list list) list list"

definition list_clear_node :: "nodes \<Rightarrow> ptr \<Rightarrow> nodes" where
  "list_clear_node h item = set_prev (set_next h item 0) item 0"

definition list_in_list :: "nodes \<Rightarrow> ptr \<Rightarrow> bool" where
  "list_in_list h item = (if prv h item = 0 \<and> nxt h item = 0 then False else True)"

definition list_add_head :: "nodes \<Rightarrow> ptr \<Rightarrow> ptr \<Rightarrow> nodes" where
  "list_add_head h list item =
    (let h1 = set_next h item (nxt h list);
         h2 = set_prev h1 item list;
         h3 = set_prev h2 (nxt h2 list) item
     in set_next h3 list item)"

definition list_add_after :: "nodes \<Rightarrow> ptr \<Rightarrow> ptr \<Rightarrow> nodes" where
  "list_add_after h entry new_entry = list_add_head h entry new_entry"

definition list_add_tail :: "nodes \<Rightarrow> ptr \<Rightarrow> ptr \<Rightarrow> nodes" where
  "list_add_tail h list item =
    (let h1 = set_prev h item (prv h list);
         h2 = set_next h1 item list;
         h3 = set_next h2 (prv h2 list) item
     in set_prev h3 list item)"

definition list_add_before :: "nodes \<Rightarrow> ptr \<Rightarrow> ptr \<Rightarrow> nodes" where
  "list_add_before h entry new_entry = list_add_tail h entry new_entry"

definition list_delete :: "nodes \<Rightarrow> ptr \<Rightarrow> nodes" where
  "list_delete h item =
    (let h1 = set_prev h (nxt h item) (prv h item);
         h2 = set_next h1 (prv h1 item) (nxt h1 item)
     in set_prev (set_next h2 item 0) item 0)"

definition list_remove_head :: "nodes \<Rightarrow> ptr \<Rightarrow> nodes \<times> ptr" where
  "list_remove_head h list =
    (if nxt h list \<noteq> list then (let item = nxt h list in (list_delete h item, item)) else (h, 0))"

definition list_remove_head_type :: "nodes \<Rightarrow> ptr \<Rightarrow> u32 \<Rightarrow> nodes \<times> ptr" where
  "list_remove_head_type h list offset =
    (let (h', nod) = list_remove_head h list in (h', container_or_null nod offset))"

definition list_remove_tail :: "nodes \<Rightarrow> ptr \<Rightarrow> nodes \<times> ptr" where
  "list_remove_tail h list =
    (if prv h list \<noteq> list then (let item = prv h list in (list_delete h item, item)) else (h, 0))"

definition list_remove_tail_type :: "nodes \<Rightarrow> ptr \<Rightarrow> u32 \<Rightarrow> nodes \<times> ptr" where
  "list_remove_tail_type h list offset =
    (let (h', nod) = list_remove_tail h list in (h', container_or_null nod offset))"

definition list_peek_head :: "nodes \<Rightarrow> ptr \<Rightarrow> ptr" where
  "list_peek_head h list = (if nxt h list \<noteq> list then nxt h list else 0)"

definition list_peek_head_type :: "nodes \<Rightarrow> ptr \<Rightarrow> u32 \<Rightarrow> ptr" where
  "list_peek_head_type h list offset = container_or_null (list_peek_head h list) offset"

definition list_peek_tail :: "nodes \<Rightarrow> ptr \<Rightarrow> ptr" where
  "list_peek_tail h list = (if prv h list \<noteq> list then prv h list else 0)"

definition list_peek_tail_type :: "nodes \<Rightarrow> ptr \<Rightarrow> u32 \<Rightarrow> ptr" where
  "list_peek_tail_type h list offset = container_or_null (list_peek_tail h list) offset"

definition list_prev :: "nodes \<Rightarrow> ptr \<Rightarrow> ptr \<Rightarrow> ptr" where
  "list_prev h list item = (if prv h item \<noteq> list then prv h item else 0)"

definition list_prev_type :: "nodes \<Rightarrow> ptr \<Rightarrow> ptr \<Rightarrow> u32 \<Rightarrow> ptr" where
  "list_prev_type h list item offset = container_or_null (list_prev h list item) offset"

definition list_prev_wrap :: "nodes \<Rightarrow> ptr \<Rightarrow> ptr \<Rightarrow> ptr" where
  "list_prev_wrap h list item =
    (if prv h item \<noteq> list then prv h item
     else if prv h (prv h item) \<noteq> list then prv h (prv h item)
     else 0)"

definition list_prev_wrap_type :: "nodes \<Rightarrow> ptr \<Rightarrow> ptr \<Rightarrow> u32 \<Rightarrow> ptr" where
  "list_prev_wrap_type h list item offset = container_or_null (list_prev_wrap h list item) offset"

definition list_next :: "nodes \<Rightarrow> ptr \<Rightarrow> ptr \<Rightarrow> ptr" where
  "list_next h list item = (if nxt h item \<noteq> list then nxt h item else 0)"

definition list_next_type :: "nodes \<Rightarrow> ptr \<Rightarrow> ptr \<Rightarrow> u32 \<Rightarrow> ptr" where
  "list_next_type h list item offset = container_or_null (list_next h list item) offset"

definition list_next_wrap :: "nodes \<Rightarrow> ptr \<Rightarrow> ptr \<Rightarrow> ptr" where
  "list_next_wrap h list item =
    (if nxt h item \<noteq> list then nxt h item
     else if nxt h (nxt h item) \<noteq> list then nxt h (nxt h item)
     else 0)"

definition list_next_wrap_type :: "nodes \<Rightarrow> ptr \<Rightarrow> ptr \<Rightarrow> u32 \<Rightarrow> ptr" where
  "list_next_wrap_type h list item offset = container_or_null (list_next_wrap h list item) offset"

definition list_is_empty :: "nodes \<Rightarrow> ptr \<Rightarrow> bool" where
  "list_is_empty h list \<longleftrightarrow> nxt h list = list"

text \<open>
  The loop macros, with the loop's body as a state transformer of the nodes; the variable
  \<open>node\<close> (and \<open>temp_node\<close>) is the argument of the loop function.
\<close>

partial_function (option) list_for_every_loop ::
  "ptr \<Rightarrow> (ptr \<Rightarrow> nodes \<times> 's \<Rightarrow> nodes \<times> 's) \<Rightarrow> ptr \<Rightarrow> nodes \<times> 's \<Rightarrow> (nodes \<times> 's) option" where
  "list_for_every_loop list body node st =
    (if node \<noteq> list then
       (let st' = body node st in list_for_every_loop list body (nxt (fst st') node) st')
     else Some st)"

definition list_for_every ::
  "ptr \<Rightarrow> (ptr \<Rightarrow> nodes \<times> 's \<Rightarrow> nodes \<times> 's) \<Rightarrow> nodes \<times> 's \<Rightarrow> (nodes \<times> 's) option" where
  "list_for_every list body st = list_for_every_loop list body (nxt (fst st) list) st"

partial_function (option) list_for_every_safe_loop ::
  "ptr \<Rightarrow> (ptr \<Rightarrow> nodes \<times> 's \<Rightarrow> nodes \<times> 's) \<Rightarrow> ptr \<Rightarrow> ptr \<Rightarrow> nodes \<times> 's \<Rightarrow> (nodes \<times> 's) option" where
  "list_for_every_safe_loop list body node temp_node st =
    (if node \<noteq> list then
       (let st' = body node st
        in list_for_every_safe_loop list body temp_node (nxt (fst st') temp_node) st')
     else Some st)"

definition list_for_every_safe ::
  "ptr \<Rightarrow> (ptr \<Rightarrow> nodes \<times> 's \<Rightarrow> nodes \<times> 's) \<Rightarrow> nodes \<times> 's \<Rightarrow> (nodes \<times> 's) option" where
  "list_for_every_safe list body st =
    (let node = nxt (fst st) list
     in list_for_every_safe_loop list body node (nxt (fst st) node) st)"

definition list_for_every_entry ::
  "ptr \<Rightarrow> u32 \<Rightarrow> (ptr \<Rightarrow> nodes \<times> 's \<Rightarrow> nodes \<times> 's) \<Rightarrow> nodes \<times> 's \<Rightarrow> (nodes \<times> 's) option" where
  "list_for_every_entry list offset body st =
    list_for_every list (\<lambda>node. body (containerof node offset)) st"

definition list_for_every_entry_safe ::
  "ptr \<Rightarrow> u32 \<Rightarrow> (ptr \<Rightarrow> nodes \<times> 's \<Rightarrow> nodes \<times> 's) \<Rightarrow> nodes \<times> 's \<Rightarrow> (nodes \<times> 's) option" where
  "list_for_every_entry_safe list offset body st =
    list_for_every_safe list (\<lambda>node. body (containerof node offset)) st"

section \<open>Lists as sequences\<close>

text \<open>\<open>chain h a xs b\<close>: from \<open>a\<close> over the nodes \<open>xs\<close> to \<open>b\<close>, linked both ways.\<close>

fun chain :: "nodes \<Rightarrow> ptr \<Rightarrow> ptr list \<Rightarrow> ptr \<Rightarrow> bool" where
  "chain h a [] b \<longleftrightarrow> nxt h a = b \<and> prv h b = a"
| "chain h a (x # xs) b \<longleftrightarrow> nxt h a = x \<and> prv h x = a \<and> chain h x xs b"

text \<open>\<open>dlist h l xs\<close>: the list with head \<open>l\<close> has the nodes \<open>xs\<close>.\<close>

definition dlist :: "nodes \<Rightarrow> ptr \<Rightarrow> ptr list \<Rightarrow> bool" where
  "dlist h l xs \<longleftrightarrow> chain h l xs l \<and> distinct (l # xs) \<and> 0 \<notin> set (l # xs)"

lemma set_sel [simp]:
  "prv (set_prev h p q) = (prv h)(p := q)" "nxt (set_prev h p q) = nxt h"
  "nxt (set_next h p q) = (nxt h)(p := q)" "prv (set_next h p q) = prv h"
  by (simp_all add: set_prev_def set_next_def)

lemma chain_append: "chain h a (xs @ y # ys) b \<longleftrightarrow> chain h a xs y \<and> chain h y ys b"
  by (induction xs arbitrary: a) auto

lemma chain_snoc: "chain h a (xs @ [y]) b \<longleftrightarrow> chain h a xs y \<and> nxt h y = b \<and> prv h b = y"
  by (simp add: chain_append)

lemma chain_cong:
  assumes "chain h a xs b" and "\<And>p. p \<in> set (a # xs) \<Longrightarrow> nxt h' p = nxt h p"
    and "\<And>p. p \<in> set (b # xs) \<Longrightarrow> prv h' p = prv h p"
  shows "chain h' a xs b"
  using assms by (induction xs arbitrary: a) auto

lemma dlist_cong:
  assumes "dlist h l xs" and "\<And>p. p \<in> set (l # xs) \<Longrightarrow> nxt h' p = nxt h p \<and> prv h' p = prv h p"
  shows "dlist h' l xs"
  using assms chain_cong [of h l xs l h'] by (auto simp: dlist_def)

lemma chain_unique: "chain h a xs b \<Longrightarrow> chain h a ys b \<Longrightarrow> b \<notin> set xs \<Longrightarrow> b \<notin> set ys \<Longrightarrow> xs = ys"
proof (induction xs arbitrary: a ys)
  case Nil
  then show ?case by (cases ys) auto
next
  case (Cons x xs)
  then show ?case by (cases ys) auto
qed

lemma dlist_unique: "dlist h l xs \<Longrightarrow> dlist h l ys \<Longrightarrow> xs = ys"
  using chain_unique by (fastforce simp: dlist_def)

section \<open>The operations on sequences\<close>

lemma chain_first: "chain h a xs b \<Longrightarrow> nxt h a = hd (xs @ [b])"
  by (cases xs) auto

lemma chain_last: "chain h a xs b \<Longrightarrow> prv h b = last (a # xs)"
  by (induction xs arbitrary: a) auto

lemma dlist_initialize: "l \<noteq> 0 \<Longrightarrow> dlist (list_initialize h l) l []"
  by (simp add: dlist_def list_initialize_def)

text \<open>A link from \<open>a\<close> to \<open>b\<close> is opened for a new node, or closed over one.\<close>

lemma add_head_link:
  assumes "nxt h a = b" and "x \<noteq> a"  and "x \<noteq> b"
  shows "nxt (list_add_head h a x) = (nxt h)(x := b, a := x)"
    and "prv (list_add_head h a x) = (prv h)(x := a, b := x)"
  using assms by (auto simp: list_add_head_def Let_def)

lemma add_tail_link:
  assumes "prv h b = a" and "x \<noteq> a"  and "x \<noteq> b"
  shows "nxt (list_add_tail h b x) = (nxt h)(x := b, a := x)"
    and "prv (list_add_tail h b x) = (prv h)(x := a, b := x)"
  using assms by (auto simp: list_add_tail_def Let_def)

lemma delete_link:
  assumes "prv h x = a" and "nxt h x = b" and "x \<noteq> a"  and "x \<noteq> b"
  shows "nxt (list_delete h x) = (nxt h)(a := b, x := 0)"
    and "prv (list_delete h x) = (prv h)(b := a, x := 0)"
  using assms by (auto simp: list_delete_def Let_def)

lemma chain_split:
  "chain h a (as @ bs) b \<longleftrightarrow> chain h a as (hd (bs @ [b])) \<and> chain h (last (a # as)) bs b"
proof (induction as arbitrary: a)
  case Nil
  then show ?case by (cases bs) auto
qed auto

lemma chain_new_end:
  assumes "chain h a as b" and "distinct (a # as)" and "nxt h' (last (a # as)) = x"
    and "prv h' x = last (a # as)"
    and "\<And>p. p \<in> set (a # as) \<Longrightarrow> p \<noteq> last (a # as) \<Longrightarrow> nxt h' p = nxt h p"
    and "\<And>p. p \<in> set as \<Longrightarrow> prv h' p = prv h p"
  shows "chain h' a as x"
  using assms
proof (induction as arbitrary: a)
  case (Cons y ys)
  have "a \<noteq> last (a # y # ys)" using Cons.prems(2) by auto
  then have "nxt h' a = y" using Cons.prems(1) Cons.prems(5) [of a] by simp
  moreover have "chain h' y ys x"
    using Cons.prems by (intro Cons.IH) auto
  ultimately show ?case using Cons.prems by simp
qed simp

lemma chain_new_start:
  assumes "chain h a bs b" and "nxt h' x = hd (bs @ [b])" and "prv h' (hd (bs @ [b])) = x"
    and "\<And>p. p \<in> set bs \<Longrightarrow> nxt h' p = nxt h p"
    and "\<And>p. p \<in> set (tl (bs @ [b])) \<Longrightarrow> prv h' p = prv h p"
  shows "chain h' x bs b"
proof (cases bs)
  case (Cons y ys)
  have "chain h' y ys b"
    using assms Cons by (intro chain_cong [of h y ys b h']) auto
  with assms Cons show ?thesis by simp
qed (use assms in simp)

text \<open>Opening a link of the circle for a new node, and closing it over one.\<close>

lemma dlist_insert:
  assumes d: "dlist h l (as @ bs)" and x: "x \<notin> set (l # as @ bs)" "x \<noteq> 0"
    and a: "a = last (l # as)" and b: "b = hd (bs @ [l])"
    and h': "nxt h' = (nxt h)(x := b, a := x)" "prv h' = (prv h)(x := a, b := x)"
  shows "dlist h' l (as @ x # bs)"
proof -
  have c: "chain h l as b" "chain h a bs l" and dist: "distinct (l # as @ bs)"
    using d by (simp_all add: dlist_def chain_split a b)
  have a_in: "a \<in> set (l # as)" unfolding a by (rule last_in_set) simp
  have b_in: "b \<in> set (bs @ [l])" unfolding b by (rule hd_in_set) simp
  have b_tl: "b \<notin> set (tl (bs @ [l]))" using dist unfolding b by (cases bs) auto
  have ax: "a \<noteq> x" "b \<noteq> x" using a_in b_in x by auto
  have sub: "set (tl (bs @ [l])) \<subseteq> set (bs @ [l])" by (cases bs) auto
  have b_as: "b \<notin> set as" and a_bs: "a \<notin> set bs" using a_in b_in dist by auto
  have n1: "\<And>p. p \<in> set (l # as) \<Longrightarrow> p \<noteq> a \<Longrightarrow> nxt h' p = nxt h p"
    using x h'(1) by auto
  have p1: "\<And>p. p \<in> set as \<Longrightarrow> prv h' p = prv h p" using x b_as h'(2) by auto
  have n2: "\<And>p. p \<in> set bs \<Longrightarrow> nxt h' p = nxt h p" using x a_bs h'(1) by auto
  have p2: "\<And>p. p \<in> set (tl (bs @ [l])) \<Longrightarrow> prv h' p = prv h p"
    using x b_tl sub h'(2) by auto
  have "distinct (l # as)" using dist by simp
  with c(1) have "chain h' l as x"
    by (rule chain_new_end) (use n1 p1 h' ax a in simp_all)
  moreover have "chain h' x bs l"
    using c(2) by (rule chain_new_start) (use n2 p2 h' ax b in simp_all)
  ultimately show ?thesis using d x by (auto simp: dlist_def chain_append)
qed

lemma dlist_remove:
  assumes d: "dlist h l (as @ x # bs)" and a: "a = last (l # as)" and b: "b = hd (bs @ [l])"
    and h': "nxt h' = (nxt h)(a := b, x := 0)" "prv h' = (prv h)(b := a, x := 0)"
  shows "dlist h' l (as @ bs)"
proof -
  have c: "chain h l as x" "chain h x bs l" and dist: "distinct (l # as @ x # bs)"
    using d by (simp_all add: dlist_def chain_append)
  have a_in: "a \<in> set (l # as)" unfolding a by (rule last_in_set) simp
  have b_in: "b \<in> set (bs @ [l])" unfolding b by (rule hd_in_set) simp
  have b_tl: "b \<notin> set (tl (bs @ [l]))" using dist unfolding b by (cases bs) auto
  have ax: "a \<noteq> x" "b \<noteq> x" using a_in b_in dist by auto
  have sub: "set (tl (bs @ [l])) \<subseteq> set (bs @ [l])" by (cases bs) auto
  have b_as: "b \<notin> set as" and a_bs: "a \<notin> set bs" using a_in b_in dist by auto
  have n1: "\<And>p. p \<in> set (l # as) \<Longrightarrow> p \<noteq> a \<Longrightarrow> nxt h' p = nxt h p"
    using dist h'(1) by auto
  have p1: "\<And>p. p \<in> set as \<Longrightarrow> prv h' p = prv h p" using dist b_as h'(2) by auto
  have n2: "\<And>p. p \<in> set bs \<Longrightarrow> nxt h' p = nxt h p" using dist a_bs h'(1) by auto
  have p2: "\<And>p. p \<in> set (tl (bs @ [l])) \<Longrightarrow> prv h' p = prv h p"
    using dist b_tl sub h'(2) by auto
  have "distinct (l # as)" using dist by simp
  with c(1) have "chain h' l as b"
    by (rule chain_new_end) (use n1 p1 h' ax a in simp_all)
  moreover have "chain h' a bs l"
    using c(2) by (rule chain_new_start) (use n2 p2 h' ax b in simp_all)
  ultimately show ?thesis using d by (auto simp: dlist_def chain_split a b)
qed

lemma dlist_hd: "dlist h l (as @ bs) \<Longrightarrow> nxt h (last (l # as)) = hd (bs @ [l])"
  by (simp add: dlist_def chain_split chain_first del: last.simps)

lemma dlist_last: "dlist h l (as @ bs) \<Longrightarrow> prv h (hd (bs @ [l])) = last (l # as)"
  by (simp add: dlist_def chain_split chain_last del: last.simps)

lemma dlist_add_after_pos:
  assumes d: "dlist h l (as @ bs)" and x: "x \<notin> set (l # as @ bs)" "x \<noteq> 0"
  shows "dlist (list_add_head h (last (l # as)) x) l (as @ x # bs)"
proof -
  let ?a = "last (l # as)" and ?b = "hd (bs @ [l])"
  have "?a \<in> set (l # as)" by (rule last_in_set) simp
  moreover have "?b \<in> set (bs @ [l])" by (rule hd_in_set) simp
  ultimately have "x \<noteq> ?a" "x \<noteq> ?b" using x(1) by auto
  from add_head_link [OF dlist_hd [OF d] this] show ?thesis
    by (rule dlist_insert [OF d x refl refl])
qed

lemma dlist_add_before_pos:
  assumes d: "dlist h l (as @ bs)" and x: "x \<notin> set (l # as @ bs)" "x \<noteq> 0"
  shows "dlist (list_add_tail h (hd (bs @ [l])) x) l (as @ x # bs)"
proof -
  let ?a = "last (l # as)" and ?b = "hd (bs @ [l])"
  have "?a \<in> set (l # as)" by (rule last_in_set) simp
  moreover have "?b \<in> set (bs @ [l])" by (rule hd_in_set) simp
  ultimately have "x \<noteq> ?a" "x \<noteq> ?b" using x(1) by auto
  from add_tail_link [OF dlist_last [OF d] this] show ?thesis
    by (rule dlist_insert [OF d x refl refl])
qed

lemma dlist_add_head: "dlist h l xs \<Longrightarrow> x \<notin> set (l # xs) \<Longrightarrow> x \<noteq> 0 \<Longrightarrow> dlist (list_add_head h l x) l (x # xs)"
  using dlist_add_after_pos [of h l "[]" xs x] by simp

lemma dlist_add_tail: "dlist h l xs \<Longrightarrow> x \<notin> set (l # xs) \<Longrightarrow> x \<noteq> 0 \<Longrightarrow> dlist (list_add_tail h l x) l (xs @ [x])"
  using dlist_add_before_pos [of h l xs "[]" x] by simp

lemma dlist_add_after:
  "dlist h l (as @ e # bs) \<Longrightarrow> x \<notin> set (l # as @ e # bs) \<Longrightarrow> x \<noteq> 0 \<Longrightarrow>
    dlist (list_add_after h e x) l (as @ e # x # bs)"
  using dlist_add_after_pos [of h l "as @ [e]" bs x] by (simp add: list_add_after_def)

lemma dlist_add_before:
  "dlist h l (as @ e # bs) \<Longrightarrow> x \<notin> set (l # as @ e # bs) \<Longrightarrow> x \<noteq> 0 \<Longrightarrow>
    dlist (list_add_before h e x) l (as @ x # e # bs)"
  using dlist_add_before_pos [of h l as "e # bs" x] by (simp add: list_add_before_def)

lemma dlist_links:
  assumes "dlist h l (as @ x # bs)"
  shows "prv h x = last (l # as)" and "nxt h x = hd (bs @ [l])"
    and "x \<noteq> last (l # as)" and "x \<noteq> hd (bs @ [l])"
proof -
  show "prv h x = last (l # as)" using dlist_last [OF assms] by simp
  show "nxt h x = hd (bs @ [l])" using dlist_hd [of h l "as @ [x]" bs] assms by simp
  have "last (l # as) \<in> set (l # as)" by (rule last_in_set) simp
  moreover have "hd (bs @ [l]) \<in> set (bs @ [l])" by (rule hd_in_set) simp
  moreover have "distinct (l # as @ x # bs)" using assms by (simp add: dlist_def)
  ultimately show "x \<noteq> last (l # as)" "x \<noteq> hd (bs @ [l])" by auto
qed

lemma dlist_delete: "dlist h l (as @ x # bs) \<Longrightarrow> dlist (list_delete h x) l (as @ bs)"
proof -
  assume d: "dlist h l (as @ x # bs)"
  note links = dlist_links [OF d]
  from delete_link [OF links(1,2)] links(3,4) dlist_remove [OF d refl refl] show ?thesis by blast
qed

lemma dlist_is_empty: "dlist h l xs \<Longrightarrow> list_is_empty h l \<longleftrightarrow> xs = []"
  by (cases xs) (auto simp: list_is_empty_def dlist_def)

lemma dlist_peek_head: "dlist h l xs \<Longrightarrow> list_peek_head h l = (case xs of [] \<Rightarrow> 0 | x # _ \<Rightarrow> x)"
  by (cases xs) (auto simp: list_peek_head_def dlist_def)

lemma dlist_peek_tail: "dlist h l xs \<Longrightarrow> list_peek_tail h l = (if xs = [] then 0 else last xs)"
proof -
  assume d: "dlist h l xs"
  then have "prv h l = last (l # xs)" using dlist_last [of h l xs "[]"] by simp
  moreover have "last (l # xs) \<noteq> l" if "xs \<noteq> []" using d that by (auto simp: dlist_def)
  ultimately show ?thesis by (auto simp: list_peek_tail_def)
qed

lemma dlist_next: "dlist h l (as @ x # bs) \<Longrightarrow> list_next h l x = (case bs of [] \<Rightarrow> 0 | y # _ \<Rightarrow> y)"
  using dlist_links(2) [of h l as x bs] by (cases bs) (auto simp: list_next_def dlist_def)

lemma dlist_prev: "dlist h l (as @ x # bs) \<Longrightarrow> list_prev h l x = (if as = [] then 0 else last as)"
proof -
  assume d: "dlist h l (as @ x # bs)"
  have "last as \<noteq> l" if "as \<noteq> []" using d that by (auto simp: dlist_def)
  with dlist_links(1) [OF d] show ?thesis by (auto simp: list_prev_def)
qed

text \<open>The wrapping steps go round the head; on a list of one node they return that node.\<close>

lemma dlist_next_wrap: "dlist h l (as @ x # bs) \<Longrightarrow> list_next_wrap h l x = hd (bs @ as @ [x])"
proof -
  assume d: "dlist h l (as @ x # bs)"
  show ?thesis
  proof (cases bs)
    case Nil
    then have "nxt h x = l" using dlist_links(2) [OF d] by simp
    moreover have "nxt h l = hd (as @ [x])" using dlist_hd [of h l "[]" "as @ [x]"] d Nil by (cases as) simp_all
    moreover have "hd (as @ [x]) \<noteq> l" using d by (cases as) (auto simp: dlist_def)
    ultimately show ?thesis using Nil by (simp add: list_next_wrap_def)
  next
    case (Cons y ys)
    then have "nxt h x = y" "y \<noteq> l" using dlist_links(2) [OF d] d by (auto simp: dlist_def)
    with Cons show ?thesis by (simp add: list_next_wrap_def)
  qed
qed

lemma dlist_prev_wrap: "dlist h l (as @ x # bs) \<Longrightarrow> list_prev_wrap h l x = last (x # bs @ as)"
proof -
  assume d: "dlist h l (as @ x # bs)"
  have p: "prv h x = last (l # as)" by (rule dlist_links(1) [OF d])
  show ?thesis
  proof (cases "as = []")
    case True
    then have "prv h x = l" using p by simp
    moreover have "prv h l = last (x # bs)" using dlist_last [of h l "x # bs" "[]"] d True by simp
    moreover have "last (x # bs) \<in> set (x # bs)" by (rule last_in_set) simp
    then have "last (x # bs) \<noteq> l" using d True by (auto simp: dlist_def)
    ultimately show ?thesis using True by (simp add: list_prev_wrap_def)
  next
    case False
    then have "prv h x = last as" "last as \<noteq> l" using p d by (auto simp: dlist_def)
    with False show ?thesis by (simp add: list_prev_wrap_def)
  qed
qed

lemma dlist_remove_head:
  "dlist h l (x # xs) \<Longrightarrow> list_remove_head h l = (list_delete h x, x)"
  "dlist h l [] \<Longrightarrow> list_remove_head h l = (h, 0)"
  by (auto simp: list_remove_head_def dlist_def Let_def)

lemma dlist_remove_tail:
  assumes "dlist h l (xs @ [x])"
  shows "list_remove_tail h l = (list_delete h x, x)"
proof -
  have "prv h l = x" using dlist_last [of h l "xs @ [x]" "[]"] assms by simp
  moreover have "x \<noteq> l" using assms by (auto simp: dlist_def)
  ultimately show ?thesis by (simp add: list_remove_tail_def)
qed

text \<open>The loops visit the nodes in order.\<close>

lemma list_for_every_loop_dlist:
  assumes "\<And>n st. n \<in> set bs \<Longrightarrow> fst (body n st) = fst st"
  shows "dlist (fst st) l (as @ bs) \<Longrightarrow>
    list_for_every_loop l body (hd (bs @ [l])) st = Some (fold body bs st)"
  using assms
proof (induction bs arbitrary: as st)
  case Nil
  then show ?case by (subst list_for_every_loop.simps) simp
next
  case (Cons x xs)
  have "x \<noteq> l" using Cons.prems(1) by (auto simp: dlist_def)
  have fst: "fst (body x st) = fst st" using Cons.prems(2) by simp
  have "nxt (fst st) x = hd (xs @ [l])" using Cons.prems(1) by (rule dlist_links(2))
  moreover have "list_for_every_loop l body (hd (xs @ [l])) (body x st) = Some (fold body xs (body x st))"
    using Cons.prems fst by (intro Cons.IH [of _ "as @ [x]"]) auto
  ultimately show ?case using \<open>x \<noteq> l\<close> fst by (subst list_for_every_loop.simps) (simp add: Let_def)
qed

lemma list_for_every_dlist:
  assumes "dlist (fst st) l xs" and "\<And>n st. n \<in> set xs \<Longrightarrow> fst (body n st) = fst st"
  shows "list_for_every l body st = Some (fold body xs st)"
  using list_for_every_loop_dlist [of xs body st l "[]"] assms dlist_hd [of "fst st" l "[]" xs]
  by (simp add: list_for_every_def)

section \<open>A family of lists on one heap\<close>

text \<open>
  \<open>lists h L N F\<close>: for every head in \<open>L\<close> the heap has the list of the nodes \<open>F l\<close>, all of
  them in \<open>N\<close>; no node is on two lists, and a node of \<open>N\<close> on none is cleared.
\<close>

definition lists :: "nodes \<Rightarrow> ptr set \<Rightarrow> ptr set \<Rightarrow> (ptr \<Rightarrow> ptr list) \<Rightarrow> bool" where
  "lists h L N F \<longleftrightarrow> L \<inter> N = {} \<and> 0 \<notin> L \<union> N \<and> (\<forall>l \<in> L. dlist h l (F l) \<and> set (F l) \<subseteq> N)
     \<and> (\<forall>l. l \<notin> L \<longrightarrow> F l = []) \<and> (\<forall>l k. l \<noteq> k \<longrightarrow> set (F l) \<inter> set (F k) = {})
     \<and> (\<forall>x \<in> N. (\<forall>l. x \<notin> set (F l)) \<longrightarrow> prv h x = 0 \<and> nxt h x = 0)"

lemma lists_update:
  assumes r: "lists h L N F" and l: "l \<in> L" and d: "dlist h' l ys"
    and free: "set ys \<subseteq> N" "\<And>k. k \<noteq> l \<Longrightarrow> set ys \<inter> set (F k) = {}"
    and same: "\<And>p. p \<notin> set (l # F l @ ys) \<Longrightarrow> nxt h' p = nxt h p \<and> prv h' p = prv h p"
    and clear: "\<And>p. p \<in> set (F l) \<Longrightarrow> p \<notin> set ys \<Longrightarrow> nxt h' p = 0 \<and> prv h' p = 0"
  shows "lists h' L N (F(l := ys))"
proof -
  have disj: "set (F k) \<inter> set (l # F l @ ys) = {}" if "k \<noteq> l" for k
  proof -
    have "l \<notin> set (F k)" using r l that unfolding lists_def by (metis IntI empty_iff subset_iff list.set(1))
    moreover have "set (F k) \<inter> set (F l) = {}" using r that by (auto simp: lists_def)
    ultimately show ?thesis using free(2) [OF that] by auto
  qed
  have "dlist h' k (F k)" if k: "k \<in> L" "k \<noteq> l" for k
  proof -
    have "dlist h k (F k)" using r k by (simp add: lists_def)
    then show ?thesis
    proof (rule dlist_cong)
      fix p
      assume p: "p \<in> set (k # F k)"
      have "k \<notin> set (l # F l @ ys)" using r l k free(1) by (auto simp: lists_def)
      with p disj [OF k(2)] have "p \<notin> set (l # F l @ ys)" by auto
      then show "nxt h' p = nxt h p \<and> prv h' p = prv h p" by (rule same)
    qed
  qed
  moreover have "prv h' x = 0 \<and> nxt h' x = 0"
    if x: "x \<in> N" "\<forall>k. x \<notin> set ((F(l := ys)) k)" for x
  proof (cases "x \<in> set (F l)")
    case True
    then show ?thesis using x(2) clear by (metis fun_upd_same)
  next
    case False
    have "x \<notin> set ys" using x(2) by (metis fun_upd_same)
    moreover have "x \<noteq> l" using x(1) l r by (auto simp: lists_def)
    ultimately have "nxt h' x = nxt h x \<and> prv h' x = prv h x" using False by (intro same) simp
    moreover have "\<forall>k. x \<notin> set (F k)" using x(2) False by (metis fun_upd_other)
    ultimately show ?thesis using r x(1) by (simp add: lists_def)
  qed
  ultimately show ?thesis
    using r l d free unfolding lists_def by (auto simp: disjoint_iff)
qed

lemma lists_nodes: "lists h L N F \<Longrightarrow> l \<in> L \<Longrightarrow> set (F l) \<subseteq> N"
  by (simp add: lists_def)

lemma lists_disjoint: "lists h L N F \<Longrightarrow> l \<noteq> k \<Longrightarrow> set (F l) \<inter> set (F k) = {}"
  by (simp add: lists_def)

lemma lists_dlist: "lists h L N F \<Longrightarrow> l \<in> L \<Longrightarrow> dlist h l (F l)"
  by (simp add: lists_def)

definition fresh :: "ptr set \<Rightarrow> (ptr \<Rightarrow> ptr list) \<Rightarrow> ptr \<Rightarrow> bool" where
  "fresh N F x \<longleftrightarrow> x \<in> N \<and> (\<forall>l. x \<notin> set (F l))"

lemma fresh_node: "lists h L N F \<Longrightarrow> l \<in> L \<Longrightarrow> fresh N F x \<Longrightarrow> x \<notin> set (l # F l) \<and> x \<noteq> 0"
  by (auto simp: lists_def fresh_def)

lemma fresh_disjoint:
  assumes "lists h L N F" and "fresh N F x" and "set ys = insert x (set (F l))" and "k \<noteq> l"
  shows "set ys \<inter> set (F k) = {}"
proof -
  have "set (F l) \<inter> set (F k) = {}" using assms(1,4) lists_disjoint by metis
  with assms(2,3) show ?thesis by (simp add: fresh_def)
qed

text \<open>Adding anywhere in a list, at a node that is found on it.\<close>

lemma lists_add_after_pos:
  assumes r: "lists h L N F" and l: "l \<in> L" and x: "fresh N F x" and F: "F l = as @ bs"
  shows "lists (list_add_head h (last (l # as)) x) L N (F(l := as @ x # bs))"
proof (rule lists_update [OF r l])
  let ?h = "list_add_head h (last (l # as)) x"
  have d: "dlist h l (as @ bs)" using lists_dlist [OF r l] F by simp
  note xl = fresh_node [OF r l x, unfolded F]
  show "dlist ?h l (as @ x # bs)" using d xl by (intro dlist_add_after_pos) auto
  show "set (as @ x # bs) \<subseteq> N" using lists_nodes [OF r l] x F by (simp add: fresh_def)
  show "set (as @ x # bs) \<inter> set (F k) = {}" if "k \<noteq> l" for k
    using r x _ that by (rule fresh_disjoint) (simp add: F)
  have a: "last (l # as) \<in> set (l # as)" and b: "hd (bs @ [l]) \<in> set (bs @ [l])"
    by (rule last_in_set, simp, rule hd_in_set, simp)
  then have "x \<noteq> last (l # as)" "x \<noteq> hd (bs @ [l])" using xl by auto
  from add_head_link [OF dlist_hd [OF d] this]
  show "nxt ?h p = nxt h p \<and> prv ?h p = prv h p" if "p \<notin> set (l # F l @ as @ x # bs)" for p
    using a b that F by auto
  show "nxt ?h p = 0 \<and> prv ?h p = 0" if "p \<in> set (F l)" "p \<notin> set (as @ x # bs)" for p
    using that F by auto
qed

lemma lists_add_before_pos:
  assumes r: "lists h L N F" and l: "l \<in> L" and x: "fresh N F x" and F: "F l = as @ bs"
  shows "lists (list_add_tail h (hd (bs @ [l])) x) L N (F(l := as @ x # bs))"
proof -
  have d: "dlist h l (as @ bs)" using lists_dlist [OF r l] F by simp
  note xl = fresh_node [OF r l x, unfolded F]
  have a: "last (l # as) \<in> set (l # as)" and b: "hd (bs @ [l]) \<in> set (bs @ [l])"
    by (rule last_in_set, simp, rule hd_in_set, simp)
  then have ne: "x \<noteq> last (l # as)" "x \<noteq> hd (bs @ [l])" using xl by auto
  have "list_add_tail h (hd (bs @ [l])) x = list_add_head h (last (l # as)) x"
    using add_tail_link [OF dlist_last [OF d] ne] add_head_link [OF dlist_hd [OF d] ne]
    by (intro nodes.equality) simp_all
  with lists_add_after_pos [OF r l x F] show ?thesis by simp
qed

lemma lists_add_head:
  "lists h L N F \<Longrightarrow> l \<in> L \<Longrightarrow> fresh N F x \<Longrightarrow> lists (list_add_head h l x) L N (F(l := x # F l))"
  using lists_add_after_pos [of h L N F l x "[]" "F l"] by simp

lemma lists_add_tail:
  "lists h L N F \<Longrightarrow> l \<in> L \<Longrightarrow> fresh N F x \<Longrightarrow> lists (list_add_tail h l x) L N (F(l := F l @ [x]))"
  using lists_add_before_pos [of h L N F l x "F l" "[]"] by simp

lemma lists_delete:
  assumes r: "lists h L N F" and x: "x \<in> set (F l)"
  shows "lists (list_delete h x) L N (F(l := remove1 x (F l)))"
proof -
  have l: "l \<in> L" using r x unfolding lists_def by (metis empty_iff list.set(1))
  obtain as bs where F: "F l = as @ x # bs" using x by (metis split_list)
  have d: "dlist h l (as @ x # bs)" using lists_dlist [OF r l] F by simp
  then have as: "x \<notin> set as" by (simp add: dlist_def)
  then have rm: "remove1 x (F l) = as @ bs" by (simp add: F remove1_append)
  note links = dlist_links [OF d]
  note del = delete_link [OF links(1,2), OF links(3,4)]
  have a: "last (l # as) \<in> set (l # as)" and b: "hd (bs @ [l]) \<in> set (bs @ [l])"
    by (rule last_in_set, simp, rule hd_in_set, simp)
  show ?thesis unfolding rm
  proof (rule lists_update [OF r l])
    show "dlist (list_delete h x) l (as @ bs)" using d by (rule dlist_delete)
    show "set (as @ bs) \<subseteq> N" using lists_nodes [OF r l] F by simp
    show "set (as @ bs) \<inter> set (F k) = {}" if "k \<noteq> l" for k
    proof -
      have "set (F l) \<inter> set (F k) = {}" using r that by (metis lists_disjoint)
      then show ?thesis by (auto simp: F)
    qed
    show "nxt (list_delete h x) p = nxt h p \<and> prv (list_delete h x) p = prv h p"
      if "p \<notin> set (l # F l @ as @ bs)" for p
      using that a b del F by auto
    show "nxt (list_delete h x) p = 0 \<and> prv (list_delete h x) p = 0"
      if "p \<in> set (F l)" "p \<notin> set (as @ bs)" for p
      using that del F links(3,4) by auto
  qed
qed

lemma lists_in_list:
  assumes "lists h L N F" and "x \<in> N"
  shows "list_in_list h x \<longleftrightarrow> (\<exists>l. x \<in> set (F l))"
proof
  assume "list_in_list h x"
  with assms show "\<exists>l. x \<in> set (F l)" by (auto simp: list_in_list_def lists_def split: if_splits)
next
  assume "\<exists>l. x \<in> set (F l)"
  then obtain l where l: "x \<in> set (F l)" by blast
  then have "l \<in> L" using assms(1) unfolding lists_def by (metis empty_iff list.set(1))
  then have d: "dlist h l (F l)" using assms(1) by (simp add: lists_def)
  obtain as bs where F: "F l = as @ x # bs" using l by (metis split_list)
  have "hd (bs @ [l]) \<in> set (bs @ [l])" by (rule hd_in_set) simp
  then have "nxt h x \<noteq> 0" using dlist_links(2) [of h l as x bs] d F by (auto simp: dlist_def)
  then show "list_in_list h x" by (simp add: list_in_list_def)
qed

lemma lists_remove_head:
  assumes "lists h L N F" and "l \<in> L"
  shows "list_remove_head h l = (case F l of [] \<Rightarrow> (h, 0) | x # _ \<Rightarrow> (list_delete h x, x))"
  using dlist_remove_head [of h l] lists_dlist [OF assms] by (cases "F l") auto

section \<open>The interface the kernel queues use\<close>

text \<open>
  What a client of \<open>list.h\<close> relies on, with \<open>F\<close> the contents of the lists: every operation
  changes one list as its name says and leaves the others alone.
\<close>

locale node_lists =
  fixes repr :: "'h \<Rightarrow> ('l \<Rightarrow> 'n list) \<Rightarrow> bool"
    and add_front :: "'h \<Rightarrow> 'l \<Rightarrow> 'n \<Rightarrow> 'h"
    and add_back :: "'h \<Rightarrow> 'l \<Rightarrow> 'n \<Rightarrow> 'h"
    and del :: "'h \<Rightarrow> 'n \<Rightarrow> 'h"
    and pop :: "'h \<Rightarrow> 'l \<Rightarrow> 'h \<times> 'n"
    and head :: "'l \<Rightarrow> bool"
    and node :: "'n \<Rightarrow> bool"
  assumes repr_add_front:
      "repr h F \<Longrightarrow> head l \<Longrightarrow> node x \<Longrightarrow> (\<forall>k. x \<notin> set (F k)) \<Longrightarrow> repr (add_front h l x) (F(l := x # F l))"
    and repr_add_back:
      "repr h F \<Longrightarrow> head l \<Longrightarrow> node x \<Longrightarrow> (\<forall>k. x \<notin> set (F k)) \<Longrightarrow> repr (add_back h l x) (F(l := F l @ [x]))"
    and repr_del: "repr h F \<Longrightarrow> x \<in> set (F l) \<Longrightarrow> repr (del h x) (F(l := remove1 x (F l)))"
    and pop_first: "repr h F \<Longrightarrow> head l \<Longrightarrow> F l = x # xs \<Longrightarrow> pop h l = (del h x, x)"
    and repr_node: "repr h F \<Longrightarrow> head l \<Longrightarrow> x \<in> set (F l) \<Longrightarrow> node x"
    and repr_distinct: "repr h F \<Longrightarrow> head l \<Longrightarrow> distinct (F l)"
    and repr_disjoint: "repr h F \<Longrightarrow> l \<noteq> k \<Longrightarrow> set (F l) \<inter> set (F k) = {}"
begin

lemma pop_repr:
  assumes "repr h F" and "head l" and "F l = x # xs"
  shows "\<exists>h'. pop h l = (h', x) \<and> repr h' (F(l := xs))"
  using pop_first [OF assms] repr_del [OF assms(1), of x l] assms(3) by simp

lemma add_back_all:
  assumes "repr h F" and "head l" and "distinct xs" and "\<forall>x \<in> set xs. node x \<and> (\<forall>k. x \<notin> set (F k))"
  shows "repr (foldl (\<lambda>h x. add_back h l x) h xs) (F(l := F l @ xs))"
  using assms
proof (induction xs arbitrary: h F)
  case (Cons x xs)
  then have r: "repr (add_back h l x) (F(l := F l @ [x]))" by (intro repr_add_back) auto
  have "\<forall>y \<in> set xs. node y \<and> (\<forall>k. y \<notin> set ((F(l := F l @ [x])) k))"
    using Cons.prems by auto
  from Cons.IH [OF r _ _ this] Cons.prems have "repr (foldl (\<lambda>h x. add_back h l x) (add_back h l x) xs)
      ((F(l := F l @ [x]))(l := (F(l := F l @ [x])) l @ xs))"
    by (simp del: fun_upd_apply)
  then show ?case by (simp only: fun_upd_upd fun_upd_same foldl_Cons append_assoc append_Cons append_Nil)
qed simp

text \<open>First in, first out.\<close>

lemma fifo:
  assumes "repr h F" and "head l" and "F l = []" and "distinct (x # xs)"
    and "\<forall>y \<in> set (x # xs). node y \<and> (\<forall>k. y \<notin> set (F k))"
  shows "\<exists>h'. pop (foldl (\<lambda>h x. add_back h l x) h (x # xs)) l = (h', x) \<and> repr h' (F(l := xs))"
  using pop_repr [OF add_back_all [OF assms(1,2,4,5)] assms(2), of x xs] assms(3) by simp

text \<open>An element put in front is the next one out.\<close>

lemma front_first:
  assumes "repr h F" and "head l" and "node x" and "\<forall>k. x \<notin> set (F k)"
  shows "\<exists>h'. pop (add_front h l x) l = (h', x) \<and> repr h' F"
  using pop_repr [OF repr_add_front [OF assms] assms(2), of x "F l"] by simp

text \<open>Taking the first and putting it at the end goes round the list.\<close>

lemma go_round:
  assumes "repr h F" and "head l" and "F l = x # xs"
  shows "\<exists>h'. pop h l = (h', x) \<and> repr (add_back h' l x) (F(l := xs @ [x]))"
proof -
  from pop_repr [OF assms] obtain h' where h': "pop h l = (h', x)" "repr h' (F(l := xs))" by blast
  have "x \<notin> set xs" using repr_distinct [OF assms(1,2)] assms(3) by simp
  moreover have "x \<notin> set (F k)" if "k \<noteq> l" for k
    using repr_disjoint [OF assms(1) that] assms(3) by auto
  moreover have "node x" using repr_node [OF assms(1,2), of x] assms(3) by simp
  ultimately have "repr (add_back h' l x) ((F(l := xs))(l := (F(l := xs)) l @ [x]))"
    by (intro repr_add_back [OF h'(2) assms(2)]) simp_all
  with h'(1) show ?thesis by auto
qed

end

interpretation lk: node_lists "\<lambda>h F. lists h L N F" list_add_head list_add_tail list_delete
  list_remove_head "\<lambda>l. l \<in> L" "\<lambda>x. x \<in> N" for L N
proof
  show "lists (list_add_head h l x) L N (F(l := x # F l))"
    if "lists h L N F" "l \<in> L" "x \<in> N" "\<forall>k. x \<notin> set (F k)" for h F l x
    using lists_add_head that by (simp add: fresh_def)
  show "lists (list_add_tail h l x) L N (F(l := F l @ [x]))"
    if "lists h L N F" "l \<in> L" "x \<in> N" "\<forall>k. x \<notin> set (F k)" for h F l x
    using lists_add_tail that by (simp add: fresh_def)
  show "lists (list_delete h x) L N (F(l := remove1 x (F l)))" if "lists h L N F" "x \<in> set (F l)" for h F l x
    using that by (rule lists_delete)
  show "list_remove_head h l = (list_delete h x, x)" if "lists h L N F" "l \<in> L" "F l = x # xs" for h F l x xs
    using lists_remove_head [OF that(1,2)] that(3) by simp
  show "x \<in> N" if "lists h L N F" "l \<in> L" "x \<in> set (F l)" for h F l x
    using lists_nodes [OF that(1,2)] that(3) by blast
  show "distinct (F l)" if "lists h L N F" "l \<in> L" for h F l
    using lists_dlist [OF that] by (simp add: dlist_def)
  show "set (F l) \<inter> set (F k) = {}" if "lists h L N F" "l \<noteq> k" for h F l k
    using that by (rule lists_disjoint)
qed

end
