(* ===== verification/Lk_Mem.thy ===== *)
theory Lk_Mem
  imports Lk_Prelude
begin

text \<open>
  The memory routines of \<open>lib/libc/string\<close>: \<open>memcpy\<close>, \<open>memmove\<close>, \<open>memset\<close>,
  \<open>memcmp\<close>, \<open>memchr\<close>, \<open>memscan\<close>, \<open>bcopy\<close>, \<open>bzero\<close>, on the flat byte
  memory, with their alignment cases and their word-wise inner loops; and that each of them
  has the effect its name promises. 32-bit words are little-endian (ARM).
\<close>

section \<open>Words in memory\<close>

definition load32 :: "mem \<Rightarrow> ptr \<Rightarrow> u32" where
  "load32 m p = ucast (m p) OR push_bit 8 (ucast (m (p + 1)))
     OR push_bit 16 (ucast (m (p + 2))) OR push_bit 24 (ucast (m (p + 3)))"

definition word_bytes :: "u32 \<Rightarrow> u8 list" where
  "word_bytes w = [ucast w, ucast (drop_bit 8 w), ucast (drop_bit 16 w), ucast (drop_bit 24 w)]"

definition store32 :: "mem \<Rightarrow> ptr \<Rightarrow> u32 \<Rightarrow> mem" where
  "store32 m p w = wr m p (word_bytes w)"

lemma length_word_bytes [simp]: "length (word_bytes w) = 4"
  by (simp add: word_bytes_def)

lemma word_bytes_load32: "word_bytes (load32 m p) = rd m p 4"
proof -
  have "rd m p 4 = [m p, m (p + 1), m (p + 2), m (p + 3)]"
    by (simp add: rd_Suc numeral_eq_Suc add.commute)
  moreover have "ucast (load32 m p) = m p"
    by (rule bit_word_eqI) (auto simp: load32_def bit_simps)
  moreover have "ucast (drop_bit 8 (load32 m p)) = m (p + 1)"
    by (rule bit_word_eqI) (auto simp: load32_def bit_simps dest: bit_imp_le_length)
  moreover have "ucast (drop_bit 16 (load32 m p)) = m (p + 2)"
    by (rule bit_word_eqI) (auto simp: load32_def bit_simps dest: bit_imp_le_length)
  moreover have "ucast (drop_bit 24 (load32 m p)) = m (p + 3)"
    by (rule bit_word_eqI) (auto simp: load32_def bit_simps dest: bit_imp_le_length)
  ultimately show ?thesis by (simp add: word_bytes_def)
qed

section \<open>The byte and word movers\<close>

fun copy_bytes_up :: "mem \<Rightarrow> ptr \<Rightarrow> ptr \<Rightarrow> nat \<Rightarrow> mem" where
  "copy_bytes_up m d s 0 = m"
| "copy_bytes_up m d s (Suc n) = copy_bytes_up (m(d := m s)) (d + 1) (s + 1) n"

fun copy_words_up :: "mem \<Rightarrow> ptr \<Rightarrow> ptr \<Rightarrow> nat \<Rightarrow> mem" where
  "copy_words_up m d s 0 = m"
| "copy_words_up m d s (Suc n) = copy_words_up (store32 m d (load32 m s)) (d + 4) (s + 4) n"

fun copy_bytes_down :: "mem \<Rightarrow> ptr \<Rightarrow> ptr \<Rightarrow> nat \<Rightarrow> mem" where
  "copy_bytes_down m d s 0 = m"
| "copy_bytes_down m d s (Suc n) = copy_bytes_down (m(d - 1 := m (s - 1))) (d - 1) (s - 1) n"

fun copy_words_down :: "mem \<Rightarrow> ptr \<Rightarrow> ptr \<Rightarrow> nat \<Rightarrow> mem" where
  "copy_words_down m d s 0 = m"
| "copy_words_down m d s (Suc n) =
     copy_words_down (store32 m (d - 4) (load32 m (s - 4))) (d - 4) (s - 4) n"

section \<open>memcpy, memmove, memset, bcopy, bzero\<close>

text \<open>\<open>lmask\<close> of the code: the two low address bits.\<close>

definition unaligned :: "ptr \<Rightarrow> bool" where
  "unaligned p \<longleftrightarrow> p AND 3 \<noteq> 0"

text \<open>
  The forward mover that \<open>memcpy\<close> and the first branch of \<open>memmove\<close> share. The
  byte count \<open>len\<close> is a (signed) \<open>int\<close>, and its loop runs while it is positive.
\<close>

definition move_up :: "mem \<Rightarrow> ptr \<Rightarrow> ptr \<Rightarrow> u32 \<Rightarrow> mem" where
  "move_up m d s count =
    (let len = (if unaligned (d OR s)
                then (if unaligned (d XOR s) \<or> count < 4 then count else 4 - (d AND 3))
                else 0);
         m1 = copy_bytes_up m d s (nat (sint len));
         count1 = count - len;
         words = count1 div 4;
         m2 = copy_words_up m1 (d + len) (s + len) (unat words)
     in copy_bytes_up m2 (d + len + 4 * words) (s + len + 4 * words) (unat (count1 AND 3)))"

definition memcpy :: "mem \<Rightarrow> ptr \<Rightarrow> ptr \<Rightarrow> u32 \<Rightarrow> mem \<times> ptr" where
  "memcpy m dest src count =
    (if count = 0 \<or> dest = src then (m, dest) else (move_up m dest src count, dest))"

definition move_down :: "mem \<Rightarrow> ptr \<Rightarrow> ptr \<Rightarrow> u32 \<Rightarrow> mem" where
  "move_down m d0 s0 count =
    (let d = d0 + count; s = s0 + count;
         len = (if unaligned (d OR s)
                then (if unaligned (d XOR s) \<or> count \<le> 4 then count else d AND 3)
                else 0);
         m1 = copy_bytes_down m d s (nat (sint len));
         count1 = count - len;
         words = count1 div 4;
         m2 = copy_words_down m1 (d - len) (s - len) (unat words)
     in copy_bytes_down m2 (d - len - 4 * words) (s - len - 4 * words) (unat (count1 AND 3)))"

text \<open>The direction is chosen by a comparison of the addresses as signed \<open>long\<close>s.\<close>

definition memmove :: "mem \<Rightarrow> ptr \<Rightarrow> ptr \<Rightarrow> u32 \<Rightarrow> mem \<times> ptr" where
  "memmove m dest src count =
    (if count = 0 \<or> dest = src then (m, dest)
     else if sint dest < sint src then (move_up m dest src count, dest)
     else (move_down m dest src count, dest))"

definition bcopy :: "mem \<Rightarrow> ptr \<Rightarrow> ptr \<Rightarrow> u32 \<Rightarrow> mem \<times> ptr" where
  "bcopy m src dest count = memcpy m dest src count"

fun fill_bytes :: "mem \<Rightarrow> ptr \<Rightarrow> u8 \<Rightarrow> nat \<Rightarrow> mem" where
  "fill_bytes m p c 0 = m"
| "fill_bytes m p c (Suc n) = fill_bytes (m(p := c)) (p + 1) c n"

fun fill_words :: "mem \<Rightarrow> ptr \<Rightarrow> u32 \<Rightarrow> nat \<Rightarrow> mem" where
  "fill_words m p w 0 = m"
| "fill_words m p w (Suc n) = fill_words (store32 m p w) (p + 4) w n"

definition memset :: "mem \<Rightarrow> ptr \<Rightarrow> u32 \<Rightarrow> u32 \<Rightarrow> mem \<times> ptr" where
  "memset m s c count =
    (let len = (- s) AND 3;
         cc = c AND 0xff
     in if count > len then
          (let count1 = count - len;
               cc1 = cc OR push_bit 8 cc;
               cc2 = cc1 OR push_bit 16 cc1;
               m1 = fill_bytes m s (ucast c) (unat len);
               words = count1 div 4;
               m2 = fill_words m1 (s + len) cc2 (unat words)
           in (fill_bytes m2 (s + len + 4 * words) (ucast c) (unat (count1 AND 3)), s))
        else (fill_bytes m s (ucast c) (unat count), s))"

definition bzero :: "mem \<Rightarrow> ptr \<Rightarrow> u32 \<Rightarrow> mem" where
  "bzero m dst count = fst (memset m dst 0 count)"

section \<open>memcmp, memchr, memscan\<close>

fun memcmp_loop :: "mem \<Rightarrow> ptr \<Rightarrow> ptr \<Rightarrow> nat \<Rightarrow> u8" where
  "memcmp_loop m su1 su2 0 = 0"
| "memcmp_loop m su1 su2 (Suc count) =
     (let res = m su1 - m su2
      in if res \<noteq> 0 then res else memcmp_loop m (su1 + 1) (su2 + 1) count)"

text \<open>The difference is kept in a \<open>signed char\<close>, so it is read as 8-bit two's complement.\<close>

definition memcmp :: "mem \<Rightarrow> ptr \<Rightarrow> ptr \<Rightarrow> u32 \<Rightarrow> int" where
  "memcmp m cs ct count = sint (memcmp_loop m cs ct (unat count))"

fun memchr_loop :: "mem \<Rightarrow> ptr \<Rightarrow> u8 \<Rightarrow> nat \<Rightarrow> ptr" where
  "memchr_loop m b x 0 = 0"
| "memchr_loop m b x (Suc n) = (if m b = x then b else memchr_loop m (b + 1) x n)"

definition memchr :: "mem \<Rightarrow> ptr \<Rightarrow> u32 \<Rightarrow> u32 \<Rightarrow> ptr" where
  "memchr m buf c len = memchr_loop m buf (ucast (c AND 0xff)) (unat len)"

text \<open>\<open>memscan\<close> compares the byte with the whole \<open>int\<close>.\<close>

fun memscan_loop :: "mem \<Rightarrow> ptr \<Rightarrow> u32 \<Rightarrow> nat \<Rightarrow> ptr" where
  "memscan_loop m p c 0 = p"
| "memscan_loop m p c (Suc n) = (if ucast (m p) = c then p else memscan_loop m (p + 1) c n)"

definition memscan :: "mem \<Rightarrow> ptr \<Rightarrow> u32 \<Rightarrow> u32 \<Rightarrow> ptr" where
  "memscan m addr c sz = memscan_loop m addr c (unat sz)"

section \<open>The movers copy the block\<close>

lemma copy_bytes_up_wr:
  "n \<le> unat (d - s) \<Longrightarrow> copy_bytes_up m d s n = wr m d (rd m s n)"
proof (induction n arbitrary: m d s)
  case 0
  then show ?case by simp
next
  case (Suc n)
  then have "d \<noteq> s" by auto
  then have n: "n \<le> unat (d - (s + 1))" using Suc.prems by (subst unat_sub_one) auto
  let ?m = "m(d := m s)"
  have "copy_bytes_up m d s (Suc n) = copy_bytes_up ?m (d + 1) (s + 1) n" by simp
  also have "\<dots> = wr ?m (d + 1) (rd ?m (s + 1) n)" using Suc.prems by (intro Suc.IH) simp
  also have "rd ?m (s + 1) n = rd m (s + 1) n" using n by (rule rd_upd_sep)
  finally show ?case by (simp only: rd_Suc wr.simps)
qed

text \<open>Moving a block is moving its first part and then, at the advanced pointers, the rest.\<close>

lemma wr_rd_add:
  assumes "a + b \<le> unat (d - s)"
  shows "wr (wr m d (rd m s a)) (d + of_nat a) (rd (wr m d (rd m s a)) (s + of_nat a) b)
    = wr m d (rd m s (a + b))"
proof (cases "b = 0")
  case False
  with assms have ds: "d \<noteq> s" by auto
  have "unat (d - (s + of_nat a)) = unat (d - s) - a"
    using assms by (intro unat_diff_retreat) simp
  moreover have "unat (s + of_nat a - d) = unat (s - d) + a"
    using unat_diff_swap [of s d] ds assms False by (intro unat_diff_advance) auto
  ultimately have "sep (s + of_nat a) b d (length (rd m s a))"
    using assms by (simp add: sep_def)
  from rd_wr_sep [OF this] show ?thesis by (simp add: rd_add wr_append)
qed simp

lemma copy_words_up_wr:
  "4 * n \<le> unat (d - s) \<Longrightarrow> copy_words_up m d s n = wr m d (rd m s (4 * n))"
proof (induction n arbitrary: m d s)
  case 0
  then show ?case by simp
next
  case (Suc n)
  let ?m = "wr m d (rd m s 4)"
  from Suc have "copy_words_up ?m (d + 4) (s + 4) n = wr ?m (d + 4) (rd ?m (s + 4) (4 * n))"
    by simp
  also have "\<dots> = wr m d (rd m s (4 + 4 * n))"
    using wr_rd_add [of 4 "4 * n" d s m] Suc.prems by simp
  finally show ?case by (simp add: store32_def word_bytes_load32)
qed

lemma move_up3:
  assumes "a + 4 * w + r \<le> unat (d - s)"
  shows "copy_bytes_up (copy_words_up (copy_bytes_up m d s a) (d + of_nat a) (s + of_nat a) w)
       (d + of_nat (a + 4 * w)) (s + of_nat (a + 4 * w)) r = wr m d (rd m s (a + 4 * w + r))"
proof -
  let ?m1 = "wr m d (rd m s a)"
  let ?m2 = "wr m d (rd m s (a + 4 * w))"
  have "copy_bytes_up m d s a = ?m1" using assms by (simp add: copy_bytes_up_wr)
  moreover have "copy_words_up ?m1 (d + of_nat a) (s + of_nat a) w = ?m2"
    using assms wr_rd_add [of a "4 * w" d s m] by (simp add: copy_words_up_wr)
  moreover have "copy_bytes_up ?m2 (d + of_nat (a + 4 * w)) (s + of_nat (a + 4 * w)) r
      = wr m d (rd m s (a + 4 * w + r))"
    using assms wr_rd_add [of "a + 4 * w" r d s m] by (simp add: copy_bytes_up_wr)
  ultimately show ?thesis by simp
qed

lemma count_split:
  assumes "len \<le> (count :: u32)"
  shows "unat len + 4 * unat ((count - len) div 4) + unat ((count - len) AND 3) = unat count"
proof -
  have "unat (count - len) = unat count - unat len"
    using assms by (simp add: unat_sub)
  then have "4 * unat ((count - len) div 4) + unat ((count - len) AND 3) = unat count - unat len"
    by (simp add: word_mod4 unat_div)
  with assms show ?thesis by (simp add: word_le_nat_alt)
qed

lemma unat_eq_of_nat: "x + (len :: u32) + 4 * w = x + of_nat (unat len + 4 * unat w)"
  by simp

lemma move_up_wr:
  assumes "unat count < 2 ^ 31" and "unat count \<le> unat (d - s)"
  shows "move_up m d s count = wr m d (rd m s (unat count))"
proof -
  define len where "len = (if unaligned (d OR s)
      then (if unaligned (d XOR s) \<or> count < 4 then count else 4 - (d AND 3)) else 0)"
  have len: "len \<le> count"
  proof -
    have "unat (4 - (d AND 3)) \<le> 4"
      by (simp add: unat_sub word_le_nat_alt word_mod4)
    then show ?thesis by (auto simp: len_def word_le_nat_alt word_less_nat_alt)
  qed
  let ?w = "unat ((count - len) div 4)" and ?r = "unat ((count - len) AND 3)"
  have split: "unat len + 4 * ?w + ?r = unat count" using len by (rule count_split)
  have "nat (sint len) = unat len"
    using assms(1) len by (intro nat_sint_u32) (simp add: word_le_nat_alt)
  then have "move_up m d s count =
      copy_bytes_up (copy_words_up (copy_bytes_up m d s (unat len)) (d + of_nat (unat len))
        (s + of_nat (unat len)) ?w) (d + of_nat (unat len + 4 * ?w)) (s + of_nat (unat len + 4 * ?w)) ?r"
    unfolding move_up_def len_def [symmetric] Let_def by (simp add: add.assoc)
  also have "\<dots> = wr m d (rd m s (unat len + 4 * ?w + ?r))"
    using assms(2) split by (intro move_up3) simp
  finally show ?thesis by (simp only: split)
qed

lemma copy_bytes_down_wr:
  "n \<le> unat (s - d) \<Longrightarrow> copy_bytes_down m d s n = wr m (d - of_nat n) (rd m (s - of_nat n) n)"
proof (induction n arbitrary: m d s)
  case 0
  then show ?case by simp
next
  case (Suc n)
  let ?m = "m(d - 1 := m (s - 1))" and ?d = "d - 1 - of_nat n" and ?s = "s - 1 - of_nat n"
  have ds: "d \<noteq> s" using Suc.prems by auto
  have lt: "n < 2 ^ 32" using Suc.prems unat_lt_2p32 [of "s - d"] by simp
  have "unat (d - s + of_nat n) = unat (d - s) + n"
    using unat_diff_swap [OF ds] Suc.prems by (intro unat_add_of_nat_u32) simp
  then have far: "n \<le> unat (d - 1 - ?s)" by (simp add: algebra_simps)
  have bk: "unat (d - 1 - ?d) = n" using lt by (simp add: unat_of_nat_u32)
  have s0: "?s + of_nat n = s - 1" by simp
  have "copy_bytes_down m d s (Suc n) = copy_bytes_down ?m (d - 1) (s - 1) n" by simp
  also have "\<dots> = wr ?m ?d (rd ?m ?s n)" using Suc.prems by (intro Suc.IH) simp
  also have "rd ?m ?s n = rd m ?s n" using far by (rule rd_upd_sep)
  also have "wr ?m ?d (rd m ?s n) = (wr m ?d (rd m ?s n))(d - 1 := m (s - 1))"
    using bk by (intro wr_upd_comm) simp
  also have "\<dots> = wr m ?d (rd m ?s n @ [m (s - 1)])"
    by (simp add: wr_append)
  also have "rd m ?s n @ [m (s - 1)] = rd m ?s (n + 1)"
    by (simp only: rd_add s0 rd_Suc One_nat_def rd_0)
  finally show ?case by (simp add: algebra_simps)
qed

lemma wr_rd_down:
  assumes "a + b \<le> unat (s - d)"
  shows "wr (wr m (d - of_nat a) (rd m (s - of_nat a) a)) (d - of_nat (a + b))
      (rd (wr m (d - of_nat a) (rd m (s - of_nat a) a)) (s - of_nat (a + b)) b)
    = wr m (d - of_nat (a + b)) (rd m (s - of_nat (a + b)) (a + b))"
proof (cases "a = 0 \<or> b = 0")
  case False
  let ?xs = "rd m (s - of_nat a) a" and ?ys = "rd m (s - of_nat (a + b)) b"
  have ds: "d \<noteq> s" using assms False by auto
  have small: "a < 2 ^ 32" "b < 2 ^ 32" "a + b < 2 ^ 32"
    using assms unat_lt_2p32 [of "s - d"] by linarith+
  have "unat (d - s + of_nat b) = unat (d - s) + b"
    using unat_diff_swap [OF ds] assms False by (intro unat_add_of_nat_u32) simp
  moreover have "unat (s - d - of_nat b) = unat (s - d) - b"
    using assms by (metis unat_diff_retreat diff_diff_eq add_leD2)
  ultimately have "sep (s - of_nat (a + b)) b (d - of_nat a) (length ?xs)"
    using assms by (simp add: sep_def algebra_simps)
  then have rd: "rd (wr m (d - of_nat a) ?xs) (s - of_nat (a + b)) b = ?ys" by (rule rd_wr_sep)
  have "unat (- of_nat b :: u32) = 2 ^ 32 - b"
    using unat_diff_swap [of 0 "of_nat b"] small False unat_of_nat_u32 [of b] by force
  then have "sep (d - of_nat a) (length ?xs) (d - of_nat (a + b)) (length ?ys)"
    using small unat_of_nat_u32 [of b] by (simp add: sep_def algebra_simps)
  then have "wr (wr m (d - of_nat a) ?xs) (d - of_nat (a + b)) ?ys
      = wr (wr m (d - of_nat (a + b)) ?ys) (d - of_nat a) ?xs"
    using small by (intro wr_wr_comm) simp_all
  also have "\<dots> = wr m (d - of_nat (a + b)) (?ys @ ?xs)"
    by (simp add: wr_append algebra_simps)
  also have "?ys @ ?xs = rd m (s - of_nat (a + b)) (b + a)"
    by (subst rd_add) (simp add: algebra_simps)
  finally show ?thesis by (simp only: rd add.commute [of b a])
qed auto

lemma copy_words_down_wr:
  "4 * n \<le> unat (s - d) \<Longrightarrow>
    copy_words_down m d s n = wr m (d - of_nat (4 * n)) (rd m (s - of_nat (4 * n)) (4 * n))"
proof (induction n arbitrary: m d s)
  case 0
  then show ?case by simp
next
  case (Suc n)
  let ?m = "wr m (d - 4) (rd m (s - 4) 4)"
  have "copy_words_down m d s (Suc n) = copy_words_down ?m (d - 4) (s - 4) n"
    by (simp add: store32_def word_bytes_load32)
  also have "\<dots> = wr ?m (d - 4 - of_nat (4 * n)) (rd ?m (s - 4 - of_nat (4 * n)) (4 * n))"
    using Suc.prems by (intro Suc.IH) simp
  also have "\<dots> = wr m (d - of_nat (4 + 4 * n)) (rd m (s - of_nat (4 + 4 * n)) (4 + 4 * n))"
    using wr_rd_down [of 4 "4 * n" s d m] Suc.prems by (simp add: diff_diff_eq)
  finally show ?case by simp
qed

lemma move_down3:
  assumes "a + 4 * w + r \<le> unat (s - d)"
  shows "copy_bytes_down (copy_words_down (copy_bytes_down m d s a) (d - of_nat a) (s - of_nat a) w)
       (d - of_nat (a + 4 * w)) (s - of_nat (a + 4 * w)) r
     = wr m (d - of_nat (a + 4 * w + r)) (rd m (s - of_nat (a + 4 * w + r)) (a + 4 * w + r))"
proof -
  let ?m1 = "wr m (d - of_nat a) (rd m (s - of_nat a) a)"
  let ?k = "a + 4 * w"
  let ?m2 = "wr m (d - of_nat ?k) (rd m (s - of_nat ?k) ?k)"
  have "copy_bytes_down m d s a = ?m1" using assms by (simp add: copy_bytes_down_wr)
  moreover have "copy_words_down ?m1 (d - of_nat a) (s - of_nat a) w = ?m2"
    using assms wr_rd_down [of a "4 * w" s d m] copy_words_down_wr [of w "s - of_nat a" "d - of_nat a" ?m1]
    by (simp add: diff_diff_eq)
  moreover have "copy_bytes_down ?m2 (d - of_nat ?k) (s - of_nat ?k) r
      = wr m (d - of_nat (?k + r)) (rd m (s - of_nat (?k + r)) (?k + r))"
    using assms wr_rd_down [of ?k r s d m] copy_bytes_down_wr [of r "s - of_nat ?k" "d - of_nat ?k" ?m2]
    by (simp add: diff_diff_eq)
  ultimately show ?thesis by simp
qed

lemma move_down_wr:
  assumes "unat count < 2 ^ 31" and "unat count \<le> unat (s0 - d0)"
  shows "move_down m d0 s0 count = wr m d0 (rd m s0 (unat count))"
proof -
  let ?d = "d0 + count" and ?s = "s0 + count"
  define len where "len = (if unaligned (?d OR ?s)
      then (if unaligned (?d XOR ?s) \<or> count \<le> 4 then count else ?d AND 3) else 0)"
  have len: "len \<le> count"
    by (auto simp: len_def word_le_nat_alt word_mod4)
  let ?w = "unat ((count - len) div 4)" and ?r = "unat ((count - len) AND 3)"
  have split: "unat len + 4 * ?w + ?r = unat count" using len by (rule count_split)
  have "nat (sint len) = unat len"
    using assms(1) len by (intro nat_sint_u32) (simp add: word_le_nat_alt)
  then have "move_down m d0 s0 count =
      copy_bytes_down (copy_words_down (copy_bytes_down m ?d ?s (unat len)) (?d - of_nat (unat len))
        (?s - of_nat (unat len)) ?w) (?d - of_nat (unat len + 4 * ?w)) (?s - of_nat (unat len + 4 * ?w)) ?r"
    unfolding move_down_def len_def [symmetric] Let_def by (simp add: diff_diff_eq)
  also have "\<dots> = wr m (?d - of_nat (unat len + 4 * ?w + ?r))
      (rd m (?s - of_nat (unat len + 4 * ?w + ?r)) (unat len + 4 * ?w + ?r))"
    using assms(2) split by (intro move_down3) simp
  finally show ?thesis by (simp only: split) simp
qed

lemma memcpy_wr:
  assumes "unat count < 2 ^ 31" and "unat count \<le> unat (dest - src) \<or> dest = src"
  shows "memcpy m dest src count = (wr m dest (rd m src (unat count)), dest)"
  using assms by (auto simp: memcpy_def move_up_wr wr_rd_id)

lemma sint_diff_pos:
  fixes s d :: u32
  assumes "sint d < sint s"
  shows "int (unat (s - d)) = sint s - sint d"
proof -
  have b: "sint s < 2147483648" "- 2147483648 \<le> sint d"
    using sint_lt [of s] sint_ge [of d] by simp_all
  have "s - d = word_of_int (sint s - sint d)" by simp
  then have "uint (s - d) = (sint s - sint d) mod 2 ^ LENGTH(32)" by (simp only: uint_word_of_int)
  also have "\<dots> = sint s - sint d" using b assms by (intro mod_pos_pos_trivial) simp_all
  finally show ?thesis by simp
qed

lemma sint_diff_far:
  fixes s d :: u32
  assumes "sint s < sint d" and "sint d + int n \<le> 2 ^ 31"
  shows "n \<le> unat (s - d)"
proof -
  have "s \<noteq> d" using assms by auto
  then have "int (unat (s - d) + unat (d - s)) = int (2 ^ 32)" by (subst unat_diff_swap) simp_all
  then have "int (unat (s - d)) = 4294967296 - int (unat (d - s))" by simp
  also have "\<dots> = 4294967296 - (sint d - sint s)"
    using sint_diff_pos [OF assms(1)] by simp
  finally have "int (unat (s - d)) = 4294967296 - (sint d - sint s)" .
  moreover have "- 2147483648 \<le> sint s" using sint_ge [of s] by simp
  moreover have "sint d + int n \<le> 2147483648" using assms(2) by simp
  ultimately have "int n \<le> int (unat (s - d))" by linarith
  then show ?thesis by (simp only: of_nat_le_iff)
qed

lemma memmove_wr:
  assumes "unat count < 2 ^ 31"
    and "sint dest + int (unat count) \<le> 2 ^ 31" and "sint src + int (unat count) \<le> 2 ^ 31"
  shows "memmove m dest src count = (wr m dest (rd m src (unat count)), dest)"
proof -
  consider (no) "count = 0 \<or> dest = src" | (up) "count \<noteq> 0" "sint dest < sint src"
    | (down) "count \<noteq> 0" "\<not> sint dest < sint src" "dest \<noteq> src"
    by blast
  then show ?thesis
  proof cases
    case no
    then show ?thesis using unat_lt_2p32 [of count] by (auto simp: memmove_def wr_rd_id)
  next
    case up
    then have "unat count \<le> unat (dest - src)" using assms by (intro sint_diff_far) auto
    with up assms show ?thesis by (auto simp: memmove_def move_up_wr)
  next
    case down
    then have "sint src < sint dest" by (metis linorder_neqE signed_word_eqI)
    then have "unat count \<le> unat (src - dest)" using assms by (intro sint_diff_far) auto
    with down assms show ?thesis by (auto simp: memmove_def move_down_wr)
  qed
qed

text \<open>\<open>memset\<close>\<close>

lemma fill_bytes_wr: "fill_bytes m p c n = wr m p (replicate n c)"
  by (induction n arbitrary: m p) simp_all

lemma word_bytes_same:
  fixes c :: u32
  defines "cc \<equiv> c AND 0xff"
  shows "word_bytes ((cc OR push_bit 8 cc) OR push_bit 16 (cc OR push_bit 8 cc)) = replicate 4 (ucast c)"
proof -
  have m: "(0xff :: u32) = mask 8" by (simp add: mask_eq_exp_minus_1)
  let ?w = "(cc OR push_bit 8 cc) OR push_bit 16 (cc OR push_bit 8 cc)"
  have "ucast ?w = (ucast c :: u8)"
    by (rule bit_word_eqI) (auto simp: cc_def m bit_simps)
  moreover have "ucast (drop_bit 8 ?w) = (ucast c :: u8)"
    by (rule bit_word_eqI) (auto simp: cc_def m bit_simps)
  moreover have "ucast (drop_bit 16 ?w) = (ucast c :: u8)"
    by (rule bit_word_eqI) (auto simp: cc_def m bit_simps)
  moreover have "ucast (drop_bit 24 ?w) = (ucast c :: u8)"
    by (rule bit_word_eqI) (auto simp: cc_def m bit_simps)
  ultimately show ?thesis by (simp add: word_bytes_def numeral_eq_Suc)
qed

lemma fill_words_wr:
  "word_bytes w = replicate 4 c \<Longrightarrow> fill_words m p w n = wr m p (replicate (4 * n) c)"
proof (induction n arbitrary: m p)
  case (Suc n)
  have "wr m p (replicate (4 + 4 * n) c)
      = wr (wr m p (replicate 4 c)) (p + 4) (replicate (4 * n) c)"
    by (simp only: replicate_add wr_append) simp
  with Suc show ?case by (simp add: store32_def)
qed simp

lemma memset_wr: "memset m s c count = (wr m s (replicate (unat count) (ucast c)), s)"
proof -
  let ?len = "(- s) AND 3" and ?b = "ucast c :: u8"
  let ?w = "unat ((count - ?len) div 4)" and ?r = "unat ((count - ?len) AND 3)"
  have split: "unat ?len + 4 * ?w + ?r = unat count" if "count > ?len"
    using that by (intro count_split) simp
  have "wr m s (replicate (unat ?len + 4 * ?w + ?r) ?b)
      = wr (wr (wr m s (replicate (unat ?len) ?b)) (s + ?len) (replicate (4 * ?w) ?b))
           (s + ?len + 4 * ((count - ?len) div 4)) (replicate ?r ?b)"
    by (simp add: replicate_add wr_append add.assoc)
  then show ?thesis
    unfolding memset_def Let_def fill_bytes_wr fill_words_wr [OF word_bytes_same]
    using split by (cases "count > ?len") simp_all
qed

text \<open>\<open>memcmp\<close>, \<open>memchr\<close>, \<open>memscan\<close>\<close>

lemma memcmp_loop_0_iff: "memcmp_loop m p q n = 0 \<longleftrightarrow> rd m p n = rd m q n"
  by (induction n arbitrary: p q) (auto simp: rd_Suc Let_def)

lemma memcmp_0_iff: "memcmp m p q n = 0 \<longleftrightarrow> rd m p (unat n) = rd m q (unat n)"
  by (simp add: memcmp_def memcmp_loop_0_iff)

lemma memchr_loop_none: "x \<notin> set (rd m b n) \<Longrightarrow> memchr_loop m b x n = 0"
  by (induction n arbitrary: b) (auto simp: rd_Suc)

lemma memchr_loop_found:
  "k < n \<Longrightarrow> m (b + of_nat k) = x \<Longrightarrow> x \<notin> set (rd m b k) \<Longrightarrow> memchr_loop m b x n = b + of_nat k"
proof (induction n arbitrary: b k)
  case (Suc n)
  show ?case
  proof (cases k)
    case (Suc j)
    then show ?thesis using Suc.prems Suc.IH [of j "b + 1"] by (auto simp: rd_Suc ac_simps)
  qed (use Suc.prems in auto)
qed simp

lemma memscan_loop_at:
  "memscan_loop m p c n = p + of_nat (length (takeWhile (\<lambda>x. ucast x \<noteq> c) (rd m p n)))"
  by (induction n arbitrary: p) (auto simp: rd_Suc ac_simps)

end
