(* ===== verification/Lk_Heap.thy ===== *)
theory Lk_Heap
  imports Lk_List Lk_Mem
begin

text \<open>
  The first-fit heap of \<open>lib/heap/heap.c\<close> and the allocation functions of
  \<open>lib/libc/malloc.c\<close>. The free list is the intrusive list of \<open>include/list.h\<close>, the chunk's
  node being its first field; the structs the heap keeps in its own memory (\<open>free_heap_chunk\<close>,
  \<open>alloc_struct_begin\<close>) are typed maps keyed by the address they lie at. Loops over the
  free list are partial functions: \<open>None\<close> is a list that never comes back to its head.
  The debug assertions are compiled out of the build (\<open>DEBUGLEVEL\<close>), and the critical
  sections around the list operations are balanced and not modelled here.
\<close>

section \<open>State\<close>

record alloc_struct_begin =
  magic :: u32
  aptr :: ptr
  asize :: u32

record heap =
  base :: ptr
  hlen :: u32
  free_list :: ptr
  fnodes :: nodes
  clen :: "ptr \<Rightarrow> u32"
  hdr :: "ptr \<Rightarrow> alloc_struct_begin"

text \<open>\<open>'HEAP'\<close>; both structs have three words.\<close>

definition HEAP_MAGIC :: u32 where "HEAP_MAGIC = 0x48454150"
definition SIZEOF_ALLOC_STRUCT_BEGIN :: u32 where "SIZEOF_ALLOC_STRUCT_BEGIN = 12"
definition SIZEOF_FREE_HEAP_CHUNK :: u32 where "SIZEOF_FREE_HEAP_CHUNK = 12"

definition ROUNDUP :: "u32 \<Rightarrow> u32 \<Rightarrow> u32" where
  "ROUNDUP a b = (a + (b - 1)) AND NOT (b - 1)"

section \<open>Operations\<close>

text \<open>
  The walk of \<open>heap_insert_free_chunk\<close>: the value of \<open>next_chunk\<close> when the loop is left. Off
  the end of the list it is the head itself.
\<close>

partial_function (option) insert_walk :: "heap \<Rightarrow> ptr \<Rightarrow> ptr \<Rightarrow> ptr option" where
  "insert_walk h chunk next_chunk =
    (if next_chunk = free_list h then Some next_chunk
     else if chunk < next_chunk then Some next_chunk
     else insert_walk h chunk (nxt (fnodes h) next_chunk))"

definition heap_insert_free_chunk :: "heap \<Rightarrow> ptr \<Rightarrow> (heap \<times> ptr) option" where
  "heap_insert_free_chunk h chunk =
    do {
      next_chunk \<leftarrow> insert_walk h chunk (nxt (fnodes h) (free_list h));
      let h1 = (if next_chunk \<noteq> free_list h
                then h\<lparr>fnodes := list_add_before (fnodes h) next_chunk chunk\<rparr>
                else h\<lparr>fnodes := list_add_tail (fnodes h) (free_list h) chunk\<rparr>);
          last_chunk = list_prev_type (fnodes h1) (free_list h1) chunk 0;
          (h2, chunk2) =
            (if last_chunk \<noteq> 0 \<and> last_chunk + clen h1 last_chunk = chunk
             then (h1\<lparr>clen := (clen h1)(last_chunk := clen h1 last_chunk + clen h1 chunk),
                     fnodes := list_delete (fnodes h1) chunk\<rparr>, last_chunk)
             else (h1, chunk))
      in if next_chunk \<noteq> 0 \<and> chunk2 + clen h2 chunk2 = next_chunk
         then Some (h2\<lparr>clen := (clen h2)(chunk2 := clen h2 chunk2 + clen h2 next_chunk),
                      fnodes := list_delete (fnodes h2) next_chunk\<rparr>, chunk2)
         else Some (h2, chunk2)
    }"

definition heap_create_free_chunk :: "heap \<Rightarrow> ptr \<Rightarrow> u32 \<Rightarrow> heap \<times> ptr" where
  "heap_create_free_chunk h p len = (h\<lparr>clen := (clen h)(p := len)\<rparr>, p)"

text \<open>The sizes \<open>heap_alloc\<close> computes before it walks the list.\<close>

definition alloc_total :: "u32 \<Rightarrow> u32 \<Rightarrow> u32" where
  "alloc_total sz alignment =
    (let s1 = sz + SIZEOF_ALLOC_STRUCT_BEGIN;
         s2 = (if s1 < SIZEOF_FREE_HEAP_CHUNK then SIZEOF_FREE_HEAP_CHUNK else s1);
         s3 = ROUNDUP s2 4
     in if alignment > 0 then s3 + (if alignment < 16 then 16 else alignment) else s3)"

partial_function (option) alloc_walk :: "heap \<Rightarrow> u32 \<Rightarrow> ptr \<Rightarrow> ptr option" where
  "alloc_walk h sz chunk =
    (if chunk = free_list h then Some 0
     else if clen h chunk \<ge> sz then Some chunk
     else alloc_walk h sz (nxt (fnodes h) chunk))"

text \<open>The body of the loop for the chunk that is big enough.\<close>

definition alloc_from :: "heap \<Rightarrow> ptr \<Rightarrow> u32 \<Rightarrow> u32 \<Rightarrow> heap \<times> ptr" where
  "alloc_from h chunk sz alignment =
    (let next_node = list_next (fnodes h) (free_list h) chunk;
         h1 = h\<lparr>fnodes := list_delete (fnodes h) chunk\<rparr>;
         h2 = (if clen h1 chunk > sz + SIZEOF_FREE_HEAP_CHUNK then
                 (let (ha, newchunk) = heap_create_free_chunk h1 (chunk + sz) (clen h1 chunk - sz);
                      hb = ha\<lparr>clen := (clen ha)(chunk := clen ha chunk - (clen ha chunk - sz))\<rparr>
                  in if next_node \<noteq> 0
                     then hb\<lparr>fnodes := list_add_before (fnodes hb) next_node newchunk\<rparr>
                     else hb\<lparr>fnodes := list_add_tail (fnodes hb) (free_list hb) newchunk\<rparr>)
               else h1);
         p1 = chunk + SIZEOF_ALLOC_STRUCT_BEGIN;
         p = (if alignment > 0 then ROUNDUP p1 alignment else p1)
     in (h2\<lparr>hdr := (hdr h2)(p - SIZEOF_ALLOC_STRUCT_BEGIN :=
            \<lparr>magic = HEAP_MAGIC, aptr = chunk, asize = clen h2 chunk\<rparr>)\<rparr>, p))"

definition heap_alloc :: "heap \<Rightarrow> u32 \<Rightarrow> u32 \<Rightarrow> (heap \<times> ptr) option" where
  "heap_alloc h sz alignment =
    (if alignment AND (alignment - 1) \<noteq> 0 then Some (h, 0)
     else do {
       let total = alloc_total sz alignment;
           alignment1 = (if alignment > 0 \<and> alignment < 16 then 16 else alignment) in
       do { chunk \<leftarrow> alloc_walk h total (nxt (fnodes h) (free_list h));
            (if chunk = 0 then Some (h, 0) else Some (alloc_from h chunk total alignment1)) }
     })"

definition heap_free :: "heap \<Rightarrow> ptr \<Rightarrow> heap option" where
  "heap_free h p =
    (if p = 0 then Some h
     else (let as = hdr h (p - SIZEOF_ALLOC_STRUCT_BEGIN);
               (h1, chunk) = heap_create_free_chunk h (aptr as) (asize as)
           in map_option fst (heap_insert_free_chunk h1 chunk)))"

definition HEAP_START :: ptr where "HEAP_START = 0x00100000"
definition HEAP_LEN :: u32 where "HEAP_LEN = 0x00100000"

definition heap_init :: "heap \<Rightarrow> heap option" where
  "heap_init h =
    (let h1 = h\<lparr>base := HEAP_START, hlen := HEAP_LEN\<rparr>;
         h2 = h1\<lparr>fnodes := list_initialize (fnodes h1) (free_list h1)\<rparr>;
         (h3, chunk) = heap_create_free_chunk h2 (base h2) (hlen h2)
     in map_option fst (heap_insert_free_chunk h3 chunk))"

section \<open>lib/libc/malloc.c\<close>

definition malloc :: "heap \<Rightarrow> u32 \<Rightarrow> (heap \<times> ptr) option" where
  "malloc h sz = heap_alloc h sz 0"

definition memalign :: "heap \<Rightarrow> u32 \<Rightarrow> u32 \<Rightarrow> (heap \<times> ptr) option" where
  "memalign h boundary sz = heap_alloc h sz boundary"

text \<open>\<open>calloc\<close> clears the payload in the byte memory.\<close>

definition calloc :: "heap \<Rightarrow> mem \<Rightarrow> u32 \<Rightarrow> u32 \<Rightarrow> (heap \<times> mem \<times> ptr) option" where
  "calloc h m count sz =
    (let realsize = count * sz in
     do { (h', p) \<leftarrow> heap_alloc h realsize 0;
          if p = 0 then Some (h', m, 0)
          else Some (h', fst (memset m p 0 realsize), p) })"

definition free :: "heap \<Rightarrow> ptr \<Rightarrow> heap option" where
  "free h p = heap_free h p"

section \<open>Runs of addresses\<close>

text \<open>A chunk as its start and length; \<open>spans\<close> are the addresses a list of chunks covers.\<close>

definition span :: "nat \<times> nat \<Rightarrow> nat set" where
  "span c = {fst c ..< fst c + snd c}"

definition spans :: "(nat \<times> nat) list \<Rightarrow> nat set" where
  "spans cs = (\<Union>c \<in> set cs. span c)"

text \<open>Increasing, no chunk empty, and a gap between any two.\<close>

definition gapped :: "(nat \<times> nat) list \<Rightarrow> bool" where
  "gapped cs \<longleftrightarrow> sorted_wrt (\<lambda>c d. fst c + snd c < fst d) cs \<and> (\<forall>c \<in> set cs. 0 < snd c)"

lemma spans_simps [simp]: "spans [] = {}" "spans (c # cs) = span c \<union> spans cs"
  "spans (cs @ ds) = spans cs \<union> spans ds"
  by (auto simp: spans_def)

lemma gapped_Cons: "gapped (c # cs) \<longleftrightarrow> 0 < snd c \<and> (\<forall>d \<in> set cs. fst c + snd c < fst d) \<and> gapped cs"
  by (auto simp: gapped_def)

lemma gapped_append: "gapped (cs @ ds) \<longleftrightarrow> gapped cs \<and> gapped ds
    \<and> (\<forall>c \<in> set cs. \<forall>d \<in> set ds. fst c + snd c < fst d)"
  by (auto simp: gapped_def sorted_wrt_append)

lemma spans_above: "\<forall>d \<in> set cs. k < fst d \<Longrightarrow> x \<in> spans cs \<Longrightarrow> k < x"
  by (auto simp: spans_def span_def)

text \<open>The addresses determine such a list: an address set has one coalesced chunk list.\<close>

lemma gapped_unique: "gapped cs \<Longrightarrow> gapped ds \<Longrightarrow> spans cs = spans ds \<Longrightarrow> cs = ds"
proof (induction cs arbitrary: ds)
  case Nil
  then show ?case by (cases ds) (auto simp: gapped_Cons span_def)
next
  case (Cons c cs)
  have "fst c \<in> spans ds" using Cons.prems by (auto simp: gapped_Cons span_def)
  then obtain d ds' where ds: "ds = d # ds'" by (cases ds) auto
  have above: "\<And>x. x \<in> spans cs \<Longrightarrow> fst c + snd c < x" "\<And>x. x \<in> spans ds' \<Longrightarrow> fst d + snd d < x"
    using Cons.prems(1,2) ds spans_above by (auto simp: gapped_Cons)
  have pos: "0 < snd c" "0 < snd d" using Cons.prems(1,2) ds by (auto simp: gapped_Cons)
  have eq: "span c \<union> spans cs = span d \<union> spans ds'" using Cons.prems(3) ds by simp
  have "fst c \<in> span d \<union> spans ds'" "fst d \<in> span c \<union> spans cs"
    using eq pos by (auto simp: span_def)
  then have start: "fst c = fst d" using above pos by (force simp: span_def)
  have "fst c + snd c \<notin> span d \<union> spans ds'" "fst d + snd d \<notin> span c \<union> spans cs"
    using eq above by (force simp: span_def)+
  then have "snd c = snd d" using start by (auto simp: span_def)
  with start have cd: "c = d" by (rule prod_eqI)
  have "span c \<inter> spans cs = {}" "span d \<inter> spans ds' = {}"
    using above by (force simp: span_def)+
  with eq cd have "spans cs = spans ds'" by blast
  with Cons cd ds show ?case by (auto simp: gapped_Cons)
qed

text \<open>A run of addresses in a coalesced list lies in one of its chunks.\<close>

lemma gapped_run:
  assumes "gapped cs" and "{a ..< a + n} \<subseteq> spans cs" and "0 < n"
  shows "\<exists>c \<in> set cs. fst c \<le> a \<and> a + n \<le> fst c + snd c"
  using assms
proof (induction cs)
  case (Cons c cs)
  have above: "x \<in> spans cs \<Longrightarrow> fst c + snd c < x" for x
    using Cons.prems(1) spans_above by (auto simp: gapped_Cons)
  have mem: "x \<in> span c \<or> x \<in> spans cs" if "a \<le> x" "x < a + n" for x
    using Cons.prems(2) that by auto
  show ?case
  proof (cases "a \<in> span c")
    case True
    have "a + n \<le> fst c + snd c"
    proof (rule ccontr)
      assume "\<not> a + n \<le> fst c + snd c"
      then have "fst c + snd c \<in> span c \<or> fst c + snd c \<in> spans cs"
        using True by (intro mem) (auto simp: span_def)
      then show False using above [of "fst c + snd c"] by (auto simp: span_def)
    qed
    with True show ?thesis by (auto simp: span_def)
  next
    case False
    then have "a \<in> spans cs" using mem [of a] Cons.prems(3) by simp
    then have "fst c + snd c < a" by (rule above)
    then have "{a ..< a + n} \<subseteq> spans cs" using mem by (force simp: span_def)
    with Cons show ?thesis by (auto simp: gapped_Cons)
  qed
qed auto

section \<open>The invariant\<close>

definition heap_top :: "heap \<Rightarrow> nat" where
  "heap_top h = unat (base h) + unat (hlen h)"

text \<open>A chunk of the heap: inside it, big enough for its struct, word-aligned.\<close>

definition chunk_ok :: "heap \<Rightarrow> ptr \<Rightarrow> bool" where
  "chunk_ok h a \<longleftrightarrow> unat (base h) \<le> unat a \<and> unat a + unat (clen h a) \<le> heap_top h
     \<and> 12 \<le> unat (clen h a) \<and> 4 dvd unat a \<and> 4 dvd unat (clen h a)"

text \<open>The heap stays clear of the end of the address space, and the list head is outside it.\<close>

definition heap_region :: "heap \<Rightarrow> bool" where
  "heap_region h \<longleftrightarrow> 0 < unat (base h) \<and> heap_top h + 12 < 2 ^ 32 \<and> free_list h \<noteq> 0
     \<and> (unat (free_list h) < unat (base h) \<or> heap_top h < unat (free_list h))"

definition frs :: "heap \<Rightarrow> ptr list \<Rightarrow> (nat \<times> nat) list" where
  "frs h xs = map (\<lambda>a. (unat a, unat (clen h a))) xs"

definition free_ok :: "heap \<Rightarrow> ptr list \<Rightarrow> bool" where
  "free_ok h xs \<longleftrightarrow> heap_region h \<and> dlist (fnodes h) (free_list h) xs \<and> gapped (frs h xs)
     \<and> (\<forall>a \<in> set xs. chunk_ok h a)"

lemma frs_simps [simp]: "frs h [] = []" "frs h (a # xs) = (unat a, unat (clen h a)) # frs h xs"
  "frs h (xs @ ys) = frs h xs @ frs h ys"
  by (simp_all add: frs_def)

lemma frs_cong: "(\<And>a. a \<in> set xs \<Longrightarrow> clen h' a = clen h a) \<Longrightarrow> frs h' xs = frs h xs"
  by (simp add: frs_def)

lemma set_frs: "set (frs h xs) = (\<lambda>a. (unat a, unat (clen h a))) ` set xs"
  by (simp add: frs_def)

lemma chunk_ok_word:
  assumes "heap_region h" and "chunk_ok h a"
  shows "a \<noteq> 0" and "unat (a + clen h a) = unat a + unat (clen h a)" and "a \<noteq> free_list h"
    and "a + clen h a \<noteq> free_list h"
proof -
  have lt: "unat a + unat (clen h a) < 2 ^ 32" using assms by (simp add: heap_region_def chunk_ok_def)
  then show add: "unat (a + clen h a) = unat a + unat (clen h a)"
    using unat_add_of_nat_u32 [of a "unat (clen h a)"] by simp
  show "a \<noteq> 0" using assms by (auto simp: heap_region_def chunk_ok_def)
  show "a \<noteq> free_list h" using assms by (auto simp: heap_region_def chunk_ok_def)
  show "a + clen h a \<noteq> free_list h" using assms add by (auto simp: heap_region_def chunk_ok_def)
qed

section \<open>Inserting a free chunk\<close>

text \<open>
  A chunk linked between \<open>as\<close> and \<open>bs\<close>, before it is merged with its neighbours: it may
  touch them.
\<close>

definition around :: "heap \<Rightarrow> ptr list \<Rightarrow> ptr \<Rightarrow> ptr list \<Rightarrow> bool" where
  "around h as a bs \<longleftrightarrow> heap_region h \<and> dlist (fnodes h) (free_list h) (as @ a # bs)
     \<and> gapped (frs h as) \<and> gapped (frs h bs)
     \<and> (\<forall>x \<in> set as. unat x + unat (clen h x) \<le> unat a)
     \<and> (\<forall>y \<in> set bs. unat a + unat (clen h a) \<le> unat y)
     \<and> (\<forall>x \<in> set (as @ a # bs). chunk_ok h x)"

definition same_heap :: "heap \<Rightarrow> heap \<Rightarrow> bool" where
  "same_heap h h' \<longleftrightarrow> base h' = base h \<and> hlen h' = hlen h \<and> free_list h' = free_list h \<and> hdr h' = hdr h"

lemma same_heap_region: "same_heap h h' \<Longrightarrow> heap_region h' = heap_region h"
  by (simp add: same_heap_def heap_region_def heap_top_def)

lemma around_distinct: "around h as a bs \<Longrightarrow> distinct (as @ a # bs)"
  by (simp add: around_def dlist_def)

lemma insert_walk_dlist:
  "dlist (fnodes h) (free_list h) (as @ bs) \<Longrightarrow>
    insert_walk h p (hd (bs @ [free_list h])) = Some (hd (dropWhile (\<lambda>x. \<not> p < x) bs @ [free_list h]))"
proof (induction bs arbitrary: as)
  case Nil
  then show ?case by (subst insert_walk.simps) simp
next
  case (Cons x xs)
  have "x \<noteq> free_list h" using Cons.prems by (auto simp: dlist_def)
  moreover have "nxt (fnodes h) x = hd (xs @ [free_list h])" using Cons.prems by (rule dlist_links(2))
  ultimately show ?case
    using Cons.IH [of "as @ [x]"] Cons.prems by (subst insert_walk.simps) simp
qed

lemma merge_prev:
  assumes ar: "around h as a bs"
    and last: "last_chunk = list_prev_type (fnodes h) (free_list h) a 0"
    and r: "(h2, c) = (if last_chunk \<noteq> 0 \<and> last_chunk + clen h last_chunk = a
       then (h\<lparr>clen := (clen h)(last_chunk := clen h last_chunk + clen h a),
               fnodes := list_delete (fnodes h) a\<rparr>, last_chunk)
       else (h, a))"
  shows "\<exists>as'. around h2 as' c bs \<and> (\<forall>x \<in> set as'. unat x + unat (clen h2 x) < unat c)
     \<and> spans (frs h2 (as' @ c # bs)) = spans (frs h (as @ a # bs)) \<and> same_heap h h2"
proof -
  have d: "dlist (fnodes h) (free_list h) (as @ a # bs)" and reg: "heap_region h"
    using ar by (simp_all add: around_def)
  have lst: "last_chunk = (if as = [] then 0 else last as)"
    using dlist_prev [OF d] by (simp add: last list_prev_type_def container_or_null_def containerof_def)
  show ?thesis
  proof (cases "as \<noteq> [] \<and> last as + clen h (last as) = a")
    case True
    then obtain as0 l where as: "as = as0 @ [l]" by (metis append_butlast_last_id)
    with True lst have l: "last_chunk = l" "l + clen h l = a" by auto
    have lok: "chunk_ok h l" "chunk_ok h a" using ar as by (auto simp: around_def)
    note lw = chunk_ok_word [OF reg lok(1)] and aw = chunk_ok_word [OF reg lok(2)]
    have la: "unat l + unat (clen h l) = unat a" using lw(2) l(2) by simp
    have sum: "unat (clen h l + clen h a) = unat (clen h l) + unat (clen h a)"
      using unat_add_of_nat_u32 [of "clen h l" "unat (clen h a)"] la lok(2) reg
      by (simp add: chunk_ok_def heap_region_def)
    have h2: "h2 = h\<lparr>clen := (clen h)(l := clen h l + clen h a), fnodes := list_delete (fnodes h) a\<rparr>"
      and c: "c = l"
      using r l lw(1) by (simp_all split: if_splits)
    have dist: "distinct (as0 @ l # a # bs)" using around_distinct [OF ar] as by simp
    have fr: "frs h2 as0 = frs h as0" "frs h2 bs = frs h bs"
      using dist h2 by (auto intro!: frs_cong)
    have "dlist (fnodes h2) (free_list h2) (as0 @ l # bs)"
      using dlist_delete [of "fnodes h" "free_list h" "as0 @ [l]" a bs] d as h2 by simp
    moreover have gap: "gapped (frs h as0)" "\<forall>x \<in> set as0. unat x + unat (clen h x) < unat l"
      using ar as by (auto simp: around_def gapped_append set_frs)
    moreover have "chunk_ok h2 x" if "x \<in> set (as0 @ l # bs)" for x
    proof (cases "x = l")
      case True
      then show ?thesis using lok la sum h2 by (simp add: chunk_ok_def heap_top_def)
    next
      case False
      then show ?thesis using that ar as h2 by (auto simp: around_def chunk_ok_def heap_top_def)
    qed
    moreover have "heap_region h2" using reg h2 by (simp add: heap_region_def heap_top_def)
    moreover have old: "clen h2 x = clen h x" if "x \<noteq> l" for x using h2 that by simp
    moreover have new: "unat (clen h2 l) = unat (clen h l) + unat (clen h a)" using h2 sum by simp
    moreover have "unat x + unat (clen h2 x) \<le> unat l" if "x \<in> set as0" for x
      using gap(2) old [of x] dist that by fastforce
    ultimately have "around h2 as0 l bs"
      using ar fr la dist unfolding around_def by (auto simp: fun_upd_def)
    moreover have "\<forall>x \<in> set as0. unat x + unat (clen h2 x) < unat l"
      using gap(2) dist by (auto simp: h2)
    moreover have "spans (frs h2 (as0 @ l # bs)) = spans (frs h (as @ a # bs))"
      using fr new la as by (auto simp: span_def)
    moreover have "same_heap h h2" using h2 by (simp add: same_heap_def)
    ultimately show ?thesis using c by blast
  next
    case False
    then have r': "h2 = h" "c = a" using r lst by (auto split: if_splits)
    have "unat x + unat (clen h x) < unat a" if x: "x \<in> set as" for x
    proof -
      obtain as0 l where as: "as = as0 @ [l]" using x by (cases as rule: rev_exhaust) auto
      have lok: "chunk_ok h l" using ar as by (auto simp: around_def)
      have "unat l + unat (clen h l) \<noteq> unat a"
        using False as chunk_ok_word(2) [OF reg lok] by (metis unsigned_word_eqI last_snoc snoc_eq_iff_butlast)
      moreover have "unat l + unat (clen h l) \<le> unat a" using ar as by (simp add: around_def)
      ultimately have l: "unat l + unat (clen h l) < unat a" by simp
      show ?thesis
      proof (cases "x = l")
        case False
        then have "unat x + unat (clen h x) < unat l"
          using x as ar by (auto simp: around_def gapped_append set_frs)
        with l show ?thesis by simp
      qed (use l in simp)
    qed
    with r' ar show ?thesis by (auto simp: same_heap_def)
  qed
qed

lemma merge_next:
  assumes ar: "around h as a bs" and str: "\<forall>x \<in> set as. unat x + unat (clen h x) < unat a"
    and nx: "next_chunk = hd (bs @ [free_list h])"
    and r: "h2 = (if next_chunk \<noteq> 0 \<and> a + clen h a = next_chunk
       then h\<lparr>clen := (clen h)(a := clen h a + clen h next_chunk),
              fnodes := list_delete (fnodes h) next_chunk\<rparr>
       else h)"
  shows "\<exists>xs. free_ok h2 xs \<and> spans (frs h2 xs) = spans (frs h (as @ a # bs)) \<and> same_heap h h2"
proof -
  have d: "dlist (fnodes h) (free_list h) (as @ a # bs)" and reg: "heap_region h"
    using ar by (simp_all add: around_def)
  have aok: "chunk_ok h a" using ar by (simp add: around_def)
  note aw = chunk_ok_word [OF reg aok]
  show ?thesis
  proof (cases "bs \<noteq> [] \<and> a + clen h a = hd bs")
    case True
    then obtain b bs0 where bs: "bs = b # bs0" by (cases bs) auto
    with True nx have b: "next_chunk = b" "a + clen h a = b" by auto
    have bok: "chunk_ok h b" using ar bs by (simp add: around_def)
    note bw = chunk_ok_word [OF reg bok]
    have ab: "unat a + unat (clen h a) = unat b" using aw(2) b(2) by simp
    have sum: "unat (clen h a + clen h b) = unat (clen h a) + unat (clen h b)"
      using unat_add_of_nat_u32 [of "clen h a" "unat (clen h b)"] ab bok reg
      by (simp add: chunk_ok_def heap_region_def)
    have h2: "h2 = h\<lparr>clen := (clen h)(a := clen h a + clen h b), fnodes := list_delete (fnodes h) b\<rparr>"
      using r b bw(1) by simp
    have dist: "distinct (as @ a # b # bs0)" using around_distinct [OF ar] bs by simp
    have fr: "frs h2 as = frs h as" "frs h2 bs0 = frs h bs0"
      using dist h2 by (auto intro!: frs_cong)
    have "dlist (fnodes h2) (free_list h2) (as @ a # bs0)"
      using dlist_delete [of "fnodes h" "free_list h" "as @ [a]" b bs0] d bs h2 by simp
    moreover have new: "unat (clen h2 a) = unat (clen h a) + unat (clen h b)" using h2 sum by simp
    moreover have gb: "gapped (frs h bs0)" "\<forall>y \<in> set bs0. unat b + unat (clen h b) < unat y"
      using ar bs by (auto simp: around_def gapped_Cons set_frs)
    have "gapped (frs h2 (as @ a # bs0))"
      using ar str gb fr new ab
      by (fastforce simp: around_def gapped_append gapped_Cons set_frs chunk_ok_def)
    moreover have "chunk_ok h2 x" if "x \<in> set (as @ a # bs0)" for x
    proof (cases "x = a")
      case True
      then show ?thesis using aok bok ab sum h2 by (simp add: chunk_ok_def heap_top_def)
    next
      case False
      then show ?thesis using that ar bs h2 by (auto simp: around_def chunk_ok_def heap_top_def)
    qed
    moreover have "heap_region h2" using reg h2 by (simp add: heap_region_def heap_top_def)
    ultimately have "free_ok h2 (as @ a # bs0)" by (simp add: free_ok_def)
    moreover have "spans (frs h2 (as @ a # bs0)) = spans (frs h (as @ a # bs))"
      using fr new ab bs by (auto simp: span_def)
    ultimately show ?thesis using h2 by (auto simp: same_heap_def)
  next
    case False
    have r': "h2 = h"
    proof (cases bs)
      case Nil
      with nx r aw(4) show ?thesis by auto
    qed (use False nx r in auto)
    have "unat a + unat (clen h a) < unat y" if y: "y \<in> set bs" for y
    proof -
      obtain b bs0 where bs: "bs = b # bs0" using y by (cases bs) auto
      have "unat a + unat (clen h a) \<noteq> unat b"
        using False bs aw(2) by (metis unsigned_word_eqI list.sel(1) list.distinct(1))
      moreover have "unat a + unat (clen h a) \<le> unat b" using ar bs by (simp add: around_def)
      ultimately have b: "unat a + unat (clen h a) < unat b" by simp
      show ?thesis
      proof (cases "y = b")
        case False
        then have "unat b + unat (clen h b) < unat y"
          using y bs ar by (auto simp: around_def gapped_Cons set_frs)
        with b show ?thesis by simp
      qed (use b in simp)
    qed
    then have "gapped (frs h (as @ a # bs))"
      using ar str by (fastforce simp: around_def gapped_append gapped_Cons set_frs chunk_ok_def)
    with ar r' show ?thesis
      by (intro exI [of _ "as @ a # bs"]) (simp add: free_ok_def around_def same_heap_def)
  qed
qed

lemma free_ok_unique: "free_ok h xs \<Longrightarrow> free_ok h ys \<Longrightarrow> xs = ys"
  by (auto simp: free_ok_def intro: dlist_unique)

lemma heap_insert_free_chunk_spec:
  assumes fr: "free_ok h xs" and a: "chunk_ok h a"
    and free: "span (unat a, unat (clen h a)) \<inter> spans (frs h xs) = {}"
  shows "\<exists>h' c ys. heap_insert_free_chunk h a = Some (h', c) \<and> free_ok h' ys \<and> same_heap h h'
    \<and> spans (frs h' ys) = spans (frs h xs) \<union> span (unat a, unat (clen h a))"
proof -
  let ?fl = "free_list h"
  define as where "as = takeWhile (\<lambda>x. \<not> a < x) xs"
  define bs where "bs = dropWhile (\<lambda>x. \<not> a < x) xs"
  have xs: "xs = as @ bs" by (simp add: as_def bs_def)
  have reg: "heap_region h" and d: "dlist (fnodes h) ?fl (as @ bs)"
    and ok: "\<And>x. x \<in> set xs \<Longrightarrow> chunk_ok h x" and gap: "gapped (frs h xs)"
    using fr xs by (auto simp: free_ok_def)
  note aw = chunk_ok_word [OF reg a]
  have apos: "12 \<le> unat (clen h a)" using a by (simp add: chunk_ok_def)
  have notin: "unat a \<notin> {unat x ..< unat x + unat (clen h x)}
      \<and> unat x \<notin> {unat a ..< unat a + unat (clen h a)}" if x: "x \<in> set xs" for x
  proof -
    have xs: "span (unat x, unat (clen h x)) \<subseteq> spans (frs h xs)"
      using x by (auto simp: spans_def set_frs)
    have "12 \<le> unat (clen h x)" using ok [OF x] by (simp add: chunk_ok_def)
    then have "unat x \<in> span (unat x, unat (clen h x))" by (simp add: span_def)
    with xs free have "unat x \<notin> span (unat a, unat (clen h a))" by blast
    moreover have "unat a \<in> span (unat a, unat (clen h a))" using apos by (simp add: span_def)
    with xs free have "unat a \<notin> span (unat x, unat (clen h x))" by blast
    ultimately show ?thesis by (simp add: span_def)
  qed
  have below: "unat x + unat (clen h x) \<le> unat a" if "x \<in> set as" for x
  proof -
    have "\<not> a < x" using that unfolding as_def by (rule set_takeWhileD [THEN conjunct2])
    then have "unat x \<le> unat a" by (simp add: word_less_nat_alt)
    with notin [of x] that xs show ?thesis by auto
  qed
  have above: "unat a + unat (clen h a) \<le> unat y" if y: "y \<in> set bs" for y
  proof -
    obtain b bs0 where bs: "bs = b # bs0" using y by (cases bs) auto
    then have "a < b" using hd_dropWhile [of "\<lambda>x. \<not> a < x" xs] by (auto simp: bs_def)
    then have "unat a < unat b" by (simp add: word_less_nat_alt)
    then have b: "unat a + unat (clen h a) \<le> unat b" using notin [of b] xs bs by auto
    show ?thesis
    proof (cases "y = b")
      case False
      then have "unat b < unat y" using gap xs bs y by (auto simp: gapped_append gapped_Cons set_frs)
      with b show ?thesis by simp
    qed (use b in simp)
  qed
  have aL: "a \<notin> set (?fl # as @ bs)" "a \<noteq> 0"
    using aw(1,3) below [of a] above [of a] apos by auto
  let ?next = "hd (bs @ [?fl])"
  have dx: "dlist (fnodes h) ?fl ([] @ xs)" using fr by (simp add: free_ok_def)
  have walk: "insert_walk h a (nxt (fnodes h) ?fl) = Some ?next"
    using insert_walk_dlist [OF dx, of a] dlist_hd [OF dx] by (simp add: bs_def)
  define h1 where "h1 = h\<lparr>fnodes := list_add_tail (fnodes h) ?next a\<rparr>"
  have h1: "(if ?next \<noteq> ?fl then h\<lparr>fnodes := list_add_before (fnodes h) ?next a\<rparr>
      else h\<lparr>fnodes := list_add_tail (fnodes h) ?fl a\<rparr>) = h1"
    by (auto simp: h1_def list_add_before_def)
  have sel: "free_list h1 = ?fl" "clen h1 = clen h" "base h1 = base h" "hlen h1 = hlen h" "hdr h1 = hdr h"
    by (simp_all add: h1_def)
  have "dlist (fnodes h1) ?fl (as @ a # bs)"
    using dlist_add_before_pos [OF d aL] by (simp add: h1_def)
  moreover have "chunk_ok h1 x" if "x \<in> set (as @ a # bs)" for x
    using that a ok xs by (auto simp: chunk_ok_def heap_top_def sel)
  ultimately have ar: "around h1 as a bs"
    using reg gap xs below above
    by (auto simp: around_def sel heap_region_def heap_top_def gapped_append frs_def)
  define last_chunk where "last_chunk = list_prev_type (fnodes h1) (free_list h1) a 0"
  define h2c where "h2c = (if last_chunk \<noteq> 0 \<and> last_chunk + clen h1 last_chunk = a
       then (h1\<lparr>clen := (clen h1)(last_chunk := clen h1 last_chunk + clen h1 a),
               fnodes := list_delete (fnodes h1) a\<rparr>, last_chunk)
       else (h1, a))"
  obtain h2 c where h2c': "(h2, c) = h2c" by (metis surj_pair)
  from merge_prev [OF ar last_chunk_def h2c' [unfolded h2c_def]] obtain as' where
    p: "around h2 as' c bs" "\<forall>x \<in> set as'. unat x + unat (clen h2 x) < unat c"
      "spans (frs h2 (as' @ c # bs)) = spans (frs h1 (as @ a # bs))" "same_heap h1 h2" by blast
  define h3 where "h3 = (if ?next \<noteq> 0 \<and> c + clen h2 c = ?next
       then h2\<lparr>clen := (clen h2)(c := clen h2 c + clen h2 ?next),
              fnodes := list_delete (fnodes h2) ?next\<rparr>
       else h2)"
  have "?next = hd (bs @ [free_list h2])" using p(4) sel by (simp add: same_heap_def)
  from merge_next [OF p(1,2) this h3_def] obtain ys where
    q: "free_ok h3 ys" "spans (frs h3 ys) = spans (frs h2 (as' @ c # bs))" "same_heap h2 h3" by blast
  have "heap_insert_free_chunk h a = Some (h3, c)"
    unfolding heap_insert_free_chunk_def walk Option.bind.simps(2) Let_def h1
      last_chunk_def [symmetric] h2c_def [symmetric] h2c' [symmetric] h3_def by simp
  moreover have "spans (frs h1 (as @ a # bs)) = spans (frs h xs) \<union> span (unat a, unat (clen h a))"
    using xs by (auto simp: frs_def sel)
  moreover have "same_heap h h3" using p(4) q(3) sel by (simp add: same_heap_def)
  ultimately show ?thesis using p(3) q(1,2) by blast
qed

section \<open>Powers of two and rounding\<close>

lemma word_and_not_mask: "x AND NOT (mask k) = push_bit k (drop_bit k (x :: u32))"
  by (rule bit_word_eqI) (auto simp: bit_simps)

lemma unat_and_not_mask: "unat (x AND NOT (mask k) :: u32) = unat x div 2 ^ k * 2 ^ k"
proof -
  have "unat x div 2 ^ k * 2 ^ k \<le> unat x" by (rule div_times_less_eq_dividend)
  then have "unat x div 2 ^ k * 2 ^ k < 2 ^ 32" using unat_lt_2p32 [of x] by (rule le_less_trans)
  then show ?thesis
    unfolding word_and_not_mask unsigned_push_bit_eq unsigned_drop_bit_eq
    by (simp add: push_bit_eq_mult drop_bit_eq_div take_bit_nat_eq_self unat_lt_2p32 [simplified])
qed

lemma unat_drop_bit_u32: "unat (drop_bit k x :: u32) = unat x div 2 ^ k"
  unfolding unsigned_drop_bit_eq
  by (simp add: drop_bit_eq_div take_bit_nat_eq_self unat_lt_2p32 [simplified])

lemma odd_part: "0 < (n :: nat) \<Longrightarrow> \<exists>k q. n = 2 ^ k * q \<and> odd q"
proof (induction n rule: less_induct)
  case (less n)
  show ?case
  proof (cases "odd n")
    case True
    then show ?thesis by (intro exI [of _ 0] exI [of _ n]) simp
  next
    case False
    then obtain m where m: "n = 2 * m" by blast
    then have "m < n" "0 < m" using less.prems by simp_all
    then obtain k q where "m = 2 ^ k * q" "odd q" using less.IH by blast
    with m have "n = 2 ^ Suc k * q" "odd q" by simp_all
    then show ?thesis by blast
  qed
qed

lemma pow2_word:
  assumes "x AND (x - 1) = 0" and "x \<noteq> (0 :: u32)"
  shows "\<exists>k < 32. x = 2 ^ k"
proof -
  have pos: "0 < unat x" using assms(2) by (simp add: unat_gt_0 word_neq_0_conv)
  then obtain k q where kq: "unat x = 2 ^ k * q" "odd q"
    using odd_part by blast
  then obtain r where r: "q = 2 * r + 1" by (elim oddE)
  have x: "unat x = r * 2 ^ Suc k + 2 ^ k" using kq r by (simp add: algebra_simps)
  have x1: "unat (x - 1) = r * 2 ^ Suc k + (2 ^ k - 1)" using x assms(2) by (simp add: unat_minus_one)
  have aux: "(r * d + c) div d = r" if "c < d" for r d c :: nat
    using that by simp
  have "unat x div 2 ^ Suc k = r" "unat (x - 1) div 2 ^ Suc k = r"
    unfolding x x1 by (intro aux; simp add: less_imp_diff_less)+
  then have "unat (drop_bit (Suc k) x) = r" "unat (drop_bit (Suc k) (x - 1)) = r"
    by (simp_all only: unat_drop_bit_u32)
  then have "drop_bit (Suc k) x = drop_bit (Suc k) (x - 1)" by (metis unsigned_word_eqI)
  then have "drop_bit (Suc k) x = drop_bit (Suc k) (x AND (x - 1))" by (simp add: drop_bit_and)
  then have "drop_bit (Suc k) x = 0" using assms(1) by simp
  with \<open>unat (drop_bit (Suc k) x) = r\<close> have "r = 0" by simp
  then have xk: "unat x = 2 ^ k" using x by simp
  have "k < 32" using xk unat_lt_2p32 [of x] by (metis power_strict_increasing_iff one_less_numeral_iff semiring_norm(76))
  moreover have "x = of_nat (unat x)" by simp
  then have "x = 2 ^ k" unfolding xk by simp
  ultimately show ?thesis by blast
qed

lemma ROUNDUP_pow2:
  assumes "k < 32" and "unat a + 2 ^ k \<le> 2 ^ 32"
  shows "unat (ROUNDUP a (2 ^ k)) = (unat a + (2 ^ k - 1)) div 2 ^ k * 2 ^ k"
proof -
  have "(2 ^ k - 1 :: u32) = mask k" by (simp add: mask_eq_exp_minus_1)
  moreover have "unat (a + (2 ^ k - 1)) = unat a + (2 ^ k - 1)"
  proof -
    have "(2 ^ k - 1 :: u32) = of_nat (2 ^ k - 1)" by (simp add: of_nat_diff)
    moreover have "unat a + (2 ^ k - 1) < 2 ^ 32" using assms by (simp add: le_less_trans diff_less Suc_le_eq)
    ultimately show ?thesis using unat_add_of_nat_u32 by metis
  qed
  ultimately show ?thesis by (simp add: ROUNDUP_def unat_and_not_mask)
qed

lemma round_bounds:
  fixes a m :: nat
  assumes "0 < m"
  shows "a \<le> (a + (m - 1)) div m * m" and "(a + (m - 1)) div m * m < a + m"
    and "m dvd (a + (m - 1)) div m * m"
proof -
  define q r where "q = (a + (m - 1)) div m * m" and "r = (a + (m - 1)) mod m"
  have "q + r = a + (m - 1)" unfolding q_def r_def by (rule div_mult_mod_eq)
  moreover have "r < m" using assms by (simp add: r_def)
  ultimately show "a \<le> (a + (m - 1)) div m * m" "(a + (m - 1)) div m * m < a + m"
    unfolding q_def [symmetric] using assms by linarith+
  show "m dvd (a + (m - 1)) div m * m" by simp
qed

section \<open>Taking a block out of a chunk\<close>

lemma alloc_walk_dlist:
  "dlist (fnodes h) (free_list h) (as @ bs) \<Longrightarrow>
    alloc_walk h sz (hd (bs @ [free_list h])) =
      Some (case find (\<lambda>c. sz \<le> clen h c) bs of Some c \<Rightarrow> c | None \<Rightarrow> 0)"
proof (induction bs arbitrary: as)
  case Nil
  then show ?case by (subst alloc_walk.simps) simp
next
  case (Cons x xs)
  have "x \<noteq> free_list h" using Cons.prems by (auto simp: dlist_def)
  moreover have "nxt (fnodes h) x = hd (xs @ [free_list h])" using Cons.prems by (rule dlist_links(2))
  ultimately show ?case
    using Cons.IH [of "as @ [x]"] Cons.prems by (subst alloc_walk.simps) simp
qed

text \<open>The block that is handed out, and the header in front of the payload.\<close>

definition payload :: "ptr \<Rightarrow> u32 \<Rightarrow> ptr" where
  "payload c al = (if al > 0 then ROUNDUP (c + SIZEOF_ALLOC_STRUCT_BEGIN) al else c + SIZEOF_ALLOC_STRUCT_BEGIN)"

lemma alloc_from_whole:
  assumes fr: "free_ok h (as @ c # bs)" and small: "\<not> clen h c > need + SIZEOF_FREE_HEAP_CHUNK"
    and r: "alloc_from h c need al = (h', p)"
  shows "free_ok h' (as @ bs) \<and> frs h' (as @ bs) = frs h (as @ bs) \<and> clen h' c = clen h c \<and> p = payload c al
    \<and> base h' = base h \<and> hlen h' = hlen h \<and> free_list h' = free_list h
    \<and> hdr h' = (hdr h)(p - 12 := \<lparr>magic = HEAP_MAGIC, aptr = c, asize = clen h c\<rparr>)"
proof -
  have h': "h' = h\<lparr>fnodes := list_delete (fnodes h) c,
      hdr := (hdr h)(p - 12 := \<lparr>magic = HEAP_MAGIC, aptr = c, asize = clen h c\<rparr>)\<rparr>"
    and p: "p = payload c al"
    using r small
    by (auto simp: alloc_from_def payload_def Let_def SIZEOF_ALLOC_STRUCT_BEGIN_def split: if_splits)
  have "dlist (fnodes h') (free_list h') (as @ bs)"
    using fr h' by (simp add: free_ok_def dlist_delete)
  moreover have "frs h' (as @ bs) = frs h (as @ bs)" using h' by (intro frs_cong) simp
  moreover have "gapped (frs h (as @ bs))" using fr by (auto simp: free_ok_def gapped_append gapped_Cons)
  moreover have "chunk_ok h' x" if "x \<in> set (as @ bs)" for x
    using that fr h' by (auto simp: free_ok_def chunk_ok_def heap_top_def)
  ultimately show ?thesis
    using fr h' p by (simp add: free_ok_def heap_region_def heap_top_def)
qed

lemma alloc_from_split:
  assumes fr: "free_ok h (as @ c # bs)" and big: "clen h c > need + SIZEOF_FREE_HEAP_CHUNK"
    and tot: "12 \<le> unat need" "4 dvd unat need" "need \<le> clen h c"
    and r: "alloc_from h c need al = (h', p)"
  shows "free_ok h' (as @ (c + need) # bs)
    \<and> frs h' (as @ (c + need) # bs) = frs h as @ (unat c + unat need, unat (clen h c) - unat need) # frs h bs
    \<and> clen h' c = need \<and> p = payload c al
    \<and> base h' = base h \<and> hlen h' = hlen h \<and> free_list h' = free_list h
    \<and> hdr h' = (hdr h)(p - 12 := \<lparr>magic = HEAP_MAGIC, aptr = c, asize = need\<rparr>)"
proof -
  let ?n = "c + need" and ?fl = "free_list h"
  have d: "dlist (fnodes h) ?fl (as @ c # bs)" and reg: "heap_region h" and cok: "chunk_ok h c"
    using fr by (auto simp: free_ok_def)
  note cw = chunk_ok_word [OF reg cok]
  have lt: "unat c + unat (clen h c) + 12 < 2 ^ 32" using cok reg by (simp add: chunk_ok_def heap_region_def)
  have le: "unat need \<le> unat (clen h c)" using tot(3) by (simp add: word_le_nat_alt)
  have "unat (need + 12) = unat need + 12"
    using unat_add_of_nat_u32 [of need 12] le lt by simp
  then have rest: "unat need + 12 < unat (clen h c)"
    using big by (simp add: word_less_nat_alt SIZEOF_FREE_HEAP_CHUNK_def)
  have n: "unat ?n = unat c + unat need"
    using unat_add_of_nat_u32 [of c "unat need"] le lt by simp
  have nl: "unat (clen h c - need) = unat (clen h c) - unat need"
    using tot(3) by (rule unat_sub)
  have cn: "c \<noteq> ?n" using n tot(1) by auto
  have gap: "gapped (frs h (as @ c # bs))" using fr by (simp add: free_ok_def)
  then have far: "\<And>x. x \<in> set as \<Longrightarrow> unat x + unat (clen h x) < unat c"
    "\<And>y. y \<in> set bs \<Longrightarrow> unat c + unat (clen h c) < unat y"
    by (auto simp: gapped_append gapped_Cons set_frs)
  have nin: "?n \<notin> set as" "?n \<notin> set bs"
    using far [of ?n] n le by auto
  have nfl: "?n \<noteq> ?fl" "?n \<noteq> 0"
    using n le cok reg tot(1) by (auto simp: chunk_ok_def heap_region_def)
  let ?nodes = "list_add_tail (list_delete (fnodes h) c) (hd (bs @ [?fl])) ?n"
  have nodes: "(if list_next (fnodes h) ?fl c \<noteq> 0
      then list_add_before (list_delete (fnodes h) c) (list_next (fnodes h) ?fl c) ?n
      else list_add_tail (list_delete (fnodes h) c) ?fl ?n) = ?nodes"
  proof (cases bs)
    case Nil
    then show ?thesis using dlist_next [OF d] by simp
  next
    case (Cons b bs0)
    then have "b \<noteq> 0" using d by (auto simp: dlist_def)
    with Cons show ?thesis using dlist_next [OF d] by (simp add: list_add_before_def)
  qed
  have h': "h' = h\<lparr>fnodes := ?nodes, clen := (clen h)(?n := clen h c - need, c := need),
      hdr := (hdr h)(p - 12 := \<lparr>magic = HEAP_MAGIC, aptr = c, asize = need\<rparr>)\<rparr>"
    and p: "p = payload c al"
    using r big cn nodes
    by (auto simp: alloc_from_def heap_create_free_chunk_def payload_def Let_def SIZEOF_ALLOC_STRUCT_BEGIN_def
        split: if_splits)
  have "dlist (list_delete (fnodes h) c) ?fl (as @ bs)" using d by (rule dlist_delete)
  then have "dlist ?nodes ?fl (as @ ?n # bs)"
    using nin nfl by (intro dlist_add_before_pos) auto
  moreover have "c \<notin> set as" "c \<notin> set bs" using d by (auto simp: dlist_def)
  then have old: "clen h' x = clen h x" if "x \<in> set as \<union> set bs" for x
    using that nin h' by auto
  then have "frs h' as = frs h as" "frs h' bs = frs h bs" by (auto intro!: frs_cong)
  moreover have new: "unat (clen h' ?n) = unat (clen h c) - unat need" using h' cn nl by simp
  ultimately have frs: "frs h' (as @ ?n # bs)
      = frs h as @ (unat c + unat need, unat (clen h c) - unat need) # frs h bs"
    by (simp add: n)
  have "gapped (frs h' (as @ ?n # bs))"
    unfolding frs using gap rest by (force simp: gapped_append gapped_Cons)
  moreover have "chunk_ok h' x" if x: "x \<in> set (as @ ?n # bs)" for x
  proof (cases "x = ?n")
    case True
    then show ?thesis using cok tot(2) rest new n le h' by (simp add: chunk_ok_def heap_top_def)
  next
    case False
    then show ?thesis using x old [of x] fr h' by (auto simp: free_ok_def chunk_ok_def heap_top_def)
  qed
  ultimately show ?thesis
    using \<open>dlist ?nodes ?fl (as @ ?n # bs)\<close> frs p reg h' cn
    by (simp add: free_ok_def heap_region_def heap_top_def)
qed

text \<open>Both cases: the block leaves the free addresses, and nothing else does.\<close>

lemma alloc_from_spec:
  assumes fr: "free_ok h xs" and c: "c \<in> set xs"
    and tot: "12 \<le> unat need" "4 dvd unat need" "need \<le> clen h c"
    and r: "alloc_from h c need al = (h', p)"
  shows "\<exists>ys n. free_ok h' ys \<and> chunk_ok h c \<and> unat need \<le> unat n \<and> 4 dvd unat n
    \<and> unat n \<le> unat (clen h c) \<and> span (unat c, unat n) \<subseteq> spans (frs h xs)
    \<and> spans (frs h' ys) = spans (frs h xs) - span (unat c, unat n) \<and> p = payload c al
    \<and> base h' = base h \<and> hlen h' = hlen h \<and> free_list h' = free_list h
    \<and> hdr h' = (hdr h)(p - 12 := \<lparr>magic = HEAP_MAGIC, aptr = c, asize = n\<rparr>)"
proof -
  obtain as bs where xs: "xs = as @ c # bs" using c by (metis split_list)
  note fr' = fr [unfolded xs]
  have cok: "chunk_ok h c" using fr c by (simp add: free_ok_def)
  have gap: "gapped (frs h (as @ c # bs))" using fr' by (simp add: free_ok_def)
  have far: "x \<in> spans (frs h as) \<Longrightarrow> x < unat c" "x \<in> spans (frs h bs) \<Longrightarrow> unat c + unat (clen h c) < x" for x
    using gap by (fastforce simp: gapped_append gapped_Cons spans_def span_def)+
  have sp: "spans (frs h xs) = spans (frs h as) \<union> span (unat c, unat (clen h c)) \<union> spans (frs h bs)"
    by (auto simp: xs)
  show ?thesis
  proof (cases "clen h c > need + SIZEOF_FREE_HEAP_CHUNK")
    case True
    from alloc_from_split [OF fr' True tot r]
    have s: "free_ok h' (as @ (c + need) # bs)"
      "frs h' (as @ (c + need) # bs) = frs h as @ (unat c + unat need, unat (clen h c) - unat need) # frs h bs"
      "p = payload c al" "base h' = base h" "hlen h' = hlen h" "free_list h' = free_list h"
      "hdr h' = (hdr h)(p - 12 := \<lparr>magic = HEAP_MAGIC, aptr = c, asize = need\<rparr>)" by blast+
    have le: "unat need \<le> unat (clen h c)" using tot(3) by (simp add: word_le_nat_alt)
    have "spans (frs h' (as @ (c + need) # bs)) = spans (frs h xs) - span (unat c, unat need)"
      unfolding s(2) sp using le far by (auto simp: span_def) (force simp: span_def)+
    moreover have "span (unat c, unat need) \<subseteq> spans (frs h xs)"
      unfolding sp using le by (auto simp: span_def)
    ultimately show ?thesis using s cok tot le by blast
  next
    case False
    from alloc_from_whole [OF fr' False r]
    have s: "free_ok h' (as @ bs)" "frs h' (as @ bs) = frs h (as @ bs)"
      "p = payload c al" "base h' = base h" "hlen h' = hlen h" "free_list h' = free_list h"
      "hdr h' = (hdr h)(p - 12 := \<lparr>magic = HEAP_MAGIC, aptr = c, asize = clen h c\<rparr>)" by blast+
    have "spans (frs h' (as @ bs)) = spans (frs h xs) - span (unat c, unat (clen h c))"
      unfolding s(2) sp using far by (auto simp: span_def) (force simp: span_def)+
    moreover have "span (unat c, unat (clen h c)) \<subseteq> spans (frs h xs)" unfolding sp by auto
    moreover have "unat need \<le> unat (clen h c)" using tot(3) by (simp add: word_le_nat_alt)
    moreover have "4 dvd unat (clen h c)" using cok by (simp add: chunk_ok_def)
    ultimately show ?thesis using s cok by blast
  qed
qed

section \<open>The heap and the blocks its clients hold\<close>

text \<open>
  \<open>live p = Some (c, n)\<close>: the client holds the payload \<open>p\<close> of the block of \<open>n\<close> bytes at \<open>c\<close>.
  Free chunks and blocks tile the heap, and every block has its header in front of its payload.
\<close>

type_synonym blocks = "ptr \<Rightarrow> (ptr \<times> u32) option"

definition bspan :: "ptr \<times> u32 \<Rightarrow> nat set" where
  "bspan b = span (unat (fst b), unat (snd b))"

definition block_ok :: "heap \<Rightarrow> ptr \<Rightarrow> ptr \<times> u32 \<Rightarrow> bool" where
  "block_ok h p b \<longleftrightarrow> unat (base h) \<le> unat (fst b) \<and> unat (fst b) + unat (snd b) \<le> heap_top h
     \<and> 12 \<le> unat (snd b) \<and> 4 dvd unat (fst b) \<and> 4 dvd unat (snd b)
     \<and> unat (fst b) + 12 \<le> unat p \<and> unat p \<le> unat (fst b) + unat (snd b)
     \<and> hdr h (p - 12) = \<lparr>magic = HEAP_MAGIC, aptr = fst b, asize = snd b\<rparr>"

definition heap_inv :: "heap \<Rightarrow> blocks \<Rightarrow> bool" where
  "heap_inv h live \<longleftrightarrow> (\<exists>xs. free_ok h xs
     \<and> spans (frs h xs) \<union> (\<Union>b \<in> ran live. bspan b) = {unat (base h) ..< heap_top h}
     \<and> (\<forall>b \<in> ran live. bspan b \<inter> spans (frs h xs) = {}))
     \<and> (\<forall>p b. live p = Some b \<longrightarrow> block_ok h p b)
     \<and> (\<forall>p q b c. live p = Some b \<longrightarrow> live q = Some c \<longrightarrow> p \<noteq> q \<longrightarrow> bspan b \<inter> bspan c = {})"

text \<open>The bytes a request takes, its header and worst-case padding included.\<close>

definition align_of :: "u32 \<Rightarrow> u32" where
  "align_of al = (if al > 0 \<and> al < 16 then 16 else al)"

definition need :: "u32 \<Rightarrow> u32 \<Rightarrow> nat" where
  "need sz al = (unat sz + 12 + 3) div 4 * 4 + unat (align_of al)"

lemma alloc_total_need:
  assumes "unat sz + 15 + unat (align_of al) < 2 ^ 32"
  shows "unat (alloc_total sz al) = need sz al"
proof -
  have s1: "unat (sz + 12) = unat sz + 12"
    using assms unat_add_of_nat_u32 [of sz 12] by simp
  then have s2: "\<not> sz + 12 < (12 :: u32)" by (simp add: word_less_nat_alt)
  have s3: "unat (ROUNDUP (sz + 12) 4) = (unat sz + 12 + 3) div 4 * 4"
    using ROUNDUP_pow2 [of 2 "sz + 12"] assms by (simp add: s1)
  also have "\<dots> \<le> unat sz + 15" by (simp add: div_times_less_eq_dividend)
  finally have le: "unat (ROUNDUP (sz + 12) 4) \<le> unat sz + 15" .
  then have "unat (ROUNDUP (sz + 12) 4 + align_of al) = unat (ROUNDUP (sz + 12) 4) + unat (align_of al)"
    using assms unat_add_of_nat_u32 [of "ROUNDUP (sz + 12) 4" "unat (align_of al)"] by simp
  moreover have "alloc_total sz al = ROUNDUP (sz + 12) 4 + align_of al"
    using s2 by (auto simp: alloc_total_def align_of_def Let_def SIZEOF_ALLOC_STRUCT_BEGIN_def
        SIZEOF_FREE_HEAP_CHUNK_def word_gt_0)
  ultimately show ?thesis by (simp add: s3 need_def)
qed

lemma align_of_pow2:
  assumes "al AND (al - 1) = 0" and "al \<noteq> 0"
  shows "\<exists>k. 4 \<le> k \<and> k < 32 \<and> align_of al = 2 ^ k"
proof (cases "al < 16")
  case True
  then have "align_of al = 2 ^ 4" using assms(2) by (simp add: align_of_def word_neq_0_conv)
  then show ?thesis by (intro exI [of _ 4]) simp
next
  case False
  from pow2_word [OF assms] obtain k where k: "k < 32" "al = 2 ^ k" by blast
  have "4 \<le> k"
  proof (rule ccontr)
    assume "\<not> 4 \<le> k"
    then have "k \<in> {0, 1, 2, 3}" by auto
    with k(2) False show False by auto
  qed
  with k False show ?thesis by (auto simp: align_of_def)
qed

lemma payload_bounds:
  assumes "al AND (al - 1) = 0" and "unat c + 12 + unat (align_of al) < 2 ^ 32"
  shows "unat c + 12 \<le> unat (payload c (align_of al))"
    and "unat (payload c (align_of al)) \<le> unat c + 12 + unat (align_of al)"
    and "unat (align_of al) dvd unat (payload c (align_of al)) \<or> al = 0"
proof -
  have c12: "unat (c + 12) = unat c + 12"
    using assms(2) unat_add_of_nat_u32 [of c 12] by simp
  have "unat c + 12 \<le> unat (payload c (align_of al))
    \<and> unat (payload c (align_of al)) \<le> unat c + 12 + unat (align_of al)
    \<and> (unat (align_of al) dvd unat (payload c (align_of al)) \<or> al = 0)"
  proof (cases "al = 0")
    case True
    then show ?thesis
      by (simp add: payload_def align_of_def SIZEOF_ALLOC_STRUCT_BEGIN_def c12)
  next
    case False
    from align_of_pow2 [OF assms(1) False] obtain k where k: "k < 32" "align_of al = 2 ^ k" by blast
    have "(2 :: nat) ^ k < 2 ^ 32" using k(1) by (intro power_strict_increasing) simp_all
    then have "unat (of_nat (2 ^ k) :: u32) = 2 ^ k" by (rule unat_of_nat_u32)
    with k(2) have al: "unat (align_of al) = 2 ^ k" by simp
    have "payload c (align_of al) = ROUNDUP (c + 12) (2 ^ k)"
      using k by (simp add: payload_def SIZEOF_ALLOC_STRUCT_BEGIN_def word_neq_0_conv [symmetric])
    moreover have "unat (ROUNDUP (c + 12) (2 ^ k)) = (unat (c + 12) + (2 ^ k - 1)) div 2 ^ k * 2 ^ k"
      using k assms(2) al c12 by (intro ROUNDUP_pow2) simp_all
    ultimately show ?thesis
      using round_bounds [of "2 ^ k" "unat c + 12"] by (simp add: al c12)
  qed
  then show "unat c + 12 \<le> unat (payload c (align_of al))"
    "unat (payload c (align_of al)) \<le> unat c + 12 + unat (align_of al)"
    "unat (align_of al) dvd unat (payload c (align_of al)) \<or> al = 0" by blast+
qed

lemma bspan_iff: "x \<in> bspan b \<longleftrightarrow> unat (fst b) \<le> x \<and> x < unat (fst b) + unat (snd b)"
  by (auto simp: bspan_def span_def)

text \<open>The addresses no client holds.\<close>

definition free_addrs :: "heap \<Rightarrow> blocks \<Rightarrow> nat set" where
  "free_addrs h live = {unat (base h) ..< heap_top h} - (\<Union>b \<in> ran live. bspan b)"

lemma heap_inv_free:
  assumes "heap_inv h live"
  obtains xs where "free_ok h xs" "spans (frs h xs) = free_addrs h live"
proof -
  from assms obtain xs where xs: "free_ok h xs"
    "spans (frs h xs) \<union> (\<Union>b \<in> ran live. bspan b) = {unat (base h) ..< heap_top h}"
    "\<forall>b \<in> ran live. bspan b \<inter> spans (frs h xs) = {}"
    by (auto simp: heap_inv_def)
  then have "spans (frs h xs) = free_addrs h live" unfolding free_addrs_def by blast
  with xs(1) show ?thesis by (rule that)
qed

lemma payload_in_block:
  assumes "block_ok h p b"
  shows "unat p - 12 \<in> bspan b" and "p \<noteq> 0"
  using assms by (auto simp: block_ok_def bspan_iff)

lemma heap_alloc_search:
  assumes fr: "free_ok h xs" and al: "al AND (al - 1) = 0"
  shows "heap_alloc h sz al = Some (case find (\<lambda>c. alloc_total sz al \<le> clen h c) xs of
    None \<Rightarrow> (h, 0) | Some c \<Rightarrow> alloc_from h c (alloc_total sz al) (align_of al))"
proof -
  have d: "dlist (fnodes h) (free_list h) ([] @ xs)" and reg: "heap_region h"
    using fr by (simp_all add: free_ok_def)
  have walk: "alloc_walk h (alloc_total sz al) (nxt (fnodes h) (free_list h)) =
      Some (case find (\<lambda>c. alloc_total sz al \<le> clen h c) xs of Some c \<Rightarrow> c | None \<Rightarrow> 0)"
    using alloc_walk_dlist [OF d] dlist_hd [OF d] by simp
  show ?thesis
  proof (cases "find (\<lambda>c. alloc_total sz al \<le> clen h c) xs")
    case None
    with walk al show ?thesis by (simp add: heap_alloc_def Let_def)
  next
    case (Some c)
    then have "c \<in> set xs" by (metis find_Some_iff nth_mem)
    then have "c \<noteq> 0" using fr chunk_ok_word(1) [OF reg] by (simp add: free_ok_def)
    with walk al Some show ?thesis by (simp add: heap_alloc_def Let_def align_of_def)
  qed
qed

lemma no_run:
  assumes fr: "free_ok h xs" and none: "find (\<lambda>c. t \<le> clen h c) xs = None" and t: "0 < unat t"
  shows "\<not> {a ..< a + unat t} \<subseteq> spans (frs h xs)"
proof
  assume "{a ..< a + unat t} \<subseteq> spans (frs h xs)"
  then obtain c where "c \<in> set xs" "unat c \<le> a" "a + unat t \<le> unat c + unat (clen h c)"
    using gapped_run [of "frs h xs" a "unat t"] fr t by (auto simp: free_ok_def set_frs)
  moreover then have "\<not> t \<le> clen h c" using none by (simp add: find_None_iff)
  ultimately show False by (simp add: word_le_nat_alt)
qed

lemma alloc_keeps_inv:
  assumes inv: "heap_inv h live" and fr: "free_ok h xs" and c: "c \<in> set xs"
    and al: "al AND (al - 1) = 0" and sz: "unat sz + 15 + unat (align_of al) < 2 ^ 32"
    and big: "alloc_total sz al \<le> clen h c"
    and r: "alloc_from h c (alloc_total sz al) (align_of al) = (h', p)"
  shows "\<exists>b. heap_inv h' (live(p \<mapsto> b)) \<and> live p = None \<and> p \<noteq> 0
    \<and> {unat p ..< unat p + unat sz} \<subseteq> bspan b \<and> (al = 0 \<or> unat (align_of al) dvd unat p)"
proof -
  have tot: "unat (alloc_total sz al) = need sz al" using sz by (rule alloc_total_need)
  have up: "unat sz + 12 \<le> (unat sz + 12 + 3) div 4 * 4"
    using round_bounds(1) [of 4 "unat sz + 12"] by simp
  have k4: "4 dvd unat (align_of al)"
  proof (cases "al = 0")
    case False
    from align_of_pow2 [OF al False] obtain k where k: "4 \<le> k" "k < 32" "align_of al = 2 ^ k" by blast
    have "(2 :: nat) ^ k < 2 ^ 32" using k(2) by (intro power_strict_increasing) simp_all
    then have "unat (of_nat (2 ^ k) :: u32) = 2 ^ k" by (rule unat_of_nat_u32)
    with k have "unat (align_of al) = 2 ^ k" by simp
    moreover have "(2 :: nat) ^ 2 dvd 2 ^ k" using k(1) by (intro le_imp_power_dvd) simp
    ultimately show ?thesis by simp
  qed (simp add: align_of_def)
  have t: "12 \<le> unat (alloc_total sz al)" "4 dvd unat (alloc_total sz al)"
    using tot up k4 by (simp_all add: need_def)
  from alloc_from_spec [OF fr c t big r] obtain ys n where a: "free_ok h' ys" "chunk_ok h c"
    "need sz al \<le> unat n" "4 dvd unat n" "unat n \<le> unat (clen h c)"
    "span (unat c, unat n) \<subseteq> spans (frs h xs)"
    "spans (frs h' ys) = spans (frs h xs) - span (unat c, unat n)" "p = payload c (align_of al)"
    "base h' = base h" "hlen h' = hlen h"
    "hdr h' = (hdr h)(p - 12 := \<lparr>magic = HEAP_MAGIC, aptr = c, asize = n\<rparr>)"
    unfolding tot by blast
  have topeq: "heap_top h' = heap_top h" using a(9,10) by (simp add: heap_top_def)
  have reg: "heap_region h" using fr by (simp add: free_ok_def)
  have nsz: "unat sz + 12 + unat (align_of al) \<le> unat n" using a(3) up by (simp add: need_def)
  have "unat c + 12 + unat (align_of al) < 2 ^ 32"
    using nsz a(2,5) reg by (simp add: chunk_ok_def heap_region_def)
  note pb = payload_bounds [OF al this, folded a(8)]
  let ?b = "(c, n)"
  have new: "block_ok h' p ?b"
    using a(2,4,5) nsz pb(1,2) a(9,11) topeq by (simp add: block_ok_def chunk_ok_def)
  have b: "bspan ?b \<subseteq> spans (frs h xs)" using a(6) by (simp add: bspan_def)
  from inv obtain xs' where xs': "free_ok h xs'"
    "spans (frs h xs') \<union> (\<Union>b \<in> ran live. bspan b) = {unat (base h) ..< heap_top h}"
    "\<forall>b \<in> ran live. bspan b \<inter> spans (frs h xs') = {}"
    and blk: "\<And>q b. live q = Some b \<Longrightarrow> block_ok h q b"
    and dis: "\<And>q r b c. live q = Some b \<Longrightarrow> live r = Some c \<Longrightarrow> q \<noteq> r \<Longrightarrow> bspan b \<inter> bspan c = {}"
    unfolding heap_inv_def by blast
  have "xs' = xs" using xs'(1) fr by (rule free_ok_unique)
  note xs = xs'(2,3) [unfolded this]
  have none: "live p = None"
  proof (rule ccontr)
    assume "live p \<noteq> None"
    then obtain b where b': "live p = Some b" by auto
    then have "unat p - 12 \<in> bspan b" using blk payload_in_block by blast
    moreover have "unat p - 12 \<in> bspan ?b" using new by (rule payload_in_block)
    moreover have "b \<in> ran live" using b' by (rule ranI)
    ultimately show False using xs(2) b by blast
  qed
  then have ran: "ran (live(p \<mapsto> ?b)) = insert ?b (ran live)" by (rule ran_map_upd)
  have "heap_inv h' (live(p \<mapsto> ?b))"
    unfolding heap_inv_def
  proof (intro conjI allI impI exI [of _ ys])
    show "spans (frs h' ys) \<union> (\<Union>b \<in> ran (live(p \<mapsto> ?b)). bspan b) = {unat (base h') ..< heap_top h'}"
      unfolding ran a(7,9) topeq xs(1) [symmetric] using b by (auto simp: bspan_def)
    show "\<forall>b \<in> ran (live(p \<mapsto> ?b)). bspan b \<inter> spans (frs h' ys) = {}"
      unfolding ran a(7) using xs(2) by (auto simp: bspan_def)
    show "block_ok h' q d" if "(live(p \<mapsto> ?b)) q = Some d" for q d
    proof (cases "q = p")
      case True
      with that new show ?thesis by simp
    next
      case False
      then have "q - 12 \<noteq> p - 12" by simp
      moreover have "block_ok h q d" using that False blk by simp
      ultimately show ?thesis using a(9,11) topeq by (simp add: block_ok_def)
    qed
    show "bspan d \<inter> bspan e = {}"
      if "(live(p \<mapsto> ?b)) q = Some d" "(live(p \<mapsto> ?b)) r = Some e" "q \<noteq> r" for q r d e
    proof -
      have "bspan ?b \<inter> bspan d = {} \<and> bspan d \<inter> bspan ?b = {}" if "live q = Some d" for q d
        using xs(2) b ranI [of live q d] that by blast
      then show ?thesis using that dis by (auto split: if_splits)
    qed
  qed (rule a(1))
  moreover have "{unat p ..< unat p + unat sz} \<subseteq> bspan ?b"
    using pb(1,2) nsz by (auto simp: bspan_iff)
  moreover have "p \<noteq> 0" using new by (rule payload_in_block)
  ultimately show ?thesis using none pb(3) by blast
qed

lemma heap_alloc_ok:
  assumes inv: "heap_inv h live" and al: "al AND (al - 1) = 0"
    and sz: "unat sz + 15 + unat (align_of al) < 2 ^ 32"
  shows "\<exists>h' p. heap_alloc h sz al = Some (h', p) \<and>
    (if p = 0 then h' = h \<and> \<not> (\<exists>a. {a ..< a + need sz al} \<subseteq> free_addrs h live)
     else live p = None \<and> (al = 0 \<or> unat (align_of al) dvd unat p)
       \<and> (\<exists>b. heap_inv h' (live(p \<mapsto> b)) \<and> {unat p ..< unat p + unat sz} \<subseteq> bspan b))"
proof -
  from inv obtain xs where xs: "free_ok h xs" "spans (frs h xs) = free_addrs h live"
    by (rule heap_inv_free)
  note alloc = heap_alloc_search [OF xs(1) al, of sz]
  show ?thesis
  proof (cases "find (\<lambda>c. alloc_total sz al \<le> clen h c) xs")
    case None
    have t: "unat (alloc_total sz al) = need sz al" using sz by (rule alloc_total_need)
    moreover have "0 < need sz al" using round_bounds(1) [of 4 "unat sz + 12"] by (simp add: need_def)
    ultimately have "\<not> {a ..< a + need sz al} \<subseteq> free_addrs h live" for a
      using no_run [OF xs(1) None] xs(2) by metis
    with alloc None show ?thesis by simp
  next
    case (Some c)
    then have c: "c \<in> set xs" "alloc_total sz al \<le> clen h c" by (metis find_Some_iff nth_mem)+
    obtain h' p where r: "alloc_from h c (alloc_total sz al) (align_of al) = (h', p)" by fastforce
    from alloc_keeps_inv [OF inv xs(1) c(1) al sz c(2) r] Some r alloc show ?thesis by auto
  qed
qed

lemma heap_free_ok:
  assumes inv: "heap_inv h live" and b: "live p = Some b"
  shows "\<exists>h'. heap_free h p = Some h' \<and> heap_inv h' (live(p := None))
    \<and> base h' = base h \<and> hlen h' = hlen h"
proof -
  from inv obtain xs where xs: "free_ok h xs"
    "spans (frs h xs) \<union> (\<Union>b \<in> ran live. bspan b) = {unat (base h) ..< heap_top h}"
    "\<forall>b \<in> ran live. bspan b \<inter> spans (frs h xs) = {}"
    and blk: "\<And>q b. live q = Some b \<Longrightarrow> block_ok h q b"
    and dis: "\<And>q r b c. live q = Some b \<Longrightarrow> live r = Some c \<Longrightarrow> q \<noteq> r \<Longrightarrow> bspan b \<inter> bspan c = {}"
    unfolding heap_inv_def by blast
  obtain c n where cn: "b = (c, n)" by fastforce
  have bok: "block_ok h p (c, n)" using blk [OF b] cn by simp
  have bran: "b \<in> ran live" using b by (rule ranI)
  define h1 where "h1 = h\<lparr>clen := (clen h)(c := n)\<rparr>"
  have sel: "base h1 = base h" "hlen h1 = hlen h" "free_list h1 = free_list h" "fnodes h1 = fnodes h"
    "hdr h1 = hdr h" "heap_top h1 = heap_top h"
    by (simp_all add: h1_def heap_top_def)
  have "c \<notin> set xs"
  proof
    assume c: "c \<in> set xs"
    then have "12 \<le> unat (clen h c)" using xs(1) by (auto simp: free_ok_def chunk_ok_def)
    with c have "unat c \<in> spans (frs h xs)" by (force simp: spans_def set_frs span_def)
    moreover have "unat c \<in> bspan b" using bok cn by (simp add: block_ok_def bspan_iff)
    ultimately show False using xs(3) bran by blast
  qed
  then have frs: "frs h1 xs = frs h xs" by (intro frs_cong) (auto simp: h1_def)
  have "chunk_ok h1 x" if "x \<in> set xs" for x
    using that \<open>c \<notin> set xs\<close> xs(1) by (auto simp: h1_def free_ok_def chunk_ok_def heap_top_def)
  then have fr1: "free_ok h1 xs"
    using xs(1) frs sel by (simp add: free_ok_def heap_region_def)
  have cok: "chunk_ok h1 c" using bok sel by (simp add: block_ok_def chunk_ok_def h1_def)
  have cb: "span (unat c, unat (clen h1 c)) = bspan b" using cn by (simp add: bspan_def h1_def)
  have "span (unat c, unat (clen h1 c)) \<inter> spans (frs h1 xs) = {}"
    unfolding cb frs using xs(3) bran by blast
  from heap_insert_free_chunk_spec [OF fr1 cok this, unfolded cb frs] obtain h' c' ys where
    ins: "heap_insert_free_chunk h1 c = Some (h', c')" "free_ok h' ys" "same_heap h1 h'"
      "spans (frs h' ys) = spans (frs h xs) \<union> bspan b" by blast
  have same: "base h' = base h" "hlen h' = hlen h" "hdr h' = hdr h" "heap_top h' = heap_top h"
    using ins(3) sel by (simp_all add: same_heap_def heap_top_def)
  have "p \<noteq> 0" using bok by (rule payload_in_block)
  moreover have "hdr h (p - 12) = \<lparr>magic = HEAP_MAGIC, aptr = c, asize = n\<rparr>"
    using bok by (simp add: block_ok_def)
  ultimately have "heap_free h p = Some h'"
    using ins(1) by (simp add: heap_free_def heap_create_free_chunk_def SIZEOF_ALLOC_STRUCT_BEGIN_def
        Let_def h1_def)
  moreover have "heap_inv h' (live(p := None))"
    unfolding heap_inv_def
  proof (intro conjI allI impI exI [of _ ys])
    have ran: "ran live = insert b (ran (live(p := None)))"
      using b by (auto simp: ran_def) (metis option.inject)
    have dran: "bspan d \<inter> bspan b = {}" if "d \<in> ran (live(p := None))" for d
    proof -
      from that obtain q where "live q = Some d" "q \<noteq> p" by (auto simp: ran_def split: if_splits)
      then show ?thesis using dis b by blast
    qed
    show "spans (frs h' ys) \<union> (\<Union>b \<in> ran (live(p := None)). bspan b) = {unat (base h') ..< heap_top h'}"
      unfolding same xs(2) [symmetric] ins(4) unfolding ran by auto
    show "\<forall>d \<in> ran (live(p := None)). bspan d \<inter> spans (frs h' ys) = {}"
      unfolding ins(4) using xs(3) dran ran by blast
    show "block_ok h' q d" if "(live(p := None)) q = Some d" for q d
    proof -
      have "block_ok h q d" using that blk by (auto split: if_splits)
      then show ?thesis using same by (simp add: block_ok_def)
    qed
    show "bspan d \<inter> bspan e = {}"
      if "(live(p := None)) q = Some d" "(live(p := None)) r = Some e" "q \<noteq> r" for q r d e
      using that dis by (auto split: if_splits)
  qed (rule ins(2))
  ultimately show ?thesis using same by blast
qed

text \<open>The whole free list is determined by what the clients hold.\<close>

lemma heap_inv_canonical:
  assumes "heap_inv h live" and "heap_inv h' live" and "base h' = base h" and "hlen h' = hlen h"
  shows "\<exists>xs ys. free_ok h xs \<and> free_ok h' ys \<and> frs h' ys = frs h xs"
proof -
  from assms(1) obtain xs where xs: "free_ok h xs" "spans (frs h xs) = free_addrs h live"
    by (rule heap_inv_free)
  from assms(2) obtain ys where ys: "free_ok h' ys" "spans (frs h' ys) = free_addrs h' live"
    by (rule heap_inv_free)
  have "free_addrs h' live = free_addrs h live" using assms(3,4) by (simp add: free_addrs_def heap_top_def)
  then have "frs h' ys = frs h xs"
    using xs ys by (intro gapped_unique) (simp_all add: free_ok_def)
  with xs(1) ys(1) show ?thesis by blast
qed

lemma heap_all_free:
  assumes "heap_inv h (\<lambda>_. None)" and "0 < unat (hlen h)"
  shows "\<exists>xs. free_ok h xs \<and> frs h xs = [(unat (base h), unat (hlen h))]"
proof -
  from assms(1) obtain xs where xs: "free_ok h xs" "spans (frs h xs) = free_addrs h (\<lambda>_. None)"
    by (rule heap_inv_free)
  have "frs h xs = [(unat (base h), unat (hlen h))]"
    using xs assms(2)
    by (intro gapped_unique) (simp_all add: free_ok_def gapped_Cons gapped_def free_addrs_def span_def heap_top_def)
  with xs(1) show ?thesis by blast
qed

lemma heap_init_ok:
  assumes "free_list h \<noteq> 0" and "unat (free_list h) < 0x100000 \<or> 0x200000 < unat (free_list h)"
  shows "\<exists>h'. heap_init h = Some h' \<and> heap_inv h' (\<lambda>_. None) \<and> base h' = HEAP_START \<and> hlen h' = HEAP_LEN"
proof -
  define h1 where "h1 = h\<lparr>base := HEAP_START, hlen := HEAP_LEN,
      fnodes := list_initialize (fnodes h) (free_list h), clen := (clen h)(HEAP_START := HEAP_LEN)\<rparr>"
  have fr: "free_ok h1 []"
    using assms by (simp add: free_ok_def h1_def heap_region_def heap_top_def HEAP_START_def HEAP_LEN_def
        dlist_initialize gapped_def)
  have ok: "chunk_ok h1 HEAP_START"
    by (simp add: chunk_ok_def h1_def heap_top_def HEAP_START_def HEAP_LEN_def)
  from heap_insert_free_chunk_spec [OF fr ok] obtain h' c ys where
    ins: "heap_insert_free_chunk h1 HEAP_START = Some (h', c)" "free_ok h' ys" "same_heap h1 h'"
      "spans (frs h' ys) = span (unat HEAP_START, unat (clen h1 HEAP_START))" by auto
  have "heap_init h = Some h'"
    using ins(1) by (simp add: heap_init_def heap_create_free_chunk_def Let_def h1_def)
  moreover have same: "base h' = HEAP_START" "hlen h' = HEAP_LEN"
    using ins(3) by (simp_all add: same_heap_def h1_def)
  moreover have "heap_inv h' (\<lambda>_. None)"
    unfolding heap_inv_def using ins(2,4) same
    by (intro conjI exI [of _ ys]) (simp_all add: span_def heap_top_def h1_def)
  ultimately show ?thesis by blast
qed

section \<open>Every history of requests\<close>

text \<open>
  The heap after \<open>heap_init\<close> and any sequence of allocations, whose sizes do not overflow the
  header arithmetic, and of frees of blocks that are held.
\<close>

definition block_at :: "heap \<Rightarrow> ptr \<Rightarrow> ptr \<times> u32" where
  "block_at h p = (aptr (hdr h (p - 12)), asize (hdr h (p - 12)))"

inductive heap_reach :: "heap \<Rightarrow> blocks \<Rightarrow> bool" where
  reach_init: "free_list h0 \<noteq> 0 \<Longrightarrow> unat (free_list h0) < 0x100000 \<or> 0x200000 < unat (free_list h0) \<Longrightarrow>
    heap_init h0 = Some h \<Longrightarrow> heap_reach h (\<lambda>_. None)"
| reach_alloc: "heap_reach h live \<Longrightarrow> al AND (al - 1) = 0 \<Longrightarrow> unat sz + 15 + unat (align_of al) < 2 ^ 32 \<Longrightarrow>
    heap_alloc h sz al = Some (h', p) \<Longrightarrow> p \<noteq> 0 \<Longrightarrow> heap_reach h' (live(p \<mapsto> block_at h' p))"
| reach_free: "heap_reach h live \<Longrightarrow> live p \<noteq> None \<Longrightarrow> heap_free h p = Some h' \<Longrightarrow>
    heap_reach h' (live(p := None))"

lemma block_at_eq: "heap_inv h (live(p \<mapsto> b)) \<Longrightarrow> block_at h p = b"
proof -
  assume "heap_inv h (live(p \<mapsto> b))"
  then have "\<forall>q c. (live(p \<mapsto> b)) q = Some c \<longrightarrow> block_ok h q c"
    unfolding heap_inv_def by (elim conjE)
  then have "block_ok h p b" by (metis fun_upd_same)
  then show ?thesis by (simp add: block_ok_def block_at_def)
qed

lemma heap_alloc_same:
  assumes "heap_inv h live" and "al AND (al - 1) = 0" and "unat sz + 15 + unat (align_of al) < 2 ^ 32"
    and "heap_alloc h sz al = Some (h', p)" and "p \<noteq> 0"
  shows "heap_inv h' (live(p \<mapsto> block_at h' p))" and "live p = None"
    and "{unat p ..< unat p + unat sz} \<subseteq> bspan (block_at h' p)"
    and "base h' = base h" and "hlen h' = hlen h"
proof -
  from heap_alloc_ok [OF assms(1-3)] assms(4,5) obtain b where
    "live p = None" "heap_inv h' (live(p \<mapsto> b))" "{unat p ..< unat p + unat sz} \<subseteq> bspan b" by auto
  then show "heap_inv h' (live(p \<mapsto> block_at h' p))" "live p = None"
    "{unat p ..< unat p + unat sz} \<subseteq> bspan (block_at h' p)"
    using block_at_eq [of h' live p b] by simp_all
  from assms(1) obtain xs where xs: "free_ok h xs" by (rule heap_inv_free)
  from heap_alloc_search [OF xs assms(2), of sz] assms(4,5) obtain c where
    "(h', p) = alloc_from h c (alloc_total sz al) (align_of al)"
    by (auto split: option.splits)
  then show "base h' = base h" "hlen h' = hlen h"
    by (auto simp: alloc_from_def heap_create_free_chunk_def Let_def split: if_splits)
qed

lemma heap_reach_inv: "heap_reach h live \<Longrightarrow> heap_inv h live \<and> base h = HEAP_START \<and> hlen h = HEAP_LEN"
proof (induction rule: heap_reach.induct)
  case (reach_init h0 h)
  then show ?case using heap_init_ok [of h0] by auto
next
  case (reach_alloc h live al sz h' p)
  then have "heap_inv h live" by simp
  note a = heap_alloc_same [OF this reach_alloc(2-5)]
  from a(1,4,5) reach_alloc.IH show ?case by (simp del: fun_upd_apply)
next
  case (reach_free h live p h')
  then show ?case using heap_free_ok [of h live p] by fastforce
qed

lemma heap_alloc_free_roundtrip:
  assumes inv: "heap_inv h live" and "al AND (al - 1) = 0" and "unat sz + 15 + unat (align_of al) < 2 ^ 32"
    and "heap_alloc h sz al = Some (h', p)" and "p \<noteq> 0"
  shows "\<exists>h''. heap_free h' p = Some h''
    \<and> (\<exists>xs ys. free_ok h xs \<and> free_ok h'' ys \<and> frs h'' ys = frs h xs)"
proof -
  note a = heap_alloc_same [OF assms]
  obtain h'' where f: "heap_free h' p = Some h''" "heap_inv h'' ((live(p \<mapsto> block_at h' p))(p := None))"
    "base h'' = base h'" "hlen h'' = hlen h'"
    using heap_free_ok [OF a(1), of p "block_at h' p"] by auto
  have "(live(p \<mapsto> block_at h' p))(p := None) = live" using a(2) by auto
  with f heap_inv_canonical [OF inv, of h''] a(4,5) show ?thesis by auto
qed

section \<open>Overflow and calloc\<close>

text \<open>
  The header size is added to the request without a check: a request of nearly 4 GB gets a
  block of 12 bytes, which is the header alone.
\<close>

lemma heap_alloc_overflow:
  assumes "free_ok h (c # xs)" and "2 ^ 32 - 12 \<le> unat sz"
  shows "\<exists>h'. heap_alloc h sz 0 = Some (h', c + 12) \<and> c + 12 \<noteq> 0"
proof -
  have "unat (sz + 12) = unat sz + 12 - 2 ^ 32"
    using assms(2) unat_lt_2p32 [of sz] by (simp add: unat_word_ariths mod_if)
  then have "sz + 12 < 12" using unat_lt_2p32 [of sz] by (simp add: word_less_nat_alt)
  then have t: "alloc_total sz 0 = 12"
    by (simp add: alloc_total_def Let_def SIZEOF_ALLOC_STRUCT_BEGIN_def SIZEOF_FREE_HEAP_CHUNK_def
        ROUNDUP_def)
  have cok: "chunk_ok h c" and reg: "heap_region h" using assms(1) by (simp_all add: free_ok_def)
  then have "alloc_total sz 0 \<le> clen h c" by (simp add: t chunk_ok_def word_le_nat_alt)
  moreover obtain h' p where r: "alloc_from h c (alloc_total sz 0) (align_of 0) = (h', p)" by fastforce
  ultimately have "heap_alloc h sz 0 = Some (h', p)"
    using heap_alloc_search [OF assms(1), of 0 sz] by simp
  moreover have "p = c + 12"
    using r by (auto simp: alloc_from_def Let_def align_of_def SIZEOF_ALLOC_STRUCT_BEGIN_def split: if_splits)
  moreover have "unat (c + 12) = unat c + 12"
    using unat_add_of_nat_u32 [of c 12] cok reg by (simp add: chunk_ok_def heap_region_def)
  then have "c + 12 \<noteq> 0" by (metis add_is_0 unat_0 zero_neq_numeral)
  ultimately show ?thesis by blast
qed

lemma calloc_zeroed:
  assumes "heap_inv h live" and "unat count * unat sz + 15 < 2 ^ 32"
  shows "\<exists>h' m' p. calloc h m count sz = Some (h', m', p) \<and>
    (if p = 0 then h' = h \<and> m' = m
     else (\<exists>b. heap_inv h' (live(p \<mapsto> b)) \<and> {unat p ..< unat p + unat count * unat sz} \<subseteq> bspan b)
       \<and> m' = wr m p (replicate (unat count * unat sz) 0))"
proof -
  have n: "unat (count * sz) = unat count * unat sz"
    using assms(2) by (simp add: unat_word_ariths)
  have "unat (count * sz) + 15 + unat (align_of 0) < 2 ^ 32" using assms(2) by (simp add: n align_of_def)
  moreover have "(0 :: u32) AND (0 - 1) = 0" by simp
  ultimately obtain h' p where
    r: "heap_alloc h (count * sz) 0 = Some (h', p)"
    "if p = 0 then h' = h else \<exists>b. heap_inv h' (live(p \<mapsto> b))
      \<and> {unat p ..< unat p + unat (count * sz)} \<subseteq> bspan b"
    using heap_alloc_ok [OF assms(1), of 0 "count * sz"] by (metis (full_types))
  then show ?thesis by (auto simp: calloc_def Let_def memset_wr n)
qed

end
