(* ===== verification/Lk_Ctype.thy ===== *)
theory Lk_Ctype
  imports Lk_Prelude
begin

text \<open>
  Character classes (\<open>lib/libc/ctype.c\<close>), number parsing (\<open>lib/libc/atoi.c\<close> and the
  \<open>hex2unsigned\<close> of \<open>app/aboot/fastboot.c\<close>) and the pseudo-random generator
  (\<open>lib/libc/rand.c\<close>). Characters are passed as \<open>int\<close>; a \<open>char\<close> read from memory is
  unsigned. The parsing loops run until a byte they do not accept, so they are partial
  functions; on a terminated string they return the value of its digits modulo \<open>2 ^ 32\<close>.
\<close>

section \<open>lib/libc/ctype.c\<close>

definition isblank :: "int \<Rightarrow> bool" where
  "isblank c \<longleftrightarrow> c = 32 \<or> c = 9"

definition isspace :: "int \<Rightarrow> bool" where
  "isspace c \<longleftrightarrow> c = 32 \<or> c = 12 \<or> c = 10 \<or> c = 13 \<or> c = 9 \<or> c = 11"

definition islower :: "int \<Rightarrow> bool" where
  "islower c \<longleftrightarrow> 97 \<le> c \<and> c \<le> 122"

definition isupper :: "int \<Rightarrow> bool" where
  "isupper c \<longleftrightarrow> 65 \<le> c \<and> c \<le> 90"

definition isdigit :: "int \<Rightarrow> bool" where
  "isdigit c \<longleftrightarrow> 48 \<le> c \<and> c \<le> 57"

definition isalpha :: "int \<Rightarrow> bool" where
  "isalpha c \<longleftrightarrow> isupper c \<or> islower c"

definition isalnum :: "int \<Rightarrow> bool" where
  "isalnum c \<longleftrightarrow> isalpha c \<or> isdigit c"

definition isxdigit :: "int \<Rightarrow> bool" where
  "isxdigit c \<longleftrightarrow> isdigit c \<or> (97 \<le> c \<and> c \<le> 102) \<or> (65 \<le> c \<and> c \<le> 70)"

definition tolower :: "int \<Rightarrow> int" where
  "tolower c = (if 65 \<le> c \<and> c \<le> 90 then c + (97 - 65) else c)"

definition toupper :: "int \<Rightarrow> int" where
  "toupper c = (if 97 \<le> c \<and> c \<le> 122 then c + (65 - 97) else c)"

lemmas ctype_defs = isblank_def isspace_def islower_def isupper_def isdigit_def isalpha_def
  isalnum_def isxdigit_def tolower_def toupper_def

section \<open>lib/libc/atoi.c\<close>

text \<open>Values are kept modulo \<open>2 ^ 32\<close>, as the 32-bit machine computes them.\<close>

definition hexval :: "u8 \<Rightarrow> u32" where
  "hexval c =
    (if 48 \<le> c \<and> c \<le> 57 then ucast c - 48
     else if 97 \<le> c \<and> c \<le> 102 then ucast c - 97 + 10
     else if 65 \<le> c \<and> c \<le> 70 then ucast c - 65 + 10
     else 0)"

partial_function (option) hex_loop :: "mem \<Rightarrow> ptr \<Rightarrow> u32 \<Rightarrow> u32 option" where
  "hex_loop m num v =
    (if m num \<noteq> 0 \<and> isxdigit (uint (m num)) then hex_loop m (num + 1) (v * 16 + hexval (m num))
     else Some v)"

partial_function (option) dec_loop :: "mem \<Rightarrow> ptr \<Rightarrow> u32 \<Rightarrow> u32 option" where
  "dec_loop m num v =
    (if m num \<noteq> 0 \<and> isdigit (uint (m num)) then dec_loop m (num + 1) (v * 10 + ucast (m num) - 48)
     else Some v)"

definition atoul :: "mem \<Rightarrow> ptr \<Rightarrow> u32 option" where
  "atoul m num =
    (if m num = 48 \<and> m (num + 1) = 120 then hex_loop m (num + 2) 0
     else dec_loop m num 0)"

definition atol :: "mem \<Rightarrow> ptr \<Rightarrow> int option" where
  "atol m num =
    (if m num = 48 \<and> m (num + 1) = 120 then map_option sint (hex_loop m (num + 2) 0)
     else
       (let neg = m num = 45; num1 = (if neg then num + 1 else num)
        in map_option (\<lambda>v. sint (if neg then - v else v)) (dec_loop m num1 0)))"

definition atoi :: "mem \<Rightarrow> ptr \<Rightarrow> int option" where
  "atoi m num = atol m num"

definition atoui :: "mem \<Rightarrow> ptr \<Rightarrow> u32 option" where
  "atoui m num = atoul m num"

section \<open>hex2unsigned (app/aboot/fastboot.c)\<close>

partial_function (option) hex2unsigned_loop :: "mem \<Rightarrow> ptr \<Rightarrow> u32 \<Rightarrow> u32 option" where
  "hex2unsigned_loop m x n =
    (let c = m x in
     if c \<noteq> 0 then
       (if 48 \<le> c \<and> c \<le> 57 then hex2unsigned_loop m (x + 1) (push_bit 4 n OR (ucast c - 48))
        else if 97 \<le> c \<and> c \<le> 102 then hex2unsigned_loop m (x + 1) (push_bit 4 n OR (ucast c - 97 + 10))
        else if 65 \<le> c \<and> c \<le> 70 then hex2unsigned_loop m (x + 1) (push_bit 4 n OR (ucast c - 65 + 10))
        else Some n)
     else Some n)"

definition hex2unsigned :: "mem \<Rightarrow> ptr \<Rightarrow> u32 option" where
  "hex2unsigned m x = hex2unsigned_loop m x 0"

section \<open>lib/libc/rand.c\<close>

definition rand :: "u32 \<Rightarrow> int \<times> u32" where
  "rand randseed = (let seed = randseed * 12345 + 17 in (sint seed, seed))"

section \<open>Lemmas\<close>

text \<open>The numbers that digit strings denote.\<close>

definition is_dec :: "u8 \<Rightarrow> bool" where
  "is_dec c \<longleftrightarrow> 48 \<le> uint c \<and> uint c \<le> 57"

definition is_hex :: "u8 \<Rightarrow> bool" where
  "is_hex c \<longleftrightarrow> isxdigit (uint c)"

definition dec_value :: "u8 list \<Rightarrow> nat" where
  "dec_value ds = foldl (\<lambda>v d. v * 10 + (unat d - 48)) 0 ds"

definition hex_digit :: "u8 \<Rightarrow> nat" where
  "hex_digit c = (if unat c \<le> 57 then unat c - 48 else if unat c \<le> 70 then unat c - 55 else unat c - 87)"

definition hex_value :: "u8 list \<Rightarrow> nat" where
  "hex_value ds = foldl (\<lambda>v d. v * 16 + hex_digit d) 0 ds"

lemma tolower_toupper_cases:
  "tolower (toupper c) = tolower c" "toupper (tolower c) = toupper c"
  by (auto simp: ctype_defs)

lemma is_dec_nz: "is_dec c \<Longrightarrow> c \<noteq> 0"
  by (auto simp: is_dec_def)

lemma is_hex_nz: "is_hex c \<Longrightarrow> c \<noteq> 0"
  by (auto simp: is_hex_def ctype_defs)

lemma dec_loop_digits:
  assumes "\<forall>d \<in> set ds. is_dec d" and "rd m p (length ds) = ds"
    and "\<not> is_dec (m (p + of_nat (length ds)))"
  shows "dec_loop m p (of_nat v) = Some (of_nat (foldl (\<lambda>v d. v * 10 + (unat d - 48)) v ds))"
  using assms
proof (induction ds arbitrary: p v)
  case Nil
  then show ?case by (subst dec_loop.simps) (auto simp: is_dec_def isdigit_def)
next
  case (Cons d ds)
  have d: "m p = d" "is_dec d" "d \<noteq> 0" using Cons.prems by (auto simp: rd_Suc is_dec_nz)
  have u: "uint d = int (unat d)" by simp
  have "48 \<le> unat d" using d(2) unfolding is_dec_def u by linarith
  then have step: "of_nat v * 10 + ucast d - 48 = (of_nat (v * 10 + (unat d - 48)) :: u32)"
    by (simp add: of_nat_diff)
  have "dec_loop m p (of_nat v) = dec_loop m (p + 1) (of_nat (v * 10 + (unat d - 48)))"
    using d by (subst dec_loop.simps) (simp add: is_dec_def isdigit_def step)
  also have "\<dots> = Some (of_nat (foldl (\<lambda>v d. v * 10 + (unat d - 48)) (v * 10 + (unat d - 48)) ds))"
    using Cons.prems by (intro Cons.IH) (auto simp: rd_Suc ac_simps)
  finally show ?case by simp
qed

lemma hexval_digit: "is_hex c \<Longrightarrow> hexval c = of_nat (hex_digit c)"
proof -
  assume h: "is_hex c"
  have c: "uint c = int (unat c)" by simp
  from h consider "48 \<le> unat c \<and> unat c \<le> 57" | "97 \<le> unat c \<and> unat c \<le> 102"
    | "65 \<le> unat c \<and> unat c \<le> 70"
    unfolding is_hex_def isxdigit_def isdigit_def c by linarith
  then show ?thesis
    by cases (simp_all add: hexval_def hex_digit_def word_le_nat_alt of_nat_diff)
qed

lemma hex_loop_digits:
  assumes "\<forall>d \<in> set ds. is_hex d" and "rd m p (length ds) = ds"
    and "\<not> is_hex (m (p + of_nat (length ds)))"
  shows "hex_loop m p (of_nat v) = Some (of_nat (foldl (\<lambda>v d. v * 16 + hex_digit d) v ds))"
  using assms
proof (induction ds arbitrary: p v)
  case Nil
  then show ?case by (subst hex_loop.simps) (auto simp: is_hex_def)
next
  case (Cons d ds)
  have d: "m p = d" "is_hex d" "d \<noteq> 0" using Cons.prems by (auto simp: rd_Suc is_hex_nz)
  have "hex_loop m p (of_nat v) = hex_loop m (p + 1) (of_nat (v * 16 + hex_digit d))"
    using d by (subst hex_loop.simps) (simp add: hexval_digit is_hex_def [symmetric])
  also have "\<dots> = Some (of_nat (foldl (\<lambda>v d. v * 16 + hex_digit d) (v * 16 + hex_digit d) ds))"
    using Cons.prems by (intro Cons.IH) (auto simp: rd_Suc ac_simps)
  finally show ?case by simp
qed

lemma is_hex_unat:
  "is_hex c \<longleftrightarrow> 48 \<le> unat c \<and> unat c \<le> 57 \<or> 97 \<le> unat c \<and> unat c \<le> 102
     \<or> 65 \<le> unat c \<and> unat c \<le> 70"
proof -
  have c: "uint c = int (unat c)" by simp
  show ?thesis unfolding is_hex_def isxdigit_def isdigit_def c by presburger
qed

lemma hex_digit_less: "is_hex c \<Longrightarrow> hex_digit c < 16"
  by (auto simp: is_hex_unat hex_digit_def)

lemma shift4_or:
  assumes "k < 16"
  shows "push_bit 4 n OR of_nat k = (n * 16 + of_nat k :: u32)"
proof -
  have "\<not> bit (of_nat k :: u32) i" if "4 \<le> i" for i
  proof -
    have "k < 2 ^ i" using assms that power_increasing [of 4 i "2 :: nat"] by simp
    then have "\<not> bit k i" by (simp add: bit_iff_odd)
    then show ?thesis by (simp add: bit_simps)
  qed
  then have "push_bit 4 n AND of_nat k = (0 :: u32)"
    by (intro bit_eqI) (auto simp: bit_simps)
  then have "push_bit 4 n OR of_nat k = push_bit 4 n + of_nat k"
    by (simp add: disjunctive_add_eq_or)
  then show ?thesis by (simp add: push_bit_eq_mult)
qed

lemma hex2unsigned_loop_hexval:
  "hex2unsigned_loop m x n =
    (if m x \<noteq> 0 \<and> is_hex (m x) then hex2unsigned_loop m (x + 1) (n * 16 + hexval (m x)) else Some n)"
proof -
  have h: "is_hex (m x) \<longleftrightarrow> 48 \<le> m x \<and> m x \<le> 57 \<or> 97 \<le> m x \<and> m x \<le> 102 \<or> 65 \<le> m x \<and> m x \<le> 70"
    by (simp add: is_hex_unat word_le_nat_alt)
  show ?thesis
  proof (cases "is_hex (m x)")
    case True
    have "push_bit 4 n OR hexval (m x) = n * 16 + hexval (m x)"
      using True by (simp add: hexval_digit shift4_or hex_digit_less)
    with True h show ?thesis
      by (subst hex2unsigned_loop.simps) (auto simp: Let_def hexval_def split: if_splits)
  next
    case False
    with h show ?thesis by (subst hex2unsigned_loop.simps) (auto simp: Let_def)
  qed
qed

lemma hex2unsigned_loop_digits:
  assumes "\<forall>d \<in> set ds. is_hex d" and "rd m p (length ds) = ds"
    and "\<not> is_hex (m (p + of_nat (length ds)))"
  shows "hex2unsigned_loop m p (of_nat v) = Some (of_nat (foldl (\<lambda>v d. v * 16 + hex_digit d) v ds))"
  using assms
proof (induction ds arbitrary: p v)
  case Nil
  then show ?case by (subst hex2unsigned_loop_hexval) (auto simp: is_hex_def)
next
  case (Cons d ds)
  have d: "m p = d" "is_hex d" "d \<noteq> 0" using Cons.prems by (auto simp: rd_Suc is_hex_nz)
  have "hex2unsigned_loop m p (of_nat v) = hex2unsigned_loop m (p + 1) (of_nat (v * 16 + hex_digit d))"
    using d by (subst hex2unsigned_loop_hexval) (simp add: hexval_digit)
  also have "\<dots> = Some (of_nat (foldl (\<lambda>v d. v * 16 + hex_digit d) (v * 16 + hex_digit d) ds))"
    using Cons.prems by (intro Cons.IH) (auto simp: rd_Suc ac_simps)
  finally show ?case by simp
qed

lemma not_dec_0 [simp]: "\<not> is_dec 0"
  by (simp add: is_dec_def)

lemma not_hex_0 [simp]: "\<not> is_hex 0"
  by (simp add: is_hex_def ctype_defs)

lemma not_0x_prefix:
  assumes "cstr m p ds" and "\<forall>d \<in> set ds. is_dec d"
  shows "\<not> (m p = 48 \<and> m (p + 1) = 120)"
proof (cases ds rule: list.exhaust)
  case (Cons d ds')
  with assms show ?thesis by (cases ds') (auto simp: is_dec_def)
qed (use assms in auto)

lemma atoul_decimal:
  assumes "cstr m p ds" and "\<forall>d \<in> set ds. is_dec d"
  shows "atoul m p = Some (of_nat (dec_value ds))"
  using assms not_0x_prefix [OF assms] dec_loop_digits [of ds m p 0]
  by (auto simp: atoul_def dec_value_def cstr_iff)

lemma atoul_hex:
  assumes "cstr m p (48 # 120 # ds)" and "\<forall>d \<in> set ds. is_hex d"
  shows "atoul m p = Some (of_nat (hex_value ds))"
  using assms hex_loop_digits [of ds m "p + 2" 0]
  by (auto simp: atoul_def hex_value_def cstr_iff [of m "p + 2"] add.assoc)

lemma atoi_decimal:
  assumes "cstr m p ds" and "\<forall>d \<in> set ds. is_dec d"
  shows "atoi m p = Some (sint (of_nat (dec_value ds) :: u32))"
proof -
  have "m p \<noteq> 45" using assms by (cases ds) (auto simp: is_dec_def)
  then show ?thesis
    using assms not_0x_prefix [OF assms] dec_loop_digits [of ds m p 0]
    by (auto simp: atoi_def atol_def dec_value_def cstr_iff)
qed

lemma atoi_negative:
  assumes "cstr m p (45 # ds)" and "\<forall>d \<in> set ds. is_dec d"
  shows "atoi m p = Some (sint (- of_nat (dec_value ds) :: u32))"
  using assms dec_loop_digits [of ds m "p + 1" 0]
  by (auto simp: atoi_def atol_def dec_value_def cstr_iff [of m "p + 1"])

lemma hex2unsigned_value:
  assumes "cstr m p ds" and "\<forall>d \<in> set ds. is_hex d"
  shows "hex2unsigned m p = Some (of_nat (hex_value ds))"
  using assms hex2unsigned_loop_digits [of ds m p 0]
  by (auto simp: hex2unsigned_def hex_value_def cstr_iff)

lemma hex2unsigned_total:
  assumes "cstr m p xs"
  shows "\<exists>v. hex2unsigned m p = Some v"
proof -
  let ?ds = "takeWhile is_hex xs"
  have xs: "xs = ?ds @ dropWhile is_hex xs" by simp
  have "cstr m p (?ds @ dropWhile is_hex xs)" using assms by simp
  then have rd: "rd m p (length ?ds) = ?ds" and r: "cstr m (p + of_nat (length ?ds)) (dropWhile is_hex xs)"
    unfolding cstr_append_iff by auto
  have "\<not> is_hex (m (p + of_nat (length ?ds)))"
    using r hd_dropWhile [of is_hex xs] by (cases "dropWhile is_hex xs") auto
  with rd have "hex2unsigned_loop m p (of_nat 0) \<noteq> None"
    using hex2unsigned_loop_digits [of ?ds m p 0] by (auto dest: set_takeWhileD)
  then show ?thesis by (auto simp: hex2unsigned_def)
qed

lemma rand_inj: "snd (rand s) = snd (rand t) \<Longrightarrow> s = t"
proof -
  have inv: "(12345 * 1440005641 :: u32) = 1" by simp
  assume "snd (rand s) = snd (rand t)"
  then have "s * 12345 = t * 12345" by (simp add: rand_def Let_def)
  then have "s * 12345 * 1440005641 = t * 12345 * 1440005641" by (rule arg_cong)
  then show ?thesis unfolding mult.assoc inv by (simp only: mult_1_right)
qed

end
