(* ===== verification/Lk_String.thy ===== *)
theory Lk_String
  imports Lk_Mem Lk_Ctype
begin

text \<open>
  The string routines of \<open>lib/libc/string\<close> on the flat byte memory. A loop that only a
  NUL byte stops is a \<open>partial_function (option)\<close>: \<open>None\<close> is a loop that never ends
  (a memory without a zero byte); a loop with a count is structural on it. The lemmas state
  each routine's effect on terminated strings, overlap conditions included.
\<close>

section \<open>Length and comparison\<close>

partial_function (option) strlen_loop :: "mem \<Rightarrow> ptr \<Rightarrow> u32 \<Rightarrow> u32 option" where
  "strlen_loop m s i = (if m (s + i) \<noteq> 0 then strlen_loop m s (i + 1) else Some i)"

definition strlen :: "mem \<Rightarrow> ptr \<Rightarrow> u32 option" where
  "strlen m s = strlen_loop m s 0"

fun strnlen_loop :: "mem \<Rightarrow> ptr \<Rightarrow> nat \<Rightarrow> ptr" where
  "strnlen_loop m sc 0 = sc"
| "strnlen_loop m sc (Suc count) = (if m sc \<noteq> 0 then strnlen_loop m (sc + 1) count else sc)"

definition strnlen :: "mem \<Rightarrow> ptr \<Rightarrow> u32 \<Rightarrow> u32" where
  "strnlen m s count = strnlen_loop m s (unat count) - s"

text \<open>The comparisons keep the difference of two bytes in a \<open>signed char\<close>.\<close>

partial_function (option) strcmp :: "mem \<Rightarrow> ptr \<Rightarrow> ptr \<Rightarrow> int option" where
  "strcmp m cs ct =
    (let res = m cs - m ct in
     if res \<noteq> 0 then Some (sint res)
     else if m cs = 0 then Some (sint res)
     else strcmp m (cs + 1) (ct + 1))"

fun strncmp_loop :: "mem \<Rightarrow> ptr \<Rightarrow> ptr \<Rightarrow> nat \<Rightarrow> u8" where
  "strncmp_loop m cs ct 0 = 0"
| "strncmp_loop m cs ct (Suc count) =
    (let res = m cs - m ct in
     if res \<noteq> 0 then res
     else if m cs = 0 then res
     else strncmp_loop m (cs + 1) (ct + 1) count)"

definition strncmp :: "mem \<Rightarrow> ptr \<Rightarrow> ptr \<Rightarrow> u32 \<Rightarrow> int" where
  "strncmp m cs ct count = sint (strncmp_loop m cs ct (unat count))"

fun strnicmp_loop :: "mem \<Rightarrow> ptr \<Rightarrow> ptr \<Rightarrow> nat \<Rightarrow> int" where
  "strnicmp_loop m s1 s2 0 = 0"
| "strnicmp_loop m s1 s2 (Suc len) =
    (let c1 = uint (m s1); c2 = uint (m s2) in
     if c1 = 0 then c1 - c2
     else if c2 = 0 then c1 - c2
     else if c1 = c2 then (if len = 0 then c1 - c2 else strnicmp_loop m (s1 + 1) (s2 + 1) len)
     else (let d1 = tolower c1; d2 = tolower c2 in
           if d1 \<noteq> d2 then d1 - d2
           else if len = 0 then d1 - d2
           else strnicmp_loop m (s1 + 1) (s2 + 1) len))"

definition strnicmp :: "mem \<Rightarrow> ptr \<Rightarrow> ptr \<Rightarrow> u32 \<Rightarrow> int" where
  "strnicmp m s1 s2 len = (if len > 0 then strnicmp_loop m s1 s2 (unat len) else 0)"

definition strcoll :: "mem \<Rightarrow> ptr \<Rightarrow> ptr \<Rightarrow> int option" where
  "strcoll m s1 s2 = strcmp m s1 s2"

section \<open>Copying and concatenating\<close>

partial_function (option) strcpy_loop :: "mem \<Rightarrow> ptr \<Rightarrow> ptr \<Rightarrow> mem option" where
  "strcpy_loop m dest src =
    (let m' = m(dest := m src) in
     if m src \<noteq> 0 then strcpy_loop m' (dest + 1) (src + 1) else Some m')"

definition strcpy :: "mem \<Rightarrow> ptr \<Rightarrow> ptr \<Rightarrow> (mem \<times> ptr) option" where
  "strcpy m dest src = map_option (\<lambda>m'. (m', dest)) (strcpy_loop m dest src)"

partial_function (option) strend :: "mem \<Rightarrow> ptr \<Rightarrow> ptr option" where
  "strend m dest = (if m dest \<noteq> 0 then strend m (dest + 1) else Some dest)"

definition strcat :: "mem \<Rightarrow> ptr \<Rightarrow> ptr \<Rightarrow> (mem \<times> ptr) option" where
  "strcat m dest src =
    do { e \<leftarrow> strend m dest; m' \<leftarrow> strcpy_loop m e src; Some (m', dest) }"

text \<open>Entered with \<open>count > 0\<close> only.\<close>

fun strncat_loop :: "mem \<Rightarrow> ptr \<Rightarrow> ptr \<Rightarrow> nat \<Rightarrow> mem" where
  "strncat_loop m dest src 0 = m"
| "strncat_loop m dest src (Suc count) =
    (let m' = m(dest := m src) in
     if m src = 0 then m'
     else if count = 0 then m'(dest + 1 := 0)
     else strncat_loop m' (dest + 1) (src + 1) count)"

definition strncat :: "mem \<Rightarrow> ptr \<Rightarrow> ptr \<Rightarrow> u32 \<Rightarrow> (mem \<times> ptr) option" where
  "strncat m dest src count =
    (if count > 0
     then do { e \<leftarrow> strend m dest; Some (strncat_loop m e src (unat count), dest) }
     else Some (m, dest))"

fun strncpy_loop :: "mem \<Rightarrow> ptr \<Rightarrow> ptr \<Rightarrow> nat \<Rightarrow> mem" where
  "strncpy_loop m dest src 0 = m"
| "strncpy_loop m dest src (Suc count) =
    (let m' = m(dest := m src) in
     if m src \<noteq> 0 then strncpy_loop m' (dest + 1) (src + 1) count else m')"

definition strncpy :: "mem \<Rightarrow> ptr \<Rightarrow> ptr \<Rightarrow> u32 \<Rightarrow> mem \<times> ptr" where
  "strncpy m dest src count = (strncpy_loop m dest src (unat count), dest)"

text \<open>The bounded \<open>for\<close> loop of \<open>strlcpy\<close> and \<open>strlcat\<close>; the last argument is \<open>s - 1 - i\<close>.\<close>

fun strl_loop :: "mem \<Rightarrow> ptr \<Rightarrow> ptr \<Rightarrow> u32 \<Rightarrow> nat \<Rightarrow> mem \<times> u32" where
  "strl_loop m dst src i 0 = (m, i)"
| "strl_loop m dst src i (Suc n) =
    (if m (src + i) \<noteq> 0 then strl_loop (m(dst + i := m (src + i))) dst src (i + 1) n else (m, i))"

definition strlcpy :: "mem \<Rightarrow> ptr \<Rightarrow> ptr \<Rightarrow> u32 \<Rightarrow> (mem \<times> u32) option" where
  "strlcpy m dst src s =
    (if s = 0 then do { n \<leftarrow> strlen m src; Some (m, n) }
     else
       (let (m1, i) = strl_loop m dst src 0 (unat (s - 1)); m2 = m1(dst + i := 0)
        in do { n \<leftarrow> strlen m2 (src + i); Some (m2, i + n) }))"

definition strlcat :: "mem \<Rightarrow> ptr \<Rightarrow> ptr \<Rightarrow> u32 \<Rightarrow> (mem \<times> u32) option" where
  "strlcat m dst src s =
    (let j = strnlen m dst s in
     if s = 0 then do { n \<leftarrow> strlen m src; Some (m, j + n) }
     else
       (let dst1 = dst + j; (m1, i) = strl_loop m dst1 src 0 (unat (s - 1)); m2 = m1(dst1 + i := 0)
        in do { n \<leftarrow> strlen m2 (src + i); Some (m2, j + i + n) }))"

definition strxfrm :: "mem \<Rightarrow> ptr \<Rightarrow> ptr \<Rightarrow> u32 \<Rightarrow> (mem \<times> u32) option" where
  "strxfrm m dest src n =
    do { len \<leftarrow> strlen m src;
         if n \<noteq> 0 then
           (let copy_len = (if len < n then len else n - 1);
                (m1, _) = memcpy m dest src copy_len
            in Some (m1(dest + copy_len := 0), len))
         else Some (m, len) }"

text \<open>
  The allocator is a parameter of \<open>strdup\<close>: it takes the size and returns the block, or 0
  (the heap's own state is modelled in its own theory, not in this byte memory).
\<close>

definition strdup :: "(u32 \<Rightarrow> ptr) \<Rightarrow> mem \<Rightarrow> ptr \<Rightarrow> (mem \<times> ptr) option" where
  "strdup malloc m str =
    do { n \<leftarrow> strlen m str;
         let len = n + 1; copy = malloc len in
         if copy = 0 then Some (m, 0) else Some (fst (memcpy m copy str len), copy) }"

section \<open>Searching\<close>

partial_function (option) strchr_loop :: "mem \<Rightarrow> ptr \<Rightarrow> u8 \<Rightarrow> ptr option" where
  "strchr_loop m s c =
    (if m s \<noteq> c then (if m s = 0 then Some 0 else strchr_loop m (s + 1) c) else Some s)"

definition strchr :: "mem \<Rightarrow> ptr \<Rightarrow> u32 \<Rightarrow> ptr option" where
  "strchr m s c = strchr_loop m s (ucast c)"

partial_function (option) strrchr_loop :: "mem \<Rightarrow> ptr \<Rightarrow> u32 \<Rightarrow> ptr \<Rightarrow> ptr option" where
  "strrchr_loop m s c lst =
    (if m s \<noteq> 0 then strrchr_loop m (s + 1) c (if ucast (m s) = c then s else lst) else Some lst)"

definition strrchr :: "mem \<Rightarrow> ptr \<Rightarrow> u32 \<Rightarrow> ptr option" where
  "strrchr m s c = strrchr_loop m s c (if c \<noteq> 0 then 0 else s)"

text \<open>The inner loops of \<open>strpbrk\<close> and \<open>strspn\<close>: is the byte in the set string?\<close>

partial_function (option) in_set_str :: "mem \<Rightarrow> u8 \<Rightarrow> ptr \<Rightarrow> bool option" where
  "in_set_str m x a =
    (if m a \<noteq> 0 then (if x = m a then Some True else in_set_str m x (a + 1)) else Some False)"

partial_function (option) strpbrk :: "mem \<Rightarrow> ptr \<Rightarrow> ptr \<Rightarrow> ptr option" where
  "strpbrk m sc1 ct =
    (if m sc1 \<noteq> 0 then
       do { found \<leftarrow> in_set_str m (m sc1) ct;
            if found then Some sc1 else strpbrk m (sc1 + 1) ct }
     else Some 0)"

partial_function (option) strspn_loop :: "mem \<Rightarrow> ptr \<Rightarrow> ptr \<Rightarrow> u32 \<Rightarrow> u32 option" where
  "strspn_loop m p accept count =
    (if m p \<noteq> 0 then
       do { found \<leftarrow> in_set_str m (m p) accept;
            if \<not> found then Some count else strspn_loop m (p + 1) accept (count + 1) }
     else Some count)"

definition strspn :: "mem \<Rightarrow> ptr \<Rightarrow> ptr \<Rightarrow> u32 option" where
  "strspn m s accept = strspn_loop m s accept 0"

text \<open>\<open>l1\<close> and \<open>l2\<close> are \<open>int\<close>s.\<close>

function strstr_loop :: "mem \<Rightarrow> ptr \<Rightarrow> ptr \<Rightarrow> int \<Rightarrow> int \<Rightarrow> ptr" where
  "strstr_loop m s1 s2 l1 l2 =
    (if l2 \<le> l1 then
       (if memcmp m s1 s2 (word_of_int l2) = 0 then s1 else strstr_loop m (s1 + 1) s2 (l1 - 1) l2)
     else 0)"
  by pat_completeness auto

termination
  by (relation "measure (\<lambda>(m, s1, s2, l1, l2). nat (l1 - l2 + 1))") auto

declare strstr_loop.simps [simp del]

definition strstr :: "mem \<Rightarrow> ptr \<Rightarrow> ptr \<Rightarrow> ptr option" where
  "strstr m s1 s2 =
    do { n2 \<leftarrow> strlen m s2;
         if n2 = 0 then Some s1
         else do { n1 \<leftarrow> strlen m s1; Some (strstr_loop m s1 s2 (sint n1) (sint n2)) } }"

text \<open>\<open>strtok\<close> keeps the place to go on from in the static \<open>___strtok\<close>, passed and returned here.\<close>

definition strtok :: "mem \<times> ptr \<Rightarrow> ptr \<Rightarrow> ptr \<Rightarrow> ((mem \<times> ptr) \<times> ptr) option" where
  "strtok st s ct =
    (let (m, saved) = st; sbegin = (if s \<noteq> 0 then s else saved) in
     if sbegin = 0 then Some (st, 0)
     else do {
       n \<leftarrow> strspn m sbegin ct;
       let sbegin = sbegin + n in
       if m sbegin = 0 then Some ((m, 0), 0)
       else do {
         send \<leftarrow> strpbrk m sbegin ct;
         if send \<noteq> 0 \<and> m send \<noteq> 0 then Some ((m(send := 0), send + 1), sbegin)
         else Some ((m, send), sbegin) } })"

definition strerror :: "int \<Rightarrow> string" where
  "strerror errnum = (if errnum < 0 then ''General Error'' else ''No Error'')"

section \<open>Length\<close>

lemma strlen_loop_cstr: "cstr m (s + i) xs \<Longrightarrow> strlen_loop m s i = Some (i + of_nat (length xs))"
proof (induction xs arbitrary: i)
  case Nil
  then show ?case by (subst strlen_loop.simps) simp
next
  case (Cons x xs)
  then show ?case using Cons.IH [of "i + 1"] by (subst strlen_loop.simps) (simp add: ac_simps)
qed

lemma strlen_cstr: "cstr m p xs \<Longrightarrow> strlen m p = Some (of_nat (length xs))"
  using strlen_loop_cstr [of m p 0 xs] by (simp add: strlen_def)

lemma strnlen_loop_cstr:
  "cstr m p xs \<Longrightarrow> strnlen_loop m p n = p + of_nat (min (length xs) n)"
proof (induction n arbitrary: p xs)
  case (Suc n)
  then show ?case by (cases xs) (auto simp: ac_simps)
qed simp

lemma strnlen_cstr: "cstr m p xs \<Longrightarrow> strnlen m p n = of_nat (min (length xs) (unat n))"
  by (simp add: strnlen_def strnlen_loop_cstr)

section \<open>Comparison\<close>

text \<open>What the comparing loops return: the first difference of the two terminated strings.\<close>

fun byte_diff :: "u8 list \<Rightarrow> u8 list \<Rightarrow> u8" where
  "byte_diff [] [] = 0"
| "byte_diff [] (y # ys) = - y"
| "byte_diff (x # xs) [] = x"
| "byte_diff (x # xs) (y # ys) = (if x = y then byte_diff xs ys else x - y)"

lemma strcmp_byte_diff:
  "cstr m p xs \<Longrightarrow> cstr m q ys \<Longrightarrow> strcmp m p q = Some (sint (byte_diff xs ys))"
proof (induction xs ys arbitrary: p q rule: byte_diff.induct)
  case (4 x xs y ys)
  then show ?case by (subst strcmp.simps) (auto simp: Let_def)
qed (subst strcmp.simps, auto simp: Let_def)+

lemma strncmp_loop_byte_diff:
  "cstr m p xs \<Longrightarrow> cstr m q ys \<Longrightarrow> strncmp_loop m p q n = byte_diff (take n xs) (take n ys)"
proof (induction xs ys arbitrary: p q n rule: byte_diff.induct)
  case (4 x xs y ys)
  then show ?case by (cases n) (auto simp: Let_def)
qed (case_tac n; auto simp: Let_def)+

lemma byte_diff_0_iff: "0 \<notin> set xs \<Longrightarrow> 0 \<notin> set ys \<Longrightarrow> byte_diff xs ys = 0 \<longleftrightarrow> xs = ys"
  by (induction xs ys rule: byte_diff.induct) auto

lemma cstr_no_nul: "cstr m p xs \<Longrightarrow> 0 \<notin> set xs"
  by (simp add: cstr_iff)

lemma strcmp_eq:
  assumes "cstr m p xs" and "cstr m q ys"
  shows "strcmp m p q = Some 0 \<longleftrightarrow> xs = ys"
  using assms by (simp add: strcmp_byte_diff byte_diff_0_iff cstr_no_nul)

lemma strncmp_eq:
  assumes "cstr m p xs" and "cstr m q ys"
  shows "strncmp m p q n = 0 \<longleftrightarrow> take (unat n) xs = take (unat n) ys"
proof -
  have "0 \<notin> set (take (unat n) xs)" "0 \<notin> set (take (unat n) ys)"
    using assms by (auto dest: in_set_takeD simp: cstr_no_nul)
  with assms show ?thesis by (simp add: strncmp_def strncmp_loop_byte_diff byte_diff_0_iff)
qed

lemma sint_u8_diff:
  fixes x y :: u8
  assumes "unat x < 128" and "unat y < 128"
  shows "sint (x - y) = int (unat x) - int (unat y)"
proof -
  have "uint x < 128" "uint y < 128" using assms by (simp_all add: uint_less_numeral)
  moreover have "0 \<le> uint x" "0 \<le> uint y" by simp_all
  ultimately have "- 128 \<le> uint x - uint y" "uint x - uint y < 128" by linarith+
  then have "signed_take_bit 7 (uint x - uint y) = uint x - uint y"
    by (intro signed_take_bit_int_eq_self) simp_all
  moreover have "x - y = word_of_int (uint x - uint y)" by simp
  then have "sint (x - y) = signed_take_bit 7 (uint x - uint y)"
    by (simp add: signed_of_int del: of_int_diff)
  ultimately show ?thesis by simp
qed

lemma byte_diff_lex:
  assumes "\<forall>x \<in> set xs. unat x < 128" and "\<forall>y \<in> set ys. unat y < 128"
    and "0 \<notin> set xs" and "0 \<notin> set ys"
  shows "sint (byte_diff xs ys) < 0 \<longleftrightarrow> (xs, ys) \<in> lexord {(x, y). x < y}"
  using assms
proof (induction xs ys rule: byte_diff.induct)
  case (2 y ys)
  then have "0 < unat y" by (metis list.set_intros(1) unat_eq_zero gr0I)
  with 2 show ?case using sint_u8_diff [of 0 y] by (auto simp del: of_nat_unat)
next
  case (3 x xs)
  then show ?case using sint_u8_diff [of x 0] by auto
next
  case (4 x xs y ys)
  then show ?case using sint_u8_diff [of x y] by (auto simp: word_less_def)
qed auto

section \<open>Copying\<close>

text \<open>
  A string stays where it is when a byte that is not in it changes; \<open>length xs < unat (q - p)\<close>
  says that \<open>q\<close> is outside the string \<open>xs\<close> at \<open>p\<close> and its terminator.
\<close>

lemma cstr_upd: "cstr m p xs \<Longrightarrow> length xs < unat (q - p) \<Longrightarrow> cstr (m(q := x)) p xs"
proof (rule cstr_cong)
  fix i
  assume "length xs < unat (q - p)" "i \<le> length xs"
  then have "p + of_nat i \<noteq> q"
    using unat_lt_2p32 [of "q - p"] unat_diff_add_of_nat [of i p] by auto
  then show "(m(q := x)) (p + of_nat i) = m (p + of_nat i)" by simp
qed

lemma strcpy_loop_wr:
  "cstr m src xs \<Longrightarrow> length xs < unat (dest - src) \<Longrightarrow>
    strcpy_loop m dest src = Some (wr m dest (xs @ [0]))"
proof (induction xs arbitrary: m dest src)
  case Nil
  then show ?case by (subst strcpy_loop.simps) (simp add: Let_def)
next
  case (Cons x xs)
  then have ne: "dest \<noteq> src" by auto
  then have far: "length xs < unat (dest - (src + 1))"
    using Cons.prems by (subst unat_sub_one) simp_all
  then have "cstr (m(dest := x)) (src + 1) xs" using Cons.prems by (intro cstr_upd) simp_all
  then have "strcpy_loop (m(dest := x)) (dest + 1) (src + 1)
      = Some (wr (m(dest := x)) (dest + 1) (xs @ [0]))"
    by (rule Cons.IH) (use Cons.prems in simp)
  then show ?case using Cons.prems by (subst strcpy_loop.simps) (simp add: Let_def)
qed

lemma strcpy_wr:
  assumes "cstr m src xs" and "length xs < unat (dest - src)"
  shows "strcpy m dest src = Some (wr m dest (xs @ [0]), dest)"
  using assms by (simp add: strcpy_def strcpy_loop_wr)

lemma strend_cstr: "cstr m p xs \<Longrightarrow> strend m p = Some (p + of_nat (length xs))"
proof (induction xs arbitrary: p)
  case Nil
  then show ?case by (subst strend.simps) simp
next
  case (Cons x xs)
  then show ?case using Cons.IH [of "p + 1"] by (subst strend.simps) (simp add: ac_simps)
qed

lemma strcat_wr:
  assumes "cstr m dest ys" and "cstr m src xs"
    and "length xs < unat (dest + of_nat (length ys) - src)"
  shows "strcat m dest src = Some (wr m (dest + of_nat (length ys)) (xs @ [0]), dest)"
  using assms by (simp add: strcat_def strend_cstr strcpy_loop_wr)

text \<open>Appending to the string at \<open>p\<close>, when the string that results does not wrap.\<close>

lemma cstr_append_wr:
  assumes "cstr m p ys" and "0 \<notin> set xs" and "length ys + length xs < 2 ^ 32"
  shows "cstr (wr m (p + of_nat (length ys)) (xs @ [0])) p (ys @ xs)"
proof -
  let ?q = "p + of_nat (length ys)" and ?m = "wr m (p + of_nat (length ys)) (xs @ [0])"
  have "rd ?m p (length ys) = rd m p (length ys)"
  proof (cases "ys = []")
    case False
    have q: "unat (?q - p) = length ys" using assms(3) by (intro unat_diff_add_of_nat) simp
    with False have "p \<noteq> ?q" by auto
    from unat_diff_swap [OF this] q assms(3) have "sep p (length ys) ?q (length (xs @ [0]))"
      by (simp add: sep_def)
    then show ?thesis by (rule rd_wr_sep)
  qed simp
  moreover have "cstr ?m ?q xs" using assms by (intro cstr_wr) simp_all
  ultimately show ?thesis using assms(1) by (simp add: cstr_append_iff cstr_iff [of m])
qed

lemma strncpy_loop_wr:
  "cstr m src xs \<Longrightarrow> length xs < unat (dest - src) \<Longrightarrow>
    strncpy_loop m dest src n = wr m dest (take n (xs @ [0]))"
proof (induction n arbitrary: m dest src xs)
  case (Suc n)
  show ?case
  proof (cases xs)
    case Nil
    with Suc.prems show ?thesis by (simp add: Let_def)
  next
    case (Cons x xs')
    with Suc.prems have ne: "dest \<noteq> src" by auto
    then have far: "length xs' < unat (dest - (src + 1))"
      using Suc.prems Cons by (subst unat_sub_one) simp_all
    then have "cstr (m(dest := x)) (src + 1) xs'"
      using Suc.prems Cons by (intro cstr_upd) simp_all
    then have "strncpy_loop (m(dest := x)) (dest + 1) (src + 1) n
        = wr (m(dest := x)) (dest + 1) (take n (xs' @ [0]))"
      by (rule Suc.IH) (use Suc.prems Cons in simp)
    with Suc.prems Cons show ?thesis by (simp add: Let_def)
  qed
qed simp

lemma strncpy_wr:
  assumes "cstr m src xs" and "length xs < unat (dest - src)"
  shows "strncpy m dest src n = (wr m dest (take (unat n) (xs @ [0])), dest)"
  using assms by (simp add: strncpy_def strncpy_loop_wr)

lemma strncat_loop_wr:
  "cstr m src xs \<Longrightarrow> length xs < unat (dest - src) \<Longrightarrow> 0 < n \<Longrightarrow>
    strncat_loop m dest src n = wr m dest (take n xs @ [0])"
proof (induction n arbitrary: m dest src xs)
  case (Suc n)
  show ?case
  proof (cases xs)
    case Nil
    with Suc.prems show ?thesis by (simp add: Let_def)
  next
    case (Cons x xs')
    with Suc.prems have ne: "dest \<noteq> src" by auto
    then have far: "length xs' < unat (dest - (src + 1))"
      using Suc.prems Cons by (subst unat_sub_one) simp_all
    then have "cstr (m(dest := x)) (src + 1) xs'"
      using Suc.prems Cons by (intro cstr_upd) simp_all
    then have "strncat_loop (m(dest := x)) (dest + 1) (src + 1) n
        = wr (m(dest := x)) (dest + 1) (take n xs' @ [0])" if "0 < n"
      by (rule Suc.IH) (use Suc.prems Cons that in simp_all)
    with Suc.prems Cons show ?thesis by (cases "n = 0") (simp_all add: Let_def)
  qed
qed simp

lemma strncat_wr:
  assumes "cstr m dest ys" and "cstr m src xs" and "0 < n"
    and "length xs < unat (dest + of_nat (length ys) - src)"
  shows "strncat m dest src n = Some (wr m (dest + of_nat (length ys)) (take (unat n) xs @ [0]), dest)"
  using assms by (simp add: strncat_def strend_cstr strncat_loop_wr unat_gt_0 word_neq_0_conv)

section \<open>strlcpy and strlcat\<close>

lemma strl_loop_wr:
  "cstr m (src + i) xs \<Longrightarrow> length xs < unat (dst + i - (src + i)) \<Longrightarrow>
    strl_loop m dst src i n = (wr m (dst + i) (take n xs), i + of_nat (min n (length xs)))"
proof (induction n arbitrary: m i xs)
  case (Suc n)
  show ?case
  proof (cases xs)
    case Nil
    with Suc.prems show ?thesis by simp
  next
    case (Cons x xs')
    have ne: "dst + i \<noteq> src + i" using Suc.prems by auto
    have "unat (dst + i - (src + i + 1)) = unat (dst + i - (src + i)) - 1" using ne by (rule unat_sub_one)
    then have "cstr (m(dst + i := x)) (src + i + 1) xs'"
      using Suc.prems Cons by (intro cstr_upd) (simp_all del: add_diff_cancel_right)
    then have "cstr (m(dst + i := x)) (src + (i + 1)) xs'" by (simp only: add.assoc)
    then have "strl_loop (m(dst + i := x)) dst src (i + 1) n
        = (wr (m(dst + i := x)) (dst + (i + 1)) (take n xs'), i + 1 + of_nat (min n (length xs')))"
      by (rule Suc.IH) (use Suc.prems Cons in simp)
    with Suc.prems Cons show ?thesis by (simp add: ac_simps)
  qed
qed simp

lemma cstr_drop: "cstr m p xs \<Longrightarrow> k \<le> length xs \<Longrightarrow> cstr m (p + of_nat k) (drop k xs)"
  using cstr_append_iff [of m p "take k xs" "drop k xs"] by simp

lemma cstr_wr_sep:
  assumes "cstr m p xs" and "sep p (length xs + 1) q (length ys)"
  shows "cstr (wr m q ys) p xs"
  using assms(1)
proof (rule cstr_cong)
  fix i
  assume "i \<le> length xs"
  then have "length ys \<le> unat (p + of_nat i - q)" using assms(2) by (intro sep_unat [of p "length xs + 1"]) simp_all
  then show "wr m q ys (p + of_nat i) = m (p + of_nat i)" by (rule wr_other)
qed

lemma strlcpy_wr:
  assumes "cstr m src xs" and "0 < s"
    and "sep src (length xs + 1) dst (min (unat s) (length xs + 1))"
  shows "strlcpy m dst src s = Some (wr m dst (take (unat s - 1) xs @ [0]), of_nat (length xs))"
proof -
  let ?k = "min (unat s - 1) (length xs)" and ?m = "wr m dst (take (unat s - 1) xs @ [0])"
  have s: "unat (s - 1) = unat s - 1" using assms(2) by (intro unat_minus_one) auto
  have s0: "0 < unat s" using assms(2) by (simp add: unat_gt_0 word_neq_0_conv)
  have "length xs < unat (dst - src)" using assms(3) by (simp add: sep_def)
  then have loop: "strl_loop m dst src 0 (unat (s - 1)) = (wr m dst (take (unat s - 1) xs), of_nat ?k)"
    using strl_loop_wr [of m src 0 xs dst "unat s - 1"] assms(1) by (simp add: s)
  have upd: "(wr m dst (take (unat s - 1) xs))(dst + of_nat ?k := 0) = ?m"
    by (simp add: wr_append min.commute)
  have "length (take (unat s - 1) xs @ [0 :: u8]) = min (unat s) (length xs + 1)"
    using s0 by auto
  then have "cstr ?m src xs" using assms by (intro cstr_wr_sep) simp_all
  then have "cstr ?m (src + of_nat ?k) (drop ?k xs)" by (rule cstr_drop) simp
  then have "strlen ?m (src + of_nat ?k) = Some (of_nat (length xs - ?k))"
    by (simp add: strlen_cstr)
  moreover have "of_nat ?k + of_nat (length xs - ?k) = (of_nat (length xs) :: u32)"
    by (simp flip: of_nat_add)
  moreover have "s \<noteq> 0" using assms(2) by auto
  ultimately show ?thesis unfolding strlcpy_def by (simp add: loop upd [unfolded One_nat_def] Let_def)
qed

text \<open>
  \<open>strlcat\<close> copies up to \<open>s - 1\<close> bytes behind what the buffer already holds: the bound
  does not take the length of the destination off.
\<close>

lemma strlcat_wr:
  assumes "cstr m src xs" and "cstr m dst ys" and "0 < s" and "length ys \<le> unat s"
    and "sep src (length xs + 1) (dst + of_nat (length ys)) (min (unat s) (length xs + 1))"
  shows "strlcat m dst src s = Some (wr m (dst + of_nat (length ys)) (take (unat s - 1) xs @ [0]),
    of_nat (length ys + length xs))"
proof -
  have "s \<noteq> 0" using assms(3) by auto
  then have "strlcat m dst src s = map_option (\<lambda>(m', n). (m', strnlen m dst s + n))
      (strlcpy m (dst + strnlen m dst s) src s)"
    unfolding strlcat_def strlcpy_def
    by (cases "strl_loop m (dst + strnlen m dst s) src 0 (unat (s - 1))")
      (simp add: Let_def map_option_bind o_def add.assoc)
  then show ?thesis
    using assms(2,4) strlcpy_wr [OF assms(1,3,5)] by (simp add: strnlen_cstr min.absorb1)
qed

section \<open>Searching\<close>

lemma ucast_u8_u32: "(ucast (ucast (c :: u8) :: u32) :: u8) = c"
  by (rule bit_word_eqI) (simp add: bit_simps)

lemma strchr_loop_cstr:
  "cstr m p xs \<Longrightarrow> strchr_loop m p c =
    Some (if c \<in> set (xs @ [0]) then p + of_nat (length (takeWhile (\<lambda>x. x \<noteq> c) xs)) else 0)"
proof (induction xs arbitrary: p)
  case Nil
  then show ?case by (subst strchr_loop.simps) simp
next
  case (Cons x xs)
  then show ?case using Cons.IH [of "p + 1"] by (subst strchr_loop.simps) (auto simp: ac_simps)
qed

text \<open>The first occurrence; a search for NUL finds the terminator.\<close>

lemma strchr_first:
  assumes "cstr m p (as @ c # bs)" and "c \<notin> set as"
  shows "strchr m p (ucast c) = Some (p + of_nat (length as))"
proof -
  have "takeWhile (\<lambda>x. x \<noteq> c) (as @ c # bs) = as" using assms(2) by (simp add: takeWhile_append)
  then show ?thesis using assms(1) by (simp add: strchr_def strchr_loop_cstr ucast_u8_u32)
qed

lemma strchr_absent: "cstr m p xs \<Longrightarrow> c \<notin> set xs \<Longrightarrow> c \<noteq> 0 \<Longrightarrow> strchr m p (ucast c) = Some 0"
proof -
  assume "cstr m p xs" "c \<notin> set xs" "c \<noteq> 0"
  then show ?thesis by (simp add: strchr_def strchr_loop_cstr ucast_u8_u32)
qed

lemma strrchr_loop_none:
  "cstr m p xs \<Longrightarrow> \<forall>x \<in> set xs. ucast x \<noteq> c \<Longrightarrow> strrchr_loop m p c lst = Some lst"
proof (induction xs arbitrary: p)
  case Nil
  then show ?case by (subst strrchr_loop.simps) simp
next
  case (Cons x xs)
  then show ?case by (subst strrchr_loop.simps) simp
qed

lemma strrchr_loop_last:
  "cstr m p (as @ b # bs) \<Longrightarrow> ucast b = c \<Longrightarrow> \<forall>x \<in> set bs. ucast x \<noteq> c \<Longrightarrow>
    strrchr_loop m p c lst = Some (p + of_nat (length as))"
proof (induction as arbitrary: p lst)
  case Nil
  then show ?case
    using strrchr_loop_none [of m "p + 1" bs c p] by (subst strrchr_loop.simps) simp
next
  case (Cons x xs)
  then show ?case by (subst strrchr_loop.simps) (simp add: ac_simps)
qed

lemma strrchr_last:
  assumes "cstr m p (as @ c # bs)" and "c \<notin> set bs"
  shows "strrchr m p (ucast c) = Some (p + of_nat (length as))"
proof -
  have "\<forall>x \<in> set bs. (ucast x :: u32) \<noteq> ucast c"
    using assms(2) by (metis ucast_u8_u32)
  with assms(1) show ?thesis by (simp add: strrchr_def strrchr_loop_last)
qed

lemma in_set_str_cstr: "cstr m a as \<Longrightarrow> in_set_str m x a = Some (x \<in> set as)"
proof (induction as arbitrary: a)
  case Nil
  then show ?case by (subst in_set_str.simps) simp
next
  case (Cons y ys)
  then show ?case by (subst in_set_str.simps) auto
qed

lemma strspn_loop_cstr:
  "cstr m p xs \<Longrightarrow> cstr m a as \<Longrightarrow>
    strspn_loop m p a n = Some (n + of_nat (length (takeWhile (\<lambda>x. x \<in> set as) xs)))"
proof (induction xs arbitrary: p n)
  case Nil
  then show ?case by (subst strspn_loop.simps) simp
next
  case (Cons x xs)
  then show ?case by (subst strspn_loop.simps) (simp add: in_set_str_cstr ac_simps)
qed

lemma strspn_cstr:
  "cstr m p xs \<Longrightarrow> cstr m a as \<Longrightarrow>
    strspn m p a = Some (of_nat (length (takeWhile (\<lambda>x. x \<in> set as) xs)))"
  by (simp add: strspn_def strspn_loop_cstr)

lemma strpbrk_cstr:
  "cstr m p xs \<Longrightarrow> cstr m a as \<Longrightarrow>
    strpbrk m p a = Some (if set xs \<inter> set as = {} then 0
      else p + of_nat (length (takeWhile (\<lambda>x. x \<notin> set as) xs)))"
proof (induction xs arbitrary: p)
  case Nil
  then show ?case by (subst strpbrk.simps) simp
next
  case (Cons x xs)
  then show ?case by (subst strpbrk.simps) (auto simp add: in_set_str_cstr ac_simps)
qed

text \<open>\<open>strstr\<close> finds the first place where the second string is a prefix of the rest.\<close>

lemma cstr_rd_take: "cstr m p xs \<Longrightarrow> k \<le> length xs \<Longrightarrow> rd m p k = take k xs"
  using cstr_append_iff [of m p "take k xs" "drop k xs"] by simp

lemma strstr_step:
  assumes "cstr m p xs" and "cstr m q ys" and "length ys \<le> length xs" and "length xs < 2 ^ 31"
  shows "memcmp m p q (word_of_int (int (length ys))) = 0 \<longleftrightarrow> take (length ys) xs = ys"
proof -
  have "unat (word_of_int (int (length ys)) :: u32) = length ys"
    using assms by (simp add: unat_of_nat_u32)
  then show ?thesis using assms by (simp add: memcmp_0_iff cstr_rd_take)
qed

lemma strstr_loop_found:
  assumes "cstr m q ys"
  shows "cstr m p (as @ ys @ bs) \<Longrightarrow> length (as @ ys @ bs) < 2 ^ 31 \<Longrightarrow>
    \<forall>k < length as. take (length ys) (drop k (as @ ys @ bs)) \<noteq> ys \<Longrightarrow>
    strstr_loop m p q (int (length (as @ ys @ bs))) (int (length ys)) = p + of_nat (length as)"
proof (induction as arbitrary: p)
  case Nil
  then have "memcmp m p q (word_of_int (int (length ys))) = 0"
    using strstr_step [of m p "[] @ ys @ bs" q ys] assms by simp
  then show ?case by (subst strstr_loop.simps) simp
next
  case (Cons x xs)
  let ?zs = "xs @ ys @ bs"
  have "take (length ys) (x # ?zs) \<noteq> ys" using Cons.prems(3) by force
  then have ne: "memcmp m p q (word_of_int (int (length ys))) \<noteq> 0"
    using strstr_step [of m p "x # ?zs" q ys] assms Cons.prems by simp
  have "strstr_loop m (p + 1) q (int (length ?zs)) (int (length ys)) = p + 1 + of_nat (length xs)"
    using Cons.prems by (intro Cons.IH) auto
  moreover have "int (length ((x # xs) @ ys @ bs)) - 1 = int (length ?zs)" by simp
  ultimately show ?case using ne by (subst strstr_loop.simps) (simp add: ac_simps)
qed

lemma strstr_loop_absent:
  assumes "cstr m q ys" and "ys \<noteq> []"
  shows "cstr m p xs \<Longrightarrow> length xs < 2 ^ 31 \<Longrightarrow>
    \<forall>k. take (length ys) (drop k xs) \<noteq> ys \<Longrightarrow>
    strstr_loop m p q (int (length xs)) (int (length ys)) = 0"
proof (induction xs arbitrary: p)
  case Nil
  then show ?case using assms(2) by (subst strstr_loop.simps) simp
next
  case (Cons x xs)
  have "take (length ys) (x # xs) \<noteq> ys" using Cons.prems(3) by (metis drop0)
  then have ne: "length ys \<le> length (x # xs) \<Longrightarrow> memcmp m p q (word_of_int (int (length ys))) \<noteq> 0"
    using strstr_step [of m p "x # xs" q ys] assms Cons.prems by simp
  have "\<forall>k. take (length ys) (drop k xs) \<noteq> ys" using Cons.prems(3) by (metis drop_Suc_Cons)
  then have "strstr_loop m (p + 1) q (int (length xs)) (int (length ys)) = 0"
    using Cons.prems by (intro Cons.IH) auto
  then show ?case using ne by (subst strstr_loop.simps) auto
qed

lemma sint_of_nat_u32: "n < 2 ^ 31 \<Longrightarrow> sint (of_nat n :: u32) = int n"
  by (subst sint_u32_small) (simp_all add: unat_of_nat_u32)

lemma strstr_nonempty:
  assumes "cstr m p xs" and "cstr m q ys" and "length xs < 2 ^ 31" and "length ys < 2 ^ 31"
    and "ys \<noteq> []"
  shows "strstr m p q = Some (strstr_loop m p q (int (length xs)) (int (length ys)))"
proof -
  have "unat (of_nat (length ys) :: u32) = length ys" using assms(4) by (simp add: unat_of_nat_u32)
  with assms(5) have "(of_nat (length ys) :: u32) \<noteq> 0" by (metis length_0_conv unat_0)
  then show ?thesis
    using strlen_cstr [OF assms(1)] strlen_cstr [OF assms(2)] assms(3,4)
    by (simp add: strstr_def sint_of_nat_u32)
qed

lemma strstr_found:
  assumes "cstr m p (as @ ys @ bs)" and "cstr m q ys" and "length (as @ ys @ bs) < 2 ^ 31"
    and "\<forall>k < length as. take (length ys) (drop k (as @ ys @ bs)) \<noteq> ys"
  shows "strstr m p q = Some (p + of_nat (length as))"
proof (cases "ys = []")
  case True
  with assms(4) have "as = []" by force
  with True strlen_cstr [OF assms(2)] show ?thesis by (simp add: strstr_def)
next
  case False
  have "length ys < 2 ^ 31" using assms(3) by simp
  from strstr_nonempty [OF assms(1,2,3) this False] strstr_loop_found [OF assms(2,1,3,4)]
  show ?thesis by simp
qed

lemma strstr_absent:
  assumes "cstr m p xs" and "cstr m q ys" and "length xs < 2 ^ 31" and "length ys < 2 ^ 31"
    and "\<forall>k. take (length ys) (drop k xs) \<noteq> ys"
  shows "strstr m p q = Some 0"
proof -
  have ys: "ys \<noteq> []" using assms(5) by force
  from strstr_nonempty [OF assms(1-4) ys] strstr_loop_absent [OF assms(2) ys assms(1,3,5)]
  show ?thesis by simp
qed

section \<open>strtok\<close>

text \<open>
  On \<open>ss @ tok @ c # rest\<close>, with \<open>ss\<close> separators, \<open>tok\<close> free of them and \<open>c\<close> one:
  the token is returned as a terminated string, and the rest is what the next call scans.
\<close>

lemma strtok_token:
  assumes s: "cstr m p (ss @ tok @ c # rest)" and ct: "cstr m a as"
    and ss: "set ss \<subseteq> set as" and tok: "set tok \<inter> set as = {}" "tok \<noteq> []" and c: "c \<in> set as"
    and nz: "p \<noteq> 0" "p + of_nat (length ss) + of_nat (length tok) \<noteq> 0"
  defines "send \<equiv> p + of_nat (length ss) + of_nat (length tok)"
  shows "strtok (m, saved) p a = Some ((m(send := 0), send + 1), p + of_nat (length ss))"
    and "cstr (m(send := 0)) (p + of_nat (length ss)) tok"
proof -
  let ?b = "p + of_nat (length ss)"
  have b: "cstr m ?b (tok @ c # rest)" using s by (simp add: cstr_append_iff)
  have send: "cstr m send (c # rest)" using b unfolding send_def by (simp only: cstr_append_iff)
  have "takeWhile (\<lambda>x. x \<in> set as) (ss @ tok @ c # rest) = ss"
    using ss tok by (cases tok) (auto simp: takeWhile_append)
  then have spn: "strspn m p a = Some (of_nat (length ss))" using strspn_cstr [OF s ct] by simp
  have "takeWhile (\<lambda>x. x \<notin> set as) (tok @ c # rest) = tok"
    using tok(1) c by (subst takeWhile_append2) auto
  then have brk: "strpbrk m ?b a = Some send"
    using strpbrk_cstr [OF b ct] c by (auto simp: send_def)
  have "m ?b \<noteq> 0" using b tok(2) by (cases tok) auto
  moreover have "m send \<noteq> 0" using send by simp
  ultimately show "strtok (m, saved) p a = Some ((m(send := 0), send + 1), ?b)"
    using nz(1) nz(2) [folded send_def] by (simp add: strtok_def spn brk)
  have "length tok < 2 ^ 32" using cstr_length [OF b] by simp
  then have "unat (send - ?b) = length tok" unfolding send_def by (rule unat_diff_add_of_nat)
  then have "rd (m(send := 0)) ?b (length tok) = rd m ?b (length tok)" by (intro rd_upd_sep) simp
  moreover have "(m(send := 0)) (?b + of_nat (length tok)) = 0" by (simp add: send_def)
  ultimately show "cstr (m(send := 0)) ?b tok"
    using b unfolding cstr_append_iff cstr_iff [of _ _ tok] by simp
qed

end
