(* ===== verification/Lk_Printf.thy ===== *)
theory Lk_Printf
  imports Lk_String
begin

text \<open>
  Formatted output, \<open>lib/libc/printf.c\<close>: the number converters with their stack buffer and
  the \<open>vsnprintf\<close> interpreter. The interpreter is the code's loop with one iteration per
  format byte; its control state is \<open>Regular\<close> (the \<open>for\<close> loop) or \<open>NextFormat\<close> (the label
  \<open>next_format\<close> with the flags and width read so far). \<open>goto done\<close> is the outcome \<open>Done\<close>.
  \<open>None\<close> stands for a run that never ends or reads an argument that was not passed.
  The format, the string arguments and the output lie in the one byte memory, so that overlap
  is what it is in the code.
\<close>

section \<open>Flags\<close>

definition LONGFLAG :: u32 where "LONGFLAG = 0x1"
definition LONGLONGFLAG :: u32 where "LONGLONGFLAG = 0x2"
definition HALFFLAG :: u32 where "HALFFLAG = 0x4"
definition HALFHALFFLAG :: u32 where "HALFHALFFLAG = 0x8"
definition SIZETFLAG :: u32 where "SIZETFLAG = 0x10"
definition ALTFLAG :: u32 where "ALTFLAG = 0x20"
definition CAPSFLAG :: u32 where "CAPSFLAG = 0x40"
definition SHOWSIGNFLAG :: u32 where "SHOWSIGNFLAG = 0x80"
definition SIGNEDFLAG :: u32 where "SIGNEDFLAG = 0x100"
definition LEFTFORMATFLAG :: u32 where "LEFTFORMATFLAG = 0x200"
definition LEADZEROFLAG :: u32 where "LEADZEROFLAG = 0x400"

lemmas flag_defs = LONGFLAG_def LONGLONGFLAG_def HALFFLAG_def HALFHALFFLAG_def SIZETFLAG_def
  ALTFLAG_def CAPSFLAG_def SHOWSIGNFLAG_def SIGNEDFLAG_def LEFTFORMATFLAG_def LEADZEROFLAG_def

definition has_flag :: "u32 \<Rightarrow> u32 \<Rightarrow> bool" where
  "has_flag flags f \<longleftrightarrow> flags AND f \<noteq> 0"

section \<open>Number conversion\<close>

text \<open>\<open>buf[--pos] = c\<close>; \<open>None\<close> is a write outside the buffer.\<close>

definition buf_push :: "u8 list \<times> nat \<Rightarrow> u8 \<Rightarrow> (u8 list \<times> nat) option" where
  "buf_push b c = (case b of (buf, pos) \<Rightarrow>
     if 0 < pos \<and> pos \<le> length buf then Some (buf[pos - 1 := c], pos - 1) else None)"

lemma div10_less: "10 \<le> n \<Longrightarrow> unat (n div 10 :: u64) < unat n"
  by (simp add: unat_div word_le_nat_alt)

lemma div16_less: "n div 16 \<noteq> 0 \<Longrightarrow> unat (n div 16 :: u64) < unat n"
proof -
  assume "n div 16 \<noteq> 0"
  then have "n \<noteq> 0" by auto
  then have "unat n \<noteq> 0" by (simp add: unat_eq_zero)
  then show ?thesis by (simp add: unat_div)
qed

function dec_digits_loop :: "u8 list \<times> nat \<Rightarrow> u64 \<Rightarrow> ((u8 list \<times> nat) \<times> u64) option" where
  "dec_digits_loop b n =
    (if 10 \<le> n
     then do { b' \<leftarrow> buf_push b (ucast (n mod 10) + 48); dec_digits_loop b' (n div 10) }
     else Some (b, n))"
  by pat_completeness auto

termination
  by (relation "measure (\<lambda>(b, n). unat n)") (auto intro: div10_less)

declare dec_digits_loop.simps [simp del]

text \<open>The result is the buffer and the index of the first character, \<open>&buf[pos]\<close>.\<close>

definition longlong_to_string :: "u8 list \<Rightarrow> u64 \<Rightarrow> nat \<Rightarrow> u32 \<Rightarrow> (u8 list \<times> nat) option" where
  "longlong_to_string buf n len flag =
    (let negative = has_flag flag SIGNEDFLAG \<and> sint n < 0;
         n1 = (if negative then - n else n) in
     do { b \<leftarrow> buf_push (buf, len) 0;
          (b, n2) \<leftarrow> dec_digits_loop b n1;
          b \<leftarrow> buf_push b (ucast n2 + 48);
          if negative then buf_push b 45
          else if has_flag flag SHOWSIGNFLAG then buf_push b 43
          else Some b })"

definition hextable :: "u8 list" where
  "hextable = [48, 49, 50, 51, 52, 53, 54, 55, 56, 57, 97, 98, 99, 100, 101, 102]"

definition hextable_caps :: "u8 list" where
  "hextable_caps = [48, 49, 50, 51, 52, 53, 54, 55, 56, 57, 65, 66, 67, 68, 69, 70]"

function hex_digits_loop :: "u8 list \<Rightarrow> u8 list \<times> nat \<Rightarrow> u64 \<Rightarrow> (u8 list \<times> nat) option" where
  "hex_digits_loop table b u =
    do { b' \<leftarrow> buf_push b (table ! unat (u mod 16));
         (if u div 16 \<noteq> 0 then hex_digits_loop table b' (u div 16) else Some b') }"
  by pat_completeness auto

termination
  by (relation "measure (\<lambda>(t, b, u). unat u)") (auto intro: div16_less)

declare hex_digits_loop.simps [simp del]

definition longlong_to_hexstring :: "u8 list \<Rightarrow> u64 \<Rightarrow> nat \<Rightarrow> u32 \<Rightarrow> (u8 list \<times> nat) option" where
  "longlong_to_hexstring buf u len flag =
    (let table = (if has_flag flag CAPSFLAG then hextable_caps else hextable) in
     do { b \<leftarrow> buf_push (buf, len) 0; hex_digits_loop table b u })"

section \<open>The interpreter's state\<close>

text \<open>The variable arguments: \<open>int\<close>, \<open>long\<close>, \<open>size_t\<close> and pointers have 32 bits, \<open>long long\<close> 64.\<close>

datatype vararg = Arg32 u32 | Arg64 u64

fun va_arg32 :: "vararg list \<Rightarrow> (u32 \<times> vararg list) option" where
  "va_arg32 (Arg32 x # ap) = Some (x, ap)"
| "va_arg32 _ = None"

fun va_arg64 :: "vararg list \<Rightarrow> (u64 \<times> vararg list) option" where
  "va_arg64 (Arg64 x # ap) = Some (x, ap)"
| "va_arg64 _ = None"

record pf =
  pmem :: mem
  pstr :: ptr
  pfmt :: ptr
  pap :: "vararg list"
  chars_written :: u32
  plen :: u32

datatype outcome = Go pf | Done pf

fun obind :: "outcome \<Rightarrow> (pf \<Rightarrow> outcome) \<Rightarrow> outcome" where
  "obind (Go st) f = f st"
| "obind (Done st) f = Done st"

definition output_char :: "pf \<Rightarrow> u8 \<Rightarrow> outcome" where
  "output_char st c =
    (let st' = st\<lparr>pmem := (pmem st)(pstr st := c), pstr := pstr st + 1,
                  chars_written := chars_written st + 1\<rparr>
     in if chars_written st' + 1 = plen st' then Done st' else Go st')"

text \<open>
  What the pointer \<open>s\<close> of the shared output code points into: memory, or the NUL-terminated
  bytes of a literal or of \<open>num_buffer\<close>.
\<close>

datatype strsrc = SMem ptr | SBytes "u8 list"

fun src_get :: "mem \<Rightarrow> strsrc \<Rightarrow> u8" where
  "src_get m (SMem p) = m p"
| "src_get m (SBytes []) = 0"
| "src_get m (SBytes (c # cs)) = c"

fun src_next :: "strsrc \<Rightarrow> strsrc" where
  "src_next (SMem p) = SMem (p + 1)"
| "src_next (SBytes cs) = SBytes (tl cs)"

fun src_strlen :: "mem \<Rightarrow> strsrc \<Rightarrow> u32 option" where
  "src_strlen m (SMem p) = strlen m p"
| "src_strlen m (SBytes cs) = Some (of_nat (length cs))"

text \<open>The C string in a buffer from index \<open>pos\<close> on.\<close>

definition buf_string :: "u8 list \<times> nat \<Rightarrow> strsrc" where
  "buf_string b = SBytes (takeWhile (\<lambda>c. c \<noteq> 0) (drop (snd b) (fst b)))"

section \<open>The shared output code\<close>

partial_function (option) out_str_loop :: "pf \<Rightarrow> strsrc \<Rightarrow> u32 \<Rightarrow> (outcome \<times> u32) option" where
  "out_str_loop st s count =
    (let c = src_get (pmem st) s in
     if c \<noteq> 0 then
       (case output_char st c of
          Done st' \<Rightarrow> Some (Done st', count)
        | Go st' \<Rightarrow> out_str_loop st' (src_next s) (count + 1))
     else Some (Go st, count))"

fun pad :: "pf \<Rightarrow> u8 \<Rightarrow> nat \<Rightarrow> outcome" where
  "pad st c 0 = Go st"
| "pad st c (Suc n) = obind (output_char st c) (\<lambda>st'. pad st' c n)"

definition output_string :: "u32 \<Rightarrow> u32 \<Rightarrow> pf \<Rightarrow> strsrc \<Rightarrow> outcome option" where
  "output_string flags format_num st s =
    (if has_flag flags LEFTFORMATFLAG then
       do { (r, count) \<leftarrow> out_str_loop st s 0;
            Some (obind r (\<lambda>st'. pad st' 32 (unat format_num - unat count))) }
     else
       do { string_len \<leftarrow> src_strlen (pmem st) s;
            (case pad st (if has_flag flags LEADZEROFLAG then 48 else 32) (unat format_num - unat string_len) of
               Done st' \<Rightarrow> Some (Done st')
             | Go st' \<Rightarrow> map_option fst (out_str_loop st' s 0)) })"

section \<open>The conversions\<close>

definition fetch_signed :: "u32 \<Rightarrow> vararg list \<Rightarrow> (u64 \<times> vararg list) option" where
  "fetch_signed flags ap =
    (if has_flag flags LONGLONGFLAG then va_arg64 ap
     else do { (x, ap') \<leftarrow> va_arg32 ap;
       Some (if has_flag flags LONGFLAG then scast x
             else if has_flag flags HALFHALFFLAG then scast (ucast x :: u8)
             else if has_flag flags HALFFLAG then scast (ucast x :: u16)
             else scast x, ap') })"

definition fetch_unsigned :: "u32 \<Rightarrow> vararg list \<Rightarrow> (u64 \<times> vararg list) option" where
  "fetch_unsigned flags ap =
    (if has_flag flags LONGLONGFLAG then va_arg64 ap
     else do { (x, ap') \<leftarrow> va_arg32 ap;
       Some (if has_flag flags LONGFLAG then ucast x
             else if has_flag flags HALFHALFFLAG then ucast (ucast x :: u8)
             else if has_flag flags HALFFLAG then ucast (ucast x :: u16)
             else ucast x, ap') })"

text \<open>The switch cases that go back to \<open>next_format\<close>; \<open>None\<close> for the others.\<close>

definition vsn_modifier :: "u8 \<Rightarrow> u32 \<Rightarrow> u32 \<Rightarrow> (u32 \<times> u32) option" where
  "vsn_modifier c flags num =
    (if 48 \<le> c \<and> c \<le> 57 then
       Some (if c = 48 \<and> num = 0 then flags OR LEADZEROFLAG else flags, num * 10 + (ucast c - 48))
     else if c = 46 then Some (flags, num)
     else if c = 45 then Some (flags OR LEFTFORMATFLAG, num)
     else if c = 43 then Some (flags OR SHOWSIGNFLAG, num)
     else if c = 35 then Some (flags OR ALTFLAG, num)
     else if c = 108 then
       Some ((if has_flag flags LONGFLAG then flags OR LONGLONGFLAG else flags) OR LONGFLAG, num)
     else if c = 104 then
       Some ((if has_flag flags HALFFLAG then flags OR HALFHALFFLAG else flags) OR HALFFLAG, num)
     else if c = 122 then Some (flags OR SIZETFLAG, num)
     else None)"

text \<open>\<open>%n\<close>: the count is stored through the pointer at the width the flags give.\<close>

definition store_count :: "u32 \<Rightarrow> mem \<Rightarrow> ptr \<Rightarrow> u32 \<Rightarrow> mem" where
  "store_count flags m p n =
    (if has_flag flags LONGLONGFLAG then store32 (store32 m p n) (p + 4) 0
     else if has_flag flags LONGFLAG then store32 m p n
     else if has_flag flags HALFHALFFLAG then m(p := ucast n)
     else if has_flag flags HALFFLAG then m(p := ucast n, p + 1 := ucast (drop_bit 8 n))
     else store32 m p n)"

definition num_buffer :: "u8 list" where
  "num_buffer = replicate 32 0"

definition null_string :: "u8 list" where
  "null_string = [60, 110, 117, 108, 108, 62]"

definition vsn_conv :: "u8 \<Rightarrow> u32 \<Rightarrow> u32 \<Rightarrow> pf \<Rightarrow> outcome option" where
  "vsn_conv c flags num st =
    (if c = 37 then Some (output_char st 37)
     else if c = 99 then
       do { (x, ap') \<leftarrow> va_arg32 (pap st); Some (output_char (st\<lparr>pap := ap'\<rparr>) (ucast x)) }
     else if c = 115 then
       do { (s, ap') \<leftarrow> va_arg32 (pap st);
            output_string flags num (st\<lparr>pap := ap'\<rparr>) (if s = 0 then SBytes null_string else SMem s) }
     else if c = 68 \<or> c = 105 \<or> c = 100 then
       (let flags1 = (if c = 68 then flags OR LONGFLAG else flags) in
        do { (n, ap') \<leftarrow> fetch_signed flags1 (pap st);
             b \<leftarrow> longlong_to_string num_buffer n 32 (flags1 OR SIGNEDFLAG);
             output_string (flags1 OR SIGNEDFLAG) num (st\<lparr>pap := ap'\<rparr>) (buf_string b) })
     else if c = 85 \<or> c = 117 then
       (let flags1 = (if c = 85 then flags OR LONGFLAG else flags) in
        do { (n, ap') \<leftarrow> fetch_unsigned flags1 (pap st);
             b \<leftarrow> longlong_to_string num_buffer n 32 flags1;
             output_string flags1 num (st\<lparr>pap := ap'\<rparr>) (buf_string b) })
     else if c = 112 \<or> c = 88 \<or> c = 120 then
       (let flags1 = (if c = 112 then flags OR (LONGFLAG OR ALTFLAG)
                      else if c = 88 then flags OR CAPSFLAG else flags) in
        do { (n, ap') \<leftarrow> fetch_unsigned flags1 (pap st);
             b \<leftarrow> longlong_to_hexstring num_buffer n 32 flags1;
             (let st1 = st\<lparr>pap := ap'\<rparr> in
              if has_flag flags1 ALTFLAG then
                (case obind (output_char st1 48)
                        (\<lambda>st2. output_char st2 (if has_flag flags1 CAPSFLAG then 88 else 120)) of
                   Done st3 \<Rightarrow> Some (Done st3)
                 | Go st3 \<Rightarrow> output_string flags1 num st3 (buf_string b))
              else output_string flags1 num st1 (buf_string b)) })
     else if c = 110 then
       do { (p, ap') \<leftarrow> va_arg32 (pap st);
            Some (Go (st\<lparr>pap := ap', pmem := store_count flags (pmem st) p (chars_written st)\<rparr>)) }
     else Some (obind (output_char st 37) (\<lambda>st'. output_char st' c)))"

section \<open>vsnprintf and its callers\<close>

datatype fmode = Regular | NextFormat u32 u32

partial_function (option) vsn_loop :: "fmode \<Rightarrow> pf \<Rightarrow> pf option" where
  "vsn_loop mode st =
    (let c = pmem st (pfmt st); st1 = st\<lparr>pfmt := pfmt st + 1\<rparr> in
     if c = 0 then Some st1
     else
       (case mode of
          Regular \<Rightarrow>
            if c = 37 then vsn_loop (NextFormat 0 0) st1
            else (case output_char st1 c of Done st2 \<Rightarrow> Some st2 | Go st2 \<Rightarrow> vsn_loop Regular st2)
        | NextFormat flags num \<Rightarrow>
            (case vsn_modifier c flags num of
               Some fn \<Rightarrow> vsn_loop (NextFormat (fst fn) (snd fn)) st1
             | None \<Rightarrow>
                 do { r \<leftarrow> vsn_conv c flags num st1;
                      (case r of Done st2 \<Rightarrow> Some st2 | Go st2 \<Rightarrow> vsn_loop Regular st2) })))"

definition vsnprintf :: "mem \<Rightarrow> ptr \<Rightarrow> u32 \<Rightarrow> ptr \<Rightarrow> vararg list \<Rightarrow> (mem \<times> int) option" where
  "vsnprintf m str len fmt ap =
    map_option (\<lambda>st. ((pmem st)(pstr st := 0), sint (chars_written st)))
      (vsn_loop Regular \<lparr>pmem = m, pstr = str, pfmt = fmt, pap = ap, chars_written = 0, plen = len\<rparr>)"

definition INT_MAX :: u32 where "INT_MAX = 0x7fffffff"

definition vsprintf :: "mem \<Rightarrow> ptr \<Rightarrow> ptr \<Rightarrow> vararg list \<Rightarrow> (mem \<times> int) option" where
  "vsprintf m str fmt ap = vsnprintf m str INT_MAX fmt ap"

definition sprintf :: "mem \<Rightarrow> ptr \<Rightarrow> ptr \<Rightarrow> vararg list \<Rightarrow> (mem \<times> int) option" where
  "sprintf m str fmt ap = vsprintf m str fmt ap"

definition snprintf :: "mem \<Rightarrow> ptr \<Rightarrow> u32 \<Rightarrow> ptr \<Rightarrow> vararg list \<Rightarrow> (mem \<times> int) option" where
  "snprintf m str len fmt ap = vsnprintf m str len fmt ap"

section \<open>The digits that are printed\<close>

fun dec_string :: "nat \<Rightarrow> u8 list" where
  "dec_string n = (if n < 10 then [of_nat n + 48] else dec_string (n div 10) @ [of_nat (n mod 10) + 48])"

declare dec_string.simps [simp del]

fun hex_string :: "u8 list \<Rightarrow> nat \<Rightarrow> u8 list" where
  "hex_string table n =
    (if n < 16 then [table ! n] else hex_string table (n div 16) @ [table ! (n mod 16)])"

declare hex_string.simps [simp del]

text \<open>\<open>holds len b xs\<close>: the buffer of length \<open>len\<close> is filled with \<open>xs\<close> from its index to its end.\<close>

definition holds :: "nat \<Rightarrow> u8 list \<times> nat \<Rightarrow> u8 list \<Rightarrow> bool" where
  "holds len b xs \<longleftrightarrow> length (fst b) = len \<and> length xs \<le> len \<and> snd b = len - length xs
     \<and> drop (snd b) (fst b) = xs"

lemma holds_init: "length buf = len \<Longrightarrow> holds len (buf, len) []"
  by (simp add: holds_def)

lemma buf_push_holds:
  assumes "holds len b xs" and "length xs < len"
  shows "\<exists>b'. buf_push b c = Some b' \<and> holds len b' (c # xs)"
proof -
  obtain buf pos where b: "b = (buf, pos)" by (cases b)
  with assms have pos: "pos = len - length xs" "length buf = len" "drop pos buf = xs" "0 < pos"
    by (auto simp: holds_def)
  have "drop (pos - 1) (buf[pos - 1 := c]) = c # drop pos buf"
    using pos assms(2) by (subst Cons_nth_drop_Suc [symmetric]) (auto simp: drop_update_cancel Suc_diff_Suc)
  with pos assms(2) have "holds len (buf[pos - 1 := c], pos - 1) (c # xs)"
    by (auto simp: holds_def)
  with pos b show ?thesis by (auto simp: buf_push_def)
qed

lemma length_dec_string: "n < 10 ^ Suc k \<Longrightarrow> length (dec_string n) \<le> Suc k"
proof (induction k arbitrary: n)
  case 0
  then show ?case by (subst dec_string.simps) simp
next
  case (Suc k)
  then have "n div 10 < 10 ^ Suc k" by (simp add: less_mult_imp_div_less)
  from Suc.IH [OF this] show ?case by (subst dec_string.simps) simp
qed

lemma length_hex_string: "n < 16 ^ Suc k \<Longrightarrow> length (hex_string t n) \<le> Suc k"
proof (induction k arbitrary: n)
  case 0
  then show ?case by (subst hex_string.simps) simp
next
  case (Suc k)
  then have "n div 16 < 16 ^ Suc k" by (simp add: less_mult_imp_div_less)
  from Suc.IH [OF this] show ?case by (subst hex_string.simps) simp
qed

lemma dec_string_not_Nil: "dec_string n \<noteq> []"
  by (subst dec_string.simps) simp

lemma ucast_of_unat: "ucast (x :: u64) = (of_nat (unat x) :: u8)"
  by (simp add: of_nat_unat)

lemma dec_digits_loop_holds:
  assumes "holds len b xs" and "length (dec_string (unat n)) + length xs \<le> len"
  shows "\<exists>b' n' ys. dec_digits_loop b n = Some (b', n') \<and> holds len b' ys \<and> length ys < len
     \<and> (ucast n' + 48) # ys = dec_string (unat n) @ xs"
  using assms
proof (induction b n arbitrary: xs rule: dec_digits_loop.induct)
  case (1 b n)
  show ?case
  proof (cases "10 \<le> n")
    case True
    then have big: "\<not> unat n < 10" by (simp add: word_le_nat_alt)
    have ds: "dec_string (unat n) = dec_string (unat n div 10) @ [of_nat (unat n mod 10) + 48]"
      using big by (subst dec_string.simps) simp
    have "length xs < len" using 1(3) ds by simp
    from buf_push_holds [OF 1(2) this] obtain b' where
      b': "buf_push b (ucast (n mod 10) + 48) = Some b'" "holds len b' ((ucast (n mod 10) + 48) # xs)"
      by blast
    have c: "ucast (n mod 10) + 48 = (of_nat (unat n mod 10) + 48 :: u8)"
      by (simp add: ucast_of_unat unat_mod)
    have d: "unat (n div 10) = unat n div 10" by (simp add: unat_div)
    have "length (dec_string (unat (n div 10))) + length ((ucast (n mod 10) + 48) # xs) \<le> len"
      using 1(3) ds d by simp
    from 1(1) [OF True b' this] show ?thesis
      using True b'(1) by (subst dec_digits_loop.simps) (simp add: c d ds)
  next
    case False
    then have small: "unat n < 10" by (simp add: word_le_nat_alt)
    then have ds: "dec_string (unat n) = [ucast n + 48]"
      by (subst dec_string.simps) simp
    have "length xs < len" using 1(3) ds by simp
    moreover have "dec_digits_loop b n = Some (b, n)"
      using False by (subst dec_digits_loop.simps) simp
    ultimately show ?thesis
      by (intro exI [of _ b] exI [of _ n] exI [of _ xs]) (simp add: 1(2) ds)
  qed
qed

text \<open>What \<open>%d\<close>, \<open>%u\<close>, \<open>%x\<close> print.\<close>

definition dec_out :: "u32 \<Rightarrow> u64 \<Rightarrow> u8 list" where
  "dec_out flags n =
    (if has_flag flags SIGNEDFLAG \<and> sint n < 0 then 45 # dec_string (nat (- sint n))
     else if has_flag flags SHOWSIGNFLAG then 43 # dec_string (unat n)
     else dec_string (unat n))"

definition hex_out :: "u32 \<Rightarrow> u64 \<Rightarrow> u8 list" where
  "hex_out flags u = hex_string (if has_flag flags CAPSFLAG then hextable_caps else hextable) (unat u)"

lemma unat_neg_sint: "sint n < 0 \<Longrightarrow> unat (- n :: u64) = nat (- sint n)"
proof -
  assume n: "sint n < 0"
  have "- (2 ^ 63) \<le> sint n" using sint_ge [of n] by simp
  then have "- sint n < 2 ^ LENGTH(64)" by simp
  with n have "uint (word_of_int (- sint n) :: u64) = - sint n"
    by (subst uint_word_of_int) (intro mod_pos_pos_trivial, simp_all)
  moreover have "word_of_int (- sint n) = - n" by simp
  ultimately have "uint (- n) = - sint n" by simp
  then show ?thesis by (metis nat_uint_eq)
qed

lemma unat_lt_2p64: "unat (x :: u64) < 18446744073709551616"
proof -
  have "unat x < 2 ^ LENGTH(64)" by (rule unsigned_less)
  then show ?thesis by simp
qed

lemma longlong_to_string_holds:
  assumes "length buf = 32"
  shows "\<exists>b. longlong_to_string buf n 32 flags = Some b \<and> holds 32 b (dec_out flags n @ [0])"
proof -
  define neg where "neg = (has_flag flags SIGNEDFLAG \<and> sint n < 0)"
  define n1 where "n1 = (if neg then - n else n)"
  have len: "length (dec_string (unat n1)) \<le> 20"
    using length_dec_string [of "unat n1" 19] unat_lt_2p64 [of n1] by simp
  from buf_push_holds [OF holds_init [OF assms]] obtain b0 where
    b0: "buf_push (buf, 32) 0 = Some b0" "holds 32 b0 [0]" by fastforce
  have "length (dec_string (unat n1)) + length [0 :: u8] \<le> 32" using len by simp
  from dec_digits_loop_holds [OF b0(2) this] obtain b1 n2 ys where
    b1: "dec_digits_loop b0 n1 = Some (b1, n2)" "holds 32 b1 ys" "length ys < 32"
      "(ucast n2 + 48) # ys = dec_string (unat n1) @ [0]" by blast
  from buf_push_holds [OF b1(2,3)] b1(4) obtain b2 where
    b2: "buf_push b1 (ucast n2 + 48) = Some b2" "holds 32 b2 (dec_string (unat n1) @ [0])" by metis
  have len2: "length (dec_string (unat n1) @ [0]) < 32" using len by simp
  have n1: "dec_out flags n = (if neg then 45 # dec_string (unat n1)
      else if has_flag flags SHOWSIGNFLAG then 43 # dec_string (unat n1) else dec_string (unat n1))"
    by (auto simp: dec_out_def n1_def neg_def unat_neg_sint)
  show ?thesis
    unfolding longlong_to_string_def neg_def [symmetric] Let_def n1_def [symmetric] n1
    using b0(1) b1(1) b2 buf_push_holds [OF b2(2) len2, of 45] buf_push_holds [OF b2(2) len2, of 43]
    by (cases b2) auto
qed

lemma hex_digits_loop_holds:
  assumes "holds len b xs" and "length (hex_string t (unat u)) + length xs \<le> len"
  shows "\<exists>b'. hex_digits_loop t b u = Some b' \<and> holds len b' (hex_string t (unat u) @ xs)"
  using assms
proof (induction t b u arbitrary: xs rule: hex_digits_loop.induct)
  case (1 t b u)
  have d: "unat (u div 16) = unat u div 16" "unat (u mod 16) = unat u mod 16"
    by (simp_all add: unat_div unat_mod)
  have "hex_string t (unat u) \<noteq> []" by (subst hex_string.simps) simp
  then have "length xs < len" using 1(3) by (cases "hex_string t (unat u)") auto
  from buf_push_holds [OF 1(2) this] obtain b' where
    b': "buf_push b (t ! unat (u mod 16)) = Some b'" "holds len b' ((t ! unat (u mod 16)) # xs)"
    by blast
  show ?case
  proof (cases "u div 16 = 0")
    case True
    then have "unat u div 16 = 0" using d(1) by simp
    then have "unat u < 16" by simp
    then have "hex_string t (unat u) = [t ! unat (u mod 16)]" using d by (subst hex_string.simps) simp
    with True b' show ?thesis by (subst hex_digits_loop.simps) simp
  next
    case False
    then have "unat u div 16 \<noteq> 0" using d(1) by (metis unat_eq_zero)
    then have "\<not> unat u < 16" by simp
    then have ds: "hex_string t (unat u) = hex_string t (unat u div 16) @ [t ! (unat u mod 16)]"
      by (subst hex_string.simps) simp
    have "length (hex_string t (unat (u div 16))) + length ((t ! unat (u mod 16)) # xs) \<le> len"
      using 1(3) ds d by simp
    from 1(1) [OF b'(1) False b'(2) this] show ?thesis
      using False b'(1) by (subst hex_digits_loop.simps) (simp add: d ds)
  qed
qed

lemma longlong_to_hexstring_holds:
  assumes "length buf = 32"
  shows "\<exists>b. longlong_to_hexstring buf u 32 flags = Some b \<and> holds 32 b (hex_out flags u @ [0])"
proof -
  let ?t = "if has_flag flags CAPSFLAG then hextable_caps else hextable"
  have len: "length (hex_string ?t (unat u)) \<le> 16"
    using length_hex_string [of "unat u" 15 ?t] unat_lt_2p64 [of u] by simp
  from buf_push_holds [OF holds_init [OF assms]] obtain b0 where
    b0: "buf_push (buf, 32) 0 = Some b0" "holds 32 b0 [0]" by fastforce
  have "length (hex_string ?t (unat u)) + length [0 :: u8] \<le> 32" using len by simp
  from hex_digits_loop_holds [OF b0(2) this] b0(1) show ?thesis
    by (simp add: longlong_to_hexstring_def hex_out_def Let_def)
qed

section \<open>The output as a sequence of characters\<close>

text \<open>All output goes through \<open>output_char\<close>; \<open>emit\<close> is a run of it.\<close>

fun emit :: "pf \<Rightarrow> u8 list \<Rightarrow> outcome" where
  "emit st [] = Go st"
| "emit st (c # cs) = obind (output_char st c) (\<lambda>st'. emit st' cs)"

lemma obind_assoc: "obind (obind r f) g = obind r (\<lambda>st. obind (f st) g)"
  by (cases r) simp_all

lemma emit_append: "emit st (xs @ ys) = obind (emit st xs) (\<lambda>st'. emit st' ys)"
  by (induction xs arbitrary: st) (simp_all add: obind_assoc)

lemma emit_single: "emit st [c] = output_char st c"
  by (cases "output_char st c") simp_all

lemma pad_emit: "pad st c n = emit st (replicate n c)"
  by (induction n arbitrary: st) simp_all

text \<open>
  The bytes that fit: a length of 0 or 1 does not limit the output at all, since the code
  compares \<open>chars_written + 1\<close> with it only after a character is stored.
\<close>

definition fits :: "u32 \<Rightarrow> u8 list \<Rightarrow> u8 list" where
  "fits len xs = (if 2 \<le> unat len then take (unat len - 1) xs else xs)"

text \<open>\<open>written m p o len st\<close>: from \<open>m\<close> and \<open>p\<close>, the output so far is \<open>o\<close>.\<close>

definition written :: "mem \<Rightarrow> ptr \<Rightarrow> u8 list \<Rightarrow> pf \<Rightarrow> bool" where
  "written m p out st \<longleftrightarrow> pmem st = wr m p out \<and> pstr st = p + of_nat (length out)
     \<and> chars_written st = of_nat (length out)"

text \<open>The output region: \<open>N\<close> bytes, which no run leaves.\<close>

definition room :: "u32 \<Rightarrow> nat \<Rightarrow> u8 list \<Rightarrow> bool" where
  "room len N out \<longleftrightarrow> N < 2 ^ 32 \<and> (length out < N \<or> 2 \<le> unat len \<and> unat len \<le> N)"

definition going :: "u32 \<Rightarrow> u8 list \<Rightarrow> bool" where
  "going len out \<longleftrightarrow> 2 \<le> unat len \<longrightarrow> length out + 1 < unat len"

definition same_ctl :: "pf \<Rightarrow> pf \<Rightarrow> bool" where
  "same_ctl st st' \<longleftrightarrow> pfmt st' = pfmt st \<and> pap st' = pap st \<and> plen st' = plen st"

lemma output_char_written:
  assumes "written m p out st" and "going (plen st) out" and "room (plen st) N (out @ [c])"
  shows "case output_char st c of
      Go st' \<Rightarrow> written m p (out @ [c]) st' \<and> going (plen st) (out @ [c]) \<and> same_ctl st st'
    | Done st' \<Rightarrow> written m p (out @ [c]) st' \<and> \<not> going (plen st) (out @ [c])"
proof -
  have len: "length out + 2 < 2 ^ 32"
    using assms(2,3) unat_lt_2p32 [of "plen st"] by (auto simp: room_def going_def)
  have eq: "chars_written st + 1 + 1 = plen st \<longleftrightarrow> length out + 2 = unat (plen st)"
  proof -
    have "chars_written st + 1 + 1 = of_nat (length out + 2)"
      using assms(1) by (simp add: written_def)
    then show ?thesis using len unat_of_nat_u32 [of "length out + 2"] by (metis of_nat_unat ucast_id)
  qed
  show ?thesis
    using assms eq by (auto simp: output_char_def Let_def written_def wr_append going_def same_ctl_def)
qed

text \<open>
  \<open>reaches\<close>: a run of output from a state that has written \<open>out\<close> ends having written as much
  of \<open>whole\<close> as fits, and is \<open>Done\<close> only when the rest does not fit.
\<close>

fun reaches :: "mem \<Rightarrow> ptr \<Rightarrow> pf \<Rightarrow> u8 list \<Rightarrow> outcome \<Rightarrow> bool" where
  "reaches m p st whole (Go st') \<longleftrightarrow> written m p whole st' \<and> going (plen st) whole \<and> same_ctl st st'"
| "reaches m p st whole (Done st') \<longleftrightarrow> written m p (fits (plen st) whole) st' \<and> \<not> going (plen st) whole"

lemma room_append: "room len N (xs @ ys) \<Longrightarrow> room len N xs"
  by (auto simp: room_def)

lemma not_going_append: "\<not> going len xs \<Longrightarrow> \<not> going len (xs @ ys)"
  by (auto simp: going_def)

lemma fits_append: "\<not> going len xs \<Longrightarrow> fits len (xs @ ys) = fits len xs"
  by (auto simp: going_def fits_def)

lemma going_room_length: "going len out \<Longrightarrow> room len N out \<Longrightarrow> length out < N"
  by (auto simp: going_def room_def)

lemma reaches_Done_append: "reaches m p st xs (Done st') \<Longrightarrow> reaches m p st (xs @ ys) (Done st')"
  by (simp add: fits_append not_going_append)

lemma reaches_ctl: "same_ctl st st' \<Longrightarrow> reaches m p st' xs r \<Longrightarrow> reaches m p st xs r"
  by (cases r) (auto simp: same_ctl_def)

lemma emit_reaches:
  "written m p out st \<Longrightarrow> going (plen st) out \<Longrightarrow> room (plen st) N (out @ xs) \<Longrightarrow>
    reaches m p st (out @ xs) (emit st xs)"
proof (induction xs arbitrary: st out)
  case Nil
  then show ?case by (simp add: same_ctl_def)
next
  case (Cons c cs)
  have room1: "room (plen st) N (out @ [c])" using Cons.prems(3) room_append [of _ _ "out @ [c]" cs] by simp
  note step = output_char_written [OF Cons.prems(1,2) room1]
  show ?case
  proof (cases "output_char st c")
    case (Go st1)
    with step have st1: "written m p (out @ [c]) st1" "going (plen st1) (out @ [c])" "same_ctl st st1"
      by (auto simp: same_ctl_def)
    then have "reaches m p st1 ((out @ [c]) @ cs) (emit st1 cs)"
      using Cons.prems(3) by (intro Cons.IH) (auto simp: same_ctl_def)
    with Go st1(3) show ?thesis by (auto intro: reaches_ctl)
  next
    case (Done st1)
    with step Cons.prems(2) have "reaches m p st (out @ [c]) (Done st1)"
      by (auto simp: fits_def going_def)
    from reaches_Done_append [OF this, of cs] Done show ?thesis by simp
  qed
qed

section \<open>The shared output code emits the justified string\<close>

text \<open>The pointer \<open>s\<close> stands for the bytes \<open>xs\<close>, and the output region keeps clear of them.\<close>

fun src_holds :: "mem \<Rightarrow> ptr \<Rightarrow> nat \<Rightarrow> strsrc \<Rightarrow> u8 list \<Rightarrow> bool" where
  "src_holds m p N (SMem q) xs \<longleftrightarrow> cstr m q xs \<and> sep q (length xs + 1) p N"
| "src_holds m p N (SBytes ys) xs \<longleftrightarrow> ys = xs \<and> 0 \<notin> set xs \<and> length xs < 2 ^ 32"

lemma sep_step:
  assumes "sep q (Suc (Suc k)) p N"
  shows "sep (q + 1) (Suc k) p N"
proof -
  have "p \<noteq> q" using assms by (auto simp: sep_def)
  then have "unat (p - (q + 1)) = unat (p - q) - 1" by (rule unat_sub_one)
  moreover have "N \<le> unat (q + of_nat 1 - p)" using assms by (rule sep_unat) simp
  ultimately show ?thesis using assms by (auto simp add: sep_def)
qed

lemma src_holds_length: "src_holds m p N s xs \<Longrightarrow> length xs < 2 ^ 32"
  by (cases s) (auto dest: cstr_length)

lemma src_get_written:
  assumes "src_holds m p N s xs" and "written m p out st" and "length out \<le> N"
  shows "src_get (pmem st) s = (case xs of [] \<Rightarrow> 0 | x # _ \<Rightarrow> x)"
proof (cases s)
  case (SMem q)
  have "length out \<le> unat (q - p)"
    using assms SMem by (simp add: sep_def)
  then have "pmem st q = m q" using assms(2) by (simp add: written_def wr_other)
  with assms(1) SMem show ?thesis by (cases xs) auto
next
  case (SBytes ys)
  with assms(1) show ?thesis by (cases xs) auto
qed

lemma src_next_holds: "src_holds m p N s (x # xs) \<Longrightarrow> src_holds m p N (src_next s) xs \<and> x \<noteq> 0"
  by (cases s) (auto simp: sep_step)

lemma out_str_loop_emit:
  "written m p out st \<Longrightarrow> going (plen st) out \<Longrightarrow> room (plen st) N (out @ xs) \<Longrightarrow>
    src_holds m p N s xs \<Longrightarrow>
    \<exists>k. out_str_loop st s n = Some (emit st xs, k)
      \<and> (\<forall>st'. emit st xs = Go st' \<longrightarrow> k = n + of_nat (length xs))"
proof (induction xs arbitrary: st out s n)
  case Nil
  have "length out \<le> N" using Nil going_room_length [of "plen st" out N] by simp
  with Nil have "src_get (pmem st) s = 0" using src_get_written [of m p N s "[]"] by simp
  then show ?case by (subst out_str_loop.simps) simp
next
  case (Cons x xs)
  have room1: "room (plen st) N (out @ [x])" using Cons.prems(3) room_append [of _ _ "out @ [x]" xs] by simp
  have "room (plen st) N out" using room1 by (rule room_append)
  then have "length out \<le> N" using Cons.prems(2) going_room_length by fastforce
  with Cons.prems have get: "src_get (pmem st) s = x"
    using src_get_written [of m p N s "x # xs" out st] by simp
  have nxt: "src_holds m p N (src_next s) xs" "x \<noteq> 0" using src_next_holds Cons.prems(4) by blast+
  note step = output_char_written [OF Cons.prems(1,2) room1]
  show ?case
  proof (cases "output_char st x")
    case (Go st1)
    with step have st1: "written m p (out @ [x]) st1" "going (plen st1) (out @ [x])" "plen st1 = plen st"
      by (auto simp: same_ctl_def)
    then have "\<exists>k. out_str_loop st1 (src_next s) (n + 1) = Some (emit st1 xs, k)
      \<and> (\<forall>st'. emit st1 xs = Go st' \<longrightarrow> k = n + 1 + of_nat (length xs))"
      using Cons.prems(3) nxt by (intro Cons.IH [of "out @ [x]"]) auto
    with Go get nxt show ?thesis
      by (subst out_str_loop.simps) (auto simp: Let_def ac_simps)
  next
    case (Done st1)
    with get nxt show ?thesis by (subst out_str_loop.simps) (simp add: Let_def)
  qed
qed

definition str_out :: "u32 \<Rightarrow> u32 \<Rightarrow> u8 list \<Rightarrow> u8 list" where
  "str_out flags num xs =
    (if has_flag flags LEFTFORMATFLAG then xs @ replicate (unat num - length xs) 32
     else replicate (unat num - length xs) (if has_flag flags LEADZEROFLAG then 48 else 32) @ xs)"

lemma src_strlen_written:
  assumes "src_holds m p N s xs" and "written m p out st" and "length out \<le> N"
  shows "src_strlen (pmem st) s = Some (of_nat (length xs))"
proof (cases s)
  case (SMem q)
  have "sep q (length xs + 1) p (length out)" using assms SMem by (auto intro: sep_le)
  then have "cstr (wr m p out) q xs" using assms SMem by (intro cstr_wr_sep) simp_all
  with SMem assms(2) show ?thesis by (simp add: written_def strlen_cstr)
next
  case (SBytes ys)
  with assms(1) show ?thesis by simp
qed

lemma output_string_emit:
  assumes "written m p out st" and "going (plen st) out"
    and "room (plen st) N (out @ str_out flags num xs)" and "src_holds m p N s xs"
  shows "output_string flags num st s = Some (emit st (str_out flags num xs))"
proof (cases "has_flag flags LEFTFORMATFLAG")
  case True
  let ?pad = "replicate (unat num - length xs) (32 :: u8)"
  have "room (plen st) N ((out @ xs) @ ?pad)" using assms(3) True by (simp add: str_out_def)
  then have "room (plen st) N (out @ xs)" by (rule room_append)
  from out_str_loop_emit [OF assms(1,2) this assms(4)] obtain k where
    k: "out_str_loop st s 0 = Some (emit st xs, k)" "\<And>st'. emit st xs = Go st' \<Longrightarrow> k = of_nat (length xs)"
    by (metis add_0)
  have "obind (emit st xs) (\<lambda>st'. pad st' 32 (unat num - unat k)) = emit st (xs @ ?pad)"
    using k(2) src_holds_length [OF assms(4)]
    by (cases "emit st xs") (simp_all add: emit_append pad_emit unat_of_nat_u32)
  with k(1) True show ?thesis by (simp add: output_string_def str_out_def)
next
  case False
  let ?c = "if has_flag flags LEADZEROFLAG then 48 else 32 :: u8"
  let ?pad = "replicate (unat num - length xs) ?c"
  have room: "room (plen st) N ((out @ ?pad) @ xs)" using assms(3) False by (simp add: str_out_def)
  then have room1: "room (plen st) N (out @ ?pad)" by (rule room_append)
  have "length out \<le> N" using going_room_length [OF assms(2)] room_append [OF room1] by fastforce
  from src_strlen_written [OF assms(4,1) this]
  have len: "src_strlen (pmem st) s = Some (of_nat (length xs))" .
  have "unat (of_nat (length xs) :: u32) = length xs"
    using src_holds_length [OF assms(4)] by (rule unat_of_nat_u32)
  then have pad: "pad st ?c (unat num - unat (of_nat (length xs) :: u32)) = emit st ?pad"
    by (simp only: pad_emit)
  note r = emit_reaches [OF assms(1,2) room1]
  show ?thesis
  proof (cases "emit st ?pad")
    case (Go st1)
    with r have "written m p (out @ ?pad) st1" "going (plen st1) (out @ ?pad)" "plen st1 = plen st"
      by (auto simp: same_ctl_def)
    then obtain k where "out_str_loop st1 s 0 = Some (emit st1 xs, k)"
      using out_str_loop_emit [of m p "out @ ?pad" st1 N xs s 0] room assms(4) by auto
    with len pad False Go show ?thesis
      by (simp add: output_string_def str_out_def emit_append)
  next
    case (Done st1)
    with len pad False show ?thesis
      by (simp add: output_string_def str_out_def emit_append)
  qed
qed

section \<open>What a format prints\<close>

text \<open>
  The specification of the interpreter, on lists: \<open>S\<close> gives the contents of the strings that
  \<open>%s\<close> arguments point to. \<open>%n\<close>, a missing argument and one of the wrong size have no output.
\<close>

definition conv_out :: "(ptr \<Rightarrow> u8 list option) \<Rightarrow> u8 \<Rightarrow> u32 \<Rightarrow> u32 \<Rightarrow> vararg list
    \<Rightarrow> (u8 list \<times> vararg list) option" where
  "conv_out S c flags num ap =
    (if c = 37 then Some ([37], ap)
     else if c = 99 then do { (x, ap') \<leftarrow> va_arg32 ap; Some ([ucast x], ap') }
     else if c = 115 then
       do { (s, ap') \<leftarrow> va_arg32 ap;
            xs \<leftarrow> (if s = 0 then Some null_string else S s);
            Some (str_out flags num xs, ap') }
     else if c = 68 \<or> c = 105 \<or> c = 100 then
       (let f = (if c = 68 then flags OR LONGFLAG else flags) in
        do { (n, ap') \<leftarrow> fetch_signed f ap;
             Some (str_out (f OR SIGNEDFLAG) num (dec_out (f OR SIGNEDFLAG) n), ap') })
     else if c = 85 \<or> c = 117 then
       (let f = (if c = 85 then flags OR LONGFLAG else flags) in
        do { (n, ap') \<leftarrow> fetch_unsigned f ap; Some (str_out f num (dec_out f n), ap') })
     else if c = 112 \<or> c = 88 \<or> c = 120 then
       (let f = (if c = 112 then flags OR (LONGFLAG OR ALTFLAG)
                 else if c = 88 then flags OR CAPSFLAG else flags) in
        do { (n, ap') \<leftarrow> fetch_unsigned f ap;
             Some ((if has_flag f ALTFLAG then [48, if has_flag f CAPSFLAG then 88 else 120] else [])
               @ str_out f num (hex_out f n), ap') })
     else if c = 110 then None
     else Some ([37, c], ap))"

fun fmt_out :: "(ptr \<Rightarrow> u8 list option) \<Rightarrow> fmode \<Rightarrow> u8 list \<Rightarrow> vararg list \<Rightarrow> u8 list option" where
  "fmt_out S mode [] ap = Some []"
| "fmt_out S Regular (c # cs) ap =
    (if c = 37 then fmt_out S (NextFormat 0 0) cs ap
     else map_option ((#) c) (fmt_out S Regular cs ap))"
| "fmt_out S (NextFormat flags num) (c # cs) ap =
    (case vsn_modifier c flags num of
       Some fn \<Rightarrow> fmt_out S (NextFormat (fst fn) (snd fn)) cs ap
     | None \<Rightarrow> do { (xs, ap') \<leftarrow> conv_out S c flags num ap;
                    map_option ((@) xs) (fmt_out S Regular cs ap') })"

definition format :: "(ptr \<Rightarrow> u8 list option) \<Rightarrow> u8 list \<Rightarrow> vararg list \<Rightarrow> u8 list option" where
  "format S cs ap = fmt_out S Regular cs ap"

section \<open>vsnprintf prints it\<close>

definition strings_ok :: "mem \<Rightarrow> ptr \<Rightarrow> nat \<Rightarrow> (ptr \<Rightarrow> u8 list option) \<Rightarrow> bool" where
  "strings_ok m p N S \<longleftrightarrow> (\<forall>q xs. S q = Some xs \<longrightarrow> cstr m q xs \<and> sep q (length xs + 1) p N)"

lemma dec_string_digits: "c \<in> set (dec_string n) \<Longrightarrow> is_dec c"
proof (induction n rule: dec_string.induct)
  case (1 n)
  have digit: "is_dec (of_nat k + 48)" if "k < 10" for k
  proof -
    have "unat (of_nat k + 48 :: u8) = k + 48" using that by (simp add: unat_word_ariths unat_of_nat take_bit_nat_eq_self)
    then show ?thesis using that by (simp add: is_dec_def uint_le_numeral numeral_le_uint)
  qed
  show ?case
  proof (cases "n < 10")
    case True
    with 1(2) digit [of n] show ?thesis by (subst (asm) dec_string.simps) simp
  next
    case False
    with 1 digit [of "n mod 10"] show ?thesis by (subst (asm) dec_string.simps) auto
  qed
qed

lemma dec_out_no_nul: "0 \<notin> set (dec_out flags n)"
  using dec_string_digits [of 0 "nat (- sint n)"] dec_string_digits [of 0 "unat n"]
  by (auto simp: dec_out_def)

lemma hex_string_table: "16 \<le> length t \<Longrightarrow> c \<in> set (hex_string t n) \<Longrightarrow> c \<in> set t"
proof (induction t n rule: hex_string.induct)
  case (1 t n)
  show ?case
  proof (cases "n < 16")
    case True
    with 1 show ?thesis by (subst (asm) (2) hex_string.simps) simp
  next
    case False
    have "t ! (n mod 16) \<in> set t" using 1(2) by (intro nth_mem) (simp add: less_le_trans)
    with False 1 show ?thesis by (subst (asm) (2) hex_string.simps) auto
  qed
qed

lemma hex_out_no_nul: "0 \<notin> set (hex_out flags n)"
  using hex_string_table [of hextable 0 "unat n"] hex_string_table [of hextable_caps 0 "unat n"]
  by (auto simp: hex_out_def hextable_def hextable_caps_def)

lemma buf_string_holds: "holds len b (xs @ [0]) \<Longrightarrow> 0 \<notin> set xs \<Longrightarrow> buf_string b = SBytes xs"
  by (auto simp: holds_def buf_string_def takeWhile_append takeWhile_eq_all_conv)

lemma num_string:
  "\<exists>b. longlong_to_string num_buffer n 32 flags = Some b \<and> buf_string b = SBytes (dec_out flags n)
     \<and> length (dec_out flags n) < 2 ^ 32"
  "\<exists>b. longlong_to_hexstring num_buffer n 32 flags = Some b \<and> buf_string b = SBytes (hex_out flags n)
     \<and> length (hex_out flags n) < 2 ^ 32"
proof -
  have len: "length num_buffer = 32" by (simp add: num_buffer_def)
  have small: "length xs < 2 ^ 32" if "holds 32 b (xs @ [0])" for b and xs :: "u8 list"
    using that by (simp add: holds_def)
  from longlong_to_string_holds [OF len, of n flags] show "\<exists>b. longlong_to_string num_buffer n 32 flags = Some b
      \<and> buf_string b = SBytes (dec_out flags n) \<and> length (dec_out flags n) < 2 ^ 32"
    using buf_string_holds dec_out_no_nul small by blast
  from longlong_to_hexstring_holds [OF len, of n flags] show "\<exists>b. longlong_to_hexstring num_buffer n 32 flags = Some b
      \<and> buf_string b = SBytes (hex_out flags n) \<and> length (hex_out flags n) < 2 ^ 32"
    using buf_string_holds hex_out_no_nul small by blast
qed

lemma written_ap [simp]: "written m p out (st\<lparr>pap := ap\<rparr>) = written m p out st"
  by (simp add: written_def)

lemma vsn_conv_emit:
  assumes conv: "conv_out S c flags num (pap st) = Some (xs, ap')"
    and w: "written m p out st" "going (plen st) out" "room (plen st) N (out @ xs)"
    and S: "strings_ok m p N S"
  shows "vsn_conv c flags num st = Some (emit (st\<lparr>pap := ap'\<rparr>) xs)"
proof -
  let ?st = "st\<lparr>pap := ap'\<rparr>"
  have w': "written m p out ?st" "going (plen ?st) out" using w by simp_all
  note out_str = output_string_emit [OF w']
  consider "c = 37" | "c = 99" | "c = 115" | "c = 68 \<or> c = 105 \<or> c = 100" | "c = 85 \<or> c = 117"
    | "c = 112 \<or> c = 88 \<or> c = 120"
    | "c \<notin> {37, 99, 115, 68, 105, 100, 85, 117, 112, 88, 120}" by blast
  then show ?thesis
  proof cases
    case 1
    then have "?st = st" "xs = [37]" using conv by (auto simp: conv_out_def)
    with 1 show ?thesis unfolding vsn_conv_def by (simp only: emit_single) simp
  next
    case 2
    with conv show ?thesis
      by (auto simp: conv_out_def vsn_conv_def emit_single simp del: emit.simps split: Option.bind_splits)
  next
    case 3
    with conv obtain s ys where s: "va_arg32 (pap st) = Some (s, ap')"
      "(if s = 0 then Some null_string else S s) = Some ys" "xs = str_out flags num ys"
      by (auto simp: conv_out_def split: Option.bind_splits if_splits)
    have "src_holds m p N (if s = 0 then SBytes null_string else SMem s) ys"
      using s(2) S by (auto simp: strings_ok_def null_string_def split: if_splits)
    from out_str [OF _ this, of flags num] w(3) s(3)
    have "output_string flags num ?st (if s = 0 then SBytes null_string else SMem s) = Some (emit ?st xs)"
      by simp
    with 3 s(1) show ?thesis by (simp add: vsn_conv_def)
  next
    case 4
    define f where "f = (if c = 68 then flags OR LONGFLAG else flags)"
    from 4 conv obtain n where n: "fetch_signed f (pap st) = Some (n, ap')"
      "xs = str_out (f OR SIGNEDFLAG) num (dec_out (f OR SIGNEDFLAG) n)"
      by (auto simp: conv_out_def f_def Let_def split: Option.bind_splits if_splits)
    from num_string(1) obtain b where b: "longlong_to_string num_buffer n 32 (f OR SIGNEDFLAG) = Some b"
      "buf_string b = SBytes (dec_out (f OR SIGNEDFLAG) n)" "length (dec_out (f OR SIGNEDFLAG) n) < 2 ^ 32"
      by blast
    then have "src_holds m p N (buf_string b) (dec_out (f OR SIGNEDFLAG) n)" by (simp add: dec_out_no_nul)
    from out_str [OF _ this, of "f OR SIGNEDFLAG" num] w(3) n(2)
    have "output_string (f OR SIGNEDFLAG) num ?st (buf_string b) = Some (emit ?st xs)" by simp
    with 4 n(1) b(1) show ?thesis by (auto simp: vsn_conv_def Let_def f_def)
  next
    case 5
    define f where "f = (if c = 85 then flags OR LONGFLAG else flags)"
    from 5 conv obtain n where n: "fetch_unsigned f (pap st) = Some (n, ap')"
      "xs = str_out f num (dec_out f n)"
      by (auto simp: conv_out_def f_def Let_def split: Option.bind_splits if_splits)
    from num_string(1) obtain b where b: "longlong_to_string num_buffer n 32 f = Some b"
      "buf_string b = SBytes (dec_out f n)" "length (dec_out f n) < 2 ^ 32"
      by blast
    then have "src_holds m p N (buf_string b) (dec_out f n)" by (simp add: dec_out_no_nul)
    from out_str [OF _ this, of f num] w(3) n(2)
    have "output_string f num ?st (buf_string b) = Some (emit ?st xs)" by simp
    with 5 n(1) b(1) show ?thesis by (auto simp: vsn_conv_def Let_def f_def)
  next
    case 6
    define f where "f = (if c = 112 then flags OR (LONGFLAG OR ALTFLAG)
                 else if c = 88 then flags OR CAPSFLAG else flags)"
    define pre where "pre = (if has_flag f ALTFLAG then [48, if has_flag f CAPSFLAG then 88 else 120] else [] :: u8 list)"
    have "conv_out S c flags num (pap st) = do { (n, ap') \<leftarrow> fetch_unsigned f (pap st);
        Some (pre @ str_out f num (hex_out f n), ap') }"
      using 6 by (elim disjE) (simp_all add: conv_out_def f_def pre_def Let_def)
    with conv obtain n where n: "fetch_unsigned f (pap st) = Some (n, ap')"
      "xs = pre @ str_out f num (hex_out f n)"
      by (auto split: Option.bind_splits)
    from num_string(2) obtain b where b: "longlong_to_hexstring num_buffer n 32 f = Some b"
      "buf_string b = SBytes (hex_out f n)" "length (hex_out f n) < 2 ^ 32"
      by blast
    then have src: "src_holds m p N (buf_string b) (hex_out f n)" by (simp add: hex_out_no_nul)
    have room: "room (plen ?st) N ((out @ pre) @ str_out f num (hex_out f n))" using w(3) n(2) by simp
    have emit: "(case emit ?st pre of Done st3 \<Rightarrow> Some (Done st3)
        | Go st3 \<Rightarrow> output_string f num st3 (buf_string b)) = Some (emit ?st xs)"
    proof (cases "emit ?st pre")
      case (Go st3)
      have "reaches m p ?st (out @ pre) (emit ?st pre)"
        using emit_reaches [OF w' room_append [OF room]] .
      with Go have "written m p (out @ pre) st3" "going (plen st3) (out @ pre)" "plen st3 = plen ?st"
        by (auto simp: same_ctl_def)
      with output_string_emit [of m p "out @ pre" st3 N f num "hex_out f n" "buf_string b"] src room Go
      show ?thesis by (simp add: n(2) emit_append)
    qed (simp add: n(2) emit_append)
    have "emit ?st pre = (if has_flag f ALTFLAG then obind (output_char ?st 48)
        (\<lambda>st2. output_char st2 (if has_flag f CAPSFLAG then 88 else 120)) else Go ?st)"
      by (simp add: pre_def emit_single [unfolded emit.simps])
    with emit 6 n(1) b(1) show ?thesis
      unfolding vsn_conv_def f_def [symmetric] Let_def by (auto split: if_splits)
  next
    case 7
    with conv have c: "c \<noteq> 110" "?st = st" "xs = [37, c]" by (auto simp: conv_out_def split: if_splits)
    have "emit st [37, c] = obind (output_char st 37) (\<lambda>st'. output_char st' c)"
      using emit_append [of st "[37]" "[c]"] by (simp only: emit_single append_Cons append_Nil)
    with 7 c show ?thesis by (simp add: vsn_conv_def)
  qed
qed

lemma written_fmt [simp]: "written m p out (st\<lparr>pfmt := f\<rparr>) = written m p out st"
  by (simp add: written_def)

lemma mem_outside: "written m p out st \<Longrightarrow> length out \<le> unat (q - p) \<Longrightarrow> pmem st q = m q"
  by (simp add: written_def wr_other)

text \<open>The state in which \<open>vsn_loop\<close> stops.\<close>

definition finished :: "mem \<Rightarrow> ptr \<Rightarrow> u32 \<Rightarrow> u8 list \<Rightarrow> pf option \<Rightarrow> bool" where
  "finished m p len whole r \<longleftrightarrow> (\<exists>st'. r = Some st' \<and> written m p (fits len whole) st')"

lemma reaches_finished:
  assumes "reaches m p st (out @ xs) r" and "room (plen st) N ((out @ xs) @ ys)"
    and "\<And>st'. r = Go st' \<Longrightarrow> written m p (out @ xs) st' \<Longrightarrow> going (plen st) (out @ xs) \<Longrightarrow>
       same_ctl st st' \<Longrightarrow> finished m p (plen st) ((out @ xs) @ ys) (f st')"
  shows "finished m p (plen st) ((out @ xs) @ ys) (case r of Done st2 \<Rightarrow> Some st2 | Go st2 \<Rightarrow> f st2)"
proof (cases r)
  case (Go st2)
  with assms show ?thesis by simp
next
  case (Done st2)
  with assms(1) reaches_Done_append [of m p st "out @ xs" st2 ys] show ?thesis
    by (simp add: finished_def)
qed

lemma vsn_loop_finished:
  assumes S: "strings_ok m p N S"
  shows "fmt_out S mode cs (pap st) = Some ys \<Longrightarrow> written m p out st \<Longrightarrow> going (plen st) out \<Longrightarrow>
    room (plen st) N (out @ ys) \<Longrightarrow> cstr m (pfmt st) cs \<Longrightarrow> sep (pfmt st) (length cs + 1) p N \<Longrightarrow>
    finished m p (plen st) (out @ ys) (vsn_loop mode st)"
proof (induction cs arbitrary: mode st out ys)
  case Nil
  have "length out \<le> N" using Nil(3,4) room_append going_room_length by fastforce
  then have "pmem st (pfmt st) = 0" using Nil(2,5,6) by (simp add: mem_outside sep_def)
  moreover have "fits (plen st) out = out" using Nil(3) by (auto simp: fits_def going_def)
  ultimately show ?case using Nil(1,2) by (subst vsn_loop.simps) (simp add: finished_def)
next
  case (Cons c cs)
  let ?st = "st\<lparr>pfmt := pfmt st + 1\<rparr>"
  have "length out \<le> N" using Cons.prems(3,4) room_append going_room_length by fastforce
  then have c: "pmem st (pfmt st) = c" "c \<noteq> 0"
    using Cons.prems(2,5,6) by (simp_all add: mem_outside sep_def)
  have w: "written m p out ?st" "going (plen ?st) out" using Cons.prems(2,3) by simp_all
  have nxt: "cstr m (pfmt ?st) cs" "sep (pfmt ?st) (length cs + 1) p N"
    using Cons.prems(5,6) sep_step by simp_all
  have step: "finished m p (plen st) ((out @ xs) @ zs) (case emit (?st\<lparr>pap := ap'\<rparr>) xs of
      Done st2 \<Rightarrow> Some st2 | Go st2 \<Rightarrow> vsn_loop Regular st2)"
    if zs: "fmt_out S Regular cs ap' = Some zs" and ys: "ys = xs @ zs" for xs zs ap'
  proof -
    let ?st' = "?st\<lparr>pap := ap'\<rparr>"
    have room: "room (plen ?st') N ((out @ xs) @ zs)" using Cons.prems(4) ys by simp
    have w': "written m p out ?st'" "going (plen ?st') out" using w by simp_all
    have "finished m p (plen ?st') ((out @ xs) @ zs) (vsn_loop Regular st2)"
      if st2: "written m p (out @ xs) st2" "going (plen ?st') (out @ xs)" "same_ctl ?st' st2" for st2
    proof -
      have "pap st2 = ap'" "pfmt st2 = pfmt ?st" "plen st2 = plen st"
        using st2(3) by (simp_all add: same_ctl_def)
      then show ?thesis
        using Cons.IH [of Regular st2 zs "out @ xs"] zs st2 room nxt by simp
    qed
    from reaches_finished [OF emit_reaches [OF w' room_append [OF room]] room, of "vsn_loop Regular", OF this]
    show ?thesis by simp
  qed
  show ?case
  proof (cases mode)
    case Regular
    show ?thesis
    proof (cases "c = 37")
      case True
      with Regular Cons.prems(1) have "fmt_out S (NextFormat 0 0) cs (pap ?st) = Some ys" by simp
      from Cons.IH [OF this w _ nxt] Cons.prems(4) have "finished m p (plen st) (out @ ys) (vsn_loop (NextFormat 0 0) ?st)"
        by simp
      with Regular True c show ?thesis by (subst vsn_loop.simps) (simp add: Let_def)
    next
      case False
      with Regular Cons.prems(1) obtain zs where "fmt_out S Regular cs (pap st) = Some zs" "ys = [c] @ zs"
        by auto
      from step [OF this] False Regular c \<open>ys = [c] @ zs\<close> show ?thesis
        by (subst vsn_loop.simps) (simp add: Let_def emit_single del: emit.simps)
    qed
  next
    case (NextFormat flags num)
    show ?thesis
    proof (cases "vsn_modifier c flags num")
      case None
      with NextFormat Cons.prems(1) obtain xs ap' zs where
        conv: "conv_out S c flags num (pap st) = Some (xs, ap')"
        and zs: "fmt_out S Regular cs ap' = Some zs" "ys = xs @ zs"
        by (auto split: Option.bind_splits)
      have "room (plen ?st) N (out @ xs)"
        using Cons.prems(4) zs(2) room_append [of _ _ "out @ xs" zs] by simp
      from vsn_conv_emit [OF _ w this S, of c flags num ap'] conv
      have "vsn_conv c flags num ?st = Some (emit (?st\<lparr>pap := ap'\<rparr>) xs)" by simp
      with step [OF zs] NextFormat None c zs(2) show ?thesis
        by (subst vsn_loop.simps) (simp add: Let_def)
    next
      case (Some fn)
      with NextFormat Cons.prems(1)
      have "fmt_out S (NextFormat (fst fn) (snd fn)) cs (pap ?st) = Some ys" by simp
      from Cons.IH [OF this w _ nxt] Cons.prems(4)
      have "finished m p (plen st) (out @ ys) (vsn_loop (NextFormat (fst fn) (snd fn)) ?st)" by simp
      with NextFormat Some c show ?thesis by (subst vsn_loop.simps) (simp add: Let_def)
    qed
  qed
qed

text \<open>
  The bytes \<open>vsnprintf\<close> writes are those of the format that fit, and a NUL; \<open>N\<close> bounds the
  region it may write.
\<close>

lemma vsnprintf_writes:
  assumes fmt: "cstr m fmt cs" and out: "format S cs ap = Some xs"
    and N: "N < 2 ^ 32" "length xs < N \<or> 2 \<le> unat len \<and> unat len \<le> N"
    and sep: "sep fmt (length cs + 1) str N" "strings_ok m str N S"
  shows "vsnprintf m str len fmt ap =
    Some (wr m str (fits len xs @ [0]), sint (of_nat (length (fits len xs)) :: u32))"
proof -
  let ?st = "\<lparr>pmem = m, pstr = str, pfmt = fmt, pap = ap, chars_written = 0, plen = len\<rparr>"
  have "finished m str (plen ?st) ([] @ xs) (vsn_loop Regular ?st)"
    using assms by (intro vsn_loop_finished [OF sep(2), of Regular cs])
      (auto simp: format_def written_def going_def room_def)
  then obtain st' where "vsn_loop Regular ?st = Some st'" "written m str (fits len xs) st'"
    by (auto simp: finished_def)
  then show ?thesis by (simp add: vsnprintf_def written_def wr_append)
qed

section \<open>Printing and parsing are inverse\<close>

lemma unat_of_nat_48: "k < 10 \<Longrightarrow> unat (of_nat k + 48 :: u8) = k + 48"
  by (simp add: unat_word_ariths unat_of_nat take_bit_nat_eq_self)

lemma dec_value_dec_string: "dec_value (dec_string n) = n"
proof (induction n rule: dec_string.induct)
  case (1 n)
  show ?case
  proof (cases "n < 10")
    case True
    then show ?thesis by (subst dec_string.simps) (simp add: dec_value_def unat_of_nat_48)
  next
    case False
    then have "dec_value (dec_string n) = dec_value (dec_string (n div 10)) * 10 + n mod 10"
      by (subst dec_string.simps) (simp add: dec_value_def unat_of_nat_48)
    with 1 False show ?thesis by simp
  qed
qed

lemma hextable_digits:
  assumes "i < 16"
  shows "is_hex (hextable ! i) \<and> hex_digit (hextable ! i) = i"
    and "is_hex (hextable_caps ! i) \<and> hex_digit (hextable_caps ! i) = i"
proof -
  have "list_all (\<lambda>i. is_hex (hextable ! i) \<and> hex_digit (hextable ! i) = i) [0..<16]"
    "list_all (\<lambda>i. is_hex (hextable_caps ! i) \<and> hex_digit (hextable_caps ! i) = i) [0..<16]"
    by code_simp+
  with assms show "is_hex (hextable ! i) \<and> hex_digit (hextable ! i) = i"
    "is_hex (hextable_caps ! i) \<and> hex_digit (hextable_caps ! i) = i"
    by (simp_all add: list_all_iff)
qed

lemma hex_value_hex_string:
  assumes "\<And>i. i < 16 \<Longrightarrow> is_hex (t ! i) \<and> hex_digit (t ! i) = i"
  shows "hex_value (hex_string t n) = n \<and> (\<forall>c \<in> set (hex_string t n). is_hex c)"
proof (induction n rule: less_induct)
  case (less n)
  show ?case
  proof (cases "n < 16")
    case True
    with assms [of n] show ?thesis by (subst (1 2) hex_string.simps) (simp add: hex_value_def)
  next
    case False
    then have "hex_string t n = hex_string t (n div 16) @ [t ! (n mod 16)]" by (subst hex_string.simps) simp
    with less [of "n div 16"] False assms [of "n mod 16"] show ?thesis by (auto simp: hex_value_def)
  qed
qed

lemma hex_out_value: "hex_value (hex_out flags u) = unat u" "\<forall>c \<in> set (hex_out flags u). is_hex c"
  using hex_value_hex_string [of hextable "unat u"] hex_value_hex_string [of hextable_caps "unat u"]
    hextable_digits by (auto simp: hex_out_def)

text \<open>The format \<open>%d\<close>.\<close>

lemma has_flag_0 [simp]: "has_flag 0 f = False"
  by (simp add: has_flag_def)

lemma sint_scast_64: "sint (scast (x :: u32) :: u64) = sint x"
  by (rule sint_up_scast) (simp add: is_up)

lemma format_d: "format S [37, 100] [Arg32 x] = Some (dec_out SIGNEDFLAG (scast x))"
  by (simp add: format_def vsn_modifier_def conv_out_def fetch_signed_def str_out_def flag_defs has_flag_def)

lemma unat_scast_64: "0 \<le> sint x \<Longrightarrow> unat (scast (x :: u32) :: u64) = nat (sint x)"
proof -
  assume x: "0 \<le> sint x"
  have "sint x < 2147483648" using sint_lt [of x] by simp
  with x have "uint (word_of_int (sint x) :: u64) = sint x"
    by (subst uint_word_of_int) (intro mod_pos_pos_trivial, simp_all)
  then have "uint (scast x :: u64) = sint x" by simp
  then show ?thesis by (metis nat_uint_eq)
qed

text \<open>Output that fits its region is found there, terminated.\<close>

lemma sprintf_cstr:
  assumes "cstr m fmt cs" and "format S cs ap = Some xs" and "0 \<notin> set xs"
    and "length xs < N" and "N < 2 ^ 31" and "sep fmt (length cs + 1) str N" and "strings_ok m str N S"
  shows "\<exists>m'. sprintf m str fmt ap = Some (m', int (length xs)) \<and> m' = wr m str (xs @ [0]) \<and> cstr m' str xs"
proof -
  have len: "unat INT_MAX = 2147483647" by (simp add: INT_MAX_def)
  then have fits: "fits INT_MAX xs = xs" using assms(4,5) by (simp add: fits_def)
  have n: "sint (of_nat (length xs) :: u32) = int (length xs)"
    using assms(4,5) by (intro sint_of_nat_u32) simp
  have "vsnprintf m str INT_MAX fmt ap = Some (wr m str (xs @ [0]), int (length xs))"
    using vsnprintf_writes [OF assms(1,2) _ _ assms(6,7), of INT_MAX] assms(4,5) by (simp add: fits n)
  moreover have "cstr (wr m str (xs @ [0])) str xs"
    using assms(3,4,5) by (intro cstr_wr) simp_all
  ultimately show ?thesis by (simp add: sprintf_def vsprintf_def)
qed

lemma strings_ok_empty [simp]: "strings_ok m p N (\<lambda>_. None)"
  by (simp add: strings_ok_def)

lemma print_parse_int:
  assumes fmt: "cstr m fmt [37, 100]" and sep: "sep fmt 3 str 12"
  shows "\<exists>m' n. sprintf m str fmt [Arg32 x] = Some (m', n) \<and> atoi m' str = Some (sint x)"
proof -
  let ?xs = "dec_out SIGNEDFLAG (scast x)"
  have lo: "- 2147483648 \<le> sint x" "sint x < 2147483648" using sint_ge [of x] sint_lt [of x] by simp_all
  have xs: "?xs = (if sint x < 0 then 45 # dec_string (nat (- sint x)) else dec_string (nat (sint x)))"
    by (simp add: dec_out_def has_flag_def flag_defs sint_scast_64 unat_scast_64)
  have "length (dec_string (nat (- sint x))) \<le> 10" "length (dec_string (nat (sint x))) \<le> 10"
    using length_dec_string [of "nat (- sint x)" 9] length_dec_string [of "nat (sint x)" 9] lo by simp_all
  then have len: "length ?xs < 12" unfolding xs by simp
  from sprintf_cstr [OF fmt format_d [of "\<lambda>_. None"] dec_out_no_nul len, of str] sep obtain m' where
    m': "sprintf m str fmt [Arg32 x] = Some (m', int (length ?xs))" "cstr m' str ?xs"
    by (auto simp: numeral_3_eq_3)
  have "atoi m' str = Some (sint x)"
  proof (cases "sint x < 0")
    case True
    then have "cstr m' str (45 # dec_string (nat (- sint x)))" using m'(2) xs by simp
    then have "atoi m' str = Some (sint (- of_nat (nat (- sint x)) :: u32))"
      using atoi_negative dec_string_digits by (metis dec_value_dec_string)
    moreover have "of_nat (nat (- sint x)) = (- x :: u32)" using True by simp
    ultimately show ?thesis by simp
  next
    case False
    then have "cstr m' str (dec_string (nat (sint x)))" using m'(2) xs by simp
    then have "atoi m' str = Some (sint (of_nat (nat (sint x)) :: u32))"
      using atoi_decimal dec_string_digits by (metis dec_value_dec_string)
    with False show ?thesis by simp
  qed
  with m'(1) show ?thesis by blast
qed

text \<open>The answer to a fastboot download, \<open>"DATA%08x"\<close>, carries the size back to the host.\<close>

definition data_format :: "u8 list" where
  "data_format = [68, 65, 84, 65, 37, 48, 56, 120]"

lemma format_data:
  "format S data_format [Arg32 x] = Some ([68, 65, 84, 65] @
     replicate (8 - length (hex_out LEADZEROFLAG (ucast x))) 48 @ hex_out LEADZEROFLAG (ucast x))"
  by (simp add: format_def data_format_def vsn_modifier_def conv_out_def fetch_unsigned_def str_out_def
      flag_defs has_flag_def)

lemma foldl_hex_zeros: "foldl (\<lambda>v d. v * 16 + hex_digit d) 0 (replicate k 48 @ ds) = hex_value ds"
proof -
  have "foldl (\<lambda>v d. v * 16 + hex_digit d) 0 (replicate k 48) = 0"
    by (induction k) (simp_all add: hex_digit_def)
  then show ?thesis by (simp add: hex_value_def)
qed

lemma unat_ucast_u64: "unat (ucast (x :: u32) :: u64) = unat x"
  using unat_lt_2p32 [of x] by (simp add: unsigned_ucast_eq take_bit_nat_eq_self)

lemma print_parse_data:
  assumes fmt: "cstr m fmt data_format" and sep: "sep fmt 9 str 13"
  shows "\<exists>m'. sprintf m str fmt [Arg32 x] = Some (m', 12) \<and> hex2unsigned m' (str + 4) = Some x"
proof -
  let ?hs = "hex_out LEADZEROFLAG (ucast x)"
  let ?zs = "replicate (8 - length ?hs) 48 @ ?hs"
  have "unat (ucast x :: u64) < 16 ^ Suc 7" using unat_lt_2p32 [of x] by (simp add: unat_ucast_u64)
  then have "length ?hs \<le> 8" unfolding hex_out_def using length_hex_string [of _ 7] by fastforce
  then have len: "length ([68, 65, 84, 65] @ ?zs) = 12" by simp
  have nz: "0 \<notin> set ([68, 65, 84, 65] @ ?zs)" using hex_out_no_nul [of LEADZEROFLAG] by simp
  have "length data_format + 1 = 9" by (simp add: data_format_def)
  then obtain m' where m': "sprintf m str fmt [Arg32 x] = Some (m', 12)"
    "cstr m' str ([68, 65, 84, 65] @ ?zs)"
    using sprintf_cstr [OF fmt format_data [of "\<lambda>_. None"] nz, of 13 str] sep len by auto
  have "cstr m' (str + of_nat 4) ?zs"
    using m'(2) cstr_append_iff [of m' str "[68, 65, 84, 65]" ?zs] by simp
  moreover have "\<forall>d \<in> set ?zs. is_hex d"
    using hex_out_value(2) [of LEADZEROFLAG "ucast x"] by (auto simp: is_hex_unat)
  ultimately have "hex2unsigned m' (str + of_nat 4) = Some (of_nat (hex_value ?zs))"
    by (rule hex2unsigned_value)
  moreover have "hex_value ?zs = unat x"
    using foldl_hex_zeros hex_out_value(1) [of LEADZEROFLAG "ucast x"]
    by (simp add: hex_value_def unat_ucast_u64)
  ultimately have "hex2unsigned m' (str + 4) = Some x" by simp
  with m'(1) show ?thesis by blast
qed

section \<open>Where the output is not what C promises\<close>

text \<open>\<open>%05d\<close> of -5: the zeros are put before the sign.\<close>

lemma format_zero_pad_sign:
  "format S [37, 48, 53, 100] [Arg32 (- 5)] = Some [48, 48, 48, 45, 53]"
proof -
  have "sint (scast (- 5 :: u32) :: u64) = - 5" by (simp add: sint_scast_64)
  then have "dec_out (LEADZEROFLAG OR SIGNEDFLAG) (scast (- 5 :: u32)) = [45, 53]"
    by (simp add: dec_out_def has_flag_def flag_defs dec_string.simps)
  then show ?thesis
    by (simp add: format_def vsn_modifier_def conv_out_def fetch_signed_def str_out_def has_flag_def
        flag_defs numeral_3_eq_3)
qed

text \<open>A buffer length of 0 or 1 does not bound the output.\<close>

lemma vsnprintf_unbounded:
  assumes "cstr m fmt cs" and "format S cs ap = Some xs" and "unat len < 2"
    and "length xs + 1 < 2 ^ 32" and "sep fmt (length cs + 1) str (length xs + 1)"
    and "strings_ok m str (length xs + 1) S"
  shows "vsnprintf m str len fmt ap = Some (wr m str (xs @ [0]), sint (of_nat (length xs) :: u32))"
  using vsnprintf_writes [OF assms(1,2,4) _ assms(5,6), of len] assms(3) by (simp add: fits_def)

end
