(* ===== verification/Lk_Libc.thy ===== *)
theory Lk_Libc
  imports Lk_Heap Lk_Printf
begin

text \<open>
  What the C library and the heap promise their callers: the properties of the components
  modelled in \<open>Lk_Mem\<close>, \<open>Lk_Ctype\<close>, \<open>Lk_String\<close>, \<open>Lk_Printf\<close>, \<open>Lk_List\<close> and
  \<open>Lk_Heap\<close>, each with a witness on a concrete memory or heap.
\<close>

section \<open>The heap\<close>

text \<open>A heap that has just been set up, and one block allocated from it.\<close>

definition start_heap :: heap where
  "start_heap = \<lparr>base = 0, hlen = 0, free_list = 0x300000, fnodes = \<lparr>prv = (\<lambda>_. 0), nxt = (\<lambda>_. 0)\<rparr>,
     clen = (\<lambda>_. 0), hdr = (\<lambda>_. \<lparr>magic = 0, aptr = 0, asize = 0\<rparr>)\<rparr>"

lemma heap_example:
  "\<exists>h h' p. heap_reach h (\<lambda>_. None) \<and> heap_inv h (\<lambda>_. None) \<and> heap_alloc h 100 0 = Some (h', p) \<and> p \<noteq> 0 \<and>
     heap_reach h' [p \<mapsto> block_at h' p]"
proof -
  obtain h where h: "heap_init start_heap = Some h" "heap_inv h (\<lambda>_. None)" "base h = HEAP_START" "hlen h = HEAP_LEN"
    using heap_init_ok[of start_heap] by (auto simp: start_heap_def)
  have r: "heap_reach h (\<lambda>_. None)"
    by (rule reach_init[OF _ _ h(1)]) (simp_all add: start_heap_def)
  have al: "(0::u32) AND (0 - 1) = 0" "unat (100::u32) + 15 + unat (align_of 0) < 2 ^ 32"
    by (simp_all add: align_of_def)
  obtain h' p where p: "heap_alloc h 100 0 = Some (h', p)"
    and z: "p = 0 \<longrightarrow> \<not> (\<exists>a. {a ..< a + need 100 0} \<subseteq> free_addrs h (\<lambda>_. None))"
    using heap_alloc_ok[OF h(2) al] by (auto split: if_splits)
  have "{0x100000 ..< 0x100000 + need 100 0} \<subseteq> free_addrs h (\<lambda>_. None)"
    by (auto simp: free_addrs_def need_def align_of_def heap_top_def h(3,4) HEAP_START_def HEAP_LEN_def)
  then have "p \<noteq> 0" using z by blast
  moreover have "heap_reach h' [p \<mapsto> block_at h' p]"
    using reach_alloc[OF r al p \<open>p \<noteq> 0\<close>] .
  ultimately show ?thesis using r h(2) p by blast
qed

lemma heap_inv_block:
  assumes "heap_inv h live" "live p = Some b"
  shows "bspan b \<subseteq> {unat (base h) ..< heap_top h}"
proof -
  have "block_ok h p b" using assms unfolding heap_inv_def by blast
  then show ?thesis by (auto simp: block_ok_def bspan_def span_def)
qed

lemma heap_inv_disjoint:
  "heap_inv h live \<Longrightarrow> live p = Some b \<Longrightarrow> live q = Some c \<Longrightarrow> p \<noteq> q \<Longrightarrow> bspan b \<inter> bspan c = {}"
  unfolding heap_inv_def by blast




text \<open>
  C5: an allocation whose size does not overflow returns null, and then no run of free bytes of
  the needed length exists and nothing changed; or it returns a pointer to a new block, aligned
  as asked, that contains all the bytes asked for, and the heap invariant holds with that block
  added.
\<close>

theorem heap_alloc_correct:
  assumes "heap_inv h live" and "al AND (al - 1) = 0" and "unat sz + 15 + unat (align_of al) < 2 ^ 32"
  shows "\<exists>h' p. heap_alloc h sz al = Some (h', p) \<and>
    (if p = 0 then h' = h \<and> \<not> (\<exists>a. {a ..< a + need sz al} \<subseteq> free_addrs h live)
     else live p = None \<and> (al = 0 \<or> unat (align_of al) dvd unat p)
       \<and> (\<exists>b. heap_inv h' (live(p \<mapsto> b)) \<and> {unat p ..< unat p + unat sz} \<subseteq> bspan b))"
  using assms by (rule heap_alloc_ok)

theorem heap_alloc_correct_witness:
  "\<exists>h h' p b. heap_inv h (\<lambda>_. None) \<and> heap_alloc h 100 0 = Some (h', p) \<and> heap_inv h' [p \<mapsto> b]
     \<and> {unat p ..< unat p + 100} \<subseteq> bspan b"
proof -
  obtain h h' p where h: "heap_inv h (\<lambda>_. None)" "heap_alloc h 100 0 = Some (h', p)" "p \<noteq> 0"
    using heap_example by blast
  have "(0::u32) AND (0 - 1) = 0" "unat (100::u32) + 15 + unat (align_of 0) < 2 ^ 32"
    by (simp_all add: align_of_def)
  from heap_alloc_correct[OF h(1) this] obtain b where "heap_inv h' [p \<mapsto> b]" "{unat p ..< unat p + 100} \<subseteq> bspan b"
    using h by auto
  then show ?thesis using h by blast
qed

text \<open>
  C6: freeing an allocated block always succeeds, and the heap invariant holds without the block:
  its bytes are free again, merged with the free chunks on both sides.
\<close>

theorem heap_free_correct:
  assumes "heap_inv h live" and "live p = Some b"
  shows "\<exists>h'. heap_free h p = Some h' \<and> heap_inv h' (live(p := None))
    \<and> free_addrs h' (live(p := None)) = free_addrs h live \<union> bspan b"
proof -
  obtain h' where h': "heap_free h p = Some h'" "heap_inv h' (live(p := None))" "base h' = base h" "hlen h' = hlen h"
    using heap_free_ok[OF assms] by blast
  have "bspan b \<subseteq> {unat (base h) ..< heap_top h}" by (rule heap_inv_block[OF assms])
  moreover have "bspan c \<inter> bspan b = {}" if c: "c \<in> ran (live(p := None))" for c
  proof -
    obtain q where "(live(p := None)) q = Some c" using c unfolding ran_def by blast
    then have "q \<noteq> p" "live q = Some c" by (auto split: if_splits)
    then show ?thesis using heap_inv_disjoint[OF assms(1) _ assms(2)] by blast
  qed
  moreover have "ran live = insert b (ran (live(p := None)))"
    using assms(2) by (auto simp: ran_def split: if_splits) (metis option.inject)
  ultimately have "free_addrs h' (live(p := None)) = free_addrs h live \<union> bspan b"
    by (auto simp: free_addrs_def heap_top_def h'(3,4))
  then show ?thesis using h' by blast
qed

theorem heap_free_correct_witness:
  "\<exists>h h' p b. heap_inv h [p \<mapsto> b] \<and> heap_free h p = Some h' \<and> heap_inv h' (\<lambda>_. None)"
proof -
  obtain h p where r: "heap_reach h [p \<mapsto> block_at h p]" using heap_example by blast
  have inv: "heap_inv h [p \<mapsto> block_at h p]" using heap_reach_inv[OF r] by simp
  have b: "[p \<mapsto> block_at h p] p = Some (block_at h p)" by simp
  have "[p \<mapsto> block_at h p](p := None) = (\<lambda>_. None)" by auto
  then obtain h' where "heap_free h p = Some h'" "heap_inv h' (\<lambda>_. None)"
    using heap_free_correct[OF inv b] by (auto simp del: fun_upd_apply)
  then show ?thesis using inv by blast
qed







text \<open>
  The size is not checked before the header is added to it. A request of almost the whole
  address space wraps to a small one, and succeeds: the caller gets a block of a few bytes.
\<close>

lemma heap_alloc_wraps:
  assumes "free_ok h (c # xs)" and "2 ^ 32 - 12 \<le> unat sz"
  shows "\<exists>h'. heap_alloc h sz 0 = Some (h', c + 12) \<and> c + 12 \<noteq> 0"
  using assms by (rule heap_alloc_overflow)

section \<open>Lists\<close>

text \<open>
  C33: the intrusive lists behave as sequences. With a family of lists represented in the nodes,
  adding an unlinked node at either end, deleting a node and removing the head change the
  represented sequence of one list as the sequence operation does, and no other list.
\<close>

theorem list_operations_refine:
  assumes "lists h L N F" and "l \<in> L"
  shows "(\<forall>x. fresh N F x \<longrightarrow> lists (list_add_head h l x) L N (F(l := x # F l))
        \<and> lists (list_add_tail h l x) L N (F(l := F l @ [x])))
    \<and> (\<forall>x \<in> set (F l). lists (list_delete h x) L N (F(l := remove1 x (F l))))
    \<and> list_remove_head h l = (case F l of [] \<Rightarrow> (h, 0) | x # _ \<Rightarrow> (list_delete h x, x))"
  by (intro conjI allI impI ballI lists_add_head[OF assms] lists_add_tail[OF assms] lists_delete[OF assms(1)]
      lists_remove_head[OF assms])

definition empty_nodes :: nodes where
  "empty_nodes = \<lparr>prv = (\<lambda>_. 0), nxt = (\<lambda>_. 0)\<rparr>"

lemma lists_example: "lists (list_initialize empty_nodes 8) {8} {16, 24} (\<lambda>_. [])"
  by (auto simp: lists_def dlist_def list_initialize_def empty_nodes_def set_prev_def set_next_def)

theorem list_operations_refine_witness:
  "lists (list_add_tail (list_initialize empty_nodes 8) 8 16) {8} {16, 24} ((\<lambda>_. [])(8 := [16]))"
proof -
  have "fresh {16, 24} (\<lambda>_. []) 16" by (simp add: fresh_def)
  with list_operations_refine[OF lists_example, of 8] show ?thesis by (simp del: fun_upd_apply)
qed

text \<open>
  A list used as a queue is first in, first out: after any number of nodes were added at the
  tail of an empty list, removing the head gives the first one added, and leaves the others in
  order.
\<close>

lemma list_fifo:
  assumes "lists h L N F" and "l \<in> L" and "F l = []" and "distinct (x # xs)"
    and "\<forall>y \<in> set (x # xs). y \<in> N \<and> (\<forall>k. y \<notin> set (F k))"
  shows "\<exists>h'. list_remove_head (foldl (\<lambda>h x. list_add_tail h l x) h (x # xs)) l = (h', x)
    \<and> lists h' L N (F(l := xs))"
  using assms by (rule lk.fifo)

lemma list_fifo_example:
  "\<exists>h'. list_remove_head (list_add_tail (list_add_tail (list_initialize empty_nodes 8) 8 16) 8 24) 8 = (h', 16)
    \<and> lists h' {8} {16, 24} ((\<lambda>_. [])(8 := [24]))"
proof -
  have "distinct [16, 24 :: ptr]" "\<forall>y \<in> set [16, 24 :: ptr]. y \<in> {16, 24} \<and> (\<forall>k. y \<notin> set [])" by auto
  from list_fifo[OF lists_example _ _ this, of 8] show ?thesis by simp
qed

section \<open>Printing\<close>

text \<open>
  C34: \<open>vsnprintf\<close> prints exactly what the format means, cut to the length given: the buffer
  holds the formatted bytes (at most \<open>len - 1\<close> of them) and a zero byte, no other byte of memory
  changes, and the value returned is the number of bytes printed. It holds for a length of 2 and
  more, or an output that fits the buffer.
\<close>

theorem vsnprintf_correct:
  assumes "cstr m fmt cs" and "format S cs ap = Some xs"
    and "N < 2 ^ 32" and "length xs < N \<or> 2 \<le> unat len \<and> unat len \<le> N"
    and "sep fmt (length cs + 1) str N" and "strings_ok m str N S"
  shows "vsnprintf m str len fmt ap =
    Some (wr m str (fits len xs @ [0]), sint (of_nat (length (fits len xs)) :: u32))"
  using assms by (rule vsnprintf_writes)

definition fmt_memory :: mem where
  "fmt_memory = wr (\<lambda>_. 0) 16 [48, 37, 48, 53, 100, 0]"

theorem vsnprintf_correct_witness:
  "vsnprintf fmt_memory 64 4 16 [Arg32 (- 5)] = Some (wr fmt_memory 64 [48, 48, 48, 0], 3)"
proof -
  have f: "cstr fmt_memory 16 [48, 37, 48, 53, 100]" by (simp add: fmt_memory_def)
  have p: "format (\<lambda>_. None) [48, 37, 48, 53, 100] [Arg32 (- 5)] = Some [48, 48, 48, 48, 45, 53]"
    using format_zero_pad_sign[of "\<lambda>_. None"] by (simp add: format_def)
  show ?thesis
    using vsnprintf_correct[OF f p, of 32 4 64] by (simp add: sep_def strings_ok_def fits_def)
qed

text \<open>
  The length bounds the output only from 2 on. With a length of 0 or 1 the whole output is
  written, whatever its size.
\<close>

lemma vsnprintf_short_length:
  assumes "cstr m fmt cs" and "format S cs ap = Some xs" and "unat len < 2"
    and "length xs + 1 < 2 ^ 32" and "sep fmt (length cs + 1) str (length xs + 1)"
    and "strings_ok m str (length xs + 1) S"
  shows "vsnprintf m str len fmt ap = Some (wr m str (xs @ [0]), sint (of_nat (length xs) :: u32))"
  using assms by (rule vsnprintf_unbounded)

text \<open>C35: printing an integer with \<open>%d\<close> and reading it back with \<open>atoi\<close> gives the integer.\<close>

theorem print_then_atoi:
  assumes "cstr m fmt [37, 100]" and "sep fmt 3 str 12"
  shows "\<exists>m' n. sprintf m str fmt [Arg32 x] = Some (m', n) \<and> atoi m' str = Some (sint x)"
  using assms by (rule print_parse_int)

theorem print_then_atoi_witness:
  "\<exists>m' n. sprintf (wr (\<lambda>_. 0) 16 [37, 100, 0]) 64 16 [Arg32 (- 42)] = Some (m', n) \<and> atoi m' 64 = Some (- 42)"
  using print_then_atoi[of "wr (\<lambda>_. 0) 16 [37, 100, 0]" 16 64 "- 42"] by (simp add: sep_def)

text \<open>
  The length fastboot announces with \<open>DATA%08x\<close> is the one it reads from the download
  command with \<open>hex2unsigned\<close>: printing and parsing are inverse for every 32-bit size.
\<close>

lemma print_then_hex2unsigned:
  assumes "cstr m fmt data_format" and "sep fmt 9 str 13"
  shows "\<exists>m'. sprintf m str fmt [Arg32 x] = Some (m', 12) \<and> hex2unsigned m' (str + 4) = Some x"
  using assms by (rule print_parse_data)

section \<open>Strings and memory\<close>

text \<open>
  C36: \<open>memmove\<close> copies as if through a buffer of its own, also when the regions overlap and
  whatever their alignment: the destination gets the bytes the source had, and no other byte
  changes. The regions must not cross the middle of the address space, because the addresses are
  compared as signed numbers.
\<close>

theorem memmove_correct:
  assumes "unat count < 2 ^ 31"
    and "sint dest + int (unat count) \<le> 2 ^ 31" and "sint src + int (unat count) \<le> 2 ^ 31"
  shows "memmove m dest src count = (wr m dest (rd m src (unat count)), dest)"
  using assms by (rule memmove_wr)

theorem memmove_correct_witness:
  "memmove (\<lambda>p. ucast p) 18 16 5 = (wr (\<lambda>p. ucast p) 18 [16, 17, 18, 19, 20], 18)"
  using memmove_correct[of 5 18 16 "\<lambda>p. ucast p"] by (simp add: rd_def upt_conv_Cons)

text \<open>
  C37: \<open>strlcpy\<close> into a buffer of \<open>s > 0\<close> bytes writes at most \<open>s\<close> bytes, always ends them
  with a zero byte, keeps as much of the source as fits, and returns the length of the source.
\<close>

theorem strlcpy_correct:
  assumes "cstr m src xs" and "0 < s" and "sep src (length xs + 1) dst (min (unat s) (length xs + 1))"
  shows "strlcpy m dst src s = Some (wr m dst (take (unat s - 1) xs @ [0]), of_nat (length xs))"
  using assms by (rule strlcpy_wr)

definition text_memory :: mem where
  "text_memory = wr (wr (\<lambda>_. 0) 16 [97, 98, 99, 100, 0]) 64 [99, 100, 0]"

theorem strlcpy_correct_witness:
  "strlcpy text_memory 32 16 3 = Some (wr text_memory 32 [97, 98, 0], 4)"
proof -
  have "cstr text_memory 16 [97, 98, 99, 100]" by (simp add: text_memory_def)
  from strlcpy_correct[OF this, of 3 32] show ?thesis by (simp add: sep_def)
qed



text \<open>
  On strings of 7-bit characters \<open>strcmp\<close> returns, for every pair of strings, a value whose
  sign is the lexicographic order, and zero exactly for equal strings. (With bytes from 128 on the
  difference is taken modulo 256 and the sign can be wrong.)
\<close>

lemma strcmp_order:
  assumes "cstr m p xs" and "cstr m q ys" and "\<forall>x \<in> set xs. unat x < 128" and "\<forall>y \<in> set ys. unat y < 128"
  shows "\<exists>r. strcmp m p q = Some r \<and> (r = 0 \<longleftrightarrow> xs = ys) \<and> (r < 0 \<longleftrightarrow> (xs, ys) \<in> lexord {(x, y). x < y})"
  using strcmp_byte_diff[OF assms(1,2)] strcmp_eq[OF assms(1,2)] byte_diff_lex[OF assms(3,4)] assms(1,2)
  by (simp add: cstr_no_nul)

text \<open>
  C39: \<open>strstr\<close> returns the first occurrence of the second string in the first, and null when there
  is none.
\<close>

theorem strstr_correct:
  assumes "cstr m p xs" and "cstr m q ys" and "length xs < 2 ^ 31" and "length ys < 2 ^ 31"
  shows "strstr m p q = Some (if \<exists>k \<le> length xs. take (length ys) (drop k xs) = ys
    then p + of_nat (LEAST k. take (length ys) (drop k xs) = ys) else 0)"
proof (cases "\<exists>k \<le> length xs. take (length ys) (drop k xs) = ys")
  case True
  define k where "k = (LEAST k. take (length ys) (drop k xs) = ys)"
  have k: "take (length ys) (drop k xs) = ys" unfolding k_def using True by (metis (mono_tags, lifting) LeastI)
  have less: "\<forall>i < k. take (length ys) (drop i xs) \<noteq> ys" unfolding k_def using not_less_Least by blast
  have le: "k \<le> length xs" unfolding k_def using True by (meson Least_le order_trans)
  have split: "xs = take k xs @ ys @ drop (length ys) (drop k xs)"
    using k by (metis append_take_drop_id)
  have "length (take k xs) = k" using le by simp
  moreover have "strstr m p q = Some (p + of_nat (length (take k xs)))"
    by (rule strstr_found[of m p "take k xs" ys "drop (length ys) (drop k xs)"], unfold split[symmetric])
       (use assms less le in auto)
  ultimately have "strstr m p q = Some (p + of_nat k)" by (simp only:)
  then show ?thesis using True by (simp add: k_def)
next
  case False
  have "take (length ys) (drop k xs) \<noteq> ys" for k
  proof (cases "k \<le> length xs")
    case False
    then have "take (length ys) (drop k xs) = []" by simp
    moreover have "ys \<noteq> []" using \<open>\<not> (\<exists>k \<le> length xs. _ k)\<close> by auto
    ultimately show ?thesis by simp
  qed (use False in blast)
  then show ?thesis using strstr_absent[OF assms] False by auto
qed

theorem strstr_correct_witness: "strstr text_memory 16 64 = Some 18"
proof -
  have c: "cstr text_memory 16 [97, 98, 99, 100]" "cstr text_memory 64 [99, 100]" by (simp_all add: text_memory_def)
  have "(LEAST k. take (length [99, 100 :: u8]) (drop k [97, 98, 99, 100]) = [99, 100 :: u8]) = 2"
  proof (rule Least_equality)
    show "2 \<le> k" if "take (length [99, 100 :: u8]) (drop k [97, 98, 99, 100]) = [99, 100 :: u8]" for k
      using that by (cases k; cases "k - 1") auto
  qed simp
  moreover have "\<exists>k \<le> length [97, 98, 99, 100 :: u8]. take (length [99, 100 :: u8]) (drop k [97, 98, 99, 100]) = [99, 100]"
    by (rule exI[of _ 2]) simp
  ultimately show ?thesis using strstr_correct[OF c] by simp
qed

text \<open>
  C40: \<open>strtok\<close> skips the separators in front, returns the token that follows, ends it in place
  with a zero byte over the separator, and remembers the byte after it for the next call.
\<close>

theorem strtok_correct:
  assumes "cstr m p (ss @ tok @ c # rest)" and "cstr m a as" and "set ss \<subseteq> set as"
    and "set tok \<inter> set as = {}" and "tok \<noteq> []" and "c \<in> set as"
    and "p \<noteq> 0" and "p + of_nat (length ss) + of_nat (length tok) \<noteq> 0"
  shows "let s = p + of_nat (length ss); e = s + of_nat (length tok) in
    strtok (m, saved) p a = Some ((m(e := 0), e + 1), s) \<and> cstr (m(e := 0)) s tok"
  using strtok_token[OF assms] by (simp add: Let_def)

theorem strtok_correct_witness:
  "strtok (wr (wr (\<lambda>_. 0) 16 [58, 97, 98, 58, 99, 0]) 64 [58, 0], 0) 16 64 =
     Some (((wr (wr (\<lambda>_. 0) 16 [58, 97, 98, 58, 99, 0]) 64 [58, 0])(19 := 0), 20), 17)"
proof -
  let ?m = "wr (wr (\<lambda>_. 0) 16 [58, 97, 98, 58, 99, 0]) 64 [58, 0]"
  have "cstr ?m 16 ([58] @ [97, 98] @ 58 # [99])" "cstr ?m 64 [58]" by simp_all
  from strtok_correct[OF this, of 0] show ?thesis by (simp add: Let_def)
qed

end
