(* ===== verification/Lk_Kstate.thy ===== *)
theory Lk_Kstate
  imports Lk_Heap
begin

text \<open>
  The kernel's state: the globals of \<open>kernel/thread.c\<close>, \<open>timer.c\<close> and \<open>dpc.c\<close>, and the
  structs the kernel's clients own (threads, timers, wait queues, events, mutexes), each a map
  from its address. A list head is the sequence of its nodes (\<open>Lk_List\<close> has the refinement);
  the \<open>list_node\<close>s are named by the struct they are embedded in.

  A thread that is switched out is suspended inside \<open>thread_resched\<close>, and what it has still to
  do is the rest of the C functions on its stack. Those are its \<open>frames\<close>, innermost first:
  they run when the thread is switched to again. \<open>ret\<close> is the value the thread's last kernel
  call returned.
\<close>

section \<open>Constants\<close>

definition NUM_PRIORITIES :: int where "NUM_PRIORITIES = 32"
definition LOWEST_PRIORITY :: int where "LOWEST_PRIORITY = 0"
definition HIGHEST_PRIORITY :: int where "HIGHEST_PRIORITY = NUM_PRIORITIES - 1"
definition DPC_PRIORITY :: int where "DPC_PRIORITY = NUM_PRIORITIES - 2"
definition IDLE_PRIORITY :: int where "IDLE_PRIORITY = LOWEST_PRIORITY"
definition DEFAULT_PRIORITY :: int where "DEFAULT_PRIORITY = NUM_PRIORITIES div 2"

lemmas prio_defs = NUM_PRIORITIES_def LOWEST_PRIORITY_def HIGHEST_PRIORITY_def DPC_PRIORITY_def
  IDLE_PRIORITY_def DEFAULT_PRIORITY_def

definition THREAD_MAGIC :: u32 where "THREAD_MAGIC = 0x74687264"
definition WAIT_QUEUE_MAGIC :: u32 where "WAIT_QUEUE_MAGIC = 0x77616974"
definition TIMER_MAGIC :: u32 where "TIMER_MAGIC = 0x74696d72"
definition EVENT_MAGIC :: u32 where "EVENT_MAGIC = 0x65766e74"
definition MUTEX_MAGIC :: u32 where "MUTEX_MAGIC = 0x6d757478"

definition DEFAULT_STACK_SIZE :: u32 where "DEFAULT_STACK_SIZE = 8192"
definition INFINITE_TIME :: u32 where "INFINITE_TIME = 0xffffffff"
definition EVENT_FLAG_AUTOUNSIGNAL :: u32 where "EVENT_FLAG_AUTOUNSIGNAL = 1"
definition DPC_FLAG_NORESCHED :: u32 where "DPC_FLAG_NORESCHED = 1"

section \<open>Structs\<close>

datatype thread_state = THREAD_SUSPENDED | THREAD_READY | THREAD_RUNNING | THREAD_BLOCKED
  | THREAD_SLEEPING | THREAD_DEATH

datatype handler_return = INT_NO_RESCHEDULE | INT_RESCHEDULE

text \<open>The timer callbacks of the kernel (\<open>No_callback\<close> is the null pointer).\<close>

datatype timer_callback = No_callback | Thread_sleep_handler | Wait_queue_timeout_handler

text \<open>The rest of a C function, from the call of \<open>thread_resched\<close> it is suspended in.\<close>

datatype frame =
    Initial_thread_func
  | Exit_critical_section
  | Return status_t
  | Wait_queue_block u32
  | Wait_queue_destroy ptr
  | Mutex_acquire ptr
  | Mutex_acquire_timeout ptr
  | Irq_return
  | Thread_exit

record thread =
  tmagic :: u32
  tname :: string
  priority :: int
  tstate :: thread_state
  saved_critical_section_count :: int
  remaining_quantum :: int
  blocking_wait_queue :: ptr
  wait_queue_block_ret :: status_t
  tstack :: ptr
  stack_size :: u32
  tentry :: ptr
  targ :: ptr
  retcode :: int
  frames :: "frame list"
  ret :: status_t

record timer =
  timer_magic :: u32
  scheduled_time :: u32
  periodic_time :: u32
  callback :: timer_callback
  timer_arg :: ptr

record wait_queue =
  wmagic :: u32
  wlist :: "ptr list"
  wcount :: int

record event =
  emagic :: u32
  signalled :: bool
  eflags :: u32

record mutex =
  mmagic :: u32
  mcount :: int
  holder :: ptr

datatype dpc_callback = Thread_cleanup_dpc | Other_dpc ptr

record dpc =
  cb :: dpc_callback
  dpc_arg :: ptr

text \<open>The wait queue embedded in an event or a mutex: the fields before it are three words.\<close>

definition event_wait_queue :: "ptr \<Rightarrow> ptr" where "event_wait_queue e = e + 12"
definition mutex_wait_queue :: "ptr \<Rightarrow> ptr" where "mutex_wait_queue m = m + 12"

record kernel =
  threads :: "ptr \<Rightarrow> thread"
  thread_list :: "ptr list"
  current_thread :: ptr
  idle_thread :: ptr
  critical_section_count :: int
  ints_enabled :: bool
  run_queue :: "int \<Rightarrow> ptr list"
  run_queue_bitmap :: u32
  timers :: "ptr \<Rightarrow> timer"
  timer_queue :: "ptr list"
  wait_queues :: "ptr \<Rightarrow> wait_queue"
  events :: "ptr \<Rightarrow> event"
  mutexes :: "ptr \<Rightarrow> mutex"
  dpcs :: "ptr \<Rightarrow> dpc"
  dpc_list :: "ptr list"
  dpc_event :: ptr
  kheap :: heap
  clock :: u32
  stack_timer :: "ptr \<Rightarrow> ptr"

text \<open>
  \<open>clock\<close> is what \<open>current_time\<close> reads from the hardware; \<open>stack_timer t\<close> is the address of
  the \<open>timer_t\<close> that a blocking function keeps on the stack of the thread \<open>t\<close>.
\<close>

section \<open>Field updates\<close>

definition upd_thread :: "ptr \<Rightarrow> (thread \<Rightarrow> thread) \<Rightarrow> kernel \<Rightarrow> kernel" where
  "upd_thread t f k = k\<lparr>threads := (threads k)(t := f (threads k t))\<rparr>"

definition upd_timer :: "ptr \<Rightarrow> (timer \<Rightarrow> timer) \<Rightarrow> kernel \<Rightarrow> kernel" where
  "upd_timer t f k = k\<lparr>timers := (timers k)(t := f (timers k t))\<rparr>"

definition upd_wq :: "ptr \<Rightarrow> (wait_queue \<Rightarrow> wait_queue) \<Rightarrow> kernel \<Rightarrow> kernel" where
  "upd_wq w f k = k\<lparr>wait_queues := (wait_queues k)(w := f (wait_queues k w))\<rparr>"

definition upd_event :: "ptr \<Rightarrow> (event \<Rightarrow> event) \<Rightarrow> kernel \<Rightarrow> kernel" where
  "upd_event e f k = k\<lparr>events := (events k)(e := f (events k e))\<rparr>"

definition upd_mutex :: "ptr \<Rightarrow> (mutex \<Rightarrow> mutex) \<Rightarrow> kernel \<Rightarrow> kernel" where
  "upd_mutex m f k = k\<lparr>mutexes := (mutexes k)(m := f (mutexes k m))\<rparr>"

lemmas upd_defs = upd_thread_def upd_timer_def upd_wq_def upd_event_def upd_mutex_def

abbreviation cur :: "kernel \<Rightarrow> thread" where
  "cur k \<equiv> threads k (current_thread k)"

section \<open>Critical sections (include/kernel/thread.h)\<close>

definition enter_critical_section :: "kernel \<Rightarrow> kernel" where
  "enter_critical_section k =
    (let k1 = k\<lparr>critical_section_count := critical_section_count k + 1\<rparr>
     in if critical_section_count k1 = 1 then k1\<lparr>ints_enabled := False\<rparr> else k1)"

definition exit_critical_section :: "kernel \<Rightarrow> kernel" where
  "exit_critical_section k =
    (let k1 = k\<lparr>critical_section_count := critical_section_count k - 1\<rparr>
     in if critical_section_count k1 = 0 then k1\<lparr>ints_enabled := True\<rparr> else k1)"

definition in_critical_section :: "kernel \<Rightarrow> bool" where
  "in_critical_section k \<longleftrightarrow> critical_section_count k > 0"

definition inc_critical_section :: "kernel \<Rightarrow> kernel" where
  "inc_critical_section k = k\<lparr>critical_section_count := critical_section_count k + 1\<rparr>"

definition dec_critical_section :: "kernel \<Rightarrow> kernel" where
  "dec_critical_section k = k\<lparr>critical_section_count := critical_section_count k - 1\<rparr>"

end
