(* ===== verification/Lk_Timer.thy ===== *)
theory Lk_Timer
  imports Lk_Kstate
begin

text \<open>
  The timer queue of \<open>kernel/timer.c\<close>: timers are kept in the order of their scheduled time,
  those of the same time in the order they were set. The tick that fires them is in
  \<open>Lk_Tick\<close>, after the callbacks it calls. \<open>panic\<close> is \<open>None\<close>.
\<close>

text \<open>
  The node is cleared without being unlinked: that breaks the queue if the timer is on it,
  and has no meaning here (\<open>None\<close>).
\<close>

definition timer_initialize :: "ptr \<Rightarrow> kernel \<Rightarrow> kernel option" where
  "timer_initialize t k =
    (if t \<in> set (timer_queue k) then None
     else Some (upd_timer t (\<lambda>_. \<lparr>timer_magic = TIMER_MAGIC, scheduled_time = 0, periodic_time = 0,
        callback = No_callback, timer_arg = 0\<rparr>) k))"

text \<open>The loop that looks for the first entry with a later time.\<close>

fun insert_before_later :: "(ptr \<Rightarrow> u32) \<Rightarrow> ptr \<Rightarrow> ptr list \<Rightarrow> ptr list" where
  "insert_before_later at t [] = [t]"
| "insert_before_later at t (e # es) =
    (if at e > at t then t # e # es else e # insert_before_later at t es)"

definition insert_timer_in_queue :: "ptr \<Rightarrow> kernel \<Rightarrow> kernel" where
  "insert_timer_in_queue t k =
    k\<lparr>timer_queue := insert_before_later (\<lambda>e. scheduled_time (timers k e)) t (timer_queue k)\<rparr>"

definition timer_set_oneshot :: "ptr \<Rightarrow> u32 \<Rightarrow> timer_callback \<Rightarrow> ptr \<Rightarrow> kernel \<Rightarrow> kernel option" where
  "timer_set_oneshot t delay cbk arg k =
    (if t \<in> set (timer_queue k) then None
     else
       (let now = clock k;
            k1 = upd_timer t (\<lambda>r. r\<lparr>scheduled_time := now + delay, periodic_time := 0,
                   callback := cbk, timer_arg := arg\<rparr>) k
        in Some (exit_critical_section (insert_timer_in_queue t (enter_critical_section k1)))))"

definition timer_cancel :: "ptr \<Rightarrow> kernel \<Rightarrow> kernel" where
  "timer_cancel t k =
    (let k1 = enter_critical_section k;
         k2 = (if t \<in> set (timer_queue k1) then k1\<lparr>timer_queue := remove1 t (timer_queue k1)\<rparr> else k1)
     in exit_critical_section k2)"

definition timer_init :: "kernel \<Rightarrow> kernel" where
  "timer_init k = k\<lparr>timer_queue := []\<rparr>"

end
