(* ===== verification/Lk_Thread.thy ===== *)
theory Lk_Thread
  imports Lk_Timer
begin

text \<open>
  The scheduler and the wait queues of \<open>kernel/thread.c\<close>. \<open>thread_resched\<close> picks the head of
  the highest non-empty run queue and switches to it; the calls that may switch push what is
  left of them as frames of the current thread first (\<open>Lk_Kstate\<close>), and the frames of the
  thread that is switched to run before it is back in its own code. \<open>None\<close> is a panic or an
  undefined step (a reschedule with nothing to run).
\<close>

section \<open>Run queues\<close>

definition prio_bit :: "int \<Rightarrow> u32" where
  "prio_bit p = push_bit (nat p) 1"

definition insert_in_run_queue_head :: "ptr \<Rightarrow> kernel \<Rightarrow> kernel" where
  "insert_in_run_queue_head t k =
    (let p = priority (threads k t)
     in k\<lparr>run_queue := (run_queue k)(p := t # run_queue k p),
          run_queue_bitmap := run_queue_bitmap k OR prio_bit p\<rparr>)"

definition insert_in_run_queue_tail :: "ptr \<Rightarrow> kernel \<Rightarrow> kernel" where
  "insert_in_run_queue_tail t k =
    (let p = priority (threads k t)
     in k\<lparr>run_queue := (run_queue k)(p := run_queue k p @ [t]),
          run_queue_bitmap := run_queue_bitmap k OR prio_bit p\<rparr>)"

text \<open>\<open>list_delete(&t->queue_node)\<close>: the node is taken off the list it is on.\<close>

definition queue_delete :: "ptr \<Rightarrow> kernel \<Rightarrow> kernel" where
  "queue_delete t k =
    k\<lparr>run_queue := (\<lambda>p. remove1 t (run_queue k p)),
      wait_queues := (\<lambda>w. (wait_queues k w)\<lparr>wlist := remove1 t (wlist (wait_queues k w))\<rparr>)\<rparr>"

text \<open>\<open>__builtin_clz\<close>\<close>

definition builtin_clz :: "u32 \<Rightarrow> int" where
  "builtin_clz w = int (length (takeWhile (\<lambda>i. \<not> bit w i) (rev [0..<32])))"

section \<open>The reschedule\<close>

definition next_queue :: "kernel \<Rightarrow> int" where
  "next_queue k = HIGHEST_PRIORITY - builtin_clz (run_queue_bitmap k) - (32 - NUM_PRIORITIES)"

definition thread_resched :: "kernel \<Rightarrow> kernel option" where
  "thread_resched k =
    (let oldthread = current_thread k; q = next_queue k in
     if run_queue_bitmap k = 0 then None
     else
       (case run_queue k q of
          [] \<Rightarrow> None
        | newthread # rest \<Rightarrow>
            (let k1 = k\<lparr>run_queue := (run_queue k)(q := rest)\<rparr>;
                 k2 = (if rest = [] then k1\<lparr>run_queue_bitmap := run_queue_bitmap k1 AND NOT (prio_bit q)\<rparr> else k1);
                 k3 = upd_thread newthread (\<lambda>t. t\<lparr>tstate := THREAD_RUNNING\<rparr>) k2
             in if newthread = oldthread then Some k3
                else
                  (let k4 = (if remaining_quantum (threads k3 newthread) \<le> 0
                             then upd_thread newthread (\<lambda>t. t\<lparr>remaining_quantum := 5\<rparr>) k3 else k3);
                       k5 = upd_thread oldthread
                              (\<lambda>t. t\<lparr>saved_critical_section_count := critical_section_count k4\<rparr>) k4
                   in Some (k5\<lparr>current_thread := newthread,
                         critical_section_count := saved_critical_section_count (threads k5 newthread)\<rparr>)))))"

section \<open>What is left of a call when its thread runs again\<close>

definition set_ret :: "status_t \<Rightarrow> kernel \<Rightarrow> kernel" where
  "set_ret r k = upd_thread (current_thread k) (\<lambda>t. t\<lparr>ret := r\<rparr>) k"

fun run_frame :: "frame \<Rightarrow> kernel \<Rightarrow> kernel option" where
  "run_frame Initial_thread_func k = Some (exit_critical_section k)"
| "run_frame Exit_critical_section k = Some (exit_critical_section k)"
| "run_frame (Return r) k = Some (set_ret r k)"
| "run_frame (Wait_queue_block timeout) k =
    (let k1 = (if timeout \<noteq> INFINITE_TIME then timer_cancel (stack_timer k (current_thread k)) k else k)
     in Some (set_ret (wait_queue_block_ret (cur k1)) k1))"
| "run_frame (Wait_queue_destroy w) k = Some (upd_wq w (\<lambda>q. q\<lparr>wmagic := 0\<rparr>) k)"
| "run_frame (Mutex_acquire m) k =
    (let k1 = (if ret (cur k) < 0 then k else upd_mutex m (\<lambda>x. x\<lparr>holder := current_thread k\<rparr>) k)
     in Some (exit_critical_section k1))"
| "run_frame (Mutex_acquire_timeout m) k =
    (let k1 = (if ret (cur k) < NO_ERROR \<and> ret (cur k) = ERR_TIMED_OUT
               then upd_mutex m (\<lambda>x. x\<lparr>mcount := mcount x - 1\<rparr>) k
               else upd_mutex m (\<lambda>x. x\<lparr>holder := current_thread k\<rparr>) k)
     in Some (exit_critical_section k1))"
| "run_frame Irq_return k = Some ((dec_critical_section k)\<lparr>ints_enabled := True\<rparr>)"
| "run_frame Thread_exit k = None"

fun run_frame_list :: "frame list \<Rightarrow> kernel \<Rightarrow> kernel option" where
  "run_frame_list [] k = Some k"
| "run_frame_list (f # fs) k = do { k1 \<leftarrow> run_frame f k; run_frame_list fs k1 }"

definition run_frames :: "kernel \<Rightarrow> kernel option" where
  "run_frames k =
    (let t = current_thread k; fs = frames (threads k t)
     in run_frame_list fs (upd_thread t (\<lambda>r. r\<lparr>frames := []\<rparr>) k))"

text \<open>A call of \<open>thread_resched\<close> in a function that still has \<open>fs\<close> to do.\<close>

definition resched :: "frame list \<Rightarrow> kernel \<Rightarrow> kernel option" where
  "resched fs k =
    do { k1 \<leftarrow> thread_resched (upd_thread (current_thread k) (\<lambda>t. t\<lparr>frames := fs\<rparr>) k);
         run_frames k1 }"

section \<open>Yield, preemption, blocking\<close>

text \<open>\<open>fs\<close> is what the caller has to do after the call; \<open>[]\<close> for a call from a thread's own code.\<close>

definition thread_yield :: "frame list \<Rightarrow> kernel \<Rightarrow> kernel option" where
  "thread_yield fs k =
    (let k1 = enter_critical_section k; c = current_thread k1;
         k2 = upd_thread c (\<lambda>t. t\<lparr>tstate := THREAD_READY, remaining_quantum := 0\<rparr>) k1;
         k3 = insert_in_run_queue_tail c k2
     in resched (Exit_critical_section # fs) k3)"

definition thread_preempt :: "frame list \<Rightarrow> kernel \<Rightarrow> kernel option" where
  "thread_preempt fs k =
    (let k1 = enter_critical_section k; c = current_thread k1;
         k2 = upd_thread c (\<lambda>t. t\<lparr>tstate := THREAD_READY\<rparr>) k1;
         k3 = (if remaining_quantum (threads k2 c) > 0 then insert_in_run_queue_head c k2
               else insert_in_run_queue_tail c k2)
     in resched (Exit_critical_section # fs) k3)"

definition thread_block :: "frame list \<Rightarrow> kernel \<Rightarrow> kernel option" where
  "thread_block fs k = resched (Exit_critical_section # fs) (enter_critical_section k)"

definition thread_timer_tick :: "kernel \<Rightarrow> kernel \<times> handler_return" where
  "thread_timer_tick k =
    (if current_thread k = idle_thread k then (k, INT_NO_RESCHEDULE)
     else
       (let k1 = upd_thread (current_thread k) (\<lambda>t. t\<lparr>remaining_quantum := remaining_quantum t - 1\<rparr>) k
        in if remaining_quantum (cur k1) \<le> 0 then (k1, INT_RESCHEDULE) else (k1, INT_NO_RESCHEDULE)))"

definition thread_sleep_handler :: "ptr \<Rightarrow> kernel \<Rightarrow> kernel \<times> handler_return" where
  "thread_sleep_handler arg k =
    (insert_in_run_queue_head arg (upd_thread arg (\<lambda>t. t\<lparr>tstate := THREAD_READY\<rparr>) k), INT_RESCHEDULE)"

definition thread_sleep :: "u32 \<Rightarrow> kernel \<Rightarrow> kernel option" where
  "thread_sleep delay k =
    (let c = current_thread k; tm = stack_timer k c in
     do { k1 \<leftarrow> timer_initialize tm k;
          k2 \<leftarrow> timer_set_oneshot tm delay Thread_sleep_handler c (enter_critical_section k1);
          resched [Exit_critical_section] (upd_thread c (\<lambda>t. t\<lparr>tstate := THREAD_SLEEPING\<rparr>) k2) })"

section \<open>Creating, resuming, naming threads\<close>

text \<open>\<open>memset\<close>, the magic and the name, cut to the 32-byte field.\<close>

definition init_thread_struct :: "ptr \<Rightarrow> string \<Rightarrow> kernel \<Rightarrow> kernel" where
  "init_thread_struct t name k = upd_thread t
    (\<lambda>_. \<lparr>tmagic = THREAD_MAGIC, tname = take 31 name, priority = 0, tstate = THREAD_SUSPENDED,
      saved_critical_section_count = 0, remaining_quantum = 0, blocking_wait_queue = 0,
      wait_queue_block_ret = 0, tstack = 0, stack_size = 0, tentry = 0, targ = 0, retcode = 0,
      frames = [], ret = 0\<rparr>) k"

text \<open>\<open>sizeof(thread_t)\<close> on the 32-bit target.\<close>

definition SIZEOF_THREAD :: u32 where "SIZEOF_THREAD = 100"

definition thread_create :: "string \<Rightarrow> ptr \<Rightarrow> ptr \<Rightarrow> int \<Rightarrow> u32 \<Rightarrow> kernel \<Rightarrow> (kernel \<times> ptr) option" where
  "thread_create name ent arg prio stksize k =
    do { (h1, t) \<leftarrow> malloc (kheap k) SIZEOF_THREAD;
         if t = 0 then Some (k\<lparr>kheap := h1\<rparr>, 0)
         else do {
           let k1 = upd_thread t (\<lambda>r. r\<lparr>tentry := ent, targ := arg, priority := prio,
                       saved_critical_section_count := 1, tstate := THREAD_SUSPENDED,
                       blocking_wait_queue := 0, wait_queue_block_ret := NO_ERROR\<rparr>)
                     (init_thread_struct t name (k\<lparr>kheap := h1\<rparr>)) in
           do { (h2, s) \<leftarrow> malloc (kheap k1) stksize;
                if s = 0 then map_option (\<lambda>h3. (k1\<lparr>kheap := h3\<rparr>, 0)) (free h2 t)
                else
                  (let k2 = upd_thread t (\<lambda>r. r\<lparr>tstack := s, stack_size := stksize,
                              frames := [Initial_thread_func]\<rparr>) (k1\<lparr>kheap := h2\<rparr>);
                       k3 = enter_critical_section k2
                   in Some (exit_critical_section (k3\<lparr>thread_list := t # thread_list k3\<rparr>), t)) } } }"

definition thread_resume :: "ptr \<Rightarrow> kernel \<Rightarrow> kernel option" where
  "thread_resume t k =
    (if tstate (threads k t) = THREAD_READY \<or> tstate (threads k t) = THREAD_RUNNING
     then Some (set_ret ERR_NOT_SUSPENDED k)
     else
       (let k1 = enter_critical_section k;
            k2 = upd_thread t (\<lambda>r. r\<lparr>tstate := THREAD_READY\<rparr>) k1;
            k3 = insert_in_run_queue_head t k2
        in thread_yield [Exit_critical_section, Return NO_ERROR] k3))"

definition thread_cleanup_dpc :: "ptr \<Rightarrow> kernel \<Rightarrow> kernel option" where
  "thread_cleanup_dpc t k =
    (let k1 = enter_critical_section k;
         k2 = exit_critical_section (k1\<lparr>thread_list := remove1 t (thread_list k1)\<rparr>)
     in do { h1 \<leftarrow> (if tstack (threads k2 t) \<noteq> 0 then free (kheap k2) (tstack (threads k2 t)) else Some (kheap k2));
             h2 \<leftarrow> free h1 t;
             Some (k2\<lparr>kheap := h2\<rparr>) })"

definition thread_init_early :: "ptr \<Rightarrow> kernel \<Rightarrow> kernel" where
  "thread_init_early bootstrap_thread k =
    (let k1 = k\<lparr>run_queue := (\<lambda>p. if 0 \<le> p \<and> p < NUM_PRIORITIES then [] else run_queue k p), thread_list := []\<rparr>;
         k2 = init_thread_struct bootstrap_thread ''bootstrap'' k1;
         k3 = upd_thread bootstrap_thread (\<lambda>t. t\<lparr>priority := HIGHEST_PRIORITY, tstate := THREAD_RUNNING,
                saved_critical_section_count := 1\<rparr>) k2
     in k3\<lparr>thread_list := bootstrap_thread # thread_list k3, current_thread := bootstrap_thread\<rparr>)"

definition thread_set_name :: "string \<Rightarrow> kernel \<Rightarrow> kernel" where
  "thread_set_name name k = upd_thread (current_thread k) (\<lambda>t. t\<lparr>tname := take 31 name\<rparr>) k"

definition thread_set_priority :: "int \<Rightarrow> kernel \<Rightarrow> kernel" where
  "thread_set_priority prio k =
    (let p1 = (if prio < LOWEST_PRIORITY then LOWEST_PRIORITY else prio);
         p2 = (if p1 > HIGHEST_PRIORITY then HIGHEST_PRIORITY else p1)
     in upd_thread (current_thread k) (\<lambda>t. t\<lparr>priority := p2\<rparr>) k)"

definition thread_become_idle :: "kernel \<Rightarrow> kernel" where
  "thread_become_idle k =
    (let k1 = thread_set_priority IDLE_PRIORITY (thread_set_name ''idle'' k)
     in k1\<lparr>idle_thread := current_thread k1\<rparr>)"

section \<open>Wait queues\<close>

definition wait_queue_init :: "ptr \<Rightarrow> kernel \<Rightarrow> kernel" where
  "wait_queue_init w k = upd_wq w (\<lambda>_. \<lparr>wmagic = WAIT_QUEUE_MAGIC, wlist = [], wcount = 0\<rparr>) k"

text \<open>\<open>fs\<close> is what the caller of a blocking call does with the value it returned in \<open>ret\<close>.\<close>

definition wait_queue_block :: "frame list \<Rightarrow> ptr \<Rightarrow> u32 \<Rightarrow> kernel \<Rightarrow> kernel option" where
  "wait_queue_block fs w timeout k =
    (if timeout = 0 then run_frame_list fs (set_ret ERR_TIMED_OUT k)
     else
       (let c = current_thread k;
            k1 = upd_wq w (\<lambda>q. q\<lparr>wlist := wlist q @ [c], wcount := wcount q + 1\<rparr>) k;
            k2 = upd_thread c (\<lambda>t. t\<lparr>tstate := THREAD_BLOCKED, blocking_wait_queue := w,
                   wait_queue_block_ret := NO_ERROR\<rparr>) k1
        in do { k3 \<leftarrow> (if timeout \<noteq> INFINITE_TIME then
                 do { ka \<leftarrow> timer_initialize (stack_timer k2 c) k2;
                      timer_set_oneshot (stack_timer k2 c) timeout Wait_queue_timeout_handler c ka }
                 else Some k2);
                thread_block (Wait_queue_block timeout # fs) k3 }))"

text \<open>The part of the wake-up that moves one thread off the queue (the head, which is given).\<close>

definition wake_thread :: "ptr \<Rightarrow> ptr \<Rightarrow> status_t \<Rightarrow> kernel \<Rightarrow> kernel" where
  "wake_thread w t err k =
    upd_thread t (\<lambda>r. r\<lparr>tstate := THREAD_READY, wait_queue_block_ret := err, blocking_wait_queue := 0\<rparr>)
      (upd_wq w (\<lambda>q. q\<lparr>wlist := remove1 t (wlist q), wcount := wcount q - 1\<rparr>) k)"

text \<open>
  The wake-ups up to their call of \<open>thread_resched\<close>, which their caller makes (with what it
  has left to do) when \<open>reschedule\<close> holds and a thread was woken.
\<close>

definition wait_queue_wake_one :: "ptr \<Rightarrow> bool \<Rightarrow> status_t \<Rightarrow> kernel \<Rightarrow> kernel \<times> int" where
  "wait_queue_wake_one w reschedule err k =
    (case wlist (wait_queues k w) of
       [] \<Rightarrow> (k, 0)
     | t # _ \<Rightarrow>
         (let k1 = wake_thread w t err k;
              k2 = (if reschedule then
                      insert_in_run_queue_head (current_thread k1)
                        (upd_thread (current_thread k1) (\<lambda>r. r\<lparr>tstate := THREAD_READY\<rparr>) k1)
                    else k1)
          in (insert_in_run_queue_head t k2, 1)))"

fun wake_all_loop :: "nat \<Rightarrow> ptr \<Rightarrow> status_t \<Rightarrow> kernel \<Rightarrow> int \<Rightarrow> kernel \<times> int" where
  "wake_all_loop 0 w err k n = (k, n)"
| "wake_all_loop (Suc fuel) w err k n =
    (case wlist (wait_queues k w) of
       [] \<Rightarrow> (k, n)
     | t # _ \<Rightarrow> wake_all_loop fuel w err (insert_in_run_queue_head t (wake_thread w t err k)) (n + 1))"

definition wait_queue_wake_all :: "ptr \<Rightarrow> bool \<Rightarrow> status_t \<Rightarrow> kernel \<Rightarrow> kernel \<times> int" where
  "wait_queue_wake_all w reschedule err k =
    (let k1 = (if reschedule \<and> wcount (wait_queues k w) > 0 then
                 insert_in_run_queue_head (current_thread k)
                   (upd_thread (current_thread k) (\<lambda>r. r\<lparr>tstate := THREAD_READY\<rparr>) k)
               else k)
     in wake_all_loop (length (wlist (wait_queues k1 w))) w err k1 0)"

text \<open>The end of a function that woke threads: reschedule, or go straight on.\<close>

definition finish_wake :: "bool \<Rightarrow> frame list \<Rightarrow> kernel \<times> int \<Rightarrow> kernel option" where
  "finish_wake reschedule fs kn =
    (if reschedule \<and> snd kn > 0 then resched fs (fst kn) else run_frame_list fs (fst kn))"

definition wait_queue_destroy :: "frame list \<Rightarrow> ptr \<Rightarrow> bool \<Rightarrow> kernel \<Rightarrow> kernel option" where
  "wait_queue_destroy fs w reschedule k =
    finish_wake reschedule (Wait_queue_destroy w # fs) (wait_queue_wake_all w reschedule ERR_OBJECT_DESTROYED k)"

text \<open>
  The unblocking up to its \<open>if (reschedule)\<close>, with the value it is going to return. The error
  return leaves the critical section it entered.
\<close>

definition unblock_thread :: "ptr \<Rightarrow> status_t \<Rightarrow> kernel \<Rightarrow> kernel \<times> status_t" where
  "unblock_thread t err k =
    (let k1 = enter_critical_section k in
     if tstate (threads k1 t) \<noteq> THREAD_BLOCKED then (k1, ERR_NOT_BLOCKED)
     else
       (let k2 = queue_delete t k1;
            k3 = upd_wq (blocking_wait_queue (threads k2 t)) (\<lambda>q. q\<lparr>wcount := wcount q - 1\<rparr>) k2;
            k4 = upd_thread t (\<lambda>r. r\<lparr>blocking_wait_queue := 0, tstate := THREAD_READY,
                   wait_queue_block_ret := err\<rparr>) k3
        in (insert_in_run_queue_head t k4, NO_ERROR)))"

definition thread_unblock_from_wait_queue :: "ptr \<Rightarrow> bool \<Rightarrow> status_t \<Rightarrow> kernel \<Rightarrow> kernel option" where
  "thread_unblock_from_wait_queue t reschedule err k =
    (let (k1, r) = unblock_thread t err k in
     if r = ERR_NOT_BLOCKED then Some (set_ret r k1)
     else if reschedule then resched [Exit_critical_section, Return NO_ERROR] k1
     else Some (set_ret NO_ERROR (exit_critical_section k1)))"

text \<open>From the timer interrupt, with \<open>reschedule\<close> false; nothing is returned to a thread.\<close>

definition wait_queue_timeout_handler :: "ptr \<Rightarrow> kernel \<Rightarrow> kernel \<times> handler_return" where
  "wait_queue_timeout_handler arg k =
    (let (k1, r) = unblock_thread arg ERR_TIMED_OUT k
     in if r \<ge> NO_ERROR then (exit_critical_section k1, INT_RESCHEDULE) else (k1, INT_NO_RESCHEDULE))"

end
