(* ===== verification/Lk_Tick.thy ===== *)
theory Lk_Tick
  imports Lk_Thread
begin

text \<open>
  The periodic tick of \<open>kernel/timer.c\<close>: it fires the callbacks of the timers that are due,
  in the order of the queue, then charges the running thread's quantum. Callbacks set no
  timers, so the loop ends with the queue.
\<close>

definition fire_timer :: "ptr \<Rightarrow> kernel \<Rightarrow> (kernel \<times> handler_return) option" where
  "fire_timer tm k =
    (case callback (timers k tm) of
       No_callback \<Rightarrow> None
     | Thread_sleep_handler \<Rightarrow> Some (thread_sleep_handler (timer_arg (timers k tm)) k)
     | Wait_queue_timeout_handler \<Rightarrow> Some (wait_queue_timeout_handler (timer_arg (timers k tm)) k))"

lemma fire_timer_queue: "fire_timer tm k = Some (k', r) \<Longrightarrow> timer_queue k' = timer_queue k"
  by (auto simp: fire_timer_def thread_sleep_handler_def wait_queue_timeout_handler_def unblock_thread_def
      insert_in_run_queue_head_def upd_defs enter_critical_section_def exit_critical_section_def
      queue_delete_def Let_def split: timer_callback.splits if_splits)

function tick_loop :: "u32 \<Rightarrow> kernel \<Rightarrow> handler_return \<Rightarrow> (kernel \<times> handler_return) option" where
  "tick_loop now k r =
    (case timer_queue k of
       [] \<Rightarrow> Some (k, r)
     | tm # rest \<Rightarrow>
         if now < scheduled_time (timers k tm) then Some (k, r)
         else
           (case fire_timer tm (k\<lparr>timer_queue := rest\<rparr>) of
              None \<Rightarrow> None
            | Some (k', r') \<Rightarrow> tick_loop now k' (if r' = INT_RESCHEDULE then INT_RESCHEDULE else r)))"
  by pat_completeness auto

termination
  by (relation "measure (\<lambda>(now, k, r). length (timer_queue k))") (auto dest: fire_timer_queue)

declare tick_loop.simps [simp del]

text \<open>
  \<open>ret\<close> is computed, and then \<open>INT_RESCHEDULE\<close> is returned whatever it is.
\<close>

definition timer_tick :: "u32 \<Rightarrow> kernel \<Rightarrow> (kernel \<times> handler_return) option" where
  "timer_tick now k =
    (case tick_loop now k INT_NO_RESCHEDULE of
       None \<Rightarrow> None
     | Some (k1, ret1) \<Rightarrow>
         (let (k2, q) = thread_timer_tick k1; ret2 = (if q = INT_RESCHEDULE then INT_RESCHEDULE else ret1)
          in Some (k2, INT_RESCHEDULE)))"

text \<open>
  The interrupt glue of the architecture (\<open>arm_irq\<close>): interrupts are off from the entry to the
  return, the handler runs with the critical section count raised, and its answer decides
  about preemption. What the glue does after the handler is on the stack of the thread that
  was interrupted (the frame \<open>Irq_return\<close>).
\<close>

definition timer_interrupt :: "u32 \<Rightarrow> kernel \<Rightarrow> kernel option" where
  "timer_interrupt now k =
    (case timer_tick now (inc_critical_section (k\<lparr>clock := now, ints_enabled := False\<rparr>)) of
       None \<Rightarrow> None
     | Some (k1, r) \<Rightarrow>
         (if r = INT_RESCHEDULE then thread_preempt [Irq_return] k1 else run_frame Irq_return k1))"

end
