(* ===== verification/Lk_Mutex.thy ===== *)
theory Lk_Mutex
  imports Lk_Thread
begin

text \<open>
  Mutexes, \<open>kernel/mutex.c\<close>: \<open>count\<close> is the holder plus the waiters. A release with waiters
  leaves the mutex without a holder until the woken thread runs and takes it. A panic is
  \<open>None\<close>.
\<close>

definition mutex_init :: "ptr \<Rightarrow> kernel \<Rightarrow> kernel" where
  "mutex_init m k =
    wait_queue_init (mutex_wait_queue m)
      (upd_mutex m (\<lambda>_. \<lparr>mmagic = MUTEX_MAGIC, mcount = 0, holder = 0\<rparr>) k)"

definition mutex_destroy :: "ptr \<Rightarrow> kernel \<Rightarrow> kernel option" where
  "mutex_destroy m k =
    (let k1 = enter_critical_section k in
     if holder (mutexes k1 m) \<noteq> 0 \<and> current_thread k1 \<noteq> holder (mutexes k1 m) then None
     else wait_queue_destroy [Exit_critical_section] (mutex_wait_queue m) True
            (upd_mutex m (\<lambda>x. x\<lparr>mmagic := 0, mcount := 0\<rparr>) k1))"

definition mutex_acquire :: "ptr \<Rightarrow> kernel \<Rightarrow> kernel option" where
  "mutex_acquire m k =
    (if current_thread k = holder (mutexes k m) then None
     else
       (let k1 = upd_mutex m (\<lambda>x. x\<lparr>mcount := mcount x + 1\<rparr>) (enter_critical_section k) in
        if mcount (mutexes k1 m) > 1
        then wait_queue_block [Mutex_acquire m] (mutex_wait_queue m) INFINITE_TIME k1
        else Some (set_ret NO_ERROR (exit_critical_section
               (upd_mutex m (\<lambda>x. x\<lparr>holder := current_thread k1\<rparr>) k1)))))"

definition mutex_acquire_timeout :: "ptr \<Rightarrow> u32 \<Rightarrow> kernel \<Rightarrow> kernel option" where
  "mutex_acquire_timeout m timeout k =
    (if current_thread k = holder (mutexes k m) then None
     else if timeout = INFINITE_TIME then mutex_acquire m k
     else
       (let k1 = upd_mutex m (\<lambda>x. x\<lparr>mcount := mcount x + 1\<rparr>) (enter_critical_section k) in
        if mcount (mutexes k1 m) > 1
        then wait_queue_block [Mutex_acquire_timeout m] (mutex_wait_queue m) timeout k1
        else Some (set_ret NO_ERROR (exit_critical_section
               (upd_mutex m (\<lambda>x. x\<lparr>holder := current_thread k1\<rparr>) k1)))))"

definition mutex_release :: "ptr \<Rightarrow> kernel \<Rightarrow> kernel option" where
  "mutex_release m k =
    (if current_thread k \<noteq> holder (mutexes k m) then None
     else
       (let k1 = upd_mutex m (\<lambda>x. x\<lparr>holder := 0, mcount := mcount x - 1\<rparr>) (enter_critical_section k);
            rest = [Exit_critical_section, Return NO_ERROR] in
        if mcount (mutexes k1 m) \<ge> 1
        then finish_wake True rest (wait_queue_wake_one (mutex_wait_queue m) True NO_ERROR k1)
        else run_frame_list rest k1))"

end
