(* ===== verification/Lk_Event.thy ===== *)
theory Lk_Event
  imports Lk_Thread
begin

text \<open>
  Events, \<open>kernel/event.c\<close>. A call returns its value in \<open>ret\<close> of the calling thread; a wait
  that blocks returns it when the thread runs again.
\<close>

definition event_init :: "ptr \<Rightarrow> bool \<Rightarrow> u32 \<Rightarrow> kernel \<Rightarrow> kernel" where
  "event_init e initial flags k =
    wait_queue_init (event_wait_queue e)
      (upd_event e (\<lambda>_. \<lparr>emagic = EVENT_MAGIC, signalled = initial, eflags = flags\<rparr>) k)"

definition event_destroy :: "ptr \<Rightarrow> kernel \<Rightarrow> kernel option" where
  "event_destroy e k =
    (let k1 = enter_critical_section k;
         k2 = upd_event e (\<lambda>x. x\<lparr>emagic := 0, signalled := False, eflags := 0\<rparr>) k1
     in wait_queue_destroy [Exit_critical_section] (event_wait_queue e) True k2)"

definition event_wait_timeout :: "ptr \<Rightarrow> u32 \<Rightarrow> kernel \<Rightarrow> kernel option" where
  "event_wait_timeout e timeout k =
    (let k1 = enter_critical_section k in
     if signalled (events k1 e) then
       (let k2 = (if eflags (events k1 e) AND EVENT_FLAG_AUTOUNSIGNAL \<noteq> 0
                  then upd_event e (\<lambda>x. x\<lparr>signalled := False\<rparr>) k1 else k1)
        in Some (set_ret NO_ERROR (exit_critical_section k2)))
     else wait_queue_block [Exit_critical_section] (event_wait_queue e) timeout k1)"

definition event_wait :: "ptr \<Rightarrow> kernel \<Rightarrow> kernel option" where
  "event_wait e k = event_wait_timeout e INFINITE_TIME k"

text \<open>\<open>fs\<close>: what the caller does after the call (\<open>dpc_queue\<close> is one).\<close>

definition event_signal :: "frame list \<Rightarrow> ptr \<Rightarrow> bool \<Rightarrow> kernel \<Rightarrow> kernel option" where
  "event_signal fs e reschedule k =
    (let k1 = enter_critical_section k; rest = [Exit_critical_section, Return NO_ERROR] @ fs in
     if \<not> signalled (events k1 e) then
       (if eflags (events k1 e) AND EVENT_FLAG_AUTOUNSIGNAL \<noteq> 0 then
          (let (k2, n) = wait_queue_wake_one (event_wait_queue e) reschedule NO_ERROR k1
           in if n \<le> 0 then run_frame_list rest (upd_event e (\<lambda>x. x\<lparr>signalled := True\<rparr>) k2)
              else finish_wake reschedule rest (k2, n))
        else
          finish_wake reschedule rest
            (wait_queue_wake_all (event_wait_queue e) reschedule NO_ERROR
              (upd_event e (\<lambda>x. x\<lparr>signalled := True\<rparr>) k1)))
     else run_frame_list rest k1)"

definition event_unsignal :: "ptr \<Rightarrow> kernel \<Rightarrow> kernel" where
  "event_unsignal e k =
    set_ret NO_ERROR (exit_critical_section
      (upd_event e (\<lambda>x. x\<lparr>signalled := False\<rparr>) (enter_critical_section k)))"

end
