(* ===== verification/Lk_Dpc.thy ===== *)
theory Lk_Dpc
  imports Lk_Event
begin

text \<open>
  Deferred procedure calls, \<open>kernel/dpc.c\<close>, and \<open>thread_exit\<close> of \<open>kernel/thread.c\<close>, which
  has its thread cleaned up by one. The body of the dpc thread is \<open>dpc_thread_wait\<close> and
  \<open>dpc_thread_run\<close> in turn, the two halves of its loop (the first may block).
\<close>

definition SIZEOF_DPC :: u32 where "SIZEOF_DPC = 16"

text \<open>A failed allocation is not checked: the code writes to the null pointer then (\<open>None\<close>).\<close>

definition dpc_queue :: "frame list \<Rightarrow> dpc_callback \<Rightarrow> ptr \<Rightarrow> u32 \<Rightarrow> kernel \<Rightarrow> kernel option" where
  "dpc_queue fs c arg flags k =
    do { (h1, d) \<leftarrow> malloc (kheap k) SIZEOF_DPC;
         if d = 0 then None
         else
           (let k1 = k\<lparr>kheap := h1, dpcs := (dpcs k)(d := \<lparr>cb = c, dpc_arg = arg\<rparr>)\<rparr>;
                k2 = enter_critical_section k1;
                k3 = k2\<lparr>dpc_list := dpc_list k2 @ [d]\<rparr>
            in event_signal ([Exit_critical_section, Return NO_ERROR] @ fs) (dpc_event k3)
                 (if flags AND DPC_FLAG_NORESCHED \<noteq> 0 then False else True) k3) }"

definition dpc_init :: "ptr \<Rightarrow> kernel \<Rightarrow> kernel option" where
  "dpc_init dpc_thread_routine k =
    do { (k1, t) \<leftarrow> thread_create ''dpc'' dpc_thread_routine 0 DPC_PRIORITY DEFAULT_STACK_SIZE
           (event_init (dpc_event k) False 0 k);
         if t = 0 then None else thread_resume t k1 }"

definition dpc_thread_wait :: "kernel \<Rightarrow> kernel option" where
  "dpc_thread_wait k = event_wait (dpc_event k) k"

definition dpc_thread_run :: "kernel \<Rightarrow> kernel option" where
  "dpc_thread_run k =
    (let k1 = enter_critical_section k in
     case dpc_list k1 of
       [] \<Rightarrow> Some (exit_critical_section (event_unsignal (dpc_event k1) k1))
     | d # rest \<Rightarrow>
         (let k2 = exit_critical_section (k1\<lparr>dpc_list := rest\<rparr>) in
          do { k3 \<leftarrow> (case cb (dpcs k2 d) of
                 Thread_cleanup_dpc \<Rightarrow> thread_cleanup_dpc (dpc_arg (dpcs k2 d)) k2
               | Other_dpc _ \<Rightarrow> Some k2);
               h \<leftarrow> free (kheap k3) d;
               Some (k3\<lparr>kheap := h\<rparr>) }))"

text \<open>
  \<open>dpc_queue\<close> is called with \<open>DPC_FLAG_NORESCHED\<close>, so that it returns here; a thread that is
  ever switched back to after that panics (the frame \<open>Thread_exit\<close>).
\<close>

definition thread_exit :: "int \<Rightarrow> kernel \<Rightarrow> kernel option" where
  "thread_exit code k =
    (let k1 = enter_critical_section k;
         k2 = upd_thread (current_thread k1) (\<lambda>t. t\<lparr>tstate := THREAD_DEATH, retcode := code\<rparr>) k1
     in do { k3 \<leftarrow> dpc_queue [] Thread_cleanup_dpc (current_thread k2) DPC_FLAG_NORESCHED k2;
             resched [Thread_exit] k3 })"

end
