(* ===== verification/Lk_Kinv.thy ===== *)
theory Lk_Kinv
  imports Lk_Tick Lk_Mutex Lk_Dpc
begin

text \<open>
  The invariant of the kernel's queues. A ready thread is on the run queue of its priority and
  nowhere else, a blocked one on the wait queue it is blocked on, any other on no queue, and the
  bitmap has a bit for each run queue that has threads. \<open>queues_ok X\<close> says so for all threads but
  those of \<open>X\<close>, which an operation has taken off the queues and not put back yet; the lemmas of
  the first sections are one per elementary move between the queues, and the operations of the
  kernel are sequences of these moves.
\<close>

section \<open>The invariant\<close>

definition run_queues_ok :: "ptr set \<Rightarrow> kernel \<Rightarrow> bool" where
  "run_queues_ok X k \<longleftrightarrow>
    (\<forall>p. distinct (run_queue k p)) \<and>
    (\<forall>p t. t \<in> set (run_queue k p) \<longleftrightarrow>
       t \<in> set (thread_list k) \<and> t \<notin> X \<and> tstate (threads k t) = THREAD_READY \<and> priority (threads k t) = p)"

definition bitmap_ok :: "kernel \<Rightarrow> bool" where
  "bitmap_ok k \<longleftrightarrow> (\<forall>p. 0 \<le> p \<and> p < NUM_PRIORITIES \<longrightarrow> (bit (run_queue_bitmap k) (nat p) \<longleftrightarrow> run_queue k p \<noteq> []))"

definition wait_queues_ok :: "ptr set \<Rightarrow> kernel \<Rightarrow> bool" where
  "wait_queues_ok X k \<longleftrightarrow>
    (\<forall>w. distinct (wlist (wait_queues k w)) \<and> wcount (wait_queues k w) = int (length (wlist (wait_queues k w)))) \<and>
    (\<forall>w t. t \<in> set (wlist (wait_queues k w)) \<longleftrightarrow>
       t \<in> set (thread_list k) \<and> t \<notin> X \<and> tstate (threads k t) = THREAD_BLOCKED \<and> blocking_wait_queue (threads k t) = w)"

definition threads_ok :: "ptr set \<Rightarrow> kernel \<Rightarrow> bool" where
  "threads_ok X k \<longleftrightarrow>
    (\<forall>t \<in> set (thread_list k). 0 \<le> priority (threads k t) \<and> priority (threads k t) < NUM_PRIORITIES) \<and>
    (\<forall>t \<in> set (thread_list k). t \<notin> X \<longrightarrow> tstate (threads k t) = THREAD_RUNNING \<longrightarrow> t = current_thread k) \<and>
    current_thread k \<in> set (thread_list k)"

definition queues_ok :: "ptr set \<Rightarrow> kernel \<Rightarrow> bool" where
  "queues_ok X k \<longleftrightarrow> run_queues_ok X k \<and> bitmap_ok k \<and> wait_queues_ok X k \<and> threads_ok X k"

definition unqueued :: "ptr set \<Rightarrow> ptr \<Rightarrow> kernel \<Rightarrow> bool" where
  "unqueued X t k \<longleftrightarrow> t \<in> X \<or> tstate (threads k t) \<noteq> THREAD_READY \<and> tstate (threads k t) \<noteq> THREAD_BLOCKED"

lemmas queues_ok_defs = queues_ok_def run_queues_ok_def bitmap_ok_def wait_queues_ok_def threads_ok_def

section \<open>Elementary moves\<close>

lemma upd_thread_same [simp]:
  "thread_list (upd_thread t f k) = thread_list k" "current_thread (upd_thread t f k) = current_thread k"
  "run_queue (upd_thread t f k) = run_queue k" "run_queue_bitmap (upd_thread t f k) = run_queue_bitmap k"
  "wait_queues (upd_thread t f k) = wait_queues k"
  by (simp_all add: upd_thread_def)

text \<open>Parts of the state the invariant does not look at.\<close>

lemma queues_ok_cong:
  assumes "threads k' = threads k" "thread_list k' = thread_list k" "current_thread k' = current_thread k"
    and "run_queue k' = run_queue k" "run_queue_bitmap k' = run_queue_bitmap k" "wait_queues k' = wait_queues k"
  shows "queues_ok X k' \<longleftrightarrow> queues_ok X k"
  using assms by (simp add: queues_ok_defs)

lemma queues_ok_upd_other [simp]:
  "queues_ok X (k\<lparr>critical_section_count := c\<rparr>) \<longleftrightarrow> queues_ok X k"
  "queues_ok X (k\<lparr>ints_enabled := b\<rparr>) \<longleftrightarrow> queues_ok X k"
  "queues_ok X (k\<lparr>timer_queue := q\<rparr>) \<longleftrightarrow> queues_ok X k"
  "queues_ok X (k\<lparr>dpc_list := d\<rparr>) \<longleftrightarrow> queues_ok X k"
  "queues_ok X (k\<lparr>dpcs := ds\<rparr>) \<longleftrightarrow> queues_ok X k"
  "queues_ok X (k\<lparr>kheap := h\<rparr>) \<longleftrightarrow> queues_ok X k"
  "queues_ok X (k\<lparr>clock := n\<rparr>) \<longleftrightarrow> queues_ok X k"
  "queues_ok X (k\<lparr>idle_thread := t\<rparr>) \<longleftrightarrow> queues_ok X k"
  "queues_ok X (upd_timer tm g k) \<longleftrightarrow> queues_ok X k"
  "queues_ok X (upd_event e h' k) \<longleftrightarrow> queues_ok X k"
  "queues_ok X (upd_mutex m f k) \<longleftrightarrow> queues_ok X k"
  by (simp_all add: queues_ok_defs upd_defs)

text \<open>A change of a thread's fields that the queues do not depend on.\<close>

definition keeps_place :: "thread \<Rightarrow> thread \<Rightarrow> bool" where
  "keeps_place r r' \<longleftrightarrow> tstate r' = tstate r \<and> priority r' = priority r \<and> blocking_wait_queue r' = blocking_wait_queue r"

lemma queues_ok_keeps_place:
  assumes "queues_ok X k" "keeps_place (threads k t) (f (threads k t))"
  shows "queues_ok X (upd_thread t f k)"
  using assms unfolding queues_ok_defs upd_thread_def keeps_place_def by simp

text \<open>Taking a thread that is on no queue out of the account, with any change of its struct.\<close>

lemma run_queues_ok_transfer:
  assumes "run_queues_ok X k" "run_queue k' = run_queue k" "thread_list k' = thread_list k"
    and "\<And>u. u \<notin> X' \<and> tstate (threads k' u) = THREAD_READY \<longleftrightarrow> u \<notin> X \<and> tstate (threads k u) = THREAD_READY"
    and "\<And>u. u \<notin> X' \<and> tstate (threads k' u) = THREAD_READY \<Longrightarrow> priority (threads k' u) = priority (threads k u)"
  shows "run_queues_ok X' k'"
proof -
  have "u \<notin> X' \<and> tstate (threads k' u) = THREAD_READY \<and> priority (threads k' u) = p \<longleftrightarrow>
      u \<notin> X \<and> tstate (threads k u) = THREAD_READY \<and> priority (threads k u) = p" for u p
    using assms(4,5)[of u] by auto
  then show ?thesis using assms(1-3) by (simp add: run_queues_ok_def)
qed

lemma wait_queues_ok_transfer:
  assumes "wait_queues_ok X k" "wait_queues k' = wait_queues k" "thread_list k' = thread_list k"
    and "\<And>u. u \<notin> X' \<and> tstate (threads k' u) = THREAD_BLOCKED \<longleftrightarrow> u \<notin> X \<and> tstate (threads k u) = THREAD_BLOCKED"
    and "\<And>u. u \<notin> X' \<and> tstate (threads k' u) = THREAD_BLOCKED \<Longrightarrow>
      blocking_wait_queue (threads k' u) = blocking_wait_queue (threads k u)"
  shows "wait_queues_ok X' k'"
proof -
  have "u \<notin> X' \<and> tstate (threads k' u) = THREAD_BLOCKED \<and> blocking_wait_queue (threads k' u) = p \<longleftrightarrow>
      u \<notin> X \<and> tstate (threads k u) = THREAD_BLOCKED \<and> blocking_wait_queue (threads k u) = p" for u p
    using assms(4,5)[of u] by auto
  then show ?thesis using assms(1-3) by (simp add: wait_queues_ok_def)
qed

lemma threads_ok_transfer:
  assumes "threads_ok X k" "current_thread k' = current_thread k" "thread_list k' = thread_list k"
    and "\<And>u. priority (threads k' u) = priority (threads k u)"
    and "\<And>u. u \<notin> X' \<Longrightarrow> tstate (threads k' u) = THREAD_RUNNING \<Longrightarrow>
      u \<notin> X \<and> tstate (threads k u) = THREAD_RUNNING \<or> u = current_thread k"
  shows "threads_ok X' k'"
  using assms unfolding threads_ok_def by metis

lemma queues_ok_limbo:
  assumes ok: "queues_ok X k" and t: "unqueued X t k" and f: "priority (f (threads k t)) = priority (threads k t)"
  shows "queues_ok (insert t X) (upd_thread t f k)"
proof -
  have "run_queues_ok (insert t X) (upd_thread t f k)"
    by (rule run_queues_ok_transfer[of X k]) (use ok t f in \<open>auto simp: queues_ok_def unqueued_def upd_thread_def\<close>)
  moreover have "wait_queues_ok (insert t X) (upd_thread t f k)"
    by (rule wait_queues_ok_transfer[of X k]) (use ok t f in \<open>auto simp: queues_ok_def unqueued_def upd_thread_def\<close>)
  moreover have "bitmap_ok (upd_thread t f k)"
    using ok by (simp add: queues_ok_defs upd_thread_def)
  moreover have "threads_ok (insert t X) (upd_thread t f k)"
    by (rule threads_ok_transfer[of X k]) (use ok f in \<open>auto simp: queues_ok_def upd_thread_def\<close>)
  ultimately show ?thesis by (simp add: queues_ok_def)
qed

text \<open>Putting it back in a state that has no queue.\<close>

lemma queues_ok_settle:
  assumes ok: "queues_ok (insert t X) k" and t: "t \<notin> X"
    and st: "tstate (threads k t) \<in> {THREAD_SUSPENDED, THREAD_SLEEPING, THREAD_DEATH}
         \<or> tstate (threads k t) = THREAD_RUNNING \<and> t = current_thread k"
  shows "queues_ok X k"
proof -
  have "run_queues_ok X k"
    by (rule run_queues_ok_transfer[of "insert t X" k]) (use ok st in \<open>auto simp: queues_ok_def\<close>)
  moreover have "wait_queues_ok X k"
    by (rule wait_queues_ok_transfer[of "insert t X" k]) (use ok st in \<open>auto simp: queues_ok_def\<close>)
  moreover have "threads_ok X k"
  proof (rule threads_ok_transfer[of "insert t X" k])
    show "threads_ok (insert t X) k" using ok by (simp add: queues_ok_def)
  qed (use st in \<open>simp_all, metis thread_state.distinct\<close>)
  ultimately show ?thesis using ok by (simp add: queues_ok_def)
qed

lemma bit_prio_bit: "0 \<le> p \<Longrightarrow> p < 32 \<Longrightarrow> 0 \<le> q \<Longrightarrow> q < 32 \<Longrightarrow> bit (prio_bit p) (nat q) \<longleftrightarrow> p = q"
  by (auto simp: prio_bit_def bit_simps)

lemma bitmap_ok_insert:
  assumes "bitmap_ok k" "0 \<le> p" "p < 32" "q \<noteq> []"
  shows "bitmap_ok (k\<lparr>run_queue := (run_queue k)(p := q), run_queue_bitmap := run_queue_bitmap k OR prio_bit p\<rparr>)"
  using assms by (auto simp: bitmap_ok_def bit_or_iff bit_prio_bit prio_defs)

lemma queues_ok_insert_run_queue:
  assumes "queues_ok (insert t X) k" "t \<notin> X" "t \<in> set (thread_list k)" "tstate (threads k t) = THREAD_READY"
    and "distinct q" "set q = insert t (set (run_queue k (priority (threads k t))))"
  shows "queues_ok X (k\<lparr>run_queue := (run_queue k)(priority (threads k t) := q),
           run_queue_bitmap := run_queue_bitmap k OR prio_bit (priority (threads k t))\<rparr>)" (is "queues_ok X ?k'")
proof -
  have "0 \<le> priority (threads k t)" "priority (threads k t) < 32"
    using assms(1,3) by (auto simp: queues_ok_defs prio_defs)
  moreover have "q \<noteq> []" using assms(6) by auto
  moreover have "run_queues_ok X ?k'"
  proof -
    have "u \<in> set (run_queue ?k' p) \<longleftrightarrow> u \<in> set (thread_list k) \<and> u \<notin> X \<and>
        tstate (threads k u) = THREAD_READY \<and> priority (threads k u) = p" for p u
      using assms by (cases "u = t") (auto simp: queues_ok_def run_queues_ok_def)
    then show ?thesis using assms(1,5) by (simp add: queues_ok_def run_queues_ok_def)
  qed
  moreover have "wait_queues_ok X ?k'"
    by (rule wait_queues_ok_transfer[of "insert t X" k]) (use assms in \<open>auto simp: queues_ok_def\<close>)
  moreover have "threads_ok X ?k'"
    by (rule threads_ok_transfer[of "insert t X" k]) (use assms in \<open>auto simp: queues_ok_def\<close>)
  ultimately show ?thesis
    using bitmap_ok_insert[of k "priority (threads k t)" q] assms(1) by (simp add: queues_ok_def)
qed

lemma queues_ok_insert_head:
  assumes "queues_ok (insert t X) k" "t \<notin> X" "t \<in> set (thread_list k)" "tstate (threads k t) = THREAD_READY"
  shows "queues_ok X (insert_in_run_queue_head t k)"
  unfolding insert_in_run_queue_head_def Let_def
  by (rule queues_ok_insert_run_queue[OF assms]) (use assms(1) in \<open>auto simp: queues_ok_defs\<close>)

lemma queues_ok_insert_tail:
  assumes "queues_ok (insert t X) k" "t \<notin> X" "t \<in> set (thread_list k)" "tstate (threads k t) = THREAD_READY"
  shows "queues_ok X (insert_in_run_queue_tail t k)"
  unfolding insert_in_run_queue_tail_def Let_def
  by (rule queues_ok_insert_run_queue[OF assms]) (use assms(1) in \<open>auto simp: queues_ok_defs\<close>)

text \<open>Blocking: on the tail of a wait queue, with the state that says so.\<close>

lemma queues_ok_block:
  assumes ok: "queues_ok X k" and t: "unqueued X t k" "t \<in> set (thread_list k)" "t \<notin> X"
    and f: "tstate (f (threads k t)) = THREAD_BLOCKED" "blocking_wait_queue (f (threads k t)) = w"
      "priority (f (threads k t)) = priority (threads k t)"
  shows "queues_ok X (upd_thread t f (upd_wq w (\<lambda>q. q\<lparr>wlist := wlist q @ [t], wcount := wcount q + 1\<rparr>) k))"
  using assms unfolding queues_ok_defs upd_defs unqueued_def by auto

text \<open>Waking: off the wait queue.\<close>

lemma queues_ok_off_wait_queue:
  assumes ok: "queues_ok X k" and t: "t \<in> set (wlist (wait_queues k w))"
    and f: "priority (f (threads k t)) = priority (threads k t)"
  shows "queues_ok (insert t X)
    (upd_thread t f (upd_wq w (\<lambda>q. q\<lparr>wlist := remove1 t (wlist q), wcount := wcount q - 1\<rparr>) k))"
proof -
  have "int (length (remove1 t (wlist (wait_queues k w)))) = int (length (wlist (wait_queues k w))) - 1"
    using t length_pos_if_in_set[OF t] by (simp add: length_remove1 of_nat_diff Suc_leI del: length_greater_0_conv)
  then show ?thesis using assms unfolding queues_ok_defs upd_defs by auto
qed

lemma queues_ok_wake_thread:
  assumes "queues_ok X k" "t \<in> set (wlist (wait_queues k w))"
  shows "queues_ok X (insert_in_run_queue_head t (wake_thread w t err k))"
proof (rule queues_ok_insert_head)
  show "queues_ok (insert t X) (wake_thread w t err k)"
    unfolding wake_thread_def by (rule queues_ok_off_wait_queue[OF assms]) simp
  show "t \<notin> X" "t \<in> set (thread_list (wake_thread w t err k))"
    using assms by (auto simp: queues_ok_defs wake_thread_def upd_defs)
  show "tstate (threads (wake_thread w t err k) t) = THREAD_READY"
    by (simp add: wake_thread_def upd_defs)
qed

section \<open>The reschedule\<close>

text \<open>The thread list, the timers and the clients' structs, which the scheduler leaves alone.\<close>

definition same_rest :: "kernel \<Rightarrow> kernel \<Rightarrow> bool" where
  "same_rest k k' \<longleftrightarrow> thread_list k' = thread_list k \<and> idle_thread k' = idle_thread k \<and> timers k' = timers k \<and>
    timer_queue k' = timer_queue k \<and> stack_timer k' = stack_timer k \<and> events k' = events k \<and>
    mutexes k' = mutexes k \<and> dpcs k' = dpcs k \<and> dpc_list k' = dpc_list k \<and> dpc_event k' = dpc_event k \<and>
    kheap k' = kheap k \<and> clock k' = clock k"

lemma length_takeWhile_less: "\<exists>x \<in> set xs. \<not> P x \<Longrightarrow> length (takeWhile P xs) < length xs"
  by (induction xs) auto

lemma highest_bit:
  fixes w :: u32
  assumes "w \<noteq> 0"
  obtains q where "q < 32" "31 - builtin_clz w = int q" "bit w q" "\<And>i. bit w i \<Longrightarrow> i \<le> q"
proof -
  let ?xs = "rev [0..<32::nat]" let ?n = "length (takeWhile (\<lambda>i. \<not> bit w i) ?xs)"
  obtain i where i: "bit w i" using assms by (metis bit_word_eqI bit_0_eq bot_apply bot_bool_def)
  then have "i < 32" using bit_imp_le_length[of w i] by simp
  then have "\<exists>x \<in> set ?xs. bit w x" using i by auto
  then have n: "?n < 32"
    using length_takeWhile_less[of ?xs "\<lambda>i. \<not> bit w i"] by simp
  have nth: "?xs ! j = 31 - j" if "j < 32" for j
    using that by (simp add: rev_nth)
  have "bit w (31 - ?n)"
    using nth_length_takeWhile[of "\<lambda>i. \<not> bit w i" ?xs] n nth by simp
  moreover have "i \<le> 31 - ?n" if "bit w i" for i
  proof (rule ccontr)
    assume "\<not> i \<le> 31 - ?n"
    then have "31 - i < ?n" "i < 32" using bit_imp_le_length[OF that] by auto
    then have "takeWhile (\<lambda>i. \<not> bit w i) ?xs ! (31 - i) = i"
      using nth[of "31 - i"] by (simp add: takeWhile_nth)
    then show False using set_takeWhileD[of i "\<lambda>i. \<not> bit w i" ?xs] nth_mem[OF \<open>31 - i < ?n\<close>] that by auto
  qed
  moreover have "31 - builtin_clz w = int (31 - ?n)" unfolding builtin_clz_def using n by auto
  ultimately show ?thesis using n by (intro that[of "31 - ?n"]) auto
qed

lemma next_queue_highest:
  assumes ok: "queues_ok X k" and "run_queue_bitmap k \<noteq> 0"
  shows "run_queue k (next_queue k) \<noteq> []" "0 \<le> next_queue k" "next_queue k < 32"
    "\<And>p. run_queue k p \<noteq> [] \<Longrightarrow> p \<le> next_queue k"
proof -
  obtain q where q: "q < 32" "31 - builtin_clz (run_queue_bitmap k) = int q" "bit (run_queue_bitmap k) q"
    "\<And>i. bit (run_queue_bitmap k) i \<Longrightarrow> i \<le> q" using highest_bit[OF assms(2)] by blast
  then have n: "next_queue k = int q" by (simp add: next_queue_def prio_defs)
  have bm: "\<And>p. 0 \<le> p \<Longrightarrow> p < 32 \<Longrightarrow> bit (run_queue_bitmap k) (nat p) \<longleftrightarrow> run_queue k p \<noteq> []"
    using ok by (simp add: queues_ok_def bitmap_ok_def prio_defs)
  show "0 \<le> next_queue k" "next_queue k < 32" using n q by auto
  show "run_queue k (next_queue k) \<noteq> []" using bm[of "int q"] n q by simp
  fix p assume ne: "run_queue k p \<noteq> []"
  then obtain t where "t \<in> set (run_queue k p)" by (cases "run_queue k p") auto
  then have p: "0 \<le> p" "p < 32" using ok by (auto simp: queues_ok_defs prio_defs)
  then show "p \<le> next_queue k" using bm[of p] ne n q(4)[of "nat p"] by simp
qed

lemma bitmap_nonzero:
  assumes ok: "queues_ok X k" and "run_queue k p \<noteq> []"
  shows "run_queue_bitmap k \<noteq> 0"
proof -
  obtain t where "t \<in> set (run_queue k p)" using assms(2) by (cases "run_queue k p") auto
  then have p: "0 \<le> p" "p < 32" using ok by (auto simp: queues_ok_defs prio_defs)
  then have "bit (run_queue_bitmap k) (nat p)" using ok assms(2) by (simp add: queues_ok_def bitmap_ok_def prio_defs)
  then show ?thesis by auto
qed

lemma thread_resched_fields:
  assumes "thread_resched k = Some k'"
  obtains n rest where "run_queue k (next_queue k) = n # rest" "run_queue_bitmap k \<noteq> 0"
    "current_thread k' = n" "same_rest k k'" "wait_queues k' = wait_queues k"
    "run_queue k' = (run_queue k)(next_queue k := rest)"
    "run_queue_bitmap k' = (if rest = [] then run_queue_bitmap k AND NOT (prio_bit (next_queue k)) else run_queue_bitmap k)"
    "\<And>u. tstate (threads k' u) = (if u = n then THREAD_RUNNING else tstate (threads k u))"
    "\<And>u. priority (threads k' u) = priority (threads k u)"
    "\<And>u. blocking_wait_queue (threads k' u) = blocking_wait_queue (threads k u)"
    "\<And>u. frames (threads k' u) = frames (threads k u)"
    "\<And>u. ret (threads k' u) = ret (threads k u)"
    "\<And>u. wait_queue_block_ret (threads k' u) = wait_queue_block_ret (threads k u)"
proof -
  from assms obtain n rest where q: "run_queue k (next_queue k) = n # rest" and b: "run_queue_bitmap k \<noteq> 0"
    by (auto simp: thread_resched_def Let_def split: list.splits if_splits)
  show thesis
  proof (rule that[OF q b])
  qed (use assms q b in \<open>auto simp: thread_resched_def Let_def same_rest_def upd_thread_def split: if_splits\<close>)
qed

text \<open>
  The reschedule picks the thread at the head of the highest non-empty run queue, which is then
  the running one.
\<close>

lemma bitmap_ok_pop:
  assumes "queues_ok X k" "0 \<le> q" "q < 32" "run_queue k q = n # rest"
    "run_queue k' = (run_queue k)(q := rest)"
    "run_queue_bitmap k' = (if rest = [] then run_queue_bitmap k AND NOT (prio_bit q) else run_queue_bitmap k)"
  shows "bitmap_ok k'"
  unfolding bitmap_ok_def
proof (intro allI impI)
  fix p assume p: "0 \<le> p \<and> p < NUM_PRIORITIES"
  then have "bit (run_queue_bitmap k) (nat p) \<longleftrightarrow> run_queue k p \<noteq> []" "nat p < 32"
    using assms(1) by (auto simp: queues_ok_def bitmap_ok_def prio_defs)
  then show "bit (run_queue_bitmap k') (nat p) \<longleftrightarrow> run_queue k' p \<noteq> []"
    using p assms by (auto simp: bit_and_iff bit_not_iff bit_prio_bit prio_defs)
qed

lemma thread_resched_ok:
  assumes ok: "queues_ok {} k" and c: "tstate (cur k) \<noteq> THREAD_RUNNING" and r: "thread_resched k = Some k'"
  shows "queues_ok {} k'" "tstate (cur k') = THREAD_RUNNING"
proof -
  obtain n rest where q: "run_queue k (next_queue k) = n # rest" and b: "run_queue_bitmap k \<noteq> 0"
    and f: "current_thread k' = n" "same_rest k k'" "wait_queues k' = wait_queues k"
    "run_queue k' = (run_queue k)(next_queue k := rest)"
    "run_queue_bitmap k' = (if rest = [] then run_queue_bitmap k AND NOT (prio_bit (next_queue k)) else run_queue_bitmap k)"
    "\<And>u. tstate (threads k' u) = (if u = n then THREAD_RUNNING else tstate (threads k u))"
    "\<And>u. priority (threads k' u) = priority (threads k u)"
    "\<And>u. blocking_wait_queue (threads k' u) = blocking_wait_queue (threads k u)"
    by (rule thread_resched_fields[OF r]) blast
  have rq: "\<And>p. distinct (run_queue k p)" "\<And>p t. t \<in> set (run_queue k p) \<longleftrightarrow>
       t \<in> set (thread_list k) \<and> tstate (threads k t) = THREAD_READY \<and> priority (threads k t) = p"
    using ok by (auto simp: queues_ok_def run_queues_ok_def)
  have n: "n \<in> set (thread_list k)" "tstate (threads k n) = THREAD_READY" "priority (threads k n) = next_queue k"
    "n \<notin> set rest" using rq(1)[of "next_queue k"] rq(2)[of n "next_queue k"] q by auto
  have nr: "u \<in> set (thread_list k) \<Longrightarrow> tstate (threads k u) \<noteq> THREAD_RUNNING" for u
    using ok c by (auto simp: queues_ok_def threads_ok_def)
  have tl: "thread_list k' = thread_list k" using f(2) by (simp add: same_rest_def)
  show "tstate (cur k') = THREAD_RUNNING" using f by simp
  have "run_queues_ok {} k'"
    unfolding run_queues_ok_def
  proof (intro conjI allI)
    fix p u show "distinct (run_queue k' p)" using rq(1)[of p] rq(1)[of "next_queue k"] q f(4) by auto
    show "u \<in> set (run_queue k' p) \<longleftrightarrow> u \<in> set (thread_list k') \<and> u \<notin> {} \<and>
        tstate (threads k' u) = THREAD_READY \<and> priority (threads k' u) = p"
    proof (cases "u = n")
      case True
      then have "u \<notin> set (run_queue k' p)" using rq(2)[of n p] n f(4) by auto
      then show ?thesis using True f(6) by simp
    next
      case False
      then have "u \<in> set (run_queue k' p) \<longleftrightarrow> u \<in> set (run_queue k p)" using q f(4) by auto
      then show ?thesis using rq(2)[of u p] False tl f(6,7) by simp
    qed
  qed
  moreover have "wait_queues_ok {} k'"
    by (rule wait_queues_ok_transfer[of "{}" k]) (use ok f tl n in \<open>auto simp: queues_ok_def\<close>)
  moreover have "threads_ok {} k'"
    using ok f n nr tl by (auto simp: queues_ok_def threads_ok_def)
  moreover have "bitmap_ok k'"
    using bitmap_ok_pop[OF ok next_queue_highest(2,3)[OF ok b] q f(4,5)] .
  ultimately show "queues_ok {} k'" by (simp add: queues_ok_def)
qed

lemma thread_resched_picks:
  assumes ok: "queues_ok {} k" and r: "thread_resched k = Some k'"
    and u: "u \<in> set (thread_list k)" "tstate (threads k u) = THREAD_READY"
  shows "priority (threads k u) \<le> priority (threads k (current_thread k'))"
    and "tstate (threads k (current_thread k')) = THREAD_READY"
    and "hd (run_queue k (priority (threads k (current_thread k')))) = current_thread k'"
proof -
  obtain n rest where q: "run_queue k (next_queue k) = n # rest" and b: "run_queue_bitmap k \<noteq> 0"
    and f: "current_thread k' = n"
    by (rule thread_resched_fields[OF r]) blast
  have n: "tstate (threads k n) = THREAD_READY" "priority (threads k n) = next_queue k"
    using ok q by (auto simp: queues_ok_def run_queues_ok_def) (metis list.set_intros(1))+
  have "run_queue k (priority (threads k u)) \<noteq> []"
    using ok u by (auto simp: queues_ok_def run_queues_ok_def) (metis empty_iff empty_set)
  then show "priority (threads k u) \<le> priority (threads k (current_thread k'))"
    using next_queue_highest(4)[OF ok b] f n by simp
  show "tstate (threads k (current_thread k')) = THREAD_READY"
    "hd (run_queue k (priority (threads k (current_thread k')))) = current_thread k'"
    using f n q by auto
qed

lemma thread_resched_total:
  assumes ok: "queues_ok {} k" and u: "u \<in> set (thread_list k)" "tstate (threads k u) = THREAD_READY"
  shows "\<exists>k'. thread_resched k = Some k'"
proof -
  have "u \<in> set (run_queue k (priority (threads k u)))"
    using ok u by (auto simp: queues_ok_def run_queues_ok_def)
  then have "run_queue k (priority (threads k u)) \<noteq> []" by (metis empty_iff list.set(1))
  then have b: "run_queue_bitmap k \<noteq> 0" by (rule bitmap_nonzero[OF ok])
  obtain n rest where "run_queue k (next_queue k) = n # rest"
    using next_queue_highest(1)[OF ok b] by (meson neq_Nil_conv)
  then show ?thesis using b by (simp add: thread_resched_def Let_def)
qed

section \<open>The kernel between two calls\<close>

text \<open>The current thread runs its own code: it is the one running thread.\<close>

definition kernel_ok :: "kernel \<Rightarrow> bool" where
  "kernel_ok k \<longleftrightarrow> queues_ok {} k \<and> tstate (cur k) = THREAD_RUNNING"

lemma critical_section_fields [simp]:
  "threads (enter_critical_section k) = threads k" "thread_list (enter_critical_section k) = thread_list k"
  "current_thread (enter_critical_section k) = current_thread k" "wait_queues (enter_critical_section k) = wait_queues k"
  "run_queue (enter_critical_section k) = run_queue k" "timer_queue (enter_critical_section k) = timer_queue k"
  "timers (enter_critical_section k) = timers k" "stack_timer (enter_critical_section k) = stack_timer k"
  "mutexes (enter_critical_section k) = mutexes k" "events (enter_critical_section k) = events k"
  "dpc_list (enter_critical_section k) = dpc_list k" "dpcs (enter_critical_section k) = dpcs k"
  "kheap (enter_critical_section k) = kheap k" "dpc_event (enter_critical_section k) = dpc_event k"
  "idle_thread (enter_critical_section k) = idle_thread k" "clock (enter_critical_section k) = clock k"
  "threads (exit_critical_section k) = threads k" "thread_list (exit_critical_section k) = thread_list k"
  "current_thread (exit_critical_section k) = current_thread k" "wait_queues (exit_critical_section k) = wait_queues k"
  "run_queue (exit_critical_section k) = run_queue k" "timer_queue (exit_critical_section k) = timer_queue k"
  "timers (exit_critical_section k) = timers k" "stack_timer (exit_critical_section k) = stack_timer k"
  "mutexes (exit_critical_section k) = mutexes k" "events (exit_critical_section k) = events k"
  "dpc_list (exit_critical_section k) = dpc_list k" "dpcs (exit_critical_section k) = dpcs k"
  "kheap (exit_critical_section k) = kheap k" "dpc_event (exit_critical_section k) = dpc_event k"
  "idle_thread (exit_critical_section k) = idle_thread k" "clock (exit_critical_section k) = clock k"
  by (simp_all add: enter_critical_section_def exit_critical_section_def Let_def)

lemma queues_ok_critical_section [simp]:
  "queues_ok X (enter_critical_section k) \<longleftrightarrow> queues_ok X k"
  "queues_ok X (exit_critical_section k) \<longleftrightarrow> queues_ok X k"
  "queues_ok X (inc_critical_section k) \<longleftrightarrow> queues_ok X k"
  "queues_ok X (dec_critical_section k) \<longleftrightarrow> queues_ok X k"
  by (simp_all add: enter_critical_section_def exit_critical_section_def inc_critical_section_def
      dec_critical_section_def Let_def)

lemma kernel_ok_critical_section [simp]:
  "kernel_ok (enter_critical_section k) \<longleftrightarrow> kernel_ok k"
  "kernel_ok (exit_critical_section k) \<longleftrightarrow> kernel_ok k"
  "kernel_ok (inc_critical_section k) \<longleftrightarrow> kernel_ok k"
  "kernel_ok (dec_critical_section k) \<longleftrightarrow> kernel_ok k"
  by (simp_all add: kernel_ok_def inc_critical_section_def dec_critical_section_def)

lemma kernel_ok_upd_other [simp]:
  "kernel_ok (k\<lparr>ints_enabled := b\<rparr>) \<longleftrightarrow> kernel_ok k"
  "kernel_ok (k\<lparr>timer_queue := q\<rparr>) \<longleftrightarrow> kernel_ok k"
  "kernel_ok (k\<lparr>dpc_list := d\<rparr>) \<longleftrightarrow> kernel_ok k"
  "kernel_ok (k\<lparr>dpcs := ds\<rparr>) \<longleftrightarrow> kernel_ok k"
  "kernel_ok (k\<lparr>kheap := h\<rparr>) \<longleftrightarrow> kernel_ok k"
  "kernel_ok (k\<lparr>clock := n\<rparr>) \<longleftrightarrow> kernel_ok k"
  "kernel_ok (k\<lparr>idle_thread := t\<rparr>) \<longleftrightarrow> kernel_ok k"
  "kernel_ok (upd_timer tm g k) \<longleftrightarrow> kernel_ok k"
  "kernel_ok (upd_event e h' k) \<longleftrightarrow> kernel_ok k"
  "kernel_ok (upd_mutex m f k) \<longleftrightarrow> kernel_ok k"
  by (simp_all add: kernel_ok_def) (simp_all add: upd_defs)

lemma kernel_ok_keeps_place:
  assumes "kernel_ok k" "keeps_place (threads k t) (f (threads k t))"
  shows "kernel_ok (upd_thread t f k)"
  using assms queues_ok_keeps_place[of "{}" k t f] by (auto simp: kernel_ok_def upd_thread_def keeps_place_def)

lemma kernel_ok_set_ret [intro]: "kernel_ok k \<Longrightarrow> kernel_ok (set_ret r k)"
  unfolding set_ret_def by (rule kernel_ok_keeps_place) (simp_all add: keeps_place_def)

lemma kernel_ok_wmagic: "kernel_ok k \<Longrightarrow> kernel_ok (upd_wq w (\<lambda>q. q\<lparr>wmagic := x\<rparr>) k)"
  by (auto simp: kernel_ok_def queues_ok_defs upd_defs)

lemma kernel_ok_timer_cancel [simp]: "kernel_ok (timer_cancel t k) \<longleftrightarrow> kernel_ok k"
  by (simp add: timer_cancel_def Let_def)

lemma run_frame_ok: "kernel_ok k \<Longrightarrow> run_frame f k = Some k' \<Longrightarrow> kernel_ok k'"
  by (cases f) (auto simp: Let_def kernel_ok_wmagic split: if_splits)

lemma run_frame_list_ok: "kernel_ok k \<Longrightarrow> run_frame_list fs k = Some k' \<Longrightarrow> kernel_ok k'"
  by (induction fs arbitrary: k) (auto dest: run_frame_ok split: bind_splits)

lemma run_frames_ok: "kernel_ok k \<Longrightarrow> run_frames k = Some k' \<Longrightarrow> kernel_ok k'"
  unfolding run_frames_def Let_def
  by (erule run_frame_list_ok[rotated]) (simp add: kernel_ok_keeps_place keeps_place_def)

lemma resched_ok:
  assumes "queues_ok {} k" "tstate (cur k) \<noteq> THREAD_RUNNING" "resched fs k = Some k'"
  shows "kernel_ok k'"
proof -
  let ?k = "upd_thread (current_thread k) (\<lambda>t. t\<lparr>frames := fs\<rparr>) k"
  obtain k1 where k1: "thread_resched ?k = Some k1" "run_frames k1 = Some k'"
    using assms(3) by (auto simp: resched_def split: bind_splits)
  have "queues_ok {} ?k" by (rule queues_ok_keeps_place[OF assms(1)]) (simp add: keeps_place_def)
  then have "kernel_ok k1" using thread_resched_ok[OF _ _ k1(1)] assms(2) by (simp add: kernel_ok_def upd_thread_def)
  then show ?thesis using run_frames_ok k1(2) by blast
qed

section \<open>Moves of a thread\<close>

lemma ready_at_head:
  assumes "queues_ok X k" "unqueued X t k" "t \<notin> X" "t \<in> set (thread_list k)"
    and "tstate (f (threads k t)) = THREAD_READY" "priority (f (threads k t)) = priority (threads k t)"
  shows "queues_ok X (insert_in_run_queue_head t (upd_thread t f k))"
  by (rule queues_ok_insert_head[OF queues_ok_limbo]) (use assms in \<open>auto simp: upd_thread_def\<close>)

lemma ready_at_tail:
  assumes "queues_ok X k" "unqueued X t k" "t \<notin> X" "t \<in> set (thread_list k)"
    and "tstate (f (threads k t)) = THREAD_READY" "priority (f (threads k t)) = priority (threads k t)"
  shows "queues_ok X (insert_in_run_queue_tail t (upd_thread t f k))"
  by (rule queues_ok_insert_tail[OF queues_ok_limbo]) (use assms in \<open>auto simp: upd_thread_def\<close>)

lemma leaves_queues:
  assumes "queues_ok X k" "unqueued X t k" "t \<notin> X"
    and "tstate (f (threads k t)) \<in> {THREAD_SUSPENDED, THREAD_SLEEPING, THREAD_DEATH}"
      "priority (f (threads k t)) = priority (threads k t)"
  shows "queues_ok X (upd_thread t f k)"
  by (rule queues_ok_settle[OF queues_ok_limbo]) (use assms in \<open>auto simp: upd_thread_def\<close>)

lemma insert_run_queue_fields [simp]:
  "threads (insert_in_run_queue_head t k) = threads k" "threads (insert_in_run_queue_tail t k) = threads k"
  "thread_list (insert_in_run_queue_head t k) = thread_list k" "thread_list (insert_in_run_queue_tail t k) = thread_list k"
  "current_thread (insert_in_run_queue_head t k) = current_thread k"
  "current_thread (insert_in_run_queue_tail t k) = current_thread k"
  "wait_queues (insert_in_run_queue_head t k) = wait_queues k" "wait_queues (insert_in_run_queue_tail t k) = wait_queues k"
  "timer_queue (insert_in_run_queue_head t k) = timer_queue k" "timer_queue (insert_in_run_queue_tail t k) = timer_queue k"
  "timers (insert_in_run_queue_head t k) = timers k" "timers (insert_in_run_queue_tail t k) = timers k"
  "stack_timer (insert_in_run_queue_head t k) = stack_timer k" "stack_timer (insert_in_run_queue_tail t k) = stack_timer k"
  by (simp_all add: insert_in_run_queue_head_def insert_in_run_queue_tail_def Let_def)

lemma kernel_okD:
  assumes "kernel_ok k"
  shows "queues_ok {} k" "unqueued {} (current_thread k) k" "current_thread k \<in> set (thread_list k)"
    "tstate (cur k) = THREAD_RUNNING"
  using assms by (auto simp: kernel_ok_def unqueued_def queues_ok_def threads_ok_def)

section \<open>Yield, preemption, sleep\<close>

lemma thread_yield_ok:
  assumes "kernel_ok k" "thread_yield fs k = Some k'"
  shows "kernel_ok k'"
proof (rule resched_ok)
  note ok = kernel_okD[of "enter_critical_section k"]
  show "resched (Exit_critical_section # fs) (insert_in_run_queue_tail (current_thread k)
     (upd_thread (current_thread k) (\<lambda>t. t\<lparr>tstate := THREAD_READY, remaining_quantum := 0\<rparr>) (enter_critical_section k))) = Some k'"
    using assms(2) by (simp add: thread_yield_def Let_def)
  show "queues_ok {} (insert_in_run_queue_tail (current_thread k)
     (upd_thread (current_thread k) (\<lambda>t. t\<lparr>tstate := THREAD_READY, remaining_quantum := 0\<rparr>) (enter_critical_section k)))"
    by (rule ready_at_tail) (use ok assms(1) in simp_all)
qed (simp add: upd_thread_def)

lemma thread_preempt_ok:
  assumes "kernel_ok k" "thread_preempt fs k = Some k'"
  shows "kernel_ok k'"
proof -
  note ok = kernel_okD[of "enter_critical_section k"]
  let ?k = "upd_thread (current_thread k) (\<lambda>t. t\<lparr>tstate := THREAD_READY\<rparr>) (enter_critical_section k)"
  have "queues_ok {} (insert_in_run_queue_head (current_thread k) ?k)"
    "queues_ok {} (insert_in_run_queue_tail (current_thread k) ?k)"
    using ok assms(1) by (auto intro!: ready_at_head ready_at_tail)
  moreover have "tstate (threads ?k (current_thread k)) \<noteq> THREAD_RUNNING" by (simp add: upd_thread_def)
  ultimately show ?thesis
    using assms(2) by (auto simp: thread_preempt_def Let_def intro: resched_ok split: if_splits)
qed

lemma timer_initialize_ok: "timer_initialize t k = Some k' \<Longrightarrow> queues_ok X k' \<longleftrightarrow> queues_ok X k"
  by (auto simp: timer_initialize_def split: if_splits)

lemma timer_set_oneshot_ok: "timer_set_oneshot t d c a k = Some k' \<Longrightarrow> queues_ok X k' \<longleftrightarrow> queues_ok X k"
  by (auto simp: timer_set_oneshot_def insert_timer_in_queue_def Let_def split: if_splits)

lemma timer_fields:
  "timer_initialize t k = Some k' \<Longrightarrow> threads k' = threads k \<and> current_thread k' = current_thread k \<and> thread_list k' = thread_list k \<and>
    wait_queues k' = wait_queues k \<and> stack_timer k' = stack_timer k"
  "timer_set_oneshot t d c a k = Some k' \<Longrightarrow> threads k' = threads k \<and> current_thread k' = current_thread k \<and> thread_list k' = thread_list k \<and>
    wait_queues k' = wait_queues k \<and> stack_timer k' = stack_timer k"
  by (auto simp: timer_initialize_def timer_set_oneshot_def insert_timer_in_queue_def upd_timer_def Let_def split: if_splits)

lemma thread_sleep_ok:
  assumes "kernel_ok k" "thread_sleep d k = Some k'"
  shows "kernel_ok k'"
proof -
  obtain k1 k2 where k1: "timer_initialize (stack_timer k (current_thread k)) k = Some k1"
    and k2: "timer_set_oneshot (stack_timer k (current_thread k)) d Thread_sleep_handler (current_thread k)
          (enter_critical_section k1) = Some k2"
    and r: "resched [Exit_critical_section] (upd_thread (current_thread k) (\<lambda>t. t\<lparr>tstate := THREAD_SLEEPING\<rparr>) k2) = Some k'"
    using assms(2) by (auto simp: thread_sleep_def Let_def split: bind_splits)
  have f: "threads k2 = threads k" "current_thread k2 = current_thread k" "thread_list k2 = thread_list k"
    using timer_fields(1)[OF k1] timer_fields(2)[OF k2] by simp_all
  have q: "queues_ok {} k2"
    using timer_initialize_ok[OF k1] timer_set_oneshot_ok[OF k2] kernel_okD(1)[OF assms(1)] by simp
  have "queues_ok {} (upd_thread (current_thread k) (\<lambda>t. t\<lparr>tstate := THREAD_SLEEPING\<rparr>) k2)"
    by (rule leaves_queues) (use q f kernel_okD[OF assms(1)] in \<open>auto simp: unqueued_def\<close>)
  then show ?thesis
    by (rule resched_ok[OF _ _ r]) (simp add: upd_thread_def f)
qed

section \<open>Frames and wake-ups when the current thread need not be running\<close>

definition same_states :: "kernel \<Rightarrow> kernel \<Rightarrow> bool" where
  "same_states k k' \<longleftrightarrow> thread_list k' = thread_list k \<and> current_thread k' = current_thread k \<and>
    (\<forall>u. tstate (threads k' u) = tstate (threads k u))"

lemma same_states_trans: "same_states k k1 \<Longrightarrow> same_states k1 k2 \<Longrightarrow> same_states k k2"
  by (simp add: same_states_def)

lemma same_states_refl [simp]: "same_states k k"
  by (simp add: same_states_def)

lemma queues_ok_set_ret [intro]: "queues_ok X k \<Longrightarrow> queues_ok X (set_ret r k)"
  unfolding set_ret_def by (rule queues_ok_keeps_place) (simp_all add: keeps_place_def)

lemma queues_ok_wmagic: "queues_ok X k \<Longrightarrow> queues_ok X (upd_wq w (\<lambda>q. q\<lparr>wmagic := x\<rparr>) k)"
  by (auto simp: queues_ok_defs upd_defs)

lemma queues_ok_timer_cancel [simp]: "queues_ok X (timer_cancel t k) \<longleftrightarrow> queues_ok X k"
  by (simp add: timer_cancel_def Let_def)

lemma run_frame_states: "run_frame f k = Some k' \<Longrightarrow> same_states k k'"
  by (cases f) (auto simp: Let_def same_states_def set_ret_def upd_defs timer_cancel_def dec_critical_section_def)

lemma run_frame_queues: "queues_ok X k \<Longrightarrow> run_frame f k = Some k' \<Longrightarrow> queues_ok X k'"
  by (cases f) (auto simp: Let_def queues_ok_wmagic split: if_splits)

lemma run_frame_list_queues:
  "queues_ok X k \<Longrightarrow> run_frame_list fs k = Some k' \<Longrightarrow> queues_ok X k' \<and> same_states k k'"
proof (induction fs arbitrary: k)
  case (Cons f fs)
  then obtain k1 where k1: "run_frame f k = Some k1" "run_frame_list fs k1 = Some k'"
    by (auto split: bind_splits)
  show ?case
    using Cons.IH[OF run_frame_queues[OF Cons.prems(1) k1(1)] k1(2)] run_frame_states[OF k1(1)] same_states_trans
    by blast
qed simp

lemma wake_thread_fields [simp]:
  "thread_list (wake_thread w t err k) = thread_list k" "current_thread (wake_thread w t err k) = current_thread k"
  "run_queue (wake_thread w t err k) = run_queue k" "timer_queue (wake_thread w t err k) = timer_queue k"
  "tstate (threads (wake_thread w t err k) u) = (if u = t then THREAD_READY else tstate (threads k u))"
  "priority (threads (wake_thread w t err k) u) = priority (threads k u)"
  by (simp_all add: wake_thread_def upd_defs)

lemma queues_ok_waiting:
  assumes "queues_ok X k" "t \<in> set (wlist (wait_queues k w))"
  shows "t \<in> set (thread_list k)" "t \<notin> X" "tstate (threads k t) = THREAD_BLOCKED" "blocking_wait_queue (threads k t) = w"
  using assms by (auto simp: queues_ok_defs)

lemma wake_one_ok:
  assumes ok: "queues_ok {} k" and c: "reschedule \<Longrightarrow> tstate (cur k) = THREAD_RUNNING"
    and b: "tstate (cur k) \<noteq> THREAD_BLOCKED"
    and r: "wait_queue_wake_one w reschedule err k = (k', n)"
  shows "queues_ok {} k'" "current_thread k' = current_thread k" "thread_list k' = thread_list k"
    "tstate (cur k') = (if reschedule \<and> n > 0 then THREAD_READY else tstate (cur k))"
proof -
  show "current_thread k' = current_thread k" "thread_list k' = thread_list k"
    using r by (auto simp: wait_queue_wake_one_def Let_def split: list.splits)
  have "queues_ok {} k' \<and> tstate (cur k') = (if reschedule \<and> n > 0 then THREAD_READY else tstate (cur k))"
  proof (cases "wlist (wait_queues k w)")
    case Nil then show ?thesis using r ok by (auto simp: wait_queue_wake_one_def)
  next
    case (Cons t ts)
    then have t: "t \<in> set (wlist (wait_queues k w))" by simp
    note w = queues_ok_waiting[OF ok t]
    have ne: "t \<noteq> current_thread k" using w(3) b by auto
    have l: "queues_ok {t} (wake_thread w t err k)"
      unfolding wake_thread_def by (rule queues_ok_off_wait_queue[OF ok t]) simp
    show ?thesis
    proof (cases reschedule)
      case True
      let ?k = "insert_in_run_queue_head (current_thread k)
        (upd_thread (current_thread k) (\<lambda>r. r\<lparr>tstate := THREAD_READY\<rparr>) (wake_thread w t err k))"
      have "queues_ok {t} ?k"
        by (rule ready_at_head[OF l]) (use ne c True ok in \<open>auto simp: unqueued_def queues_ok_def threads_ok_def\<close>)
      then have "queues_ok {} (insert_in_run_queue_head t ?k)"
        by (rule queues_ok_insert_head) (use w ne in \<open>auto simp: upd_thread_def\<close>)
      moreover have "k' = insert_in_run_queue_head t ?k" "n = 1"
        using r Cons True by (simp_all add: wait_queue_wake_one_def Let_def)
      ultimately show ?thesis using True ne by (simp add: upd_thread_def)
    next
      case False
      then have "k' = insert_in_run_queue_head t (wake_thread w t err k)"
        using r Cons by (simp add: wait_queue_wake_one_def Let_def)
      then show ?thesis using False ne queues_ok_wake_thread[OF ok t] by simp
    qed
  qed
  then show "queues_ok {} k'" "tstate (cur k') = (if reschedule \<and> n > 0 then THREAD_READY else tstate (cur k))"
    by auto
qed

lemma wake_all_loop_ok:
  assumes "queues_ok {} k" "tstate (cur k) \<noteq> THREAD_BLOCKED" "wake_all_loop fuel w err k n = (k', m)"
  shows "queues_ok {} k' \<and> current_thread k' = current_thread k \<and> thread_list k' = thread_list k \<and>
    tstate (cur k') = tstate (cur k) \<and> n \<le> m \<and> (wlist (wait_queues k w) = [] \<longrightarrow> k' = k \<and> m = n) \<and>
    (wlist (wait_queues k w) \<noteq> [] \<and> fuel > 0 \<longrightarrow> n < m)"
  using assms
proof (induction fuel arbitrary: k n)
  case 0 then show ?case by simp
next
  case (Suc fuel)
  show ?case
  proof (cases "wlist (wait_queues k w)")
    case Nil then show ?thesis using Suc.prems by simp
  next
    case (Cons t ts)
    let ?k = "insert_in_run_queue_head t (wake_thread w t err k)"
    have t: "t \<in> set (wlist (wait_queues k w))" using Cons by simp
    have ok: "queues_ok {} ?k" by (rule queues_ok_wake_thread[OF Suc.prems(1) t])
    have ne: "t \<noteq> current_thread k" using queues_ok_waiting(3)[OF Suc.prems(1) t] Suc.prems(2) by auto
    have "tstate (cur ?k) = tstate (cur k)" using ne by simp
    then show ?thesis
      using Suc.IH[OF ok, of "n + 1"] Suc.prems Cons by auto
  qed
qed

lemma wake_all_ok:
  assumes ok: "queues_ok {} k" and c: "reschedule \<Longrightarrow> tstate (cur k) = THREAD_RUNNING"
    and b: "tstate (cur k) \<noteq> THREAD_BLOCKED"
    and r: "wait_queue_wake_all w reschedule err k = (k', n)"
  shows "queues_ok {} k'" "current_thread k' = current_thread k" "thread_list k' = thread_list k"
    "tstate (cur k') = (if reschedule \<and> n > 0 then THREAD_READY else tstate (cur k))"
proof -
  let ?go = "reschedule \<and> wcount (wait_queues k w) > 0"
  let ?k = "if ?go then insert_in_run_queue_head (current_thread k)
      (upd_thread (current_thread k) (\<lambda>r. r\<lparr>tstate := THREAD_READY\<rparr>) k) else k"
  have k: "wake_all_loop (length (wlist (wait_queues ?k w))) w err ?k 0 = (k', n)"
    using r by (simp add: wait_queue_wake_all_def Let_def)
  have ok1: "queues_ok {} ?k"
  proof (cases ?go)
    case True
    have "queues_ok {} (insert_in_run_queue_head (current_thread k)
        (upd_thread (current_thread k) (\<lambda>r. r\<lparr>tstate := THREAD_READY\<rparr>) k))"
      by (rule ready_at_head[OF ok]) (use c True ok in \<open>simp_all add: unqueued_def queues_ok_def threads_ok_def\<close>)
    then show ?thesis using True by simp
  qed (use ok in \<open>simp only: if_False\<close>)
  have same: "wait_queues ?k = wait_queues k" "current_thread ?k = current_thread k" "thread_list ?k = thread_list k"
    by simp_all
  have st: "tstate (cur ?k) = (if ?go then THREAD_READY else tstate (cur k))" by (simp add: upd_thread_def)
  then have b1: "tstate (cur ?k) \<noteq> THREAD_BLOCKED" using b by simp
  have cnt: "wcount (wait_queues k w) = int (length (wlist (wait_queues k w)))"
    using ok by (simp add: queues_ok_def wait_queues_ok_def)
  note l = wake_all_loop_ok[OF ok1 b1 k]
  show "queues_ok {} k'" "current_thread k' = current_thread k" "thread_list k' = thread_list k"
    using l same by presburger+
  have "n > 0 \<longleftrightarrow> wcount (wait_queues k w) > 0"
    using l same(1) cnt by (cases "wlist (wait_queues k w)") auto
  moreover have "tstate (cur k') = tstate (cur ?k)" using l by blast
  ultimately show "tstate (cur k') = (if reschedule \<and> n > 0 then THREAD_READY else tstate (cur k))"
    using st by presburger
qed

lemma finish_wake_ok:
  assumes "queues_ok {} k1" "tstate (cur k1) = (if reschedule \<and> n > 0 then THREAD_READY else THREAD_RUNNING)"
    "finish_wake reschedule fs (k1, n) = Some k'"
  shows "kernel_ok k'"
proof (cases "reschedule \<and> n > 0")
  case True then show ?thesis using assms by (auto simp: finish_wake_def intro: resched_ok)
next
  case False
  then have "kernel_ok k1" using assms(1,2) by (simp add: kernel_ok_def)
  then show ?thesis using assms(3) False by (auto simp: finish_wake_def intro: run_frame_list_ok split: if_splits)
qed

section \<open>Wait queues\<close>

lemma thread_block_ok:
  assumes "queues_ok {} k" "tstate (cur k) \<noteq> THREAD_RUNNING" "thread_block fs k = Some k'"
  shows "kernel_ok k'"
  by (rule resched_ok[OF _ _ assms(3)[unfolded thread_block_def]]) (use assms(1,2) in simp_all)

lemma wait_timer_ok:
  assumes "(if b then do { ka \<leftarrow> timer_initialize tm k; timer_set_oneshot tm d h a ka } else Some k) = Some k'"
  shows "(queues_ok X k' \<longleftrightarrow> queues_ok X k) \<and> threads k' = threads k \<and> current_thread k' = current_thread k"
proof (cases b)
  case True
  then obtain ka where ka: "timer_initialize tm k = Some ka" "timer_set_oneshot tm d h a ka = Some k'"
    using assms by (auto split: bind_splits)
  show ?thesis
    using timer_fields(1)[OF ka(1)] timer_fields(2)[OF ka(2)] timer_initialize_ok[OF ka(1)] timer_set_oneshot_ok[OF ka(2)]
    by simp
qed (use assms in simp)

lemma wait_queue_block_ok:
  assumes ok: "kernel_ok k" and r: "wait_queue_block fs w timeout k = Some k'"
  shows "kernel_ok k'"
proof (cases "timeout = 0")
  case True
  then show ?thesis using assms by (auto simp: wait_queue_block_def intro: run_frame_list_ok)
next
  case False
  let ?c = "current_thread k"
  let ?k2 = "upd_thread ?c (\<lambda>t. t\<lparr>tstate := THREAD_BLOCKED, blocking_wait_queue := w, wait_queue_block_ret := NO_ERROR\<rparr>)
    (upd_wq w (\<lambda>q. q\<lparr>wlist := wlist q @ [?c], wcount := wcount q + 1\<rparr>) k)"
  note kok = kernel_okD[OF ok]
  have k2: "queues_ok {} ?k2" by (rule queues_ok_block) (use kok in simp_all)
  have st: "tstate (threads ?k2 ?c) = THREAD_BLOCKED" by (simp add: upd_thread_def)
  obtain k3 where k3: "thread_block (Wait_queue_block timeout # fs) k3 = Some k'"
    and t: "(if timeout \<noteq> INFINITE_TIME then
           do { ka \<leftarrow> timer_initialize (stack_timer ?k2 ?c) ?k2;
                timer_set_oneshot (stack_timer ?k2 ?c) timeout Wait_queue_timeout_handler ?c ka }
         else Some ?k2) = Some k3"
    using r False by (auto simp: wait_queue_block_def Let_def split: bind_splits if_splits)
  have "queues_ok {} k3" "threads k3 = threads ?k2" "current_thread k3 = ?c"
    using wait_timer_ok[OF t, of "{}"] k2 by (simp_all add: upd_wq_def)
  then show ?thesis using st by (intro thread_block_ok[OF _ _ k3]) simp_all
qed

lemma kernel_ok_wake_all:
  assumes "kernel_ok k" "finish_wake reschedule fs (wait_queue_wake_all w reschedule err k) = Some k'"
  shows "kernel_ok k'"
proof -
  obtain k1 n where r: "wait_queue_wake_all w reschedule err k = (k1, n)" by fastforce
  have "tstate (cur k) \<noteq> THREAD_BLOCKED" using kernel_okD(4)[OF assms(1)] by simp
  then show ?thesis
    using wake_all_ok(1,4)[OF kernel_okD(1)[OF assms(1)] kernel_okD(4)[OF assms(1)] _ r] kernel_okD(4)[OF assms(1)]
      assms(2) r by (auto intro: finish_wake_ok)
qed

lemma kernel_ok_wake_one:
  assumes "kernel_ok k" "wait_queue_wake_one w reschedule err k = (k1, n)"
  shows "queues_ok {} k1" "tstate (cur k1) = (if reschedule \<and> n > 0 then THREAD_READY else THREAD_RUNNING)"
    "n \<le> 0 \<Longrightarrow> k1 = k"
proof -
  have b: "tstate (cur k) \<noteq> THREAD_BLOCKED" using kernel_okD(4)[OF assms(1)] by simp
  show "queues_ok {} k1" "tstate (cur k1) = (if reschedule \<and> n > 0 then THREAD_READY else THREAD_RUNNING)"
    using wake_one_ok(1,4)[OF kernel_okD(1)[OF assms(1)] kernel_okD(4)[OF assms(1)] b assms(2)] kernel_okD(4)[OF assms(1)]
    by auto
  show "n \<le> 0 \<Longrightarrow> k1 = k" using assms(2) by (auto simp: wait_queue_wake_one_def Let_def split: list.splits)
qed

lemma wait_queue_destroy_ok:
  "kernel_ok k \<Longrightarrow> wait_queue_destroy fs w r k = Some k' \<Longrightarrow> kernel_ok k'"
  unfolding wait_queue_destroy_def by (rule kernel_ok_wake_all)

lemma queue_delete_waiting:
  assumes ok: "queues_ok {} k" and t: "t \<in> set (thread_list k)" "tstate (threads k t) = THREAD_BLOCKED"
  shows "upd_wq (blocking_wait_queue (threads k t)) (\<lambda>q. q\<lparr>wcount := wcount q - 1\<rparr>) (queue_delete t k) =
    upd_wq (blocking_wait_queue (threads k t)) (\<lambda>q. q\<lparr>wlist := remove1 t (wlist q), wcount := wcount q - 1\<rparr>) k"
proof -
  let ?w = "blocking_wait_queue (threads k t)"
  have "t \<notin> set (run_queue k p)" for p using ok t by (auto simp: queues_ok_def run_queues_ok_def)
  then have rq: "(\<lambda>p. remove1 t (run_queue k p)) = run_queue k" by (auto simp: remove1_idem)
  have "t \<notin> set (wlist (wait_queues k w))" if "w \<noteq> ?w" for w
    using ok that by (auto simp: queues_ok_def wait_queues_ok_def)
  then have "(\<lambda>w. (wait_queues k w)\<lparr>wlist := remove1 t (wlist (wait_queues k w))\<rparr>) =
      (wait_queues k)(?w := (wait_queues k ?w)\<lparr>wlist := remove1 t (wlist (wait_queues k ?w))\<rparr>)"
    by (auto simp: remove1_idem fun_eq_iff)
  then show ?thesis using rq by (simp add: queue_delete_def upd_wq_def)
qed

lemma unblock_thread_ok:
  assumes ok: "queues_ok {} k" and t: "t \<in> set (thread_list k)" and u: "unblock_thread t err k = (k', r)"
  shows "queues_ok {} k'" "current_thread k' = current_thread k" "thread_list k' = thread_list k"
    "\<And>v. tstate (threads k' v) = (if v = t \<and> r = NO_ERROR then THREAD_READY else tstate (threads k v))"
    "r = (if tstate (threads k t) = THREAD_BLOCKED then NO_ERROR else ERR_NOT_BLOCKED)"
    "timer_queue k' = timer_queue k \<and> timers k' = timers k \<and> stack_timer k' = stack_timer k"
    "\<And>v. frames (threads k' v) = frames (threads k v)"
proof -
  let ?k = "enter_critical_section k"
  have blocked: "queues_ok {} k' \<and> current_thread k' = current_thread k \<and> thread_list k' = thread_list k \<and>
      (\<forall>v. tstate (threads k' v) = (if v = t \<and> r = NO_ERROR then THREAD_READY else tstate (threads k v))) \<and> r = NO_ERROR \<and>
      (timer_queue k' = timer_queue k \<and> timers k' = timers k \<and> stack_timer k' = stack_timer k) \<and>
      (\<forall>v. frames (threads k' v) = frames (threads k v))"
    if b: "tstate (threads k t) = THREAD_BLOCKED"
  proof -
    let ?w = "blocking_wait_queue (threads k t)"
    let ?k1 = "upd_wq ?w (\<lambda>q. q\<lparr>wlist := remove1 t (wlist q), wcount := wcount q - 1\<rparr>) ?k"
    let ?f = "\<lambda>r. r\<lparr>blocking_wait_queue := 0, tstate := THREAD_READY, wait_queue_block_ret := err\<rparr>"
    have eq: "upd_wq ?w (\<lambda>q. q\<lparr>wcount := wcount q - 1\<rparr>) (queue_delete t ?k) = ?k1"
      using queue_delete_waiting[of ?k t] ok t b by simp
    have "threads (queue_delete t ?k) = threads k" by (simp add: queue_delete_def)
    then have k': "k' = insert_in_run_queue_head t (upd_thread t ?f ?k1)" "r = NO_ERROR"
      using u b eq by (simp_all add: unblock_thread_def Let_def)
    have "t \<in> set (wlist (wait_queues ?k ?w))" using ok t b by (simp add: queues_ok_def wait_queues_ok_def)
    then have "queues_ok {t} (upd_thread t ?f ?k1)" using ok by (intro queues_ok_off_wait_queue) simp_all
    then have "queues_ok {} k'" unfolding k' by (rule queues_ok_insert_head) (use t in \<open>auto simp: upd_defs\<close>)
    then show ?thesis using k' by (auto simp: upd_defs)
  qed
  have other: "k' = ?k \<and> r = ERR_NOT_BLOCKED" if "tstate (threads k t) \<noteq> THREAD_BLOCKED"
    using u that by (simp add: unblock_thread_def Let_def)
  show "queues_ok {} k'" "current_thread k' = current_thread k" "thread_list k' = thread_list k"
    "\<And>v. tstate (threads k' v) = (if v = t \<and> r = NO_ERROR then THREAD_READY else tstate (threads k v))"
    "r = (if tstate (threads k t) = THREAD_BLOCKED then NO_ERROR else ERR_NOT_BLOCKED)"
    "timer_queue k' = timer_queue k \<and> timers k' = timers k \<and> stack_timer k' = stack_timer k"
    "\<And>v. frames (threads k' v) = frames (threads k v)"
    using blocked other ok by (cases "tstate (threads k t) = THREAD_BLOCKED"; simp)+
qed

lemma thread_unblock_ok:
  assumes ok: "kernel_ok k" and t: "t \<in> set (thread_list k)"
    and u: "thread_unblock_from_wait_queue t False err k = Some k'"
  shows "kernel_ok k'"
proof -
  obtain k1 r where k1: "unblock_thread t err k = (k1, r)" by fastforce
  note uo = unblock_thread_ok[OF kernel_okD(1)[OF ok] t k1]
  have "t = current_thread k \<Longrightarrow> r = ERR_NOT_BLOCKED" using uo(5) kernel_okD(4)[OF ok] by auto
  then have "kernel_ok k1" using uo(1,2,4) kernel_okD(4)[OF ok] by (auto simp: kernel_ok_def)
  then show ?thesis using u k1 by (auto simp: thread_unblock_from_wait_queue_def split: if_splits)
qed

section \<open>Events\<close>

lemma kernel_ok_wait_queue_init:
  assumes ok: "kernel_ok k" and e: "wlist (wait_queues k w) = []"
  shows "kernel_ok (wait_queue_init w k)"
proof -
  let ?k = "wait_queue_init w k"
  have l: "wlist (wait_queues ?k v) = wlist (wait_queues k v)" for v
    using e by (simp add: wait_queue_init_def upd_wq_def)
  have c: "wcount (wait_queues ?k v) = (if v = w then 0 else wcount (wait_queues k v))" for v
    by (simp add: wait_queue_init_def upd_wq_def)
  have f: "threads ?k = threads k" "thread_list ?k = thread_list k" "current_thread ?k = current_thread k"
    "run_queue ?k = run_queue k" "run_queue_bitmap ?k = run_queue_bitmap k"
    by (simp_all add: wait_queue_init_def upd_wq_def)
  have "wait_queues_ok {} ?k"
    using kernel_okD(1)[OF ok] e unfolding queues_ok_def wait_queues_ok_def l c f by auto
  then show ?thesis using ok unfolding kernel_ok_def queues_ok_def run_queues_ok_def bitmap_ok_def threads_ok_def f
    by blast
qed

lemma event_init_ok:
  "kernel_ok k \<Longrightarrow> wlist (wait_queues k (event_wait_queue e)) = [] \<Longrightarrow> kernel_ok (event_init e initial flags k)"
  unfolding event_init_def by (rule kernel_ok_wait_queue_init) (simp, simp add: upd_event_def)

lemma event_destroy_ok: "kernel_ok k \<Longrightarrow> event_destroy e k = Some k' \<Longrightarrow> kernel_ok k'"
  unfolding event_destroy_def Let_def by (erule wait_queue_destroy_ok[rotated]) simp

lemma event_wait_timeout_ok: "kernel_ok k \<Longrightarrow> event_wait_timeout e timeout k = Some k' \<Longrightarrow> kernel_ok k'"
  by (auto simp: event_wait_timeout_def Let_def kernel_ok_set_ret intro: wait_queue_block_ok[rotated] split: if_splits)

lemma event_signal_ok:
  assumes ok: "kernel_ok k" and s: "event_signal fs e reschedule k = Some k'"
  shows "kernel_ok k'"
proof -
  let ?k = "enter_critical_section k" and ?rest = "[Exit_critical_section, Return NO_ERROR] @ fs"
  obtain k1 n where w: "wait_queue_wake_one (event_wait_queue e) reschedule NO_ERROR ?k = (k1, n)" by fastforce
  have ok1: "kernel_ok ?k" using ok by simp
  note w1 = kernel_ok_wake_one[OF ok1 w]
  consider (auto_none) "n \<le> 0" "run_frame_list ?rest (upd_event e (\<lambda>x. x\<lparr>signalled := True\<rparr>) k1) = Some k'"
    | (auto_one) "finish_wake reschedule ?rest (k1, n) = Some k'"
    | (everyone) "finish_wake reschedule ?rest (wait_queue_wake_all (event_wait_queue e) reschedule NO_ERROR
          (upd_event e (\<lambda>x. x\<lparr>signalled := True\<rparr>) ?k)) = Some k'"
    | (already) "run_frame_list ?rest ?k = Some k'"
    using s w by (auto simp: event_signal_def Let_def split: if_splits)
  then show ?thesis
  proof cases
    case auto_none
    then have "kernel_ok (upd_event e (\<lambda>x. x\<lparr>signalled := True\<rparr>) k1)" using w1(3) ok1 by simp
    then show ?thesis using auto_none(2) run_frame_list_ok by blast
  next
    case auto_one show ?thesis by (rule finish_wake_ok[OF w1(1,2) auto_one])
  next
    case everyone show ?thesis by (rule kernel_ok_wake_all[OF _ everyone]) (simp add: ok)
  next
    case already then show ?thesis using run_frame_list_ok[OF ok1] by blast
  qed
qed

lemma event_unsignal_ok: "kernel_ok k \<Longrightarrow> kernel_ok (event_unsignal e k)"
  by (simp add: event_unsignal_def kernel_ok_set_ret)

section \<open>Mutexes\<close>

lemma mutex_init_ok:
  "kernel_ok k \<Longrightarrow> wlist (wait_queues k (mutex_wait_queue m)) = [] \<Longrightarrow> kernel_ok (mutex_init m k)"
  unfolding mutex_init_def by (rule kernel_ok_wait_queue_init) (simp, simp add: upd_mutex_def)

lemma mutex_destroy_ok: "kernel_ok k \<Longrightarrow> mutex_destroy m k = Some k' \<Longrightarrow> kernel_ok k'"
  unfolding mutex_destroy_def Let_def by (auto split: if_splits intro: wait_queue_destroy_ok[rotated])

lemma mutex_acquire_ok: "kernel_ok k \<Longrightarrow> mutex_acquire m k = Some k' \<Longrightarrow> kernel_ok k'"
  by (auto simp: mutex_acquire_def Let_def intro: wait_queue_block_ok[rotated] split: if_splits)

lemma mutex_acquire_timeout_ok: "kernel_ok k \<Longrightarrow> mutex_acquire_timeout m timeout k = Some k' \<Longrightarrow> kernel_ok k'"
  by (auto simp: mutex_acquire_timeout_def Let_def intro: wait_queue_block_ok[rotated] mutex_acquire_ok split: if_splits)

lemma mutex_release_ok:
  assumes ok: "kernel_ok k" and r: "mutex_release m k = Some k'"
  shows "kernel_ok k'"
proof -
  let ?k = "upd_mutex m (\<lambda>x. x\<lparr>holder := 0, mcount := mcount x - 1\<rparr>) (enter_critical_section k)"
  obtain k1 n where w: "wait_queue_wake_one (mutex_wait_queue m) True NO_ERROR ?k = (k1, n)" by fastforce
  have ok1: "kernel_ok ?k" using ok by simp
  note w1 = kernel_ok_wake_one[OF ok1 w]
  show ?thesis
    using r w finish_wake_ok[OF w1(1,2)] ok1
    by (auto simp: mutex_release_def Let_def kernel_ok_set_ret split: if_splits)
qed

section \<open>Threads\<close>

lemma thread_set_priority_ok:
  assumes ok: "kernel_ok k"
  shows "kernel_ok (thread_set_priority p k)"
proof -
  let ?k = "thread_set_priority p k"
  have f: "run_queue ?k = run_queue k" "run_queue_bitmap ?k = run_queue_bitmap k" "wait_queues ?k = wait_queues k"
    "thread_list ?k = thread_list k" "current_thread ?k = current_thread k"
    by (simp_all add: thread_set_priority_def Let_def)
  have st: "tstate (threads ?k u) = tstate (threads k u)"
    and b: "blocking_wait_queue (threads ?k u) = blocking_wait_queue (threads k u)"
    and pr: "u \<noteq> current_thread k \<Longrightarrow> priority (threads ?k u) = priority (threads k u)"
    and range: "0 \<le> priority (cur ?k) \<and> priority (cur ?k) < NUM_PRIORITIES" for u
    by (auto simp: thread_set_priority_def Let_def upd_thread_def prio_defs)
  have "run_queues_ok {} ?k"
  proof (rule run_queues_ok_transfer[of "{}" k])
    show "priority (threads ?k u) = priority (threads k u)" if "u \<notin> {} \<and> tstate (threads ?k u) = THREAD_READY" for u
      using that st pr kernel_okD(4)[OF ok] by (metis thread_state.distinct)
  qed (use kernel_okD(1)[OF ok] f st in \<open>simp_all add: queues_ok_def\<close>)
  moreover have "wait_queues_ok {} ?k"
    by (rule wait_queues_ok_transfer[of "{}" k]) (use kernel_okD(1)[OF ok] f st b in \<open>simp_all add: queues_ok_def\<close>)
  moreover have "bitmap_ok ?k" using kernel_okD(1)[OF ok] f by (simp add: queues_ok_def bitmap_ok_def)
  moreover have "threads_ok {} ?k"
    using kernel_okD(1)[OF ok] range f unfolding queues_ok_def threads_ok_def by (metis st pr)
  ultimately show ?thesis using kernel_okD(4)[OF ok] f st by (simp add: kernel_ok_def queues_ok_def)
qed

lemma thread_set_name_ok: "kernel_ok k \<Longrightarrow> kernel_ok (thread_set_name n k)"
  unfolding thread_set_name_def by (rule kernel_ok_keeps_place) (simp_all add: keeps_place_def)

lemma thread_become_idle_ok: "kernel_ok k \<Longrightarrow> kernel_ok (thread_become_idle k)"
  by (simp add: thread_become_idle_def thread_set_priority_ok thread_set_name_ok Let_def)

lemma thread_resume_ok:
  assumes ok: "kernel_ok k" and t: "t \<in> set (thread_list k)" "tstate (threads k t) \<notin> {THREAD_BLOCKED, THREAD_DEATH}"
    and r: "thread_resume t k = Some k'"
  shows "kernel_ok k'"
proof (cases "tstate (threads k t) = THREAD_READY \<or> tstate (threads k t) = THREAD_RUNNING")
  case True
  then show ?thesis using r ok by (auto simp: thread_resume_def)
next
  case False
  let ?k = "insert_in_run_queue_head t (upd_thread t (\<lambda>r. r\<lparr>tstate := THREAD_READY\<rparr>) (enter_critical_section k))"
  have "queues_ok {} ?k"
    by (rule ready_at_head) (use kernel_okD[OF ok] t False in \<open>auto simp: unqueued_def\<close>)
  moreover have "t \<noteq> current_thread k" using False kernel_okD(4)[OF ok] by auto
  ultimately have "kernel_ok ?k"
    using kernel_okD(4)[OF ok] by (simp add: kernel_ok_def) (simp add: upd_thread_def)
  then show ?thesis
    using r False by (auto simp: thread_resume_def Let_def intro: thread_yield_ok)
qed

text \<open>A new thread: the struct at a free address is filled in, and then it is on the thread list.\<close>

lemma queues_ok_new_thread:
  assumes ok: "queues_ok {} k" and t: "t \<notin> set (thread_list k)"
    and r: "tstate r = THREAD_SUSPENDED" "0 \<le> priority r" "priority r < NUM_PRIORITIES"
  shows "queues_ok {} (k\<lparr>threads := (threads k)(t := r), thread_list := t # thread_list k\<rparr>)"
proof -
  let ?k = "k\<lparr>threads := (threads k)(t := r), thread_list := t # thread_list k\<rparr>"
  have st: "u \<in> set (thread_list ?k) \<and> u \<notin> {} \<and> tstate (threads ?k u) = s \<and> P (threads ?k u) \<longleftrightarrow>
      u \<in> set (thread_list k) \<and> u \<notin> {} \<and> tstate (threads k u) = s \<and> P (threads k u)"
    if "s \<noteq> THREAD_SUSPENDED" for u s P
    using t r that by (cases "u = t") auto
  have "run_queues_ok {} ?k" using ok st[of THREAD_READY _ "\<lambda>r. priority r = _"]
    by (simp add: queues_ok_def run_queues_ok_def)
  moreover have "wait_queues_ok {} ?k" using ok st[of THREAD_BLOCKED _ "\<lambda>r. blocking_wait_queue r = _"]
    by (simp add: queues_ok_def wait_queues_ok_def)
  moreover have "bitmap_ok ?k" using ok by (simp add: queues_ok_def bitmap_ok_def)
  moreover have "threads_ok {} ?k" using ok r t by (auto simp: queues_ok_def threads_ok_def)
  ultimately show ?thesis by (simp add: queues_ok_def)
qed

text \<open>The end of one: a dead thread is on no queue and comes off the thread list.\<close>

lemma queues_ok_drop_thread:
  assumes ok: "queues_ok {} k" and t: "tstate (threads k t) \<notin> {THREAD_READY, THREAD_BLOCKED}" "t \<noteq> current_thread k"
    and d: "distinct (thread_list k)"
  shows "queues_ok {} (k\<lparr>thread_list := remove1 t (thread_list k)\<rparr>)"
proof -
  let ?k = "k\<lparr>thread_list := remove1 t (thread_list k)\<rparr>"
  have st: "u \<in> set (thread_list ?k) \<and> u \<notin> {} \<and> tstate (threads k u) = s \<and> P u \<longleftrightarrow>
      u \<in> set (thread_list k) \<and> u \<notin> {} \<and> tstate (threads k u) = s \<and> P u"
    if "s \<in> {THREAD_READY, THREAD_BLOCKED}" for u s P
    using t(1) d that by (cases "u = t") auto
  have "run_queues_ok {} ?k" using ok st[of THREAD_READY _ "\<lambda>u. priority (threads k u) = _"]
    by (simp add: queues_ok_def run_queues_ok_def)
  moreover have "wait_queues_ok {} ?k" using ok st[of THREAD_BLOCKED _ "\<lambda>u. blocking_wait_queue (threads k u) = _"]
    by (simp add: queues_ok_def wait_queues_ok_def)
  moreover have "bitmap_ok ?k" using ok by (simp add: queues_ok_def bitmap_ok_def)
  moreover have "threads_ok {} ?k" using ok t d by (auto simp: queues_ok_def threads_ok_def)
  ultimately show ?thesis by (simp add: queues_ok_def)
qed

end
