(* ===== verification/Lk_Ktimers.thy ===== *)
theory Lk_Ktimers
  imports Lk_Kinv
begin

text \<open>
  The invariant of the timer queue. Every queued timer is the stack timer of the thread it is
  for; it either ends the sleep of a sleeping thread, or it limits a wait, and then the thread
  is still inside \<open>wait_queue_block\<close> and will cancel it. Every sleeping thread has its timer
  queued. \<open>timers_ok X\<close> leaves out what holds of the threads of \<open>X\<close>, whose stack is being
  unwound.
\<close>

section \<open>The invariant\<close>

definition waits_on_timer :: "frame list \<Rightarrow> bool" where
  "waits_on_timer fs \<longleftrightarrow> (\<exists>timeout. timeout \<noteq> INFINITE_TIME \<and> Wait_queue_block timeout \<in> set fs)"

definition timer_of :: "kernel \<Rightarrow> ptr \<Rightarrow> bool" where
  "timer_of k tm \<longleftrightarrow> timer_arg (timers k tm) \<in> set (thread_list k) \<and> tm = stack_timer k (timer_arg (timers k tm))"

definition timer_due_for :: "kernel \<Rightarrow> ptr \<Rightarrow> bool" where
  "timer_due_for k tm \<longleftrightarrow> (let a = timer_arg (timers k tm) in
     callback (timers k tm) = Thread_sleep_handler \<and> tstate (threads k a) = THREAD_SLEEPING \<or>
     callback (timers k tm) = Wait_queue_timeout_handler \<and> waits_on_timer (frames (threads k a)))"

definition timers_ok :: "ptr set \<Rightarrow> kernel \<Rightarrow> bool" where
  "timers_ok X k \<longleftrightarrow> distinct (timer_queue k) \<and> inj (stack_timer k) \<and>
    sorted_wrt (\<lambda>a b. scheduled_time (timers k a) \<le> scheduled_time (timers k b)) (timer_queue k) \<and>
    (\<forall>tm \<in> set (timer_queue k). timer_of k tm \<and> (timer_arg (timers k tm) \<notin> X \<longrightarrow> timer_due_for k tm)) \<and>
    (\<forall>t \<in> set (thread_list k). tstate (threads k t) = THREAD_SLEEPING \<longrightarrow>
       stack_timer k t \<in> set (timer_queue k) \<and> timer_arg (timers k (stack_timer k t)) = t \<and>
       callback (timers k (stack_timer k t)) = Thread_sleep_handler)"

lemmas timers_ok_defs = timers_ok_def timer_of_def timer_due_for_def Let_def

section \<open>Steps that leave the timers alone\<close>

definition same_timing :: "kernel \<Rightarrow> kernel \<Rightarrow> bool" where
  "same_timing k k' \<longleftrightarrow> timer_queue k' = timer_queue k \<and> timers k' = timers k \<and> stack_timer k' = stack_timer k \<and>
    thread_list k' = thread_list k \<and>
    (\<forall>u. (tstate (threads k' u) = THREAD_SLEEPING \<longleftrightarrow> tstate (threads k u) = THREAD_SLEEPING)
       \<and> frames (threads k' u) = frames (threads k u))"

lemma same_timing_refl [simp]: "same_timing k k"
  by (simp add: same_timing_def)

lemma same_timing_trans: "same_timing k k1 \<Longrightarrow> same_timing k1 k2 \<Longrightarrow> same_timing k k2"
  by (simp add: same_timing_def)

lemma timers_ok_same_timing: "same_timing k k' \<Longrightarrow> timers_ok X k' \<longleftrightarrow> timers_ok X k"
  by (simp add: same_timing_def timers_ok_defs)

lemma same_timing_simps [simp]:
  "same_timing k (enter_critical_section k)" "same_timing k (exit_critical_section k)"
  "same_timing k (inc_critical_section k)" "same_timing k (dec_critical_section k)"
  "same_timing k (upd_wq w q k)" "same_timing k (upd_event e h k)" "same_timing k (upd_mutex m g k)"
  "same_timing k (k\<lparr>ints_enabled := b\<rparr>)" "same_timing k (k\<lparr>kheap := hp\<rparr>)" "same_timing k (k\<lparr>dpc_list := d\<rparr>)"
  "same_timing k (k\<lparr>dpcs := ds\<rparr>)" "same_timing k (k\<lparr>clock := n\<rparr>)" "same_timing k (k\<lparr>idle_thread := i\<rparr>)"
  "same_timing k (insert_in_run_queue_head t k)" "same_timing k (insert_in_run_queue_tail t k)"
  "same_timing k (set_ret r k)" "same_timing k (queue_delete t k)"
  by (simp_all add: same_timing_def upd_defs enter_critical_section_def exit_critical_section_def set_ret_def
      inc_critical_section_def dec_critical_section_def insert_in_run_queue_head_def insert_in_run_queue_tail_def
      queue_delete_def Let_def)

lemma same_timing_upd_thread:
  assumes "tstate (f (threads k t)) = THREAD_SLEEPING \<longleftrightarrow> tstate (threads k t) = THREAD_SLEEPING"
    and "frames (f (threads k t)) = frames (threads k t)"
  shows "same_timing k (upd_thread t f k)"
  using assms by (simp add: same_timing_def upd_thread_def)

lemma timers_ok_cong [simp]:
  "timers_ok X (enter_critical_section k) \<longleftrightarrow> timers_ok X k" "timers_ok X (exit_critical_section k) \<longleftrightarrow> timers_ok X k"
  "timers_ok X (inc_critical_section k) \<longleftrightarrow> timers_ok X k" "timers_ok X (dec_critical_section k) \<longleftrightarrow> timers_ok X k"
  "timers_ok X (upd_wq w q k) \<longleftrightarrow> timers_ok X k" "timers_ok X (upd_event e h k) \<longleftrightarrow> timers_ok X k"
  "timers_ok X (upd_mutex m g k) \<longleftrightarrow> timers_ok X k" "timers_ok X (k\<lparr>ints_enabled := b\<rparr>) \<longleftrightarrow> timers_ok X k"
  "timers_ok X (k\<lparr>clock := n\<rparr>) \<longleftrightarrow> timers_ok X k" "timers_ok X (set_ret r k) \<longleftrightarrow> timers_ok X k"
  "timers_ok X (insert_in_run_queue_head t k) \<longleftrightarrow> timers_ok X k"
  "timers_ok X (k\<lparr>kheap := hp\<rparr>) \<longleftrightarrow> timers_ok X k"
  by (rule timers_ok_same_timing, simp)+

lemma thread_resched_same_timing:
  assumes "thread_resched k = Some k'" "tstate (threads k (current_thread k')) = THREAD_READY"
  shows "same_timing k k'"
  by (rule thread_resched_fields[OF assms(1)]) (use assms(2) in \<open>auto simp: same_timing_def same_rest_def\<close>)

section \<open>Unwinding the stack of the thread that runs again\<close>

text \<open>Cancelling the stack timer of a thread that does not sleep.\<close>

lemma sorted_wrt_remove1: "sorted_wrt P xs \<Longrightarrow> sorted_wrt P (remove1 x xs)"
  by (induction xs) (auto dest: set_remove1_subset[THEN subsetD])

lemma timer_cancel_fields:
  "timer_queue (timer_cancel t k) = remove1 t (timer_queue k)" "timers (timer_cancel t k) = timers k"
  "threads (timer_cancel t k) = threads k" "thread_list (timer_cancel t k) = thread_list k"
  "stack_timer (timer_cancel t k) = stack_timer k" "current_thread (timer_cancel t k) = current_thread k"
  by (simp_all add: timer_cancel_def Let_def remove1_idem)

lemma timer_cancel_timers:
  assumes ok: "timers_ok (insert n X) k" and s: "tstate (threads k n) \<noteq> THREAD_SLEEPING"
  shows "timers_ok X (timer_cancel (stack_timer k n) k)"
proof -
  have inj: "stack_timer k a = stack_timer k b \<longleftrightarrow> a = b" for a b
    using ok by (auto simp: timers_ok_def inj_eq)
  let ?q = "remove1 (stack_timer k n) (timer_queue k)"
  have q: "tm \<in> set ?q \<longleftrightarrow> tm \<in> set (timer_queue k) \<and> tm \<noteq> stack_timer k n" for tm
    using ok by (simp add: timers_ok_def)
  have "timer_arg (timers k tm) \<noteq> n" if "tm \<in> set ?q" for tm
    using that ok q by (auto simp: timers_ok_def timer_of_def)
  moreover have "stack_timer k t \<in> set ?q" if "t \<in> set (thread_list k)" "tstate (threads k t) = THREAD_SLEEPING" for t
    using that ok s q inj by (auto simp: timers_ok_def)
  ultimately show ?thesis
    using ok q unfolding timers_ok_def timer_of_def timer_due_for_def timer_cancel_fields
    by (simp add: sorted_wrt_remove1)
qed

lemma run_frame_timers:
  assumes ok: "timers_ok X k" and r: "run_frame f k = Some k'" and s: "tstate (cur k) \<noteq> THREAD_SLEEPING"
  shows "timers_ok X k'"
proof -
  have "timers_ok (insert (current_thread k) X) k" using ok by (auto simp: timers_ok_def)
  then have "timers_ok X (timer_cancel (stack_timer k (current_thread k)) k)" by (rule timer_cancel_timers[OF _ s])
  then show ?thesis using r ok by (cases f) (auto simp: Let_def dec_critical_section_def[symmetric])
qed

lemma run_frame_wait_timers:
  assumes ok: "timers_ok {current_thread k} k" and t: "timeout \<noteq> INFINITE_TIME"
    and r: "run_frame (Wait_queue_block timeout) k = Some k'" and s: "tstate (cur k) \<noteq> THREAD_SLEEPING"
  shows "timers_ok {} k'"
  using r t timer_cancel_timers[OF ok s] by (auto simp: Let_def)

lemma run_frame_frames:
  assumes "run_frame f k = Some k'"
  shows "frames (threads k' u) = frames (threads k u)"
  using assms by (cases f) (auto simp: Let_def set_ret_def upd_defs timer_cancel_fields dec_critical_section_def)

lemma run_frame_list_timers:
  assumes "if waits_on_timer fs then timers_ok {current_thread k} k else timers_ok {} k"
    and "run_frame_list fs k = Some k'" and "tstate (cur k) \<noteq> THREAD_SLEEPING"
  shows "timers_ok {} k' \<and> frames (cur k') = frames (cur k)"
  using assms
proof (induction fs arbitrary: k)
  case Nil then show ?case by (simp add: waits_on_timer_def)
next
  case (Cons f fs)
  obtain k1 where k1: "run_frame f k = Some k1" "run_frame_list fs k1 = Some k'"
    using Cons.prems(2) by (auto split: bind_splits)
  have same: "current_thread k1 = current_thread k" "tstate (cur k1) = tstate (cur k)"
    using run_frame_states[OF k1(1)] by (auto simp: same_states_def)
  have weak: "timers_ok {} k1 \<Longrightarrow> timers_ok {current_thread k1} k1" by (auto simp: timers_ok_def)
  have "if waits_on_timer fs then timers_ok {current_thread k1} k1 else timers_ok {} k1"
  proof (cases "\<exists>t. t \<noteq> INFINITE_TIME \<and> f = Wait_queue_block t \<and> waits_on_timer (f # fs)")
    case True
    then have "timers_ok {current_thread k} k" using Cons.prems(1) by (auto split: if_splits)
    then have "timers_ok {} k1" using run_frame_wait_timers k1(1) True Cons.prems(3) by blast
    then show ?thesis using weak by simp
  next
    case False
    then have w: "waits_on_timer (f # fs) \<longleftrightarrow> waits_on_timer fs" by (auto simp: waits_on_timer_def)
    show ?thesis using run_frame_timers[OF _ k1(1) Cons.prems(3)] Cons.prems(1) same(1) by (simp add: w split: if_splits)
  qed
  then show ?case using Cons.IH[OF _ k1(2)] same Cons.prems(3) run_frame_frames[OF k1(1)] by simp
qed

lemma run_frames_timers:
  assumes ok: "timers_ok {} k" and r: "run_frames k = Some k'" and s: "tstate (cur k) \<noteq> THREAD_SLEEPING"
  shows "timers_ok {} k' \<and> frames (cur k') = []"
proof -
  let ?c = "current_thread k" and ?fs = "frames (cur k)"
  let ?k = "upd_thread ?c (\<lambda>r. r\<lparr>frames := []\<rparr>) k"
  have same: "timer_queue ?k = timer_queue k" "timers ?k = timers k" "stack_timer ?k = stack_timer k"
    "tstate (threads ?k u) = tstate (threads k u)" "u \<noteq> ?c \<Longrightarrow> frames (threads ?k u) = frames (threads k u)" for u
    by (simp_all add: upd_thread_def)
  have "timers_ok {?c} ?k"
    using ok unfolding timers_ok_defs same upd_thread_same by (auto simp: same)
  moreover have "timers_ok {} ?k" if "\<not> waits_on_timer ?fs"
  proof -
    have "timer_arg (timers k tm) \<noteq> ?c" if "tm \<in> set (timer_queue k)" for tm
      using ok that s \<open>\<not> waits_on_timer ?fs\<close> by (auto simp: timers_ok_defs)
    then show ?thesis using ok unfolding timers_ok_defs same upd_thread_same by (auto simp: same)
  qed
  moreover have "current_thread ?k = ?c" "frames (cur ?k) = []" by (simp_all add: upd_thread_def)
  moreover have "run_frame_list ?fs ?k = Some k'" using r by (simp add: run_frames_def Let_def)
  ultimately show ?thesis
    using run_frame_list_timers[of ?fs ?k k'] s same(4) by (auto split: if_splits)
qed

text \<open>The state at a reschedule: \<open>fs\<close> is what the current thread has to do afterwards.\<close>

lemma resched_timers:
  assumes ok: "timers_ok {} (upd_thread (current_thread k) (\<lambda>t. t\<lparr>frames := fs\<rparr>) k)"
    and q: "queues_ok {} k" and r: "resched fs k = Some k'"
  shows "timers_ok {} k' \<and> frames (cur k') = []"
proof -
  let ?k = "upd_thread (current_thread k) (\<lambda>t. t\<lparr>frames := fs\<rparr>) k"
  obtain k1 where k1: "thread_resched ?k = Some k1" "run_frames k1 = Some k'"
    using r by (auto simp: resched_def split: bind_splits)
  have "queues_ok {} ?k" by (rule queues_ok_keeps_place[OF q]) (simp add: keeps_place_def)
  then have "tstate (threads ?k (current_thread k1)) = THREAD_READY"
  proof -
    assume okk: "queues_ok {} ?k"
    obtain n rest where "run_queue ?k (next_queue ?k) = n # rest" "current_thread k1 = n"
      by (rule thread_resched_fields[OF k1(1)]) blast
    then have "current_thread k1 \<in> set (run_queue ?k (next_queue ?k))" by simp
    then show ?thesis using okk unfolding queues_ok_def run_queues_ok_def by blast
  qed
  then have "same_timing ?k k1" by (rule thread_resched_same_timing[OF k1(1)])
  moreover have "tstate (cur k1) = THREAD_RUNNING" by (rule thread_resched_fields[OF k1(1)]) simp
  ultimately show ?thesis using run_frames_timers[OF _ k1(2)] ok timers_ok_same_timing by force
qed

lemma timers_ok_push_frames:
  assumes "timers_ok {} k" and "\<And>tm. tm \<in> set (timer_queue k) \<Longrightarrow> timer_arg (timers k tm) = c \<Longrightarrow>
      callback (timers k tm) = Wait_queue_timeout_handler \<Longrightarrow> waits_on_timer fs"
  shows "timers_ok {} (upd_thread c (\<lambda>t. t\<lparr>frames := fs\<rparr>) k)"
  using assms unfolding timers_ok_defs upd_thread_def by auto

lemma run_frame_list_states: "run_frame_list fs k = Some k' \<Longrightarrow> same_states k k'"
  by (induction fs arbitrary: k) (auto dest: run_frame_states same_states_trans split: bind_splits)

section \<open>The kernel's invariant\<close>

definition kernel_inv :: "kernel \<Rightarrow> bool" where
  "kernel_inv k \<longleftrightarrow> kernel_ok k \<and> timers_ok {} k \<and> frames (cur k) = [] \<and> distinct (thread_list k)"

lemma kernel_inv_no_timer:
  assumes "kernel_inv k" "tm \<in> set (timer_queue k)"
  shows "timer_arg (timers k tm) \<noteq> current_thread k"
  using assms by (auto simp: kernel_inv_def kernel_ok_def timers_ok_defs waits_on_timer_def)

text \<open>
  The common shape of the calls that may switch threads: some moves that leave the timers alone,
  and a reschedule.
\<close>

lemma resched_inv:
  assumes inv: "kernel_inv k" and st: "same_timing k k1" and c: "current_thread k1 = current_thread k"
    and q: "queues_ok {} k1" "tstate (cur k1) \<noteq> THREAD_RUNNING" and r: "resched fs k1 = Some k'"
  shows "timers_ok {} k' \<and> frames (cur k') = []"
proof (rule resched_timers[OF _ q(1) r])
  have "timers_ok {} k1" using inv st timers_ok_same_timing by (auto simp: kernel_inv_def)
  then show "timers_ok {} (upd_thread (current_thread k1) (\<lambda>t. t\<lparr>frames := fs\<rparr>) k1)"
    by (rule timers_ok_push_frames) (use kernel_inv_no_timer[OF inv] st c in \<open>auto simp: same_timing_def\<close>)
qed

lemma resched_thread_list:
  assumes "resched fs k = Some k'"
  shows "thread_list k' = thread_list k"
proof -
  obtain k1 where k1: "thread_resched (upd_thread (current_thread k) (\<lambda>t. t\<lparr>frames := fs\<rparr>) k) = Some k1"
    "run_frames k1 = Some k'"
    using assms by (auto simp: resched_def split: bind_splits)
  have "thread_list k1 = thread_list k"
    by (rule thread_resched_fields[OF k1(1)]) (simp add: same_rest_def)
  moreover have "thread_list k' = thread_list k1"
    using k1(2) unfolding run_frames_def Let_def
    by (auto dest!: run_frame_list_states simp: same_states_def)
  ultimately show ?thesis by simp
qed

lemma kernel_inv_resched:
  assumes "kernel_inv k" "same_timing k k1" "current_thread k1 = current_thread k"
    and "queues_ok {} k1" "tstate (cur k1) \<noteq> THREAD_RUNNING" "resched fs k1 = Some k'"
  shows "kernel_inv k'"
  using resched_inv[OF assms] resched_ok[OF assms(4-6)] resched_thread_list[OF assms(6)] assms(1,2)
  by (simp add: kernel_inv_def same_timing_def)

lemma kernel_inv_frames:
  assumes inv: "kernel_inv k" and st: "same_timing k k1" and c: "current_thread k1 = current_thread k"
    and ok: "kernel_ok k1" and r: "run_frame_list fs k1 = Some k'"
  shows "kernel_inv k'"
proof -
  have t: "timers_ok {} k1" "frames (cur k1) = []" "distinct (thread_list k1)"
    using inv st c timers_ok_same_timing by (auto simp: kernel_inv_def same_timing_def)
  then have "timers_ok {current_thread k1} k1" by (auto simp: timers_ok_def)
  then have "timers_ok {} k' \<and> frames (cur k') = []"
    using run_frame_list_timers[of fs k1 k'] t r kernel_okD(4)[OF ok] by simp
  then show ?thesis
    using run_frame_list_ok[OF ok r] run_frame_list_states[OF r] t(3) by (simp add: kernel_inv_def same_states_def)
qed

lemma kernel_inv_stay:
  assumes "kernel_inv k" "same_timing k k'" "current_thread k' = current_thread k" "kernel_ok k'"
  shows "kernel_inv k'"
  using kernel_inv_frames[OF assms, of "[]"] by simp

section \<open>Every kernel call keeps the invariant\<close>

lemma same_timing_iff: "same_timing k1 k2 \<Longrightarrow> same_timing k k2 \<longleftrightarrow> same_timing k k1"
  by (auto simp: same_timing_def)

lemma same_timing_steps [simp]:
  "same_timing k (enter_critical_section k1) \<longleftrightarrow> same_timing k k1"
  "same_timing k (exit_critical_section k1) \<longleftrightarrow> same_timing k k1"
  "same_timing k (upd_wq w q k1) \<longleftrightarrow> same_timing k k1"
  "same_timing k (upd_event e h k1) \<longleftrightarrow> same_timing k k1"
  "same_timing k (upd_mutex m g k1) \<longleftrightarrow> same_timing k k1"
  "same_timing k (insert_in_run_queue_head t k1) \<longleftrightarrow> same_timing k k1"
  "same_timing k (insert_in_run_queue_tail t k1) \<longleftrightarrow> same_timing k k1"
  "same_timing k (set_ret r k1) \<longleftrightarrow> same_timing k k1"
  "same_timing k (queue_delete t k1) \<longleftrightarrow> same_timing k k1"
  "same_timing k (k1\<lparr>kheap := hp\<rparr>) \<longleftrightarrow> same_timing k k1"
  "same_timing k (k1\<lparr>dpc_list := dl\<rparr>) \<longleftrightarrow> same_timing k k1"
  "same_timing k (k1\<lparr>dpcs := ds\<rparr>) \<longleftrightarrow> same_timing k k1"
  by (rule same_timing_iff, simp)+

lemma same_timing_thread:
  assumes "same_timing k k1" "tstate (threads k1 t) \<noteq> THREAD_SLEEPING" "tstate (f (threads k1 t)) \<noteq> THREAD_SLEEPING"
    and "frames (f (threads k1 t)) = frames (threads k1 t)"
  shows "same_timing k (upd_thread t f k1)"
  by (rule same_timing_trans[OF assms(1) same_timing_upd_thread]) (use assms in simp_all)

lemma kernel_inv_ok: "kernel_inv k \<Longrightarrow> kernel_ok k"
  by (simp add: kernel_inv_def)

lemmas kernel_invD = kernel_okD[OF kernel_inv_ok]

lemma queue_fields [simp]:
  "current_thread (set_ret r k) = current_thread k" "current_thread (upd_wq w q k) = current_thread k"
  "current_thread (upd_event e h k) = current_thread k" "current_thread (upd_mutex m g k) = current_thread k"
  "threads (upd_wq w q k) = threads k" "threads (upd_event e h k) = threads k" "threads (upd_mutex m g k) = threads k"
  "thread_list (upd_wq w q k) = thread_list k" "thread_list (upd_event e h k) = thread_list k"
  "thread_list (upd_mutex m g k) = thread_list k"
  "wait_queues (upd_event e h k) = wait_queues k" "wait_queues (upd_mutex m g k) = wait_queues k"
  by (simp_all add: set_ret_def upd_defs)

subsection \<open>Yield, preemption, resume\<close>

lemma thread_yield_inv:
  assumes inv: "kernel_inv k" and y: "thread_yield fs k = Some k'"
  shows "kernel_inv k'"
proof (rule kernel_inv_resched[OF inv])
  let ?k = "insert_in_run_queue_tail (current_thread k)
     (upd_thread (current_thread k) (\<lambda>t. t\<lparr>tstate := THREAD_READY, remaining_quantum := 0\<rparr>) (enter_critical_section k))"
  show "resched (Exit_critical_section # fs) ?k = Some k'" using y by (simp add: thread_yield_def Let_def)
  show "same_timing k ?k" by (simp, rule same_timing_thread) (use kernel_invD(4)[OF inv] in simp_all)
  show "queues_ok {} ?k" by (rule ready_at_tail) (use kernel_invD[OF inv] in \<open>simp_all add: unqueued_def\<close>)
qed (simp_all add: upd_thread_def)

lemma thread_preempt_inv:
  assumes inv: "kernel_inv k" and p: "thread_preempt fs k = Some k'"
  shows "kernel_inv k'"
proof -
  let ?k = "upd_thread (current_thread k) (\<lambda>t. t\<lparr>tstate := THREAD_READY\<rparr>) (enter_critical_section k)"
  let ?q = "if remaining_quantum (threads ?k (current_thread k)) > 0
    then insert_in_run_queue_head (current_thread k) ?k else insert_in_run_queue_tail (current_thread k) ?k"
  have st: "same_timing k ?k" by (rule same_timing_thread) (use kernel_invD(4)[OF inv] in simp_all)
  have q: "queues_ok {} (insert_in_run_queue_head (current_thread k) ?k)"
    "queues_ok {} (insert_in_run_queue_tail (current_thread k) ?k)"
    by (auto intro!: ready_at_head ready_at_tail simp: unqueued_def kernel_invD[OF inv])
  have r: "resched (Exit_critical_section # fs) ?q = Some k'" using p by (simp add: thread_preempt_def Let_def cong: if_cong)
  show ?thesis
    by (rule kernel_inv_resched[OF inv _ _ _ _ r])
       (use st q in \<open>simp_all add: if_split[of "queues_ok {}"]\<close>, simp_all add: upd_thread_def)
qed

lemma thread_resume_inv:
  assumes inv: "kernel_inv k" and t: "t \<in> set (thread_list k)" "tstate (threads k t) = THREAD_SUSPENDED"
    and r: "thread_resume t k = Some k'"
  shows "kernel_inv k'"
proof -
  let ?k = "insert_in_run_queue_head t (upd_thread t (\<lambda>r. r\<lparr>tstate := THREAD_READY\<rparr>) (enter_critical_section k))"
  have "queues_ok {} ?k" by (rule ready_at_head) (use kernel_invD[OF inv] t in \<open>simp_all add: unqueued_def\<close>)
  moreover have "t \<noteq> current_thread k" using t kernel_invD(4)[OF inv] by auto
  ultimately have "kernel_ok ?k"
    using kernel_invD(4)[OF inv] by (simp add: kernel_ok_def) (simp add: upd_thread_def)
  moreover have "same_timing k ?k" by (simp, rule same_timing_thread) (use t in simp_all)
  ultimately have "kernel_inv ?k" by (intro kernel_inv_stay[OF inv]) simp_all
  then show ?thesis using r t by (auto simp: thread_resume_def Let_def intro: thread_yield_inv)
qed

subsection \<open>Wait queues\<close>

lemma wake_thread_same_timing:
  assumes "queues_ok X k1" "t \<in> set (wlist (wait_queues k1 w))" "same_timing k k1"
  shows "same_timing k (wake_thread w t err k1)"
  unfolding wake_thread_def
  by (rule same_timing_thread) (use assms queues_ok_waiting(3)[OF assms(1,2)] in simp_all)

lemma wake_one_same_timing:
  assumes ok: "queues_ok {} k" and c: "reschedule \<Longrightarrow> tstate (cur k) = THREAD_RUNNING"
    and r: "wait_queue_wake_one w reschedule err k = (k', n)"
  shows "same_timing k k'"
proof (cases "wlist (wait_queues k w)")
  case Nil then show ?thesis using r by (simp add: wait_queue_wake_one_def)
next
  case (Cons t ts)
  then have t: "t \<in> set (wlist (wait_queues k w))" by simp
  let ?k = "wake_thread w t err k"
  have "same_timing k ?k" by (rule wake_thread_same_timing[OF ok t]) simp
  moreover have "same_timing k (upd_thread (current_thread k) (\<lambda>r. r\<lparr>tstate := THREAD_READY\<rparr>) ?k)" if reschedule
    by (rule same_timing_thread) (use \<open>same_timing k ?k\<close> c[OF that] in simp_all)
  ultimately show ?thesis using r Cons by (auto simp: wait_queue_wake_one_def Let_def split: if_splits)
qed

lemma wake_all_loop_same_timing:
  assumes "queues_ok {} k1" "same_timing k k1" "wake_all_loop fuel w err k1 n = (k', m)"
  shows "same_timing k k'"
  using assms
proof (induction fuel arbitrary: k1 n)
  case (Suc fuel)
  show ?case
  proof (cases "wlist (wait_queues k1 w)")
    case (Cons t ts)
    then have t: "t \<in> set (wlist (wait_queues k1 w))" by simp
    show ?thesis
      by (rule Suc.IH[OF queues_ok_wake_thread[OF Suc.prems(1) t]])
         (use wake_thread_same_timing[OF Suc.prems(1) t Suc.prems(2)] Suc.prems(3) Cons in auto)
  qed (use Suc.prems in simp)
qed simp

lemma wake_all_same_timing:
  assumes ok: "queues_ok {} k" and c: "reschedule \<Longrightarrow> tstate (cur k) = THREAD_RUNNING"
    and r: "wait_queue_wake_all w reschedule err k = (k', n)"
  shows "same_timing k k'"
proof -
  let ?c = "insert_in_run_queue_head (current_thread k) (upd_thread (current_thread k) (\<lambda>r. r\<lparr>tstate := THREAD_READY\<rparr>) k)"
  define k1 where "k1 = (if reschedule \<and> wcount (wait_queues k w) > 0 then ?c else k)"
  have "queues_ok {} ?c" if reschedule
    by (rule ready_at_head[OF ok]) (use c[OF that] ok in \<open>simp_all add: unqueued_def queues_ok_def threads_ok_def\<close>)
  then have "queues_ok {} k1" using ok by (simp add: k1_def)
  moreover have "same_timing k ?c" if reschedule by (simp, rule same_timing_thread) (use c[OF that] in simp_all)
  then have "same_timing k k1" by (simp add: k1_def)
  ultimately show ?thesis
    using wake_all_loop_same_timing r by (auto simp: wait_queue_wake_all_def Let_def k1_def)
qed

lemma finish_wake_inv:
  assumes inv: "kernel_inv k" and st: "same_timing k k1" and c: "current_thread k1 = current_thread k"
    and q: "queues_ok {} k1" "tstate (cur k1) = (if reschedule \<and> n > 0 then THREAD_READY else THREAD_RUNNING)"
    and r: "finish_wake reschedule fs (k1, n) = Some k'"
  shows "kernel_inv k'"
proof (cases "reschedule \<and> n > 0")
  case True
  then show ?thesis using r q by (intro kernel_inv_resched[OF inv st c q(1)]) (auto simp: finish_wake_def)
next
  case False
  then have "kernel_ok k1" using q by (simp add: kernel_ok_def)
  then show ?thesis using r False by (intro kernel_inv_frames[OF inv st c]) (auto simp: finish_wake_def)
qed

lemma wake_all_inv:
  assumes inv: "kernel_inv k" and st: "same_timing k k1" and c: "current_thread k1 = current_thread k" and ok: "kernel_ok k1"
    and r: "finish_wake reschedule fs (wait_queue_wake_all w reschedule err k1) = Some k'"
  shows "kernel_inv k'"
proof -
  note o = kernel_okD[OF ok]
  obtain k2 n where w: "wait_queue_wake_all w reschedule err k1 = (k2, n)" by fastforce
  have b: "tstate (cur k1) \<noteq> THREAD_BLOCKED" using o(4) by simp
  note wk = wake_all_ok[OF o(1) o(4) b w]
  show ?thesis
  proof (rule finish_wake_inv[OF inv])
    show "same_timing k k2" using same_timing_trans[OF st wake_all_same_timing[OF o(1,4) w]] .
    show "finish_wake reschedule fs (k2, n) = Some k'" using r w by simp
  qed (use wk c o(4) in simp_all)
qed

lemma wake_one_inv:
  assumes inv: "kernel_inv k" and st: "same_timing k k1" and c: "current_thread k1 = current_thread k" and ok: "kernel_ok k1"
    and w: "wait_queue_wake_one w reschedule err k1 = (k2, n)"
    and r: "finish_wake reschedule fs (k2, n) = Some k'"
  shows "kernel_inv k'"
proof -
  note o = kernel_okD[OF ok]
  have b: "tstate (cur k1) \<noteq> THREAD_BLOCKED" using o(4) by simp
  note wk = wake_one_ok[OF o(1) o(4) b w]
  show ?thesis
    by (rule finish_wake_inv[OF inv _ _ _ _ r])
       (use wk c o(4) same_timing_trans[OF st wake_one_same_timing[OF o(1,4) w]] in simp_all)
qed

subsection \<open>Setting a timer\<close>

lemma set_insert_before_later [simp]: "set (insert_before_later at t es) = insert t (set es)"
  by (induction es) auto

lemma distinct_insert_before_later: "t \<notin> set es \<Longrightarrow> distinct es \<Longrightarrow> distinct (insert_before_later at t es)"
  by (induction es) auto

lemma sorted_insert_before_later:
  assumes "sorted_wrt (\<lambda>a b. at a \<le> at b) es"
  shows "sorted_wrt (\<lambda>a b. at a \<le> at b) (insert_before_later at t es)"
  using assms by (induction es) (auto intro: order_trans less_imp_le)

text \<open>Its place: after all that are due at the same time or before.\<close>

lemma insert_before_later_split:
  assumes "sorted_wrt (\<lambda>a b. at a \<le> at b) es"
  shows "insert_before_later at t es = filter (\<lambda>e. at e \<le> at t) es @ t # filter (\<lambda>e. at t < at e) es"
  using assms
proof (induction es)
  case (Cons e es)
  show ?case
  proof (cases "at e > at t")
    case True
    then have "\<forall>x \<in> set es. at t < at x" using Cons.prems by auto
    then have "filter (\<lambda>e. at e \<le> at t) es = []" "filter (\<lambda>e. at t < at e) es = es"
      by (auto simp: filter_empty_conv not_le)
    then show ?thesis using True by simp
  qed (use Cons in \<open>simp add: not_less\<close>)
qed simp

lemma timers_ok_set:
  assumes ok: "timers_ok {} k" and c: "c \<in> set (thread_list k)" "tstate (threads k c) \<noteq> THREAD_SLEEPING"
    and tm: "stack_timer k c \<notin> set (timer_queue k)"
    and K: "timers K = (timers k)(stack_timer k c := r)" "timer_arg r = c"
      "timer_queue K = insert_before_later (\<lambda>e. scheduled_time (timers K e)) (stack_timer k c) (timer_queue k)"
      "stack_timer K = stack_timer k" "thread_list K = thread_list k"
      "\<And>u. u \<noteq> c \<Longrightarrow> tstate (threads K u) = tstate (threads k u) \<and> frames (threads K u) = frames (threads k u)"
    and due: "callback r = Thread_sleep_handler \<and> tstate (threads K c) = THREAD_SLEEPING \<or>
      callback r = Wait_queue_timeout_handler \<and> waits_on_timer (frames (threads K c)) \<and> tstate (threads K c) \<noteq> THREAD_SLEEPING"
  shows "timers_ok {} K"
proof -
  let ?tm = "stack_timer k c"
  have inj: "stack_timer k a = stack_timer k b \<longleftrightarrow> a = b" for a b
    using ok by (auto simp: timers_ok_def inj_eq)
  have old: "timers K x = timers k x" if "x \<in> set (timer_queue k)" for x using that K(1) tm by auto
  have "sorted_wrt (\<lambda>a b. scheduled_time (timers K a) \<le> scheduled_time (timers K b)) (timer_queue k)"
    by (rule sorted_wrt_mono_rel[of _ "\<lambda>a b. scheduled_time (timers k a) \<le> scheduled_time (timers k b)"])
       (use ok old in \<open>auto simp: timers_ok_def\<close>)
  then have "sorted_wrt (\<lambda>a b. scheduled_time (timers K a) \<le> scheduled_time (timers K b)) (timer_queue K)"
    unfolding K(3) by (rule sorted_insert_before_later)
  moreover have "distinct (timer_queue K)"
    unfolding K(3) by (rule distinct_insert_before_later) (use ok tm in \<open>simp_all add: timers_ok_def\<close>)
  moreover have "timer_of K x \<and> timer_due_for K x" if x: "x \<in> set (timer_queue K)" for x
  proof (cases "x = ?tm")
    case True then show ?thesis using K c due by (auto simp: timer_of_def timer_due_for_def)
  next
    case False
    then have xq: "x \<in> set (timer_queue k)" using x K(3) by simp
    then have o: "timer_of k x" "timer_due_for k x" using ok by (auto simp: timers_ok_def)
    have "timer_arg (timers k x) \<noteq> c" using o(1) False by (auto simp: timer_of_def)
    then show ?thesis using o old[OF xq] K(4-6) by (simp add: timer_of_def timer_due_for_def)
  qed
  moreover have "stack_timer K t \<in> set (timer_queue K) \<and> timer_arg (timers K (stack_timer K t)) = t \<and>
      callback (timers K (stack_timer K t)) = Thread_sleep_handler"
    if t: "t \<in> set (thread_list K)" "tstate (threads K t) = THREAD_SLEEPING" for t
  proof (cases "t = c")
    case True then show ?thesis using K t due by auto
  next
    case False
    then show ?thesis using ok t K inj by (auto simp: timers_ok_def)
  qed
  ultimately show ?thesis using ok K(4) by (simp add: timers_ok_def)
qed

lemma timer_oneshot_fields:
  assumes "timer_initialize tm k = Some k1" "same_rest k1 k1'" "threads k1' = threads k1" "stack_timer k1' = stack_timer k1"
    and "timer_set_oneshot tm d cbk arg k1' = Some k2"
  obtains r where "timers k2 = (timers k)(tm := r)" "timer_arg r = arg" "callback r = cbk" "scheduled_time r = clock k + d"
    "timer_queue k2 = insert_before_later (\<lambda>e. scheduled_time (timers k2 e)) tm (timer_queue k)" "tm \<notin> set (timer_queue k)"
    "stack_timer k2 = stack_timer k" "thread_list k2 = thread_list k" "threads k2 = threads k"
proof -
  let ?r = "\<lparr>timer_magic = TIMER_MAGIC, scheduled_time = clock k + d, periodic_time = 0, callback = cbk, timer_arg = arg\<rparr>"
  have 1: "k1 = upd_timer tm (\<lambda>_. \<lparr>timer_magic = TIMER_MAGIC, scheduled_time = 0, periodic_time = 0,
      callback = No_callback, timer_arg = 0\<rparr>) k" "tm \<notin> set (timer_queue k)"
    using assms(1) by (auto simp: timer_initialize_def split: if_splits)
  have "timers k1' = timers k1" "timer_queue k1' = timer_queue k" "clock k1' = clock k" "stack_timer k1' = stack_timer k"
    "thread_list k1' = thread_list k" "threads k1' = threads k"
    using assms(2-4) 1(1) by (simp_all add: same_rest_def upd_timer_def)
  moreover from this have "timers k2 = (timers k)(tm := ?r)" "threads k2 = threads k1'" "stack_timer k2 = stack_timer k1'"
    "thread_list k2 = thread_list k1'"
    "timer_queue k2 = insert_before_later (\<lambda>e. scheduled_time (timers k2 e)) tm (timer_queue k1')"
    using assms(5) 1(1) by (auto simp: timer_set_oneshot_def insert_timer_in_queue_def upd_timer_def Let_def split: if_splits)
  ultimately show ?thesis using 1(2) by (intro that[of ?r]) simp_all
qed

lemma thread_sleep_inv:
  assumes inv: "kernel_inv k" and s: "thread_sleep d k = Some k'"
  shows "kernel_inv k'"
proof -
  let ?c = "current_thread k" let ?tm = "stack_timer k ?c"
  obtain k1 k2 where k1: "timer_initialize ?tm k = Some k1"
    and k2: "timer_set_oneshot ?tm d Thread_sleep_handler ?c (enter_critical_section k1) = Some k2"
    and r: "resched [Exit_critical_section] (upd_thread ?c (\<lambda>t. t\<lparr>tstate := THREAD_SLEEPING\<rparr>) k2) = Some k'"
    using s by (auto simp: thread_sleep_def Let_def split: bind_splits)
  let ?k3 = "upd_thread ?c (\<lambda>t. t\<lparr>tstate := THREAD_SLEEPING\<rparr>) k2"
  obtain rec where f: "timers k2 = (timers k)(?tm := rec)" "timer_arg rec = ?c" "callback rec = Thread_sleep_handler"
    "timer_queue k2 = insert_before_later (\<lambda>e. scheduled_time (timers k2 e)) ?tm (timer_queue k)"
    "?tm \<notin> set (timer_queue k)" "stack_timer k2 = stack_timer k" "thread_list k2 = thread_list k" "threads k2 = threads k"
    by (rule timer_oneshot_fields[OF k1 _ _ _ k2]) (simp_all add: same_rest_def)
  have cur: "current_thread k2 = ?c" using timer_fields(1)[OF k1] timer_fields(2)[OF k2] by simp
  have "timers_ok {} (upd_thread (current_thread ?k3) (\<lambda>t. t\<lparr>frames := [Exit_critical_section]\<rparr>) ?k3)"
    by (rule timers_ok_set[where k = k and c = ?c and r = rec])
       (use inv kernel_invD[OF inv] f cur in \<open>simp_all add: kernel_inv_def upd_thread_def\<close>)
  moreover have "queues_ok {} ?k3"
    using timer_initialize_ok[OF k1] timer_set_oneshot_ok[OF k2] kernel_invD[OF inv] f cur
    by (intro leaves_queues) (simp_all add: unqueued_def)
  ultimately have "timers_ok {} k' \<and> frames (cur k') = []" using r by (intro resched_timers) auto
  moreover have "thread_list k' = thread_list k" using resched_thread_list[OF r] f(7) by simp
  ultimately show ?thesis using thread_sleep_ok[OF kernel_inv_ok[OF inv] s] inv by (simp add: kernel_inv_def)
qed

lemma wait_queue_block_inv:
  assumes inv: "kernel_inv k0" and st: "same_timing k0 k" and c: "current_thread k = current_thread k0" and ok: "kernel_ok k"
    and w: "wait_queue_block fs w timeout k = Some k'"
  shows "kernel_inv k'"
proof (cases "timeout = 0")
  case True
  then show ?thesis using w st c ok
    by (intro kernel_inv_frames[OF inv, of "set_ret ERR_TIMED_OUT k" fs]) (auto simp: wait_queue_block_def kernel_ok_set_ret)
next
  case False
  have invk: "kernel_inv k" by (rule kernel_inv_stay[OF inv st c ok])
  let ?c = "current_thread k"
  let ?k2 = "upd_thread ?c (\<lambda>t. t\<lparr>tstate := THREAD_BLOCKED, blocking_wait_queue := w, wait_queue_block_ret := NO_ERROR\<rparr>)
    (upd_wq w (\<lambda>q. q\<lparr>wlist := wlist q @ [?c], wcount := wcount q + 1\<rparr>) k)"
  let ?fs = "Exit_critical_section # Wait_queue_block timeout # fs"
  have k2: "queues_ok {} ?k2" by (rule queues_ok_block) (use kernel_invD[OF invk] in simp_all)
  have st2: "same_timing k ?k2" by (rule same_timing_thread) (use kernel_invD(4)[OF invk] in simp_all)
  have f2: "timer_queue ?k2 = timer_queue k" "timers ?k2 = timers k" "stack_timer ?k2 = stack_timer k"
    "thread_list ?k2 = thread_list k" using st2 by (auto simp: same_timing_def)
  obtain k3 where k3: "resched ?fs (enter_critical_section k3) = Some k'"
    and t: "(if timeout \<noteq> INFINITE_TIME then
           do { ka \<leftarrow> timer_initialize (stack_timer ?k2 ?c) ?k2;
                timer_set_oneshot (stack_timer ?k2 ?c) timeout Wait_queue_timeout_handler ?c ka }
         else Some ?k2) = Some k3"
    using w False by (auto simp: wait_queue_block_def thread_block_def Let_def split: bind_splits if_splits)
  have q3: "queues_ok {} k3" "threads k3 = threads ?k2" "current_thread k3 = ?c"
    using wait_timer_ok[OF t, of "{}"] k2 by simp_all
  have "timers_ok {} (upd_thread ?c (\<lambda>t. t\<lparr>frames := ?fs\<rparr>) (enter_critical_section k3)) \<and> thread_list k3 = thread_list k"
  proof (cases "timeout = INFINITE_TIME")
    case True
    then have "k3 = ?k2" using t by simp
    moreover have "timers_ok {} ?k2" using invk st2 timers_ok_same_timing by (auto simp: kernel_inv_def)
    ultimately show ?thesis
      using f2 kernel_inv_no_timer[OF invk] by (auto intro!: timers_ok_push_frames)
  next
    case False
    then obtain ka where ka: "timer_initialize (stack_timer ?k2 ?c) ?k2 = Some ka"
        "timer_set_oneshot (stack_timer ?k2 ?c) timeout Wait_queue_timeout_handler ?c ka = Some k3"
      using t by (auto split: bind_splits)
    obtain rec where f: "timers k3 = (timers k)(stack_timer k ?c := rec)" "timer_arg rec = ?c"
      "callback rec = Wait_queue_timeout_handler"
      "timer_queue k3 = insert_before_later (\<lambda>e. scheduled_time (timers k3 e)) (stack_timer k ?c) (timer_queue k)"
      "stack_timer k ?c \<notin> set (timer_queue k)" "stack_timer k3 = stack_timer k" "thread_list k3 = thread_list k"
      by (rule timer_oneshot_fields[OF ka(1) _ _ _ ka(2)]) (simp_all add: same_rest_def f2)
    have "timers_ok {} (upd_thread ?c (\<lambda>t. t\<lparr>frames := ?fs\<rparr>) (enter_critical_section k3))"
      by (rule timers_ok_set[where k = k and c = ?c and r = rec])
         (use invk kernel_invD[OF invk] f q3(2) False in
            \<open>auto simp: kernel_inv_def upd_thread_def upd_wq_def waits_on_timer_def\<close>)
    then show ?thesis using f(7) by simp
  qed
  moreover have "resched ?fs (enter_critical_section k3) = Some k'" by (rule k3)
  ultimately have "timers_ok {} k' \<and> frames (cur k') = []" "thread_list k' = thread_list k"
    using resched_timers[of "enter_critical_section k3" ?fs k'] q3 resched_thread_list[OF k3] by simp_all
  then show ?thesis using wait_queue_block_ok[OF ok w] invk by (simp add: kernel_inv_def)
qed

subsection \<open>Events and mutexes\<close>

lemma event_init_inv:
  assumes "kernel_inv k" "wlist (wait_queues k (event_wait_queue e)) = []"
  shows "kernel_inv (event_init e initial flags k)"
  by (rule kernel_inv_stay[OF assms(1)])
     (use event_init_ok[OF kernel_inv_ok[OF assms(1)] assms(2)] in \<open>simp_all add: event_init_def wait_queue_init_def\<close>)

lemma mutex_init_inv:
  assumes "kernel_inv k" "wlist (wait_queues k (mutex_wait_queue m)) = []"
  shows "kernel_inv (mutex_init m k)"
  by (rule kernel_inv_stay[OF assms(1)])
     (use mutex_init_ok[OF kernel_inv_ok[OF assms(1)] assms(2)] in \<open>simp_all add: mutex_init_def wait_queue_init_def\<close>)

lemma wait_queue_destroy_inv:
  assumes "kernel_inv k" "same_timing k k1" "current_thread k1 = current_thread k" "kernel_ok k1"
    and "wait_queue_destroy fs w reschedule k1 = Some k'"
  shows "kernel_inv k'"
  using wake_all_inv[OF assms(1-4)] assms(5) by (simp add: wait_queue_destroy_def)

lemma event_destroy_inv: "kernel_inv k \<Longrightarrow> event_destroy e k = Some k' \<Longrightarrow> kernel_inv k'"
  unfolding event_destroy_def Let_def
  by (erule wait_queue_destroy_inv[rotated 4]) (simp_all add: kernel_inv_ok)

lemma event_wait_timeout_inv:
  assumes inv: "kernel_inv k" and w: "event_wait_timeout e timeout k = Some k'"
  shows "kernel_inv k'"
proof (cases "signalled (events k e)")
  case True
  then show ?thesis using w kernel_inv_ok[OF inv]
    by (intro kernel_inv_stay[OF inv]) (auto simp: event_wait_timeout_def Let_def kernel_ok_set_ret split: if_splits)
next
  case False
  then have "wait_queue_block [Exit_critical_section] (event_wait_queue e) timeout (enter_critical_section k) = Some k'"
    using w by (simp add: event_wait_timeout_def Let_def)
  then show ?thesis by (rule wait_queue_block_inv[OF inv, rotated 3]) (simp_all add: kernel_inv_ok[OF inv])
qed

lemma event_signal_inv:
  assumes inv: "kernel_inv k" and st: "same_timing k k1" and c: "current_thread k1 = current_thread k" and ok: "kernel_ok k1"
    and s: "event_signal fs e reschedule k1 = Some k'"
  shows "kernel_inv k'"
proof -
  let ?k = "enter_critical_section k1" and ?rest = "[Exit_critical_section, Return NO_ERROR] @ fs"
  obtain k2 n where w: "wait_queue_wake_one (event_wait_queue e) reschedule NO_ERROR ?k = (k2, n)" by fastforce
  have ok1: "kernel_ok ?k" using ok by simp
  consider (auto_none) "n \<le> 0" "run_frame_list ?rest (upd_event e (\<lambda>x. x\<lparr>signalled := True\<rparr>) k2) = Some k'"
    | (auto_one) "finish_wake reschedule ?rest (k2, n) = Some k'"
    | (everyone) "finish_wake reschedule ?rest (wait_queue_wake_all (event_wait_queue e) reschedule NO_ERROR
          (upd_event e (\<lambda>x. x\<lparr>signalled := True\<rparr>) ?k)) = Some k'"
    | (already) "run_frame_list ?rest ?k = Some k'"
    using s w by (auto simp: event_signal_def Let_def split: if_splits)
  then show ?thesis
  proof cases
    case auto_none
    then have "k2 = ?k" using kernel_ok_wake_one(3)[OF ok1 w] by simp
    then show ?thesis using auto_none(2) st c ok by (intro kernel_inv_frames[OF inv]) auto
  next
    case auto_one show ?thesis by (rule wake_one_inv[OF inv _ _ ok1 w auto_one]) (use st c in simp_all)
  next
    case everyone show ?thesis by (rule wake_all_inv[OF inv _ _ _ everyone]) (use st c ok in simp_all)
  next
    case already then show ?thesis using st c ok by (intro kernel_inv_frames[OF inv]) auto
  qed
qed

lemma event_unsignal_inv: "kernel_inv k \<Longrightarrow> kernel_inv (event_unsignal e k)"
  by (rule kernel_inv_stay) (simp_all add: event_unsignal_def kernel_ok_set_ret kernel_inv_ok)

lemma mutex_destroy_inv:
  assumes inv: "kernel_inv k" and d: "mutex_destroy m k = Some k'"
  shows "kernel_inv k'"
proof -
  have "wait_queue_destroy [Exit_critical_section] (mutex_wait_queue m) True
      (upd_mutex m (\<lambda>x. x\<lparr>mmagic := 0, mcount := 0\<rparr>) (enter_critical_section k)) = Some k'"
    using d by (simp add: mutex_destroy_def Let_def split: if_splits)
  then show ?thesis by (rule wait_queue_destroy_inv[OF inv, rotated 3]) (simp_all add: kernel_inv_ok[OF inv])
qed

lemma mutex_wait_inv:
  assumes inv: "kernel_inv k"
    and w: "wait_queue_block fs (mutex_wait_queue m) timeout (upd_mutex m f (enter_critical_section k)) = Some k'"
  shows "kernel_inv k'"
  by (rule wait_queue_block_inv[OF inv _ _ _ w]) (simp_all add: kernel_inv_ok[OF inv])

lemma mutex_take_inv:
  "kernel_inv k \<Longrightarrow> kernel_inv (set_ret r (exit_critical_section (upd_mutex m f (upd_mutex m g (enter_critical_section k)))))"
  by (rule kernel_inv_stay) (simp_all add: kernel_ok_set_ret kernel_inv_ok)

lemma mutex_acquire_inv: "kernel_inv k \<Longrightarrow> mutex_acquire m k = Some k' \<Longrightarrow> kernel_inv k'"
  by (auto simp: mutex_acquire_def Let_def mutex_take_inv intro: mutex_wait_inv split: if_splits)

lemma mutex_acquire_timeout_inv: "kernel_inv k \<Longrightarrow> mutex_acquire_timeout m timeout k = Some k' \<Longrightarrow> kernel_inv k'"
  by (auto simp: mutex_acquire_timeout_def Let_def mutex_take_inv mutex_acquire_inv intro: mutex_wait_inv split: if_splits)

lemma mutex_release_inv:
  assumes inv: "kernel_inv k" and r: "mutex_release m k = Some k'"
  shows "kernel_inv k'"
proof -
  let ?k = "upd_mutex m (\<lambda>x. x\<lparr>holder := 0, mcount := mcount x - 1\<rparr>) (enter_critical_section k)"
  let ?rest = "[Exit_critical_section, Return NO_ERROR]"
  obtain k1 n where w: "wait_queue_wake_one (mutex_wait_queue m) True NO_ERROR ?k = (k1, n)" by fastforce
  have ok: "kernel_ok ?k" using kernel_inv_ok[OF inv] by simp
  have "finish_wake True ?rest (k1, n) = Some k' \<or> run_frame_list ?rest ?k = Some k'"
    using r w by (simp add: mutex_release_def Let_def split: if_splits)
  then show ?thesis
  proof
    assume f: "finish_wake True ?rest (k1, n) = Some k'"
    show ?thesis by (rule wake_one_inv[OF inv _ _ ok w f]) simp_all
  next
    assume f: "run_frame_list ?rest ?k = Some k'"
    show ?thesis by (rule kernel_inv_frames[OF inv _ _ ok f]) simp_all
  qed
qed

subsection \<open>The tick\<close>

lemma timers_ok_pop:
  assumes ok: "timers_ok {} k" and q: "timer_queue k = tm # rest"
    and k': "timer_queue k' = rest" "timers k' = timers k" "stack_timer k' = stack_timer k" "thread_list k' = thread_list k"
      "\<And>u. frames (threads k' u) = frames (threads k u)"
      "\<And>u. u \<noteq> timer_arg (timers k tm) \<Longrightarrow> tstate (threads k' u) = THREAD_SLEEPING \<longleftrightarrow> tstate (threads k u) = THREAD_SLEEPING"
    and awake: "tstate (threads k' (timer_arg (timers k tm))) \<noteq> THREAD_SLEEPING"
  shows "timers_ok {} k'"
proof -
  let ?a = "timer_arg (timers k tm)"
  have tm: "tm = stack_timer k ?a" "tm \<notin> set rest" using ok q by (auto simp: timers_ok_def timer_of_def)
  have "timer_of k' x \<and> timer_due_for k' x" if x: "x \<in> set rest" for x
  proof -
    have o: "timer_of k x" "timer_due_for k x" using ok q x by (auto simp: timers_ok_def)
    then have "timer_arg (timers k x) \<noteq> ?a" using tm x by (auto simp: timer_of_def)
    then show ?thesis using o k' by (auto simp: timer_of_def timer_due_for_def)
  qed
  moreover have "stack_timer k t \<in> set rest \<and> timer_arg (timers k (stack_timer k t)) = t \<and>
      callback (timers k (stack_timer k t)) = Thread_sleep_handler"
    if t: "t \<in> set (thread_list k)" "tstate (threads k' t) = THREAD_SLEEPING" for t
  proof -
    have "t \<noteq> ?a" using t awake by auto
    then have "tstate (threads k t) = THREAD_SLEEPING" using t k'(6) by blast
    then have "stack_timer k t \<in> set (timer_queue k)" "timer_arg (timers k (stack_timer k t)) = t"
      "callback (timers k (stack_timer k t)) = Thread_sleep_handler" using ok t by (auto simp: timers_ok_def)
    then show ?thesis using q \<open>t \<noteq> ?a\<close> by auto
  qed
  ultimately show ?thesis using ok q k'(1-4) by (simp add: timers_ok_def)
qed

lemma fire_timer_inv:
  assumes inv: "kernel_inv k" and q: "timer_queue k = tm # rest"
  shows "\<exists>k' r. fire_timer tm (k\<lparr>timer_queue := rest\<rparr>) = Some (k', r) \<and> kernel_inv k'"
proof -
  let ?k = "k\<lparr>timer_queue := rest\<rparr>" let ?a = "timer_arg (timers k tm)"
  have tok: "timers_ok {} k" using inv by (simp add: kernel_inv_def)
  have tm: "timer_of k tm" "timer_due_for k tm" using tok q by (auto simp: timers_ok_def)
  have a: "?a \<in> set (thread_list k)" "tm = stack_timer k ?a" using tm by (auto simp: timer_of_def)
  have ne: "?a \<noteq> current_thread k" using kernel_inv_no_timer[OF inv] q by simp
  have okk: "queues_ok {} ?k" using kernel_invD(1)[OF inv] by simp
  consider (sleep) "callback (timers k tm) = Thread_sleep_handler" "tstate (threads k ?a) = THREAD_SLEEPING"
    | (timeout) "callback (timers k tm) = Wait_queue_timeout_handler"
    using tm(2) by (auto simp: timer_due_for_def Let_def)
  then show ?thesis
  proof cases
    case sleep
    let ?k1 = "insert_in_run_queue_head ?a (upd_thread ?a (\<lambda>t. t\<lparr>tstate := THREAD_READY\<rparr>) ?k)"
    have f: "fire_timer tm ?k = Some (?k1, INT_RESCHEDULE)"
      using sleep(1) by (simp add: fire_timer_def thread_sleep_handler_def)
    have "queues_ok {} ?k1" by (rule ready_at_head[OF okk]) (use sleep a in \<open>simp_all add: unqueued_def\<close>)
    moreover have "timers_ok {} ?k1"
      by (rule timers_ok_pop[OF tok q]) (simp_all add: upd_thread_def)
    ultimately have "kernel_inv ?k1"
      using inv ne kernel_invD(4)[OF inv] by (simp add: kernel_inv_def kernel_ok_def) (simp add: upd_thread_def)
    then show ?thesis using f by blast
  next
    case timeout
    obtain k1 r where u: "unblock_thread ?a ERR_TIMED_OUT ?k = (k1, r)" by fastforce
    note uo = unblock_thread_ok[OF okk _ u, simplified, OF a(1)]
    define k2 where "k2 = (if r \<ge> NO_ERROR then exit_critical_section k1 else k1)"
    have f: "\<exists>r. fire_timer tm ?k = Some (k2, r)"
      using timeout u by (simp add: fire_timer_def wait_queue_timeout_handler_def k2_def)
    have same: "current_thread k2 = current_thread k" "thread_list k2 = thread_list k" "threads k2 = threads k1"
      "timer_queue k2 = rest" "timers k2 = timers k" "stack_timer k2 = stack_timer k"
      using uo by (auto simp: k2_def)
    have "tstate (threads k ?a) \<noteq> THREAD_SLEEPING"
      using tok a timeout by (auto simp: timers_ok_def)
    then have "timers_ok {} k2"
      using uo same by (intro timers_ok_pop[OF tok q]) auto
    moreover have "queues_ok {} k2" using uo(1) by (simp add: k2_def)
    ultimately have "kernel_inv k2"
      using inv ne kernel_invD(4)[OF inv] uo same by (auto simp: kernel_inv_def kernel_ok_def)
    then show ?thesis using f by blast
  qed
qed

lemma tick_loop_inv:
  assumes "kernel_inv k"
  shows "\<exists>k' r'. tick_loop now k r = Some (k', r') \<and> kernel_inv k' \<and>
    (\<forall>tm \<in> set (timer_queue k'). now < scheduled_time (timers k' tm))"
  using assms
proof (induction now k r rule: tick_loop.induct)
  case (1 now k r)
  show ?case
  proof (cases "timer_queue k")
    case Nil
    then show ?thesis using "1.prems" by (simp add: tick_loop.simps)
  next
    case (Cons tm rest)
    show ?thesis
    proof (cases "now < scheduled_time (timers k tm)")
      case True
      then have "\<forall>x \<in> set (timer_queue k). now < scheduled_time (timers k x)"
        using "1.prems" Cons by (auto simp: kernel_inv_def timers_ok_def)
      then show ?thesis using True Cons "1.prems" by (simp add: tick_loop.simps)
    next
      case False
      obtain k1 r1 where f: "fire_timer tm (k\<lparr>timer_queue := rest\<rparr>) = Some (k1, r1)" "kernel_inv k1"
        using fire_timer_inv[OF "1.prems" Cons] by blast
      have "tick_loop now k r = tick_loop now k1 (if r1 = INT_RESCHEDULE then INT_RESCHEDULE else r)"
        by (subst tick_loop.simps) (simp add: Cons False f(1))
      then show ?thesis using "1.IH"[OF Cons False f(1) refl f(2)] by simp
    qed
  qed
qed

lemma kernel_inv_irq_entry:
  "kernel_inv k \<Longrightarrow> kernel_inv (inc_critical_section (k\<lparr>clock := now, ints_enabled := b\<rparr>))"
  by (rule kernel_inv_stay) (simp_all add: same_timing_def inc_critical_section_def kernel_inv_ok
      kernel_ok_critical_section(3)[unfolded inc_critical_section_def] kernel_ok_upd_other kernel_ok_def queues_ok_upd_other
      kernel_okD[OF kernel_inv_ok])

lemma thread_timer_tick_inv:
  assumes "kernel_inv k"
  shows "kernel_inv (fst (thread_timer_tick k))"
proof -
  let ?k = "upd_thread (current_thread k) (\<lambda>t. t\<lparr>remaining_quantum := remaining_quantum t - 1\<rparr>) k"
  have "same_timing k ?k" by (rule same_timing_upd_thread) simp_all
  moreover have "kernel_ok ?k" by (rule kernel_ok_keeps_place) (simp_all add: kernel_inv_ok[OF assms] keeps_place_def)
  ultimately have "kernel_inv ?k" by (intro kernel_inv_stay[OF assms]) simp_all
  then show ?thesis using assms by (simp add: thread_timer_tick_def Let_def)
qed

text \<open>A timer interrupt is never stuck on a timer, and leaves none that is due.\<close>

lemma timer_tick_inv:
  assumes "kernel_inv k"
  shows "\<exists>k'. timer_tick now k = Some (k', INT_RESCHEDULE) \<and> kernel_inv k' \<and>
    (\<forall>tm \<in> set (timer_queue k'). now < scheduled_time (timers k' tm))"
proof -
  obtain k1 r1 where l: "tick_loop now k INT_NO_RESCHEDULE = Some (k1, r1)" "kernel_inv k1"
    "\<forall>tm \<in> set (timer_queue k1). now < scheduled_time (timers k1 tm)"
    using tick_loop_inv[OF assms] by blast
  obtain k2 q where t: "thread_timer_tick k1 = (k2, q)" by fastforce
  have "timer_queue k2 = timer_queue k1" "timers k2 = timers k1"
    using t by (auto simp: thread_timer_tick_def Let_def upd_thread_def split: if_splits)
  moreover have "kernel_inv k2" using thread_timer_tick_inv[OF l(2)] t by simp
  ultimately show ?thesis using l t by (simp add: timer_tick_def)
qed

lemma timer_interrupt_inv:
  assumes "kernel_inv k" and "timer_interrupt now k = Some k'"
  shows "kernel_inv k'"
proof -
  obtain k1 where "timer_tick now (inc_critical_section (k\<lparr>clock := now, ints_enabled := False\<rparr>)) = Some (k1, INT_RESCHEDULE)"
    "kernel_inv k1" using timer_tick_inv[OF kernel_inv_irq_entry[OF assms(1)]] by blast
  then show ?thesis using assms(2) by (auto simp: timer_interrupt_def intro: thread_preempt_inv)
qed

subsection \<open>Creation and end of threads\<close>

lemma malloc_heap: "malloc (kheap k) n = Some (h, p) \<Longrightarrow> kernel_inv k \<Longrightarrow> kernel_inv (k\<lparr>kheap := h\<rparr>)"
  by (rule kernel_inv_stay) (simp_all add: kernel_inv_ok)

lemma kernel_inv_new_thread:
  assumes inv: "kernel_inv k" and t: "t \<notin> set (thread_list k)"
    and r: "tstate r = THREAD_SUSPENDED" "0 \<le> priority r" "priority r < NUM_PRIORITIES"
  shows "kernel_inv (k\<lparr>threads := (threads k)(t := r), thread_list := t # thread_list k\<rparr>)"
proof -
  let ?k = "k\<lparr>threads := (threads k)(t := r), thread_list := t # thread_list k\<rparr>"
  have ne: "t \<noteq> current_thread k" using kernel_invD(3)[OF inv] t by auto
  have "timers_ok {} ?k"
    using inv t r(1) unfolding kernel_inv_def timers_ok_defs by auto
  moreover have "kernel_ok ?k"
    using queues_ok_new_thread[OF kernel_invD(1)[OF inv] t r] kernel_invD(4)[OF inv] ne by (simp add: kernel_ok_def)
  ultimately show ?thesis using inv t ne by (simp add: kernel_inv_def)
qed

lemma enter_eq: "enter_critical_section k = k\<lparr>critical_section_count := critical_section_count k + 1,
    ints_enabled := (if critical_section_count k = 0 then False else ints_enabled k)\<rparr>"
  by (simp add: enter_critical_section_def Let_def)

lemma exit_eq: "exit_critical_section k = k\<lparr>critical_section_count := critical_section_count k - 1,
    ints_enabled := (if critical_section_count k = 1 then True else ints_enabled k)\<rparr>"
  by (simp add: exit_critical_section_def Let_def)

lemma thread_create_fields:
  assumes "thread_create name ent arg prio stk k = Some (k', t)" "t \<noteq> 0"
  shows "\<exists>r h ie. k' = (k\<lparr>kheap := h, ints_enabled := ie, threads := (threads k)(t := r), thread_list := t # thread_list k\<rparr>)
    \<and> tstate r = THREAD_SUSPENDED \<and> priority r = prio"
proof -
  from assms obtain h1 s h2 where m: "malloc (kheap k) SIZEOF_THREAD = Some (h1, t)" "malloc h1 stk = Some (h2, s)" "s \<noteq> 0"
    and e: "k' = exit_critical_section ((enter_critical_section (upd_thread t (\<lambda>r. r\<lparr>tstack := s, stack_size := stk,
         frames := [Initial_thread_func]\<rparr>) ((upd_thread t (\<lambda>r. r\<lparr>tentry := ent, targ := arg, priority := prio,
           saved_critical_section_count := 1, tstate := THREAD_SUSPENDED, blocking_wait_queue := 0,
           wait_queue_block_ret := NO_ERROR\<rparr>) (init_thread_struct t name (k\<lparr>kheap := h1\<rparr>)))\<lparr>kheap := h2\<rparr>)))
         \<lparr>thread_list := t # thread_list k\<rparr>)"
    by (auto simp: thread_create_def init_thread_struct_def upd_thread_def Let_def split: bind_splits if_splits)
  show ?thesis unfolding e
    by (intro exI[of _ "threads k' t"] exI[of _ h2] exI[of _ "ints_enabled k'"])
       (simp add: e init_thread_struct_def upd_thread_def enter_eq exit_eq)
qed

lemma thread_create_inv:
  assumes inv: "kernel_inv k" and c: "thread_create name ent arg prio stk k = Some (k', t)"
    and p: "0 \<le> prio" "prio < NUM_PRIORITIES" and t: "t \<noteq> 0" "t \<notin> set (thread_list k)"
  shows "kernel_inv k'"
proof -
  obtain r h ie where k': "k' = (k\<lparr>kheap := h, ints_enabled := ie, threads := (threads k)(t := r), thread_list := t # thread_list k\<rparr>)"
    "tstate r = THREAD_SUSPENDED" "priority r = prio" using thread_create_fields[OF c t(1)] by blast
  have "kernel_inv (k\<lparr>kheap := h, ints_enabled := ie\<rparr>)"
    by (rule kernel_inv_stay[OF inv]) (simp_all add: same_timing_def kernel_inv_ok[OF inv])
  from kernel_inv_new_thread[OF this, of t r] show ?thesis using k' p t by simp
qed

lemma thread_cleanup_inv:
  assumes inv: "kernel_inv k" and t: "tstate (threads k t) = THREAD_DEATH" "frames (threads k t) = [Thread_exit]"
    and c: "thread_cleanup_dpc t k = Some k'"
  shows "kernel_inv k'"
proof -
  let ?k = "k\<lparr>thread_list := remove1 t (thread_list k)\<rparr>"
  have ne: "t \<noteq> current_thread k" using kernel_invD(4)[OF inv] t by auto
  have d: "distinct (thread_list k)" using inv by (simp add: kernel_inv_def)
  have "queues_ok {} ?k" by (rule queues_ok_drop_thread) (use kernel_invD(1)[OF inv] t ne d in auto)
  moreover have "timers_ok {} ?k"
    using inv t d unfolding kernel_inv_def timers_ok_defs by (auto simp: waits_on_timer_def)
  ultimately have i: "kernel_inv ?k"
    using inv kernel_invD(4)[OF inv] by (simp add: kernel_inv_def kernel_ok_def)
  have "\<exists>h cs ie. k' = ?k\<lparr>kheap := h, critical_section_count := cs, ints_enabled := ie\<rparr>"
  proof -
    from c obtain h where "k' = (exit_critical_section ((enter_critical_section k)\<lparr>thread_list := remove1 t (thread_list k)\<rparr>))\<lparr>kheap := h\<rparr>"
      by (auto simp: thread_cleanup_dpc_def Let_def split: bind_splits)
    then have "k' = ?k\<lparr>kheap := h, critical_section_count := critical_section_count k', ints_enabled := ints_enabled k'\<rparr>"
      by (simp add: enter_eq exit_eq)
    then show ?thesis by blast
  qed
  then obtain h cs ie where k': "k' = ?k\<lparr>kheap := h, critical_section_count := cs, ints_enabled := ie\<rparr>" by blast
  show ?thesis unfolding k'
    by (rule kernel_inv_stay[OF i]) (use kernel_inv_ok[OF i] in \<open>simp_all add: same_timing_def kernel_ok_def\<close>)
qed

text \<open>\<open>event_signal\<close> without a reschedule, from a thread that need not be running any more.\<close>

lemma event_signal_quiet:
  assumes q: "queues_ok {} k" and b: "tstate (cur k) \<notin> {THREAD_BLOCKED, THREAD_RUNNING}"
    and s: "event_signal [Exit_critical_section, Return NO_ERROR] e False k = Some k'"
  shows "queues_ok {} k' \<and> same_timing k k' \<and> current_thread k' = current_thread k \<and> tstate (cur k') = tstate (cur k)"
proof -
  let ?k = "enter_critical_section k"
  let ?rest = "[Exit_critical_section, Return NO_ERROR, Exit_critical_section, Return NO_ERROR]"
  have fin: ?thesis if o: "queues_ok {} k2 \<and> same_timing k k2 \<and> current_thread k2 = current_thread k \<and>
      tstate (cur k2) = tstate (cur k)" and r: "run_frame_list ?rest k2 = Some k'" for k2
  proof -
    have "queues_ok {} k' \<and> same_states k2 k'" using run_frame_list_queues[OF _ r] o by blast
    moreover have "same_timing k k'" using r o by auto
    ultimately show ?thesis using o by (metis same_states_def)
  qed
  obtain k1 n where w1: "wait_queue_wake_one (event_wait_queue e) False NO_ERROR ?k = (k1, n)" by fastforce
  obtain k2 m where w2: "wait_queue_wake_all (event_wait_queue e) False NO_ERROR (upd_event e (\<lambda>x. x\<lparr>signalled := True\<rparr>) ?k) = (k2, m)"
    by fastforce
  have o1: "queues_ok {} k1 \<and> same_timing k k1 \<and> current_thread k1 = current_thread k \<and> tstate (cur k1) = tstate (cur k)"
    using wake_one_ok[OF _ _ _ w1] wake_one_same_timing[OF _ _ w1] q b same_timing_trans[OF same_timing_simps(1)] by auto
  have o2: "queues_ok {} k2 \<and> same_timing k k2 \<and> current_thread k2 = current_thread k \<and> tstate (cur k2) = tstate (cur k)"
    using wake_all_ok[OF _ _ _ w2] wake_all_same_timing[OF _ _ w2] q b
      same_timing_trans[OF same_timing_trans[OF same_timing_simps(1) same_timing_simps(6)]] by auto
  consider "run_frame_list ?rest (upd_event e (\<lambda>x. x\<lparr>signalled := True\<rparr>) k1) = Some k'" | "run_frame_list ?rest k1 = Some k'"
    | "run_frame_list ?rest k2 = Some k'" | "run_frame_list ?rest ?k = Some k'"
    using s w1 w2 by (auto simp: event_signal_def Let_def finish_wake_def split: if_splits)
  then show ?thesis
  proof cases
    case 1
    show ?thesis by (rule fin[OF _ 1]) (use o1 in \<open>simp, metis\<close>)
  next
    case 2 show ?thesis by (rule fin[OF o1 2])
  next
    case 3 show ?thesis by (rule fin[OF o2 3])
  next
    case 4 show ?thesis by (rule fin[OF _ 4]) (use q in simp)
  qed
qed

lemma thread_exit_inv:
  assumes inv: "kernel_inv k" and e: "thread_exit code k = Some k'"
  shows "kernel_inv k'"
proof -
  let ?c = "current_thread k"
  let ?k2 = "upd_thread ?c (\<lambda>t. t\<lparr>tstate := THREAD_DEATH, retcode := code\<rparr>) (enter_critical_section k)"
  obtain k3 where k3: "dpc_queue [] Thread_cleanup_dpc ?c DPC_FLAG_NORESCHED ?k2 = Some k3"
    and r: "resched [Thread_exit] k3 = Some k'"
    using e by (auto simp: thread_exit_def Let_def split: bind_splits)
  have q2: "queues_ok {} ?k2" by (rule leaves_queues) (use kernel_invD[OF inv] in \<open>simp_all add: unqueued_def\<close>)
  have st2: "same_timing k ?k2" by (rule same_timing_thread) (use kernel_invD(4)[OF inv] in simp_all)
  from k3 obtain h1 p where m: "malloc (kheap ?k2) SIZEOF_DPC = Some (h1, p)" "p \<noteq> 0"
    and s: "event_signal [Exit_critical_section, Return NO_ERROR] (dpc_event ?k2) False
      ((enter_critical_section (?k2\<lparr>kheap := h1, dpcs := (dpcs ?k2)(p := \<lparr>cb = Thread_cleanup_dpc, dpc_arg = ?c\<rparr>)\<rparr>))
        \<lparr>dpc_list := dpc_list ?k2 @ [p]\<rparr>) = Some k3"
    by (auto simp: dpc_queue_def DPC_FLAG_NORESCHED_def Let_def split: bind_splits if_splits)
  let ?k = "(enter_critical_section (?k2\<lparr>kheap := h1, dpcs := (dpcs ?k2)(p := \<lparr>cb = Thread_cleanup_dpc, dpc_arg = ?c\<rparr>)\<rparr>))
        \<lparr>dpc_list := dpc_list ?k2 @ [p]\<rparr>"
  have cur: "tstate (cur ?k) = THREAD_DEATH" "current_thread ?k = ?c" by (simp_all add: upd_thread_def)
  have st: "same_timing k ?k" using st2 by (simp add: same_timing_def enter_critical_section_def Let_def)
  have q: "queues_ok {} ?k" using q2 by simp
  have b: "tstate (cur ?k) \<notin> {THREAD_BLOCKED, THREAD_RUNNING}" using cur by simp
  note o = event_signal_quiet[OF q b s]
  have "same_timing k k3" using same_timing_trans[OF st] o by blast
  moreover have "queues_ok {} k3" "current_thread k3 = ?c" "tstate (cur k3) \<noteq> THREAD_RUNNING"
    using o b cur(2) by auto
  ultimately show ?thesis by (intro kernel_inv_resched[OF inv _ _ _ _ r])
qed

lemma dpc_queue_inv:
  assumes inv: "kernel_inv k" and d: "dpc_queue [] c arg flags k = Some k'"
  shows "kernel_inv k'"
proof -
  from d obtain h1 p b where s: "event_signal [Exit_critical_section, Return NO_ERROR] (dpc_event k) b
      ((enter_critical_section (k\<lparr>kheap := h1, dpcs := (dpcs k)(p := \<lparr>cb = c, dpc_arg = arg\<rparr>)\<rparr>))\<lparr>dpc_list := dpc_list k @ [p]\<rparr>) = Some k'"
    by (auto simp: dpc_queue_def Let_def split: bind_splits if_splits)
  show ?thesis
    by (rule event_signal_inv[OF inv _ _ _ s]) (use kernel_inv_ok[OF inv] in \<open>simp_all add: same_timing_def\<close>)
qed

end
