(* ===== verification/Lk_Kernel.thy ===== *)
theory Lk_Kernel
  imports Lk_Ktimers
begin

text \<open>
  The kernel as a state machine: \<open>kernel_step\<close> has a rule for every call a thread can make and
  for the timer interrupt, \<open>kernel_reach\<close> is what they lead to from the start-up state. The
  invariant of \<open>Lk_Ktimers\<close> holds in every reachable state; the properties of the scheduler,
  the timers, the wait queues, events and mutexes follow.
\<close>

section \<open>The step relation\<close>

text \<open>
  The premises are the rules the callers have to follow: a thread is resumed only when it is
  suspended, an event or mutex is initialised where no thread waits, a thread is created in memory
  that is no thread's with a priority in range, and is cleaned up when it is dead.
\<close>

inductive kernel_step :: "kernel \<Rightarrow> kernel \<Rightarrow> bool" where
  step_yield: "thread_yield [] k = Some k' \<Longrightarrow> kernel_step k k'"
| step_sleep: "thread_sleep delay k = Some k' \<Longrightarrow> kernel_step k k'"
| step_create: "thread_create name ent arg prio stk k = Some (k', t) \<Longrightarrow> t \<noteq> 0 \<Longrightarrow> t \<notin> set (thread_list k) \<Longrightarrow>
    0 \<le> prio \<Longrightarrow> prio < NUM_PRIORITIES \<Longrightarrow> kernel_step k k'"
| step_resume: "thread_resume t k = Some k' \<Longrightarrow> t \<in> set (thread_list k) \<Longrightarrow>
    tstate (threads k t) = THREAD_SUSPENDED \<Longrightarrow> kernel_step k k'"
| step_exit: "thread_exit code k = Some k' \<Longrightarrow> kernel_step k k'"
| step_cleanup: "thread_cleanup_dpc t k = Some k' \<Longrightarrow> tstate (threads k t) = THREAD_DEATH \<Longrightarrow>
    frames (threads k t) = [Thread_exit] \<Longrightarrow> kernel_step k k'"
| step_set_name: "kernel_step k (thread_set_name name k)"
| step_set_priority: "kernel_step k (thread_set_priority prio k)"
| step_become_idle: "kernel_step k (thread_become_idle k)"
| step_event_init: "wlist (wait_queues k (event_wait_queue e)) = [] \<Longrightarrow> kernel_step k (event_init e initial flags k)"
| step_event_destroy: "event_destroy e k = Some k' \<Longrightarrow> kernel_step k k'"
| step_event_wait: "event_wait_timeout e timeout k = Some k' \<Longrightarrow> kernel_step k k'"
| step_event_signal: "event_signal [] e reschedule k = Some k' \<Longrightarrow> kernel_step k k'"
| step_event_unsignal: "kernel_step k (event_unsignal e k)"
| step_mutex_init: "wlist (wait_queues k (mutex_wait_queue m)) = [] \<Longrightarrow> kernel_step k (mutex_init m k)"
| step_mutex_destroy: "mutex_destroy m k = Some k' \<Longrightarrow> kernel_step k k'"
| step_mutex_acquire: "mutex_acquire m k = Some k' \<Longrightarrow> kernel_step k k'"
| step_mutex_acquire_timeout: "mutex_acquire_timeout m timeout k = Some k' \<Longrightarrow> kernel_step k k'"
| step_mutex_release: "mutex_release m k = Some k' \<Longrightarrow> kernel_step k k'"
| step_dpc_queue: "dpc_queue [] c arg flags k = Some k' \<Longrightarrow> kernel_step k k'"
| step_tick: "ints_enabled k \<Longrightarrow> timer_interrupt now k = Some k' \<Longrightarrow> kernel_step k k'"

inductive_cases kernel_stepE: "kernel_step k k'"

text \<open>Memory before \<open>thread_init_early\<close>: no queue has a thread yet.\<close>

definition blank :: "kernel \<Rightarrow> bool" where
  "blank k \<longleftrightarrow> run_queue_bitmap k = 0 \<and> (\<forall>p. p < 0 \<or> NUM_PRIORITIES \<le> p \<longrightarrow> run_queue k p = []) \<and>
    (\<forall>w. wlist (wait_queues k w) = [] \<and> wcount (wait_queues k w) = 0) \<and> inj (stack_timer k)"

inductive kernel_reach :: "kernel \<Rightarrow> bool" where
  reach_start: "blank k \<Longrightarrow> kernel_reach (timer_init (thread_init_early b k))"
| reach_step: "kernel_reach k \<Longrightarrow> kernel_step k k' \<Longrightarrow> kernel_reach k'"

section \<open>The invariant holds in every reachable state\<close>

lemma kernel_inv_start:
  assumes "blank k"
  shows "kernel_inv (timer_init (thread_init_early b k))"
proof -
  let ?k = "timer_init (thread_init_early b k)"
  have f: "run_queue ?k = (\<lambda>_. [])" "run_queue_bitmap ?k = 0" "thread_list ?k = [b]" "current_thread ?k = b"
    "timer_queue ?k = []" "stack_timer ?k = stack_timer k" "wait_queues ?k = wait_queues k"
    "tstate (threads ?k b) = THREAD_RUNNING" "priority (threads ?k b) = 31" "frames (threads ?k b) = []"
    using assms by (auto simp: timer_init_def thread_init_early_def init_thread_struct_def upd_thread_def Let_def
        blank_def prio_defs fun_eq_iff)
  show ?thesis
    using assms unfolding kernel_inv_def kernel_ok_def queues_ok_defs timers_ok_defs f
    by (auto simp: blank_def prio_defs f)
qed

lemma kernel_step_inv: "kernel_step k k' \<Longrightarrow> kernel_inv k \<Longrightarrow> kernel_inv k'"
proof (induction rule: kernel_step.induct)
  case (step_set_name k name)
  have "same_timing k (thread_set_name name k)" unfolding thread_set_name_def by (rule same_timing_upd_thread) simp_all
  then show ?case using kernel_inv_stay[OF step_set_name] thread_set_name_ok[OF kernel_inv_ok[OF step_set_name]]
    by (simp add: thread_set_name_def)
next
  case (step_set_priority k prio)
  have "same_timing k (thread_set_priority prio k)"
    unfolding thread_set_priority_def Let_def by (rule same_timing_upd_thread) simp_all
  then show ?case using kernel_inv_stay[OF step_set_priority] thread_set_priority_ok[OF kernel_inv_ok[OF step_set_priority]]
    by (simp add: thread_set_priority_def Let_def)
next
  case (step_become_idle k)
  have "same_timing k (thread_become_idle k)" "current_thread (thread_become_idle k) = current_thread k"
    by (auto simp: thread_become_idle_def thread_set_priority_def thread_set_name_def upd_thread_def same_timing_def Let_def)
  then show ?case using kernel_inv_stay[OF step_become_idle] thread_become_idle_ok[OF kernel_inv_ok[OF step_become_idle]]
    by simp
next
  case (step_event_signal e reschedule k k')
  then show ?case by (auto intro: event_signal_inv[of k k] kernel_inv_ok)
qed (auto intro: thread_yield_inv thread_sleep_inv thread_create_inv thread_resume_inv thread_exit_inv thread_cleanup_inv
    event_init_inv event_destroy_inv event_wait_timeout_inv event_unsignal_inv mutex_init_inv mutex_destroy_inv
    mutex_acquire_inv mutex_acquire_timeout_inv mutex_release_inv dpc_queue_inv timer_interrupt_inv)

lemma kernel_reach_inv: "kernel_reach k \<Longrightarrow> kernel_inv k"
  by (induction rule: kernel_reach.induct) (auto intro: kernel_inv_start kernel_step_inv)

section \<open>Scheduling\<close>

text \<open>
  The fields a reschedule decides: who runs, and that no ready thread has a higher priority. The
  frames that run afterwards change neither states nor priorities.
\<close>

lemma run_frame_priority: "run_frame f k = Some k' \<Longrightarrow> priority (threads k' u) = priority (threads k u)"
  by (cases f) (auto simp: Let_def set_ret_def upd_defs timer_cancel_fields dec_critical_section_def)

lemma run_frame_list_priority:
  "run_frame_list fs k = Some k' \<Longrightarrow> priority (threads k' u) = priority (threads k u)"
  by (induction fs arbitrary: k) (auto dest: run_frame_priority split: bind_splits)

lemma resched_spec:
  assumes q: "queues_ok {} k" and r: "resched fs k = Some k'"
  obtains n where "current_thread k' = n" "thread_list k' = thread_list k" "n \<in> set (thread_list k)"
    "tstate (threads k n) = THREAD_READY" "hd (run_queue k (priority (threads k n))) = n"
    "\<And>u. tstate (threads k' u) = (if u = n then THREAD_RUNNING else tstate (threads k u))"
    "\<And>u. priority (threads k' u) = priority (threads k u)"
    "\<And>u. u \<in> set (thread_list k) \<Longrightarrow> tstate (threads k u) = THREAD_READY \<Longrightarrow>
       priority (threads k u) \<le> priority (threads k n)"
proof -
  let ?k = "upd_thread (current_thread k) (\<lambda>t. t\<lparr>frames := fs\<rparr>) k"
  obtain k1 where k1: "thread_resched ?k = Some k1" "run_frames k1 = Some k'"
    using r by (auto simp: resched_def split: bind_splits)
  have q1: "queues_ok {} ?k" by (rule queues_ok_keeps_place[OF q]) (simp add: keeps_place_def)
  have t: "tstate (threads ?k u) = tstate (threads k u)" "priority (threads ?k u) = priority (threads k u)" for u
    by (simp_all add: upd_thread_def)
  obtain n rest where n: "run_queue ?k (next_queue ?k) = n # rest" "current_thread k1 = n" "same_rest ?k k1"
      "\<And>u. tstate (threads k1 u) = (if u = n then THREAD_RUNNING else tstate (threads ?k u))"
      "\<And>u. priority (threads k1 u) = priority (threads ?k u)"
    by (rule thread_resched_fields[OF k1(1)]) blast
  have "n \<in> set (run_queue ?k (next_queue ?k))" using n(1) by simp
  then have nq: "n \<in> set (thread_list k)" "tstate (threads k n) = THREAD_READY" "priority (threads k n) = next_queue ?k"
    using q1 t by (auto simp: queues_ok_def run_queues_ok_def)
  have f: "same_states (upd_thread n (\<lambda>r. r\<lparr>frames := []\<rparr>) k1) k'"
    "\<And>u. priority (threads k' u) = priority (threads (upd_thread n (\<lambda>r. r\<lparr>frames := []\<rparr>) k1) u)"
    using k1(2) n(2) by (auto simp: run_frames_def Let_def dest: run_frame_list_states run_frame_list_priority)
  show thesis
  proof (rule that)
    show "current_thread k' = n" "thread_list k' = thread_list k"
      using f(1) n(2,3) by (simp_all add: same_states_def same_rest_def)
    show "n \<in> set (thread_list k)" "tstate (threads k n) = THREAD_READY" by (rule nq)+
    show "hd (run_queue k (priority (threads k n))) = n" using n(1) nq(3) by simp
    show "tstate (threads k' u) = (if u = n then THREAD_RUNNING else tstate (threads k u))" for u
      using f(1) n(4) t(1) by (simp add: same_states_def upd_thread_def)
    show "priority (threads k' u) = priority (threads k u)" for u
      using f(2) n(5) t(2) by (simp add: upd_thread_def)
    show "priority (threads k u) \<le> priority (threads k n)"
      if "u \<in> set (thread_list k)" "tstate (threads k u) = THREAD_READY" for u
      using thread_resched_picks(1)[OF q1 k1(1)] that t n(2) by simp
  qed
qed

lemma yield_queues:
  assumes "kernel_inv k"
  defines "K \<equiv> insert_in_run_queue_tail (current_thread k)
     (upd_thread (current_thread k) (\<lambda>t. t\<lparr>tstate := THREAD_READY, remaining_quantum := 0\<rparr>) (enter_critical_section k))"
  shows "queues_ok {} K" "thread_yield fs k = resched (Exit_critical_section # fs) K"
    "\<And>u. tstate (threads K u) = (if u = current_thread k then THREAD_READY else tstate (threads k u))"
    "\<And>u. priority (threads K u) = priority (threads k u)" "thread_list K = thread_list k"
    "run_queue K (priority (cur k)) = run_queue k (priority (cur k)) @ [current_thread k]"
proof -
  show "queues_ok {} K"
    unfolding K_def by (rule ready_at_tail) (use kernel_invD[OF assms(1)] in \<open>simp_all add: unqueued_def\<close>)
qed (simp_all add: K_def thread_yield_def Let_def upd_thread_def insert_in_run_queue_tail_def)

lemma yield_switches:
  assumes inv: "kernel_inv k" and y: "thread_yield fs k = Some k'"
    and u: "u \<in> set (thread_list k)" "tstate (threads k u) = THREAD_READY" "priority (cur k) \<le> priority (threads k u)"
  shows "current_thread k' \<noteq> current_thread k"
proof -
  let ?c = "current_thread k"
  note yq = yield_queues[OF inv]
  obtain n where n: "current_thread k' = n" "tstate (threads k n) = THREAD_READY \<or> n = ?c"
      "hd (run_queue (insert_in_run_queue_tail ?c (upd_thread ?c (\<lambda>t. t\<lparr>tstate := THREAD_READY, remaining_quantum := 0\<rparr>)
         (enter_critical_section k))) (priority (threads k n))) = n"
      "priority (threads k u) \<le> priority (threads k n)"
    by (rule resched_spec[OF yq(1) y[unfolded yq(2)]]) (use u yq(3,4,5) in \<open>auto split: if_splits\<close>)
  show ?thesis
  proof
    assume "current_thread k' = ?c"
    then have c: "n = ?c" using n(1) by simp
    then have p: "priority (threads k u) = priority (cur k)" using n(4) u(3) by simp
    have rq: "\<And>p t. t \<in> set (run_queue k p) \<longleftrightarrow> t \<in> set (thread_list k) \<and> tstate (threads k t) = THREAD_READY \<and> priority (threads k t) = p"
      using kernel_invD(1)[OF inv] by (auto simp: queues_ok_def run_queues_ok_def)
    have "u \<in> set (run_queue k (priority (cur k)))" "?c \<notin> set (run_queue k (priority (cur k)))"
      using rq u p kernel_invD(4)[OF inv] by auto
    then have "hd (run_queue k (priority (cur k)) @ [?c]) \<noteq> ?c" by (cases "run_queue k (priority (cur k))") auto
    then show False using n(3) yq(6) c by simp
  qed
qed

section \<open>Waking\<close>


section \<open>The tick\<close>

lemma fire_timer_fields:
  assumes "fire_timer tm k = Some (k', r)"
  shows "timers k' = timers k \<and> stack_timer k' = stack_timer k \<and> thread_list k' = thread_list k \<and>
    (\<forall>u. tstate (threads k' u) = tstate (threads k u) \<or> tstate (threads k' u) = THREAD_READY)"
  using assms
  by (auto simp: fire_timer_def thread_sleep_handler_def wait_queue_timeout_handler_def unblock_thread_def upd_defs
      queue_delete_def Let_def split: timer_callback.splits if_splits)

lemma tick_loop_fields:
  "tick_loop now k r = Some (k', r') \<Longrightarrow> timers k' = timers k \<and> stack_timer k' = stack_timer k \<and> thread_list k' = thread_list k \<and>
    (\<forall>u. tstate (threads k' u) = tstate (threads k u) \<or> tstate (threads k' u) = THREAD_READY)"
proof (induction now k r rule: tick_loop.induct)
  case (1 now k r)
  show ?case
  proof (cases "timer_queue k")
    case Nil then show ?thesis using "1.prems" by (simp add: tick_loop.simps)
  next
    case (Cons tm rest)
    show ?thesis
    proof (cases "now < scheduled_time (timers k tm)")
      case True then show ?thesis using "1.prems" Cons by (simp add: tick_loop.simps)
    next
      case False
      have eq: "tick_loop now k r = (case fire_timer tm (k\<lparr>timer_queue := rest\<rparr>) of None \<Rightarrow> None
          | Some (k1, r1) \<Rightarrow> tick_loop now k1 (if r1 = INT_RESCHEDULE then INT_RESCHEDULE else r))"
        by (subst tick_loop.simps) (simp add: Cons False)
      then obtain k1 r1 where f: "fire_timer tm (k\<lparr>timer_queue := rest\<rparr>) = Some (k1, r1)"
        and t: "tick_loop now k1 (if r1 = INT_RESCHEDULE then INT_RESCHEDULE else r) = Some (k', r')"
        using "1.prems" by (auto split: option.splits)
      show ?thesis using "1.IH"[OF Cons False f refl t] fire_timer_fields[OF f] by (auto) metis
    qed
  qed
qed

lemma timer_tick_fields:
  assumes "timer_tick now k = Some (k', r)"
  shows "timers k' = timers k \<and> stack_timer k' = stack_timer k \<and> thread_list k' = thread_list k \<and>
    (\<forall>u. tstate (threads k' u) = tstate (threads k u) \<or> tstate (threads k' u) = THREAD_READY)"
proof -
  obtain k1 r1 k2 q where l: "tick_loop now k INT_NO_RESCHEDULE = Some (k1, r1)" "thread_timer_tick k1 = (k2, q)" "k' = k2"
    using assms by (auto simp: timer_tick_def split: option.splits prod.splits)
  have "timers k2 = timers k1 \<and> stack_timer k2 = stack_timer k1 \<and> thread_list k2 = thread_list k1 \<and>
      (\<forall>u. tstate (threads k2 u) = tstate (threads k1 u))"
    using l(2) by (auto simp: thread_timer_tick_def Let_def upd_thread_def split: if_splits)
  then show ?thesis using tick_loop_fields[OF l(1)] l(3) by simp
qed

section \<open>An example\<close>

text \<open>
  Two threads of the same priority: the one at 8 runs, the one at 16 is in the state \<open>s\<close>, on the
  queue that belongs to it (the wait queue at 64, or the timer queue with the time 5).
\<close>

definition example_thread :: "thread_state \<Rightarrow> frame list \<Rightarrow> thread" where
  "example_thread s fs = \<lparr>tmagic = THREAD_MAGIC, tname = '''', priority = 16, tstate = s, saved_critical_section_count = 1,
     remaining_quantum = 5, blocking_wait_queue = (if s = THREAD_BLOCKED then 64 else 0), wait_queue_block_ret = 0,
     tstack = 0, stack_size = 0, tentry = 0, targ = 0, retcode = 0, frames = fs, ret = 0\<rparr>"

definition example_kernel :: "thread_state \<Rightarrow> kernel" where
  "example_kernel s = \<lparr>
     threads = (\<lambda>t. if t = 8 then example_thread THREAD_RUNNING [] else example_thread s [Exit_critical_section]),
     thread_list = [16, 8], current_thread = 8, idle_thread = 8, critical_section_count = 0, ints_enabled = True,
     run_queue = (\<lambda>p. if s = THREAD_READY \<and> p = 16 then [16] else []),
     run_queue_bitmap = (if s = THREAD_READY then prio_bit 16 else 0),
     timers = (\<lambda>_. \<lparr>timer_magic = TIMER_MAGIC, scheduled_time = 5, periodic_time = 0, callback = Thread_sleep_handler,
       timer_arg = 16\<rparr>),
     timer_queue = (if s = THREAD_SLEEPING then [20] else []),
     wait_queues = (\<lambda>w. if s = THREAD_BLOCKED \<and> w = 64 then \<lparr>wmagic = WAIT_QUEUE_MAGIC, wlist = [16], wcount = 1\<rparr>
       else \<lparr>wmagic = WAIT_QUEUE_MAGIC, wlist = [], wcount = 0\<rparr>),
     events = (\<lambda>_. \<lparr>emagic = EVENT_MAGIC, signalled = False, eflags = EVENT_FLAG_AUTOUNSIGNAL\<rparr>),
     mutexes = (\<lambda>_. \<lparr>mmagic = MUTEX_MAGIC, mcount = 0, holder = 0\<rparr>),
     dpcs = (\<lambda>_. \<lparr>cb = Other_dpc 0, dpc_arg = 0\<rparr>), dpc_list = [], dpc_event = 96,
     kheap = \<lparr>base = 0, hlen = 0, free_list = 0, fnodes = \<lparr>prv = (\<lambda>_. 0), nxt = (\<lambda>_. 0)\<rparr>, clen = (\<lambda>_. 0),
       hdr = (\<lambda>_. \<lparr>magic = 0, aptr = 0, asize = 0\<rparr>)\<rparr>,
     clock = 0, stack_timer = (\<lambda>t. t + 4)\<rparr>"

lemma example_inv:
  assumes "s \<in> {THREAD_SUSPENDED, THREAD_READY, THREAD_BLOCKED, THREAD_SLEEPING}"
  shows "kernel_inv (example_kernel s)"
proof -
  have "inj (\<lambda>t :: ptr. t + 4)" by (simp add: inj_def)
  moreover have "run_queues_ok {} (example_kernel s)" "wait_queues_ok {} (example_kernel s)" "threads_ok {} (example_kernel s)"
    using assms by (auto simp: run_queues_ok_def wait_queues_ok_def threads_ok_def example_kernel_def example_thread_def prio_defs)
  moreover have "bitmap_ok (example_kernel s)"
    using assms by (auto simp: bitmap_ok_def example_kernel_def prio_defs bit_prio_bit)
  ultimately show ?thesis
    using assms unfolding kernel_inv_def kernel_ok_def queues_ok_def
    by (auto simp: timers_ok_defs example_kernel_def example_thread_def)
qed

definition blank_kernel :: kernel where
  "blank_kernel = (example_kernel THREAD_SUSPENDED)\<lparr>thread_list := [], current_thread := 0\<rparr>"

lemma example_reach: "kernel_reach (timer_init (thread_init_early 8 blank_kernel))"
  by (rule reach_start) (auto simp: blank_def blank_kernel_def example_kernel_def prio_defs inj_def)

section \<open>Properties\<close>

text \<open>
  C1: in every reachable state every thread is where its state says. A ready thread is on the run
  queue of its priority, once, and no other thread is on a run queue; a blocked thread is on the
  wait queue it is blocked on, and no other thread is on a wait queue; the bitmap has exactly the
  bits of the non-empty run queues; each wait queue counts its threads; exactly one thread runs.
\<close>

theorem kernel_queues_consistent:
  assumes "kernel_reach k"
  shows "(\<forall>p. distinct (run_queue k p)) \<and>
    (\<forall>p t. t \<in> set (run_queue k p) \<longleftrightarrow> t \<in> set (thread_list k) \<and> tstate (threads k t) = THREAD_READY \<and> priority (threads k t) = p) \<and>
    (\<forall>p. 0 \<le> p \<and> p < NUM_PRIORITIES \<longrightarrow> (bit (run_queue_bitmap k) (nat p) \<longleftrightarrow> run_queue k p \<noteq> [])) \<and>
    (\<forall>w. distinct (wlist (wait_queues k w)) \<and> wcount (wait_queues k w) = int (length (wlist (wait_queues k w)))) \<and>
    (\<forall>w t. t \<in> set (wlist (wait_queues k w)) \<longleftrightarrow> t \<in> set (thread_list k) \<and> tstate (threads k t) = THREAD_BLOCKED
       \<and> blocking_wait_queue (threads k t) = w) \<and>
    (\<forall>t \<in> set (thread_list k). tstate (threads k t) = THREAD_RUNNING \<longleftrightarrow> t = current_thread k)"
proof -
  have inv: "kernel_inv k" by (rule kernel_reach_inv[OF assms])
  have "run_queues_ok {} k" "bitmap_ok k" "wait_queues_ok {} k" "threads_ok {} k" "tstate (cur k) = THREAD_RUNNING"
    using kernel_invD[OF inv] by (auto simp: queues_ok_def)
  then show ?thesis unfolding run_queues_ok_def bitmap_ok_def wait_queues_ok_def threads_ok_def by blast
qed

theorem kernel_queues_consistent_witness:
  "kernel_reach (timer_init (thread_init_early 8 blank_kernel)) \<and>
   distinct (run_queue (timer_init (thread_init_early 8 blank_kernel)) 16)"
  using example_reach kernel_queues_consistent[OF example_reach] by blast



text \<open>
  C3: a timer tick in any state that keeps the invariant succeeds, leaves no due timer on the
  queue, and has made ready every sleeping thread whose time has come.
\<close>

theorem timer_tick_wakes_sleepers:
  assumes "kernel_inv k"
  shows "\<exists>k'. timer_tick now k = Some (k', INT_RESCHEDULE) \<and> kernel_inv k' \<and>
    (\<forall>tm \<in> set (timer_queue k'). now < scheduled_time (timers k tm)) \<and>
    (\<forall>t \<in> set (thread_list k). tstate (threads k t) = THREAD_SLEEPING \<and> scheduled_time (timers k (stack_timer k t)) \<le> now
       \<longrightarrow> tstate (threads k' t) = THREAD_READY)"
proof -
  obtain k' where k': "timer_tick now k = Some (k', INT_RESCHEDULE)" "kernel_inv k'"
    "\<forall>tm \<in> set (timer_queue k'). now < scheduled_time (timers k' tm)"
    using timer_tick_inv[OF assms] by blast
  note f = timer_tick_fields[OF k'(1)]
  have "tstate (threads k' t) = THREAD_READY"
    if t: "t \<in> set (thread_list k)" "tstate (threads k t) = THREAD_SLEEPING" "scheduled_time (timers k (stack_timer k t)) \<le> now" for t
  proof (rule ccontr)
    assume "tstate (threads k' t) \<noteq> THREAD_READY"
    then have "tstate (threads k' t) = THREAD_SLEEPING" using f t(2) by metis
    then have "stack_timer k t \<in> set (timer_queue k')" using k'(2) f t(1) by (auto simp: kernel_inv_def timers_ok_def)
    then show False using k'(3) f t(3) by auto
  qed
  then show ?thesis using k' f by auto
qed

theorem timer_tick_wakes_sleepers_witness:
  "\<exists>k'. timer_tick 7 (example_kernel THREAD_SLEEPING) = Some (k', INT_RESCHEDULE) \<and> tstate (threads k' 16) = THREAD_READY"
proof -
  have "kernel_inv (example_kernel THREAD_SLEEPING)" by (rule example_inv) simp
  from timer_tick_wakes_sleepers[OF this, of 7] show ?thesis by (auto simp: example_kernel_def example_thread_def)
qed

text \<open>
  A yield hands the processor to a thread of the highest priority any ready thread has. The
  thread that runs afterwards is at least as urgent as every ready one, and if another ready
  thread is as urgent as the caller, the caller is not the one that goes on.
\<close>

lemma yield_schedules:
  assumes "kernel_inv k" and "thread_yield [] k = Some k'"
  shows "(\<forall>u \<in> set (thread_list k'). tstate (threads k' u) = THREAD_READY \<longrightarrow> priority (threads k' u) \<le> priority (cur k')) \<and>
    ((\<exists>u \<in> set (thread_list k). tstate (threads k u) = THREAD_READY \<and> priority (cur k) \<le> priority (threads k u)) \<longrightarrow>
       current_thread k' \<noteq> current_thread k)"
proof (intro conjI)
  note yq = yield_queues[OF assms(1)]
  show "\<forall>u \<in> set (thread_list k'). tstate (threads k' u) = THREAD_READY \<longrightarrow> priority (threads k' u) \<le> priority (cur k')"
    by (rule resched_spec[OF yq(1) assms(2)[unfolded yq(2)]]) (metis thread_state.distinct(9))
  show "(\<exists>u \<in> set (thread_list k). tstate (threads k u) = THREAD_READY \<and> priority (cur k) \<le> priority (threads k u)) \<longrightarrow>
       current_thread k' \<noteq> current_thread k"
    using yield_switches[OF assms] by blast
qed

lemma example_clz: "builtin_clz (prio_bit 16) = 15" "prio_bit 16 \<noteq> 0" "prio_bit 16 OR prio_bit 16 = prio_bit 16"
  by (simp_all add: builtin_clz_def prio_bit_def bit_simps upt_conv_Cons)

lemma example_yield: "\<exists>k'. thread_yield [] (example_kernel THREAD_READY) = Some k'"
  by (simp add: thread_yield_def resched_def thread_resched_def run_frames_def next_queue_def insert_in_run_queue_tail_def
      upd_thread_def example_kernel_def example_thread_def prio_defs example_clz Let_def enter_critical_section_def)

text \<open>
  Setting a timer puts it on the queue after every timer that is due at the same time or
  earlier and before every later one, so that timers of the same time fire in the order they were
  set.
\<close>

lemma timer_set_order:
  assumes "kernel_inv k" and "timer_set_oneshot tm delay cbk arg k = Some k'"
  shows "tm \<notin> set (timer_queue k) \<and> scheduled_time (timers k' tm) = clock k + delay \<and>
    timer_queue k' = filter (\<lambda>e. scheduled_time (timers k e) \<le> clock k + delay) (timer_queue k) @ tm #
      filter (\<lambda>e. clock k + delay < scheduled_time (timers k e)) (timer_queue k)"
proof -
  have tm: "tm \<notin> set (timer_queue k)" using assms(2) by (auto simp: timer_set_oneshot_def split: if_splits)
  let ?r = "(timers k tm)\<lparr>scheduled_time := clock k + delay, periodic_time := 0, callback := cbk, timer_arg := arg\<rparr>"
  have t: "timers k' = (timers k)(tm := ?r)"
    and q: "timer_queue k' = insert_before_later (\<lambda>e. scheduled_time (timers k' e)) tm (timer_queue k)"
    using assms(2) by (auto simp: timer_set_oneshot_def insert_timer_in_queue_def upd_timer_def Let_def split: if_splits)
  have old: "scheduled_time (timers k' e) = scheduled_time (timers k e)" if "e \<in> set (timer_queue k)" for e
    using that tm t by auto
  have "sorted_wrt (\<lambda>a b. scheduled_time (timers k' a) \<le> scheduled_time (timers k' b)) (timer_queue k)"
    by (rule sorted_wrt_mono_rel[of _ "\<lambda>a b. scheduled_time (timers k a) \<le> scheduled_time (timers k b)"])
       (use assms(1) old in \<open>auto simp: kernel_inv_def timers_ok_def\<close>)
  from insert_before_later_split[OF this, of tm] show ?thesis
    using tm t q old by (simp cong: filter_cong)
qed

lemma timer_set_order_example:
  "\<exists>k'. timer_set_oneshot 12 5 No_callback 0 (example_kernel THREAD_SLEEPING) = Some k' \<and> timer_queue k' = [20, 12]"
proof -
  let ?k = "example_kernel THREAD_SLEEPING"
  have inv: "kernel_inv ?k" by (rule example_inv) simp
  obtain k' where k': "timer_set_oneshot 12 5 No_callback 0 ?k = Some k'"
    by (simp add: timer_set_oneshot_def example_kernel_def)
  from timer_set_order[OF inv k'] show ?thesis using k' by (simp add: example_kernel_def)
qed



text \<open>
  C26: an auto-unsignalling event that is signalled while nobody waits stays signalled until the
  next wait, which returns at once with no error and takes the signal: the wait neither blocks nor
  switches threads, and every critical section entered on the way was left.
\<close>

theorem event_signal_then_wait:
  assumes "\<not> signalled (events k e)" and "eflags (events k e) AND EVENT_FLAG_AUTOUNSIGNAL \<noteq> 0"
    and "wlist (wait_queues k (event_wait_queue e)) = []"
  shows "\<exists>k1 k2. event_signal [] e reschedule k = Some k1 \<and> signalled (events k1 e) \<and>
    event_wait e k1 = Some k2 \<and> \<not> signalled (events k2 e) \<and> ret (cur k2) = NO_ERROR \<and>
    current_thread k2 = current_thread k \<and> critical_section_count k2 = critical_section_count k \<and>
    (\<forall>t. tstate (threads k2 t) = tstate (threads k t))"
proof -
  let ?k1 = "set_ret NO_ERROR (exit_critical_section (upd_event e (\<lambda>x. x\<lparr>signalled := True\<rparr>) (enter_critical_section k)))"
  have s: "event_signal [] e reschedule k = Some ?k1"
    using assms by (simp add: event_signal_def wait_queue_wake_one_def Let_def)
  have e1: "events ?k1 e = (events k e)\<lparr>signalled := True\<rparr>" by (simp add: set_ret_def upd_defs)
  let ?k2 = "set_ret NO_ERROR (exit_critical_section (upd_event e (\<lambda>x. x\<lparr>signalled := False\<rparr>) (enter_critical_section ?k1)))"
  have "event_wait e ?k1 = Some ?k2"
    using assms(2) e1 by (simp add: event_wait_def event_wait_timeout_def Let_def)
  moreover have "\<not> signalled (events ?k2 e)" "ret (cur ?k2) = NO_ERROR" "current_thread ?k2 = current_thread k"
    "critical_section_count ?k2 = critical_section_count k" "\<forall>t. tstate (threads ?k2 t) = tstate (threads k t)"
    by (simp_all add: set_ret_def upd_defs enter_eq exit_eq)
  ultimately show ?thesis using s e1 by (intro exI[of _ ?k1] exI[of _ ?k2]) simp
qed

theorem event_signal_then_wait_witness:
  "\<exists>k1 k2. event_signal [] 32 True (example_kernel THREAD_READY) = Some k1 \<and> event_wait 32 k1 = Some k2 \<and>
    ret (cur k2) = NO_ERROR \<and> current_thread k2 = 8"
proof -
  have "\<not> signalled (events (example_kernel THREAD_READY) 32)"
    "eflags (events (example_kernel THREAD_READY) 32) AND EVENT_FLAG_AUTOUNSIGNAL \<noteq> 0"
    "wlist (wait_queues (example_kernel THREAD_READY) (event_wait_queue 32)) = []"
    by (simp_all add: example_kernel_def EVENT_FLAG_AUTOUNSIGNAL_def)
  from event_signal_then_wait[OF this, of True] show ?thesis by (auto simp: example_kernel_def)
qed

text \<open>
  C7: a mutex is not recursive and only its holder releases it: acquiring a mutex one holds and
  releasing one that one does not hold panic. An uncontended mutex is acquired at once, and
  releasing it leaves it as it was, free for the next.
\<close>

theorem mutex_protocol:
  shows "(current_thread k = holder (mutexes k m) \<longrightarrow> mutex_acquire m k = None) \<and>
    (current_thread k \<noteq> holder (mutexes k m) \<longrightarrow> mutex_release m k = None) \<and>
    (current_thread k \<noteq> holder (mutexes k m) \<and> mcount (mutexes k m) = 0 \<longrightarrow>
      (\<exists>k1 k2. mutex_acquire m k = Some k1 \<and> holder (mutexes k1 m) = current_thread k \<and> mcount (mutexes k1 m) = 1 \<and>
        ret (cur k1) = NO_ERROR \<and> mutex_release m k1 = Some k2 \<and> holder (mutexes k2 m) = 0 \<and> mcount (mutexes k2 m) = 0 \<and>
        current_thread k2 = current_thread k \<and> critical_section_count k2 = critical_section_count k))"
proof (intro conjI impI)
  assume a: "current_thread k \<noteq> holder (mutexes k m) \<and> mcount (mutexes k m) = 0"
  let ?k1 = "set_ret NO_ERROR (exit_critical_section (upd_mutex m (\<lambda>x. x\<lparr>holder := current_thread k\<rparr>)
    (upd_mutex m (\<lambda>x. x\<lparr>mcount := mcount x + 1\<rparr>) (enter_critical_section k))))"
  have 1: "mutex_acquire m k = Some ?k1"
    using a by (simp add: mutex_acquire_def Let_def) (simp add: upd_mutex_def)
  have h: "holder (mutexes ?k1 m) = current_thread k" "mcount (mutexes ?k1 m) = 1" "ret (cur ?k1) = NO_ERROR"
    "current_thread ?k1 = current_thread k"
    using a by (simp_all add: set_ret_def upd_defs)
  let ?k2 = "set_ret NO_ERROR (exit_critical_section (upd_mutex m (\<lambda>x. x\<lparr>holder := 0, mcount := mcount x - 1\<rparr>)
    (enter_critical_section ?k1)))"
  have c: "mcount (mutexes (upd_mutex m (\<lambda>x. x\<lparr>holder := 0, mcount := mcount x - 1\<rparr>) (enter_critical_section ?k1)) m) = 0"
    using h(2) by (simp add: upd_mutex_def)
  have "mutex_release m ?k1 = Some ?k2"
    using h(1,4) c by (simp add: mutex_release_def Let_def)
  moreover have "holder (mutexes ?k2 m) = 0" "mcount (mutexes ?k2 m) = 0" "current_thread ?k2 = current_thread k"
    "critical_section_count ?k2 = critical_section_count k"
    using a by (simp_all add: set_ret_def upd_defs enter_eq exit_eq)
  ultimately show "\<exists>k1 k2. mutex_acquire m k = Some k1 \<and> holder (mutexes k1 m) = current_thread k \<and> mcount (mutexes k1 m) = 1 \<and>
        ret (cur k1) = NO_ERROR \<and> mutex_release m k1 = Some k2 \<and> holder (mutexes k2 m) = 0 \<and> mcount (mutexes k2 m) = 0 \<and>
        current_thread k2 = current_thread k \<and> critical_section_count k2 = critical_section_count k"
    using 1 h by blast
qed (simp_all add: mutex_acquire_def mutex_release_def)

theorem mutex_protocol_witness:
  "\<exists>k1. mutex_acquire 32 (example_kernel THREAD_READY) = Some k1 \<and> holder (mutexes k1 32) = 8"
  using mutex_protocol[of "example_kernel THREAD_READY" 32] by (auto simp: example_kernel_def)






end
