(* ===== verification/Lk_Reg.thy ===== *)
theory Lk_Reg
  imports Lk_Mem
begin

text \<open>
  Memory-mapped registers (\<open>include/reg.h\<close>). The devices behind the registers are not part of the
  program: they are a parameter, a \<open>bus\<close> that says what a read or a write of a register does to
  the byte memory (a device may transfer data by itself) and to the state of the devices. The
  theory also holds the arrays of words that drivers write into memory for the devices to read.
\<close>

section \<open>Register access\<close>

type_synonym 'hw machine = "mem \<times> 'hw"

record 'hw bus =
  bus_read :: "ptr \<Rightarrow> 'hw machine \<Rightarrow> u32 \<times> 'hw machine"
  bus_write :: "ptr \<Rightarrow> u32 \<Rightarrow> 'hw machine \<Rightarrow> 'hw machine"

definition readl :: "'hw bus \<Rightarrow> ptr \<Rightarrow> 'hw machine \<Rightarrow> u32 \<times> 'hw machine" where
  "readl b a mc = bus_read b a mc"

definition writel :: "'hw bus \<Rightarrow> u32 \<Rightarrow> ptr \<Rightarrow> 'hw machine \<Rightarrow> 'hw machine" where
  "writel b v a mc = bus_write b a v mc"

section \<open>Arrays of words in memory\<close>

definition store_words :: "mem \<Rightarrow> ptr \<Rightarrow> u32 list \<Rightarrow> mem" where
  "store_words m p ws = wr m p (concat (map word_bytes ws))"

lemma length_words [simp]: "length (concat (map word_bytes ws)) = 4 * length ws"
  by (induction ws) simp_all

lemma store_words_Nil [simp]: "store_words m p [] = m"
  by (simp add: store_words_def)

lemma store_words_Cons: "store_words m p (w # ws) = store_words (store32 m p w) (p + 4) ws"
  by (simp add: store_words_def store32_def wr_append)

lemma store32_words: "store32 m p w = store_words m p [w]"
  by (simp add: store_words_Cons)

lemma load32_bytes: "rd m p 4 = word_bytes w \<Longrightarrow> load32 m p = w"
proof -
  assume "rd m p 4 = word_bytes w"
  then have "word_bytes (load32 m p) = word_bytes w" by (simp add: word_bytes_load32)
  then have b: "ucast (load32 m p) = (ucast w :: u8)"
    "ucast (drop_bit 8 (load32 m p)) = (ucast (drop_bit 8 w) :: u8)"
    "ucast (drop_bit 16 (load32 m p)) = (ucast (drop_bit 16 w) :: u8)"
    "ucast (drop_bit 24 (load32 m p)) = (ucast (drop_bit 24 w) :: u8)"
    by (simp_all add: word_bytes_def)
  show ?thesis
  proof (rule bit_word_eqI)
    fix n
    assume "n < LENGTH(32)"
    then consider "n < 8" | "8 \<le> n" "n < 16" | "16 \<le> n" "n < 24" | "24 \<le> n" "n < 32"
      by fastforce
    then show "bit (load32 m p) n = bit w n"
    proof cases
      case 1
      then show ?thesis using arg_cong [OF b(1), of "\<lambda>x. bit x n"] by (simp add: bit_simps)
    next
      case 2
      then show ?thesis using arg_cong [OF b(2), of "\<lambda>x. bit x (n - 8)"]
        by (simp add: bit_simps less_diff_conv2)
    next
      case 3
      then show ?thesis using arg_cong [OF b(3), of "\<lambda>x. bit x (n - 16)"]
        by (simp add: bit_simps less_diff_conv2)
    next
      case 4
      then show ?thesis using arg_cong [OF b(4), of "\<lambda>x. bit x (n - 24)"]
        by (simp add: bit_simps less_diff_conv2)
    qed
  qed
qed

text \<open>Reading back a word that was written, and reading past other writes.\<close>

lemma load32_store32 [simp]: "load32 (store32 m p w) p = w"
  using rd_wr_same [of "word_bytes w" m p] by (intro load32_bytes) (simp add: store32_def)

lemma load32_store_words:
  assumes "i < length ws" and "4 * length ws \<le> 2 ^ 32"
  shows "load32 (store_words m p ws) (p + of_nat (4 * i)) = ws ! i"
proof (rule load32_bytes)
  let ?bs = "concat (map word_bytes ws)"
  have all: "rd (wr m p ?bs) p (length ?bs) = ?bs" using assms by (intro rd_wr_same) simp
  have ws: "ws = take i ws @ ws ! i # drop (Suc i) ws"
    using assms(1) by (rule id_take_nth_drop)
  have len: "length ?bs = 4 * i + (4 + (4 * length ws - 4 * i - 4))" using assms(1) by simp
  have "?bs = concat (map word_bytes (take i ws)) @ word_bytes (ws ! i)
      @ concat (map word_bytes (drop (Suc i) ws))"
    by (subst ws) simp
  with all show "rd (store_words m p ws) (p + of_nat (4 * i)) 4 = word_bytes (ws ! i)"
    unfolding len rd_add store_words_def using assms(1) by (simp add: append_eq_append_conv)
qed

lemma load32_words_sep: "sep p 4 q (4 * length ws) \<Longrightarrow> load32 (store_words m q ws) p = load32 m p"
  using rd_wr_sep [of p 4 q "concat (map word_bytes ws)" m]
  by (intro load32_bytes) (simp add: store_words_def word_bytes_load32)

lemma load32_store32_sep: "sep p 4 q 4 \<Longrightarrow> load32 (store32 m q w) p = load32 m p"
  by (simp add: store32_words load32_words_sep)

lemma load32_upd: "4 \<le> unat (a - p) \<Longrightarrow> load32 (m(a := x)) p = load32 m p"
  by (rule load32_bytes) (simp add: rd_upd_sep word_bytes_load32)

lemma store32_other: "4 \<le> unat (q - p) \<Longrightarrow> store32 m p w q = m q"
  by (simp add: store32_def wr_other)

lemma store_words_other: "4 * length ws \<le> unat (q - p) \<Longrightarrow> store_words m p ws q = m q"
  by (simp add: store_words_def wr_other)

text \<open>A part of a range is as separate as the whole.\<close>

lemma sep_sub:
  assumes "sep p n q k" and "off + len \<le> k" and "0 < len"
  shows "sep p n (q + of_nat off) len"
proof (cases "p = q")
  case True
  with assms show ?thesis by (simp add: sep_def)
next
  case False
  from assms have k: "off + len \<le> unat (p - q)" and n: "n \<le> unat (q - p)" by (simp_all add: sep_def)
  have "unat (p - (q + of_nat off)) = unat (p - q) - off" using k by (intro unat_diff_retreat) simp
  moreover have "unat (q - p) + unat (p - q) = 2 ^ 32" using False by (intro unat_diff_swap) simp
  then have "unat (q + of_nat off - p) = unat (q - p) + off"
    using k assms(3) by (intro unat_diff_advance) simp
  ultimately show ?thesis using k n by (simp add: sep_def)
qed

lemma sep_after:
  fixes p :: ptr
  assumes "n \<le> j" and "j + k \<le> 2 ^ 32" and "0 < j" and "0 < k"
  shows "sep p n (p + of_nat j) k"
proof -
  have j: "unat (p + of_nat j - p) = j" using assms by (simp add: unat_of_nat_u32)
  then have "p + of_nat j \<noteq> p" using assms(3) by (metis diff_self unat_0 less_irrefl)
  then have "unat (p - (p + of_nat j)) = 2 ^ 32 - j"
    using unat_diff_swap [of "p + of_nat j" p] j by linarith
  with j assms show ?thesis unfolding sep_def by linarith
qed

lemma sep_before:
  "n \<le> j \<Longrightarrow> j + k \<le> 2 ^ 32 \<Longrightarrow> 0 < j \<Longrightarrow> 0 < k \<Longrightarrow> sep ((p :: ptr) + of_nat j) k p n"
  using sep_after [of n j k p] by (simp add: sep_sym)

lemma cstr_wr_apart: "cstr m p xs \<Longrightarrow> sep p (length xs + 1) q (length ys) \<Longrightarrow> cstr (wr m q ys) p xs"
  by (rule cstr_cong) (auto simp: wr_other sep_unat)

lemma cstr_store32_sep: "cstr m p xs \<Longrightarrow> sep p (length xs + 1) q 4 \<Longrightarrow> cstr (store32 m q w) p xs"
  by (simp add: store32_def cstr_wr_apart)

lemma cstr_upd_sep: "cstr m p xs \<Longrightarrow> sep p (length xs + 1) q 1 \<Longrightarrow> cstr (m(q := x)) p xs"
  using cstr_wr_apart [of m p xs q "[x]"] by simp

lemma unat_below:
  fixes p :: ptr
  assumes "a < b" and "b < 2 ^ 32"
  shows "unat (p + of_nat a - (p + of_nat b)) = 2 ^ 32 - (b - a)"
proof -
  have d: "unat (p + of_nat b - (p + of_nat a)) = b - a"
    using assms unat_diff_retreat [of a "p + of_nat b" p] by (simp add: unat_of_nat_u32)
  then have "p + of_nat a \<noteq> p + of_nat b" using assms(1) by (metis diff_self unat_0 zero_less_diff less_irrefl)
  then show ?thesis using unat_diff_swap [of "p + of_nat a" "p + of_nat b"] d by linarith
qed

lemma unat_above:
  fixes p :: ptr
  assumes "a \<le> b" and "b < 2 ^ 32"
  shows "unat (p + of_nat b - (p + of_nat a)) = b - a"
  using assms unat_diff_retreat [of a "p + of_nat b" p] by (simp add: unat_of_nat_u32)

lemma load32_cong: "rd m' p 4 = rd m p 4 \<Longrightarrow> load32 m' p = load32 m p"
  by (rule load32_bytes) (simp add: word_bytes_load32)

end
