(* ===== verification/Lk_Nand.thy ===== *)
theory Lk_Nand
  imports Lk_Reg Lk_Heap
begin

text \<open>
  The NAND driver of \<open>platform/msm_shared/nand_wince.c\<close>: for each operation (read the device id,
  look for the bad block mark, erase a block, read a page, write a page, mark a block bad, read
  the configuration) the driver writes a block of register values and a list of data mover
  commands into memory, starts the data mover and looks at the status words it finds in memory
  afterwards. The data mover and the NAND controller are behind the \<open>bus\<close> of \<open>Lk_Reg\<close>.
  \<open>None\<close> stands for a failed assertion, a division by zero and a data mover that never answers.
\<close>

section \<open>The data mover (dmov.h)\<close>

named_theorems nand_consts
  \<comment> \<open>the constants of the two headers\<close>

definition CMD_LC :: u32 where [nand_consts]: "CMD_LC = push_bit 31 1"

definition CMD_OCU :: u32 where [nand_consts]: "CMD_OCU = push_bit 21 1"

definition CMD_OCB :: u32 where [nand_consts]: "CMD_OCB = push_bit 20 1"

definition CMD_PTR_LP :: u32 where [nand_consts]: "CMD_PTR_LP = push_bit 31 1"

definition DMOV_CMD_PTR_LIST :: u32 where [nand_consts]: "DMOV_CMD_PTR_LIST = push_bit 29 1"

definition DMOV_STATUS_RSLT_VALID :: u32 where [nand_consts]: "DMOV_STATUS_RSLT_VALID = push_bit 1 1"

definition DMOV_NAND_CHAN :: u32 where [nand_consts]: "DMOV_NAND_CHAN = 7"

definition DMOV_NAND_CRCI_CMD :: u32 where [nand_consts]: "DMOV_NAND_CRCI_CMD = 5"

definition DMOV_NAND_CRCI_DATA :: u32 where [nand_consts]: "DMOV_NAND_CRCI_DATA = 4"

definition CMD_DST_CRCI :: "u32 \<Rightarrow> u32" where [nand_consts]: "CMD_DST_CRCI n = push_bit 7 (n AND 15)"

definition CMD_SRC_CRCI :: "u32 \<Rightarrow> u32" where [nand_consts]: "CMD_SRC_CRCI n = push_bit 3 (n AND 15)"

definition MSM_DMOV_BASE :: u32 where [nand_consts]: "MSM_DMOV_BASE = 0xA9700000"

definition DMOV_SD3 :: "u32 \<Rightarrow> u32 \<Rightarrow> u32" where [nand_consts]:
  "DMOV_SD3 off ch = MSM_DMOV_BASE + 0x0C00 + off + push_bit 2 ch"

definition DMOV_CMD_PTR :: "u32 \<Rightarrow> u32" where [nand_consts]: "DMOV_CMD_PTR ch = DMOV_SD3 0x000 ch"

definition DMOV_CMD_ADDR :: "u32 \<Rightarrow> u32" where [nand_consts]: "DMOV_CMD_ADDR a = drop_bit 3 a"

definition DMOV_RSLT :: "u32 \<Rightarrow> u32" where [nand_consts]: "DMOV_RSLT ch = DMOV_SD3 0x040 ch"

definition DMOV_FLUSH0 :: "u32 \<Rightarrow> u32" where [nand_consts]: "DMOV_FLUSH0 ch = DMOV_SD3 0x080 ch"

definition DMOV_FLUSH1 :: "u32 \<Rightarrow> u32" where [nand_consts]: "DMOV_FLUSH1 ch = DMOV_SD3 0x0C0 ch"

definition DMOV_FLUSH2 :: "u32 \<Rightarrow> u32" where [nand_consts]: "DMOV_FLUSH2 ch = DMOV_SD3 0x100 ch"

definition DMOV_FLUSH3 :: "u32 \<Rightarrow> u32" where [nand_consts]: "DMOV_FLUSH3 ch = DMOV_SD3 0x140 ch"

definition DMOV_STATUS :: "u32 \<Rightarrow> u32" where [nand_consts]: "DMOV_STATUS ch = DMOV_SD3 0x200 ch"

definition DMOV_CONFIG :: "u32 \<Rightarrow> u32" where [nand_consts]: "DMOV_CONFIG ch = DMOV_SD3 0x300 ch"

definition DMOV_STATUS_RSLT_COUNT :: "u32 \<Rightarrow> u32" where [nand_consts]:
  "DMOV_STATUS_RSLT_COUNT n = drop_bit 29 n"

record dmov_s =
  dm_cmd :: u32
  dm_src :: u32
  dm_dst :: u32
  dm_len :: u32

record dmov_ch =
  ch_cmd :: u32
  ch_result :: u32
  ch_status :: u32
  ch_config :: u32

definition dmov_prep_ch :: "u32 \<Rightarrow> dmov_ch" where
  "dmov_prep_ch chan = \<lparr> ch_cmd = DMOV_CMD_PTR chan, ch_result = DMOV_RSLT chan,
     ch_status = DMOV_STATUS chan, ch_config = DMOV_CONFIG chan \<rparr>"

text \<open>Wait for a result; this loop may run forever.\<close>

partial_function (option) dmov_wait :: "'hw bus \<Rightarrow> dmov_ch \<Rightarrow> 'hw machine \<Rightarrow> 'hw machine option" where
  "dmov_wait b ch mc =
    (let (v, mc1) = readl b (ch_status ch) mc
     in if v AND DMOV_STATUS_RSLT_VALID = 0 then dmov_wait b ch mc1 else Some mc1)"

text \<open>
  Take results off the queue while the status \<open>n\<close> counts any. A result other than a completed
  list ends it, after the flush state is read for the message, and leaves the rest on the queue.
\<close>

partial_function (option) dmov_drain ::
    "'hw bus \<Rightarrow> dmov_ch \<Rightarrow> u32 \<Rightarrow> 'hw machine \<Rightarrow> (int \<times> 'hw machine) option" where
  "dmov_drain b ch n mc =
    (if DMOV_STATUS_RSLT_COUNT n = 0 then Some (0, mc)
     else
       (let (r, mc1) = readl b (ch_result ch) mc
        in if r \<noteq> 0x80000002 then
             (let (_, mc2) = readl b (DMOV_FLUSH0 DMOV_NAND_CHAN) mc1;
                  (_, mc3) = readl b (DMOV_FLUSH1 DMOV_NAND_CHAN) mc2;
                  (_, mc4) = readl b (DMOV_FLUSH2 DMOV_NAND_CHAN) mc3;
                  (_, mc5) = readl b (DMOV_FLUSH3 DMOV_NAND_CHAN) mc4
              in Some (-1, mc5))
           else
             (let (n', mc2) = readl b (ch_status ch) mc1 in dmov_drain b ch n' mc2)))"

definition dmov_exec_cmdptr :: "'hw bus \<Rightarrow> u32 \<Rightarrow> ptr \<Rightarrow> 'hw machine \<Rightarrow> (int \<times> 'hw machine) option" where
  "dmov_exec_cmdptr b chan p mc =
    (let ch = dmov_prep_ch chan
     in do {
       mc2 \<leftarrow> dmov_wait b ch (writel b (DMOV_CMD_PTR_LIST OR DMOV_CMD_ADDR p) (ch_cmd ch) mc);
       let (n, mc3) = readl b (ch_status ch) mc2;
       dmov_drain b ch n mc3
     })"

section \<open>NAND controller registers and commands (nand.h)\<close>

definition MSM_NAND_BASE :: u32 where [nand_consts]: "MSM_NAND_BASE = 0xA0A00000"

definition NAND_REG :: "u32 \<Rightarrow> u32" where [nand_consts]: "NAND_REG off = MSM_NAND_BASE + off"

definition NAND_FLASH_CMD :: u32 where [nand_consts]: "NAND_FLASH_CMD = NAND_REG 0x0000"

definition NAND_FLASH_CHIP_SELECT :: u32 where [nand_consts]: "NAND_FLASH_CHIP_SELECT = NAND_REG 0x000C"

definition NAND_EXEC_CMD :: u32 where [nand_consts]: "NAND_EXEC_CMD = NAND_REG 0x0010"

definition NAND_FLASH_STATUS :: u32 where [nand_consts]: "NAND_FLASH_STATUS = NAND_REG 0x0014"

definition NAND_DEV0_CFG0 :: u32 where [nand_consts]: "NAND_DEV0_CFG0 = NAND_REG 0x0020"

definition NAND_DEV0_CFG1 :: u32 where [nand_consts]: "NAND_DEV0_CFG1 = NAND_REG 0x0024"

definition NAND_READ_ID :: u32 where [nand_consts]: "NAND_READ_ID = NAND_REG 0x0040"

definition NAND_READ_STATUS :: u32 where [nand_consts]: "NAND_READ_STATUS = NAND_REG 0x0044"

definition NAND_SFLASHC_BURST_CFG :: u32 where [nand_consts]: "NAND_SFLASHC_BURST_CFG = NAND_REG 0x00E0"

definition NAND_EBI2_ECC_BUF_CFG :: u32 where [nand_consts]: "NAND_EBI2_ECC_BUF_CFG = NAND_REG 0x00F0"

definition NAND_FLASH_BUFFER :: u32 where [nand_consts]: "NAND_FLASH_BUFFER = NAND_REG 0x0100"

definition NAND_CMD_PAGE_READ :: u32 where [nand_consts]: "NAND_CMD_PAGE_READ = 0x32"

definition NAND_CMD_PAGE_READ_ALL :: u32 where [nand_consts]: "NAND_CMD_PAGE_READ_ALL = 0x34"

definition NAND_CMD_PRG_PAGE_ALL :: u32 where [nand_consts]: "NAND_CMD_PRG_PAGE_ALL = 0x39"

definition NAND_CMD_BLOCK_ERASE :: u32 where [nand_consts]: "NAND_CMD_BLOCK_ERASE = 0x3A"

definition NAND_CMD_FETCH_ID :: u32 where [nand_consts]: "NAND_CMD_FETCH_ID = 0x0B"

definition CLEAN_DATA_32 :: u32 where [nand_consts]: "CLEAN_DATA_32 = 0xFFFFFFFF"

definition FLASH_8BIT_NAND_DEVICE :: u32 where [nand_consts]: "FLASH_8BIT_NAND_DEVICE = 0x01"

definition FLASH_16BIT_NAND_DEVICE :: u32 where [nand_consts]: "FLASH_16BIT_NAND_DEVICE = 0x02"

section \<open>State of the driver\<close>

definition SRC_CRCI_NAND_DATA :: u32 where [nand_consts]:
  "SRC_CRCI_NAND_DATA = CMD_SRC_CRCI DMOV_NAND_CRCI_DATA"

definition DST_CRCI_NAND_CMD :: u32 where [nand_consts]:
  "DST_CRCI_NAND_CMD = CMD_DST_CRCI DMOV_NAND_CRCI_CMD"

definition NAND_CFG0_RAW :: u32 where [nand_consts]: "NAND_CFG0_RAW = 0xA80420C0"

definition NAND_CFG1_RAW :: u32 where [nand_consts]: "NAND_CFG1_RAW = 0x5045D"

definition CFG1_WIDE_FLASH :: u32 where [nand_consts]: "CFG1_WIDE_FLASH = push_bit 1 1"

record flash_info =
  fi_id :: u32
  fi_type :: u32
  fi_vendor :: u32
  fi_device :: u32
  fi_page_size :: u32
  fi_block_size :: u32
  fi_spare_size :: u32
  fi_num_blocks :: u32

text \<open>
  The static variables of the file, the memory and the devices. The last four fields are the
  addresses of the two stack buffers and of the two static words the data mover is pointed at.
\<close>

record 'hw nand =
  ram :: mem
  device :: 'hw
  CFG0 :: u32
  CFG1 :: u32
  nand_cfg1 :: u32
  info :: flash_info
  flash_pagesize :: u32
  flash_ptrlist :: ptr
  flash_cmdlist :: ptr
  flash_data :: ptr
  flash_spare :: ptr
  flash_ptable :: ptr
  buf_addr :: ptr
  empty_buf_addr :: ptr
  CFG0_TMP_addr :: ptr
  CFG1_TMP_addr :: ptr

text \<open>
  What every operation ends its preparation with: the commands at \<open>cmdlist\<close> and the pointer to
  them at \<open>ptrlist\<close>; and the start of the data mover on it.
\<close>

definition cmd_words :: "dmov_s \<Rightarrow> u32 list" where
  "cmd_words c = [dm_cmd c, dm_src c, dm_dst c, dm_len c]"

definition put_cmds :: "ptr \<Rightarrow> ptr \<Rightarrow> dmov_s list \<Rightarrow> mem \<Rightarrow> mem" where
  "put_cmds cmdlist ptrlist cs m =
    store32 (store_words m cmdlist (concat (map cmd_words cs))) ptrlist (drop_bit 3 cmdlist OR CMD_PTR_LP)"

definition dmov_run :: "'hw bus \<Rightarrow> ptr \<Rightarrow> 'hw nand \<Rightarrow> (int \<times> 'hw nand) option" where
  "dmov_run b p s =
    do { (r, m, d) \<leftarrow> dmov_exec_cmdptr b DMOV_NAND_CHAN p (ram s, device s); Some (r, s\<lparr>ram := m, device := d\<rparr>) }"

definition move :: "u32 \<Rightarrow> u32 \<Rightarrow> u32 \<Rightarrow> u32 \<Rightarrow> dmov_s" where
  "move c s d n = \<lparr> dm_cmd = c, dm_src = s, dm_dst = d, dm_len = n \<rparr>"

section \<open>Device identification\<close>

definition read_id_cmds :: "ptr \<Rightarrow> dmov_s list" where
  "read_id_cmds data =
    [move CMD_OCB (data + 28) NAND_DEV0_CFG0 4,
     move 0 NAND_SFLASHC_BURST_CFG (data + 20) 4,
     move 0 (data + 24) NAND_SFLASHC_BURST_CFG 4,
     move 0 data NAND_FLASH_CHIP_SELECT 4,
     move DST_CRCI_NAND_CMD (data + 4) NAND_FLASH_CMD 4,
     move 0 (data + 8) NAND_EXEC_CMD 4,
     move SRC_CRCI_NAND_DATA NAND_FLASH_STATUS (data + 12) 4,
     move 0 NAND_READ_ID (data + 16) 4,
     move (CMD_OCU OR CMD_LC) (data + 20) NAND_SFLASHC_BURST_CFG 4]"

definition flash_nand_read_id :: "'hw bus \<Rightarrow> ptr \<Rightarrow> ptr \<Rightarrow> 'hw nand \<Rightarrow> 'hw nand option" where
  "flash_nand_read_id b cmdlist ptrlist s =
    (let data = ptrlist + 16;
         m = store_words (ram s) data [0 OR 4, NAND_CMD_FETCH_ID, 1, 0, 0, 0, 0, 0xAAD40000]
     in do {
       (_, s1) \<leftarrow> dmov_run b ptrlist (s\<lparr>ram := put_cmds cmdlist ptrlist (read_id_cmds data) m\<rparr>);
       let ident = load32 (ram s1) (data + 16);
       Some (s1\<lparr>info := (info s1)\<lparr>fi_id := ident, fi_vendor := ident AND 0xff,
                                  fi_device := drop_bit 8 ident AND 0xff\<rparr>\<rparr>)
     })"

section \<open>Bad block mark\<close>

text \<open>Back to the first page of the block.\<close>

definition block_start :: "u32 \<Rightarrow> u32" where
  "block_start page = (if page AND 63 \<noteq> 0 then page - (page AND 63) else page)"

definition isbad_data :: "u32 \<Rightarrow> u32 \<Rightarrow> u32 \<Rightarrow> u32 list" where
  "isbad_data cfg1 cwperpage page =
    [NAND_CMD_PAGE_READ,
     (if cfg1 AND CFG1_WIDE_FLASH \<noteq> 0 then push_bit 16 page OR drop_bit 1 (528 * (cwperpage - 1))
      else push_bit 16 page OR (528 * (cwperpage - 1))),
     drop_bit 16 page AND 0xff,
     0 OR 4,
     NAND_CFG0_RAW AND NOT (push_bit 6 7),
     NAND_CFG1_RAW OR (cfg1 AND CFG1_WIDE_FLASH),
     1,
     CLEAN_DATA_32,
     CLEAN_DATA_32]"

definition isbad_cmds :: "ptr \<Rightarrow> ptr \<Rightarrow> u32 \<Rightarrow> u32 \<Rightarrow> dmov_s list" where
  "isbad_cmds data buf pagesize cwperpage =
    [move (DST_CRCI_NAND_CMD OR CMD_OCB) data NAND_FLASH_CMD 16,
     move 0 (data + 16) NAND_DEV0_CFG0 8,
     move 0 (data + 24) NAND_EXEC_CMD 4,
     move SRC_CRCI_NAND_DATA NAND_FLASH_STATUS (data + 28) 8,
     move (CMD_OCU OR CMD_LC) (NAND_FLASH_BUFFER + (pagesize - (528 * (cwperpage - 1)))) buf 4]"

definition flash_nand_block_isbad :: "'hw bus \<Rightarrow> ptr \<Rightarrow> ptr \<Rightarrow> u32 \<Rightarrow> 'hw nand \<Rightarrow> (int \<times> 'hw nand) option" where
  "flash_nand_block_isbad b cmdlist ptrlist page s =
    (let data = ptrlist + 16;
         buf = buf_addr s;
         cwperpage = drop_bit 9 (flash_pagesize s);
         m = store_words (ram s) data (isbad_data (CFG1 s) cwperpage (block_start page))
     in do {
       (_, s1) \<leftarrow> dmov_run b ptrlist
          (s\<lparr>ram := put_cmds cmdlist ptrlist (isbad_cmds data buf (flash_pagesize s) cwperpage) m\<rparr>);
       Some (if load32 (ram s1) (data + 28) AND 0x110 \<noteq> 0 then -1
             else if CFG1 s1 AND CFG1_WIDE_FLASH \<noteq> 0 then
               (if ram s1 buf \<noteq> 0xFF \<or> ram s1 (buf + 1) \<noteq> 0xFF then 1 else 0)
             else if ram s1 buf \<noteq> 0xFF then 1
             else 0, s1)
     })"

section \<open>Erasing a block\<close>

definition erase_data :: "u32 \<Rightarrow> u32 \<Rightarrow> u32 \<Rightarrow> u32 list" where
  "erase_data cfg0 cfg1 page =
    [NAND_CMD_BLOCK_ERASE, page, 0, 0 OR 4, 1, 0xeeeeeeee, cfg0 AND NOT (push_bit 6 7), cfg1,
     0x00000020, 0x000000C0]"

definition erase_cmds :: "ptr \<Rightarrow> dmov_s list" where
  "erase_cmds data =
    [move (DST_CRCI_NAND_CMD OR CMD_OCB) data NAND_FLASH_CMD 16,
     move 0 (data + 24) NAND_DEV0_CFG0 8,
     move 0 (data + 16) NAND_EXEC_CMD 4,
     move SRC_CRCI_NAND_DATA NAND_FLASH_STATUS (data + 20) 4,
     move 0 (data + 32) NAND_FLASH_STATUS 4,
     move (CMD_OCU OR CMD_LC) (data + 36) NAND_READ_STATUS 4]"

definition flash_nand_erase_block :: "'hw bus \<Rightarrow> ptr \<Rightarrow> ptr \<Rightarrow> u32 \<Rightarrow> 'hw nand \<Rightarrow> (int \<times> 'hw nand) option" where
  "flash_nand_erase_block b cmdlist ptrlist page s =
    (let data = ptrlist + 16
     in if page AND 63 \<noteq> 0 then Some (-1, s)
        else do {
          (isbad, s1) \<leftarrow> flash_nand_block_isbad b cmdlist ptrlist page s;
          if isbad \<noteq> 0 then Some (-1, s1)
          else do {
            let m = store_words (ram s1) data (erase_data (CFG0 s1) (CFG1 s1) page);
            (_, s2) \<leftarrow> dmov_run b ptrlist (s1\<lparr>ram := put_cmds cmdlist ptrlist (erase_cmds data) m\<rparr>);
            let st = load32 (ram s2) (data + 20);
            Some (if st AND 0x110 \<noteq> 0 then -1 else if st AND 0x80 = 0 then -1 else 0, s2)
          }
        })"

section \<open>Reading and writing a page\<close>

text \<open>
  \<open>struct data_flash_io\<close> at \<open>data\<close>: its first eight words are written one after the other,
  \<open>ecc_cfg_save\<close> and the results are left to the data mover.
\<close>

definition io_cfg0 :: "ptr \<Rightarrow> ptr" where "io_cfg0 data = data + 16"

definition io_exec :: "ptr \<Rightarrow> ptr" where "io_exec data = data + 24"

definition io_ecc_cfg :: "ptr \<Rightarrow> ptr" where "io_ecc_cfg data = data + 28"

definition io_ecc_cfg_save :: "ptr \<Rightarrow> ptr" where "io_ecc_cfg_save data = data + 32"

definition io_clrfstatus :: "ptr \<Rightarrow> ptr" where "io_clrfstatus data = data + 36"

definition io_clrrstatus :: "ptr \<Rightarrow> ptr" where "io_clrrstatus data = data + 40"

definition io_result :: "ptr \<Rightarrow> u32 \<Rightarrow> ptr" where "io_result data n = data + 44 + 8 * n"

definition read_page_data :: "u32 \<Rightarrow> u32 \<Rightarrow> u32 \<Rightarrow> u32 \<Rightarrow> u32 list" where
  "read_page_data cfg0 cfg1 cwperpage page =
    [NAND_CMD_PAGE_READ_ALL, push_bit 16 page, drop_bit 16 page AND 0xff, 0 OR 4,
     (cfg0 AND NOT (push_bit 6 7)) OR push_bit 6 (cwperpage - 1), cfg1, 1, 0x1FF]"

text \<open>The commands for code word \<open>n\<close> of a page.\<close>

definition read_cw_cmds :: "ptr \<Rightarrow> ptr \<Rightarrow> ptr \<Rightarrow> u32 \<Rightarrow> u32 \<Rightarrow> u32 \<Rightarrow> dmov_s list" where
  "read_cw_cmds data addr spareaddr cwdatasize cwoobsize n =
    [move DST_CRCI_NAND_CMD data NAND_FLASH_CMD (if n = 0 then 16 else 4)] @
    (if n = 0 then
      [move 0 (io_cfg0 data) NAND_DEV0_CFG0 8,
       move 0 (io_ecc_cfg data) NAND_EBI2_ECC_BUF_CFG 4]
     else []) @
    [move 0 (io_exec data) NAND_EXEC_CMD 4,
     move SRC_CRCI_NAND_DATA NAND_FLASH_STATUS (io_result data n) 8,
     move 0 NAND_FLASH_BUFFER (addr + n * cwdatasize) cwdatasize,
     move 0 (NAND_FLASH_BUFFER + cwdatasize + 10) (spareaddr + n * cwoobsize) cwoobsize]"

definition page_cmds :: "ptr \<Rightarrow> u32 \<Rightarrow> (u32 \<Rightarrow> dmov_s list) \<Rightarrow> dmov_s list" where
  "page_cmds data cwperpage cw =
    [move CMD_OCB NAND_EBI2_ECC_BUF_CFG (io_ecc_cfg_save data) 4] @
    concat (map (\<lambda>n. cw (of_nat n)) [0..<unat cwperpage]) @
    [move (CMD_OCU OR CMD_LC) (io_ecc_cfg_save data) NAND_EBI2_ECC_BUF_CFG 4]"

definition u_flash_nand_read_page ::
    "'hw bus \<Rightarrow> ptr \<Rightarrow> ptr \<Rightarrow> u32 \<Rightarrow> ptr \<Rightarrow> ptr \<Rightarrow> 'hw nand \<Rightarrow> (int \<times> 'hw nand) option" where
  "u_flash_nand_read_page b cmdlist ptrlist page addr spareaddr s =
    (let data = ptrlist + 16;
         cwperpage = drop_bit 9 (flash_pagesize s)
     in if cwperpage = 0 then None
        else do {
          let cwdatasize = flash_pagesize s div cwperpage;
          let cwoobsize = 16 div cwperpage;
          (isbad, s1) \<leftarrow> flash_nand_block_isbad b cmdlist ptrlist page s;
          if isbad \<noteq> 0 then Some (-2, s1)
          else do {
            let m = store_words (ram s1) data (read_page_data (CFG0 s1) (CFG1 s1) cwperpage page);
            (result, s2) \<leftarrow> dmov_run b ptrlist
              (s1\<lparr>ram := put_cmds cmdlist ptrlist
                 (page_cmds data cwperpage (read_cw_cmds data addr spareaddr cwdatasize cwoobsize)) m\<rparr>);
            if result \<noteq> 0 then Some (-1, s2)
            else Some (if \<exists>n \<in> set [0..<unat cwperpage].
                            load32 (ram s2) (io_result data (of_nat n)) AND 0x110 \<noteq> 0 then -1
                       else 0, s2)
          }
        })"

definition write_page_cfg :: "bool \<Rightarrow> u32 \<Rightarrow> u32 \<Rightarrow> u32 \<Rightarrow> u32 list" where
  "write_page_cfg raw_mode cfg0 cfg1 cwperpage =
    (if \<not> raw_mode then [cfg0, cfg1]
     else [(NAND_CFG0_RAW AND NOT (push_bit 6 7)) OR push_bit 6 (cwperpage - 1),
           NAND_CFG1_RAW OR (cfg1 AND CFG1_WIDE_FLASH)])"

text \<open>The words before and after \<open>ecc_cfg_save\<close>.\<close>

definition write_page_data :: "bool \<Rightarrow> u32 \<Rightarrow> u32 \<Rightarrow> u32 \<Rightarrow> u32 \<Rightarrow> u32 list" where
  "write_page_data raw_mode cfg0 cfg1 cwperpage page =
    [NAND_CMD_PRG_PAGE_ALL, push_bit 16 page, drop_bit 16 page AND 0xff, 0 OR 4] @
    write_page_cfg raw_mode cfg0 cfg1 cwperpage @ [1, 0x1FF]"

definition write_page_clear :: "u32 list" where
  "write_page_clear = [0x00000020, 0x000000C0]"

definition write_cw_cmds :: "bool \<Rightarrow> ptr \<Rightarrow> ptr \<Rightarrow> ptr \<Rightarrow> u32 \<Rightarrow> u32 \<Rightarrow> u32 \<Rightarrow> dmov_s list" where
  "write_cw_cmds raw_mode data addr spareaddr cwdatasize cwoobsize n =
    [move DST_CRCI_NAND_CMD data NAND_FLASH_CMD (if n = 0 then 16 else 4)] @
    (if n = 0 then
      [move 0 (io_cfg0 data) NAND_DEV0_CFG0 8,
       move 0 (io_ecc_cfg data) NAND_EBI2_ECC_BUF_CFG 4]
     else []) @
    (if \<not> raw_mode then
      [move 0 (addr + n * cwdatasize) NAND_FLASH_BUFFER cwdatasize,
       move 0 (spareaddr + n * cwoobsize) (NAND_FLASH_BUFFER + cwdatasize) cwoobsize]
     else [move 0 addr NAND_FLASH_BUFFER 528]) @
    [move 0 (io_exec data) NAND_EXEC_CMD 4,
     move SRC_CRCI_NAND_DATA NAND_FLASH_STATUS (io_result data n) 8,
     move 0 (io_clrfstatus data) NAND_FLASH_STATUS 4,
     move 0 (io_clrrstatus data) NAND_READ_STATUS 4]"

definition u_flash_nand_write_page ::
    "'hw bus \<Rightarrow> ptr \<Rightarrow> ptr \<Rightarrow> u32 \<Rightarrow> ptr \<Rightarrow> ptr \<Rightarrow> bool \<Rightarrow> 'hw nand \<Rightarrow> (int \<times> 'hw nand) option" where
  "u_flash_nand_write_page b cmdlist ptrlist page addr spareaddr raw_mode s =
    (let data = ptrlist + 16;
         cwperpage = drop_bit 9 (flash_pagesize s)
     in if cwperpage = 0 then None
        else do {
          let cwdatasize = flash_pagesize s div cwperpage;
          let cwoobsize = 16 div cwperpage;
          let m = store_words (store_words (ram s) data (write_page_data raw_mode (CFG0 s) (CFG1 s) cwperpage page))
                    (io_clrfstatus data) write_page_clear;
          (_, s1) \<leftarrow> dmov_run b ptrlist
            (s\<lparr>ram := put_cmds cmdlist ptrlist
               (page_cmds data cwperpage (write_cw_cmds raw_mode data addr spareaddr cwdatasize cwoobsize)) m\<rparr>);
          Some (if \<exists>n \<in> set [0..<unat cwperpage].
                     load32 (ram s1) (io_result data (of_nat n)) AND 0x110 \<noteq> 0 \<or>
                     load32 (ram s1) (io_result data (of_nat n)) AND 0x80 = 0 then -1
                else 0, s1)
        })"

definition flash_nand_mark_badblock :: "'hw bus \<Rightarrow> ptr \<Rightarrow> ptr \<Rightarrow> u32 \<Rightarrow> 'hw nand \<Rightarrow> (int \<times> 'hw nand) option" where
  "flash_nand_mark_badblock b cmdlist ptrlist page s =
    u_flash_nand_write_page b cmdlist ptrlist (block_start page) (empty_buf_addr s) 0 True
      (s\<lparr>ram := fst (memset (ram s) (empty_buf_addr s) 0 528)\<rparr>)"

section \<open>Configuration\<close>

definition read_config_cmds :: "ptr \<Rightarrow> ptr \<Rightarrow> dmov_s list" where
  "read_config_cmds cfg0_tmp cfg1_tmp =
    [move CMD_OCB NAND_DEV0_CFG0 cfg0_tmp 4,
     move (CMD_OCU OR CMD_LC) NAND_DEV0_CFG1 cfg1_tmp 4]"

definition used_cfg0 :: "u32 \<Rightarrow> u32" where
  "used_cfg0 pagesize =
    push_bit 6 (drop_bit 9 pagesize - 1) OR push_bit 9 512 OR push_bit 19 10 OR push_bit 23 4
      OR push_bit 27 5 OR push_bit 30 1 OR push_bit 31 1"

definition used_cfg1 :: "u32 \<Rightarrow> u32 \<Rightarrow> u32 \<Rightarrow> u32" where
  "used_cfg1 cfg1 cfg1_flags pagesize =
    (cfg1 OR push_bit 6 (pagesize - (528 * (drop_bit 9 pagesize - 1)) + 1)
       OR (cfg1_flags AND CFG1_WIDE_FLASH))
    AND NOT (push_bit 0 1) AND NOT (push_bit 16 1)"

definition flash_nand_read_config :: "'hw bus \<Rightarrow> ptr \<Rightarrow> ptr \<Rightarrow> 'hw nand \<Rightarrow> (int \<times> 'hw nand) option" where
  "flash_nand_read_config b cmdlist ptrlist s =
    do {
      (_, s1) \<leftarrow> dmov_run b ptrlist
        (s\<lparr>ram := put_cmds cmdlist ptrlist (read_config_cmds (CFG0_TMP_addr s) (CFG1_TMP_addr s)) (ram s)\<rparr>);
      let cfg0 = load32 (ram s1) (CFG0_TMP_addr s);
      let cfg1 = load32 (ram s1) (CFG1_TMP_addr s);
      if cfg0 = 0 \<or> cfg1 = 0 then Some (-1, s1)
      else do {
        let flags = (if fi_type (info s1) = FLASH_16BIT_NAND_DEVICE then nand_cfg1 s1 OR CFG1_WIDE_FLASH
                     else nand_cfg1 s1);
        Some (0, s1\<lparr>nand_cfg1 := flags, CFG0 := used_cfg0 (flash_pagesize s1),
                    CFG1 := used_cfg1 cfg1 flags (flash_pagesize s1)\<rparr>)
      }
    }"

end
