(* ===== verification/Lk_Ptable.thy ===== *)
theory Lk_Ptable
  imports Lk_String Lk_Reg
begin

text \<open>
  The partition table of \<open>lib/ptable\<close>: an array of 32 entries of 32 bytes and a count, in memory
  where the code has it. A table is described by the list of its entries, and the operations are
  shown to be what they should be on that list: adding appends, finding returns the first entry
  with the name. \<open>None\<close> stands for a failed assertion or a string without an end.
\<close>

section \<open>The table in memory\<close>

definition MAX_PTENTRY_NAME :: u32 where "MAX_PTENTRY_NAME = 16"

definition MAX_PTABLE_PARTS :: int where "MAX_PTABLE_PARTS = 32"

definition TYPE_MODEM_PARTITION :: u8 where "TYPE_MODEM_PARTITION = 1"

definition TYPE_APPS_PARTITION :: u8 where "TYPE_APPS_PARTITION = 0"

definition PERM_WRITEABLE :: u8 where "PERM_WRITEABLE = 1"

text \<open>\<open>struct ptentry\<close>: the name at the entry, then four more fields.\<close>

definition ptn_start :: "mem \<Rightarrow> ptr \<Rightarrow> u32" where "ptn_start m p = load32 m (p + 16)"

definition ptn_length :: "mem \<Rightarrow> ptr \<Rightarrow> u32" where "ptn_length m p = load32 m (p + 20)"

definition ptn_flags :: "mem \<Rightarrow> ptr \<Rightarrow> u32" where "ptn_flags m p = load32 m (p + 24)"

definition ptn_type :: "mem \<Rightarrow> ptr \<Rightarrow> u8" where "ptn_type m p = m (p + 28)"

definition ptn_perm :: "mem \<Rightarrow> ptr \<Rightarrow> u8" where "ptn_perm m p = m (p + 29)"

text \<open>\<open>struct ptable\<close>: \<open>parts\<close> at the table, \<open>count\<close> after the 32 entries.\<close>

definition ptable_parts :: "ptr \<Rightarrow> int \<Rightarrow> ptr" where "ptable_parts t i = t + 32 * of_int i"

definition ptable_count_addr :: "ptr \<Rightarrow> ptr" where "ptable_count_addr t = t + 1024"

definition ptable_count :: "mem \<Rightarrow> ptr \<Rightarrow> int" where
  "ptable_count m t = sint (load32 m (ptable_count_addr t))"

section \<open>Operations\<close>

definition ptable_init :: "mem \<Rightarrow> ptr \<Rightarrow> mem option" where
  "ptable_init m t = (if t = 0 then None else Some (fst (memset m t 0 1028)))"

definition ptable_add ::
    "mem \<Rightarrow> ptr \<Rightarrow> ptr \<Rightarrow> u32 \<Rightarrow> u32 \<Rightarrow> u32 \<Rightarrow> u8 \<Rightarrow> u8 \<Rightarrow> mem option" where
  "ptable_add m t name start len flags ty perm =
    (if t = 0 \<or> \<not> ptable_count m t < MAX_PTABLE_PARTS then None
     else
       (let n = ptable_count m t;
            ptn = ptable_parts t n;
            m1 = store32 m (ptable_count_addr t) (of_int n + 1);
            m2 = fst (strncpy m1 ptn name MAX_PTENTRY_NAME);
            m3 = store32 m2 (ptn + 16) start;
            m4 = store32 m3 (ptn + 20) len;
            m5 = store32 m4 (ptn + 24) flags
        in Some (m5(ptn + 28 := ty, ptn + 29 := perm))))"

fun ptable_find_loop :: "mem \<Rightarrow> ptr \<Rightarrow> ptr \<Rightarrow> nat \<Rightarrow> int \<Rightarrow> ptr option" where
  "ptable_find_loop m t name 0 i = Some 0"
| "ptable_find_loop m t name (Suc k) i =
    do {
      c \<leftarrow> strcmp m (ptable_parts t i) name;
      if c = 0 then Some (ptable_parts t i) else ptable_find_loop m t name k (i + 1)
    }"

definition ptable_find :: "mem \<Rightarrow> ptr \<Rightarrow> ptr \<Rightarrow> ptr option" where
  "ptable_find m t name = ptable_find_loop m t name (nat (ptable_count m t)) 0"

definition ptable_get :: "mem \<Rightarrow> ptr \<Rightarrow> int \<Rightarrow> ptr" where
  "ptable_get m t n = (if n \<ge> ptable_count m t then 0 else ptable_parts t n)"

definition ptable_size :: "mem \<Rightarrow> ptr \<Rightarrow> int" where
  "ptable_size m t = ptable_count m t"

section \<open>The list of entries\<close>

record ptentry =
  pt_name :: "u8 list"
  pt_start :: u32
  pt_length :: u32
  pt_flags :: u32
  pt_type :: u8
  pt_perm :: u8

definition entry_at :: "mem \<Rightarrow> ptr \<Rightarrow> ptentry \<Rightarrow> bool" where
  "entry_at m p e \<longleftrightarrow> length (pt_name e) < 16 \<and> cstr m p (pt_name e) \<and>
    ptn_start m p = pt_start e \<and> ptn_length m p = pt_length e \<and> ptn_flags m p = pt_flags e \<and>
    ptn_type m p = pt_type e \<and> ptn_perm m p = pt_perm e"

definition table :: "mem \<Rightarrow> ptr \<Rightarrow> ptentry list \<Rightarrow> bool" where
  "table m t es \<longleftrightarrow> length es \<le> 32 \<and> load32 m (ptable_count_addr t) = of_nat (length es) \<and>
    (\<forall>i < length es. entry_at m (ptable_parts t (int i)) (es ! i))"

lemma table_count: "table m t es \<Longrightarrow> ptable_count m t = int (length es)"
  by (simp add: table_def ptable_count_def sint_u32_small unat_of_nat_u32)

text \<open>An entry depends on its own 32 bytes only.\<close>

lemma entry_at_cong:
  assumes "rd m' p 32 = rd m p 32"
  shows "entry_at m' p e = entry_at m p e"
proof -
  have eq: "m' (p + of_nat i) = m (p + of_nat i)" if "i < 32" for i
    using assms that by (metis nth_rd)
  have w: "load32 m' (p + of_nat k) = load32 m (p + of_nat k)" if "k + 3 < 32" for k
    using eq [of k] eq [of "k + 1"] eq [of "k + 2"] eq [of "k + 3"] that
    by (simp add: load32_def ac_simps)
  have c: "cstr m' p xs = cstr m p xs" if "length xs < 16" for xs
  proof
    show "cstr m p xs" if "cstr m' p xs" using that \<open>length xs < 16\<close> eq by (auto intro: cstr_cong)
    show "cstr m' p xs" if "cstr m p xs" using that \<open>length xs < 16\<close> eq by (auto intro: cstr_cong)
  qed
  show ?thesis
    using w [of 16] w [of 20] w [of 24] eq [of 28] eq [of 29] c [of "pt_name e"]
    unfolding entry_at_def ptn_start_def ptn_length_def ptn_flags_def ptn_type_def ptn_perm_def
    by (simp cong: conj_cong)
qed

section \<open>Adding appends\<close>

lemma ptable_parts_nat: "ptable_parts t (int n) = t + of_nat (32 * n)"
  by (simp add: ptable_parts_def)

lemma entry_written:
  fixes ptn :: ptr
  assumes c: "cstr m name xs" and len: "length xs < 16" "length xs < unat (ptn - name)"
    and m': "m' = (store32 (store32 (store32 (fst (strncpy m ptn name MAX_PTENTRY_NAME)) (ptn + 16) start)
      (ptn + 20) plen) (ptn + 24) flags) (ptn + 28 := ty, ptn + 29 := perm)"
  shows "entry_at m' ptn \<lparr> pt_name = xs, pt_start = start, pt_length = plen, pt_flags = flags,
      pt_type = ty, pt_perm = perm \<rparr>"
    and "32 \<le> unat (q - ptn) \<Longrightarrow> m' q = m q"
proof -
  let ?m2 = "wr m ptn (xs @ [0])"
  have m2: "fst (strncpy m ptn name MAX_PTENTRY_NAME) = ?m2"
    using strncpy_wr [OF c len(2)] len(1) by (simp add: MAX_PTENTRY_NAME_def)
  have nul: "0 \<notin> set xs" using c by (rule cstr_no_nul)
  have s: "sep ptn (length xs + 1) (ptn + of_nat j) k" if "16 \<le> j" "j < 32" "0 < k" "k < 10" for j k
    using that len(1) by (intro sep_after) simp_all
  have "cstr ?m2 ptn xs" using nul len(1) by (intro cstr_wr) simp_all
  then have "cstr m' ptn xs"
    unfolding m' m2 using s [of 16 4] s [of 20 4] s [of 24 4] s [of 28 1] s [of 29 1]
    by (intro cstr_upd_sep cstr_store32_sep) simp_all
  then show "entry_at m' ptn \<lparr> pt_name = xs, pt_start = start, pt_length = plen, pt_flags = flags,
      pt_type = ty, pt_perm = perm \<rparr>"
    unfolding entry_at_def ptn_start_def ptn_length_def ptn_flags_def ptn_type_def ptn_perm_def m' m2
    using len(1) by (simp add: load32_upd load32_store32_sep sep_def)
  show "m' q = m q" if q: "32 \<le> unat (q - ptn)"
  proof -
    have d: "unat (q - (ptn + of_nat j)) = unat (q - ptn) - j" if "j < 32" for j
      using that q by (intro unat_diff_retreat) simp
    have "q \<noteq> ptn + 28" "q \<noteq> ptn + 29" using q by auto
    then show ?thesis
      unfolding m' m2 using d [of 16] d [of 20] d [of 24] q len(1)
      by (simp add: store32_other wr_other)
  qed
qed

lemma ptable_add_table:
  assumes t: "table m t es" and full: "length es < 32" and nn: "t \<noteq> 0"
    and c: "cstr m name xs" and len: "length xs < 16" and sp: "sep name (length xs + 1) t 1028"
  shows "\<exists>m'. ptable_add m t name start plen flags ty perm = Some m' \<and>
    table m' t (es @ [\<lparr> pt_name = xs, pt_start = start, pt_length = plen, pt_flags = flags,
      pt_type = ty, pt_perm = perm \<rparr>]) \<and>
    (\<forall>q. 1028 \<le> unat (q - t) \<longrightarrow> m' q = m q)"
proof -
  define n where "n = length es"
  let ?ptn = "t + of_nat (32 * n)" and ?m1 = "store32 m (t + 1024) (of_nat n + 1)"
  let ?e = "\<lparr> pt_name = xs, pt_start = start, pt_length = plen, pt_flags = flags, pt_type = ty, pt_perm = perm \<rparr>"
  have n: "n < 32" using full by (simp add: n_def)
  define m' where "m' = (store32 (store32 (store32 (fst (strncpy ?m1 ?ptn name MAX_PTENTRY_NAME)) (?ptn + 16) start)
      (?ptn + 20) plen) (?ptn + 24) flags) (?ptn + 28 := ty, ?ptn + 29 := perm)"
  have add: "ptable_add m t name start plen flags ty perm = Some m'"
    using table_count [OF t] nn n
    by (simp add: ptable_add_def Let_def ptable_parts_def ptable_count_addr_def MAX_PTABLE_PARTS_def m'_def n_def)
  have "sep name (length xs + 1) (t + of_nat 1024) 4" using sp by (rule sep_sub) simp_all
  then have c1: "cstr ?m1 name xs" using c by (simp add: cstr_store32_sep)
  have "sep name (length xs + 1) ?ptn 4" using sp by (rule sep_sub) (use n in simp_all)
  then have far: "length xs < unat (?ptn - name)" by (simp add: sep_def)
  note ew = entry_written [OF c1 len far m'_def]
  have out: "m' q = m q" if "1028 \<le> unat (q - t)" for q
  proof -
    have "unat (q - (t + of_nat k)) = unat (q - t) - k" if "k \<le> 1028" for k
      using that \<open>1028 \<le> unat (q - t)\<close> by (intro unat_diff_retreat) simp
    from this [of "32 * n"] this [of 1024] have "32 \<le> unat (q - ?ptn)" "4 \<le> unat (q - (t + 1024))"
      using n that by simp_all
    then show ?thesis using ew(2) by (simp add: store32_other)
  qed
  have keep: "m' (t + of_nat j) = m (t + of_nat j)" if "j < 32 * n" for j
  proof -
    have "unat (t + of_nat j - ?ptn) = 2 ^ 32 - (32 * n - j)" using that n by (intro unat_below) simp_all
    moreover have "unat (t + of_nat j - (t + of_nat 1024)) = 2 ^ 32 - (1024 - j)"
      using that n by (intro unat_below) simp_all
    ultimately have "m' (t + of_nat j) = ?m1 (t + of_nat j)" "4 \<le> unat (t + of_nat j - (t + 1024))"
      using n by (simp_all add: ew(2))
    then show ?thesis by (simp add: store32_other)
  qed
  have old: "entry_at m' (ptable_parts t (int i)) (es ! i)" if "i < n" for i
  proof -
    have "rd m' (t + of_nat (32 * i)) 32 = rd m (t + of_nat (32 * i)) 32"
    proof (rule rd_cong)
      fix j :: nat
      assume "j < 32"
      then have "32 * i + j < 32 * n" using that by simp
      from keep [OF this] show "m' (t + of_nat (32 * i) + of_nat j) = m (t + of_nat (32 * i) + of_nat j)"
        by (simp add: add.assoc)
    qed
    from entry_at_cong [OF this] t that show ?thesis
      unfolding ptable_parts_nat by (auto simp: table_def n_def ptable_parts_nat)
  qed
  have "load32 m' (t + 1024) = load32 ?m1 (t + 1024)"
  proof (intro load32_cong rd_cong)
    fix j :: nat
    assume "j < 4"
    then have "unat (t + of_nat (1024 + j) - ?ptn) = 1024 + j - 32 * n" using n by (intro unat_above) simp_all
    then have "m' (t + of_nat (1024 + j)) = ?m1 (t + of_nat (1024 + j))" using n by (intro ew(2)) simp
    then show "m' (t + 1024 + of_nat j) = ?m1 (t + 1024 + of_nat j)" by (simp add: add.assoc)
  qed
  then have cnt: "load32 m' (t + 1024) = of_nat (n + 1)" by simp
  have "entry_at m' (ptable_parts t (int i)) ((es @ [?e]) ! i)" if "i < n + 1" for i
    using that old ew(1) by (cases "i = n") (simp_all add: nth_append n_def ptable_parts_nat)
  with cnt n have "table m' t (es @ [?e])"
    by (simp add: table_def ptable_count_addr_def n_def)
  with add out show ?thesis by blast
qed

section \<open>Finding returns the first entry with the name\<close>

text \<open>The index of the first entry with the name, or their number.\<close>

fun first_named :: "u8 list \<Rightarrow> ptentry list \<Rightarrow> nat" where
  "first_named xs [] = 0"
| "first_named xs (e # es) = (if pt_name e = xs then 0 else Suc (first_named xs es))"

lemma find_loop_table:
  "(\<And>j. j < length es \<Longrightarrow> entry_at m (ptable_parts t (i + int j)) (es ! j)) \<Longrightarrow> cstr m name xs \<Longrightarrow>
    ptable_find_loop m t name (length es) i =
      Some (if first_named xs es < length es then ptable_parts t (i + int (first_named xs es)) else 0)"
proof (induction es arbitrary: i)
  case (Cons e es)
  from Cons.prems(1) [of 0] have e: "cstr m (ptable_parts t i) (pt_name e)" by (simp add: entry_at_def)
  then obtain c where c: "strcmp m (ptable_parts t i) name = Some c"
    using strcmp_byte_diff Cons.prems(2) by blast
  have "c = 0 \<longleftrightarrow> pt_name e = xs" using strcmp_eq [OF e Cons.prems(2)] c by simp
  moreover have "ptable_find_loop m t name (length es) (i + 1) =
      Some (if first_named xs es < length es then ptable_parts t (i + 1 + int (first_named xs es)) else 0)"
  proof (rule Cons.IH)
    fix j
    assume "j < length es"
    with Cons.prems(1) [of "Suc j"] show "entry_at m (ptable_parts t (i + 1 + int j)) (es ! j)"
      by (simp add: ac_simps)
  qed (rule Cons.prems(2))
  ultimately show ?case by (simp add: c ac_simps)
qed simp

lemma ptable_find_table:
  assumes "table m t es" and "cstr m name xs"
  shows "ptable_find m t name =
    Some (if first_named xs es < length es then ptable_parts t (int (first_named xs es)) else 0)"
  using find_loop_table [of es m t 0 name xs] assms table_count [OF assms(1)]
  by (simp add: ptable_find_def table_def)

lemma first_named_iff: "first_named xs es < length es \<longleftrightarrow> (\<exists>e \<in> set es. pt_name e = xs)"
  by (induction es) auto

lemma first_named_append:
  "first_named xs (es @ [e]) = (if first_named xs es < length es then first_named xs es
    else length es + (if pt_name e = xs then 0 else 1))"
  by (induction es) auto

lemma table_init:
  assumes "t \<noteq> 0"
  shows "\<exists>m'. ptable_init m t = Some m' \<and> table m' t []"
proof -
  let ?m = "wr m t (replicate 1028 0)"
  have "load32 ?m (t + 1024) = 0"
  proof (rule load32_bytes)
    have "rd ?m t (1024 + 4) = replicate (1024 + 4) 0"
      using rd_wr_same [of "replicate 1028 (0 :: u8)" m t] by simp
    then have "rd ?m t 1024 @ rd ?m (t + of_nat 1024) 4 = replicate 1024 0 @ replicate 4 0"
      by (simp only: rd_add replicate_add)
    then have "rd ?m (t + of_nat 1024) 4 = replicate 4 0" by (subst (asm) append_eq_append_conv) simp_all
    then show "rd ?m (t + 1024) 4 = word_bytes 0" by (simp add: word_bytes_def numeral_eq_Suc)
  qed
  with assms show ?thesis by (simp add: ptable_init_def memset_wr table_def ptable_count_addr_def)
qed

end
