(* ===== verification/Lk_Flash.thy ===== *)
theory Lk_Flash
  imports Lk_Nand Lk_Ptable
begin

text \<open>
  The second half of \<open>platform/msm_shared/nand_wince.c\<close>: identification of the device,
  start-up, and the operations on a partition that the boot loader uses (\<open>include/dev/flash.h\<close>):
  erase it, read from it and write an image to it around bad blocks. Pages and blocks are counted
  as in the code, 64 pages to a block.
\<close>

section \<open>Supported devices\<close>

record flash_identification =
  id_flash_id :: u32
  id_mask :: u32
  id_density :: u32
  id_widebus :: u32
  id_pagesize :: u32
  id_blksize :: u32
  id_oobsize :: u32

definition ident :: "u32 \<Rightarrow> u32 \<Rightarrow> u32 \<Rightarrow> u32 \<Rightarrow> u32 \<Rightarrow> u32 \<Rightarrow> u32 \<Rightarrow> flash_identification" where
  "ident fid msk density widebus pagesize blksize oobsize =
    \<lparr> id_flash_id = fid, id_mask = msk, id_density = density, id_widebus = widebus,
      id_pagesize = pagesize, id_blksize = blksize, id_oobsize = oobsize \<rparr>"

definition supported_flash :: "flash_identification list" where
  "supported_flash =
    [ident 0x00000000 0xFFFFFFFF 0 0 0 0 0,
     ident 0x1500aaec 0xFF00FFFF (push_bit 20 256) 0 2048 (push_bit 6 2048) 64,
     ident 0x5500baec 0xFF00FFFF (push_bit 20 256) 1 2048 (push_bit 6 2048) 64,
     ident 0x5500bcec 0xFF00FFFF (push_bit 20 512) 1 2048 (push_bit 6 2048) 64,
     ident 0x1500aa98 0xFFFFFFFF (push_bit 20 256) 0 2048 (push_bit 6 2048) 64,
     ident 0x5500ba98 0xFFFFFFFF (push_bit 20 256) 1 2048 (push_bit 6 2048) 64,
     ident 0xd580b12c 0xFFFFFFFF (push_bit 20 256) 1 2048 (push_bit 6 2048) 64,
     ident 0x5590bc2c 0xFFFFFFFF (push_bit 20 512) 1 2048 (push_bit 6 2048) 64,
     ident 0x1580aa2c 0xFFFFFFFF (push_bit 20 256) 0 2048 (push_bit 6 2048) 64,
     ident 0x1590aa2c 0xFFFFFFFF (push_bit 20 256) 0 2048 (push_bit 6 2048) 64,
     ident 0x1590ac2c 0xFFFFFFFF (push_bit 20 512) 0 2048 (push_bit 6 2048) 64,
     ident 0x5580baad 0xFFFFFFFF (push_bit 20 256) 1 2048 (push_bit 6 2048) 64,
     ident 0x5510baad 0xFFFFFFFF (push_bit 20 256) 1 2048 (push_bit 6 2048) 64,
     ident 0x6600bcec 0xFF00FFFF (push_bit 20 512) 1 4096 (push_bit 6 4096) 128,
     ident 0x0000aaec 0x0000FFFF (push_bit 20 256) 1 2048 (push_bit 6 2048) 64,
     ident 0x0000acec 0x0000FFFF (push_bit 20 512) 1 2048 (push_bit 6 2048) 64,
     ident 0x0000bcec 0x0000FFFF (push_bit 20 512) 1 2048 (push_bit 6 2048) 64,
     ident 0x6601b3ec 0xFFFFFFFF (push_bit 20 1024) 1 4096 (push_bit 6 4096) 128,
     ident 0x0000b3ec 0x0000FFFF (push_bit 20 1024) 1 2048 (push_bit 6 2048) 64,
     ident 0x0000ba2c 0x0000FFFF (push_bit 20 256) 1 2048 (push_bit 6 2048) 64,
     ident 0x0000bc2c 0x0000FFFF (push_bit 20 512) 1 2048 (push_bit 6 2048) 64,
     ident 0x0000b32c 0x0000FFFF (push_bit 20 1024) 1 2048 (push_bit 6 2048) 64,
     ident 0x0000baad 0x0000FFFF (push_bit 20 256) 1 2048 (push_bit 6 2048) 64,
     ident 0x0000bcad 0x0000FFFF (push_bit 20 512) 1 2048 (push_bit 6 2048) 64,
     ident 0x0000b3ad 0x0000FFFF (push_bit 20 1024) 1 2048 (push_bit 6 2048) 64]"

definition set_nand_configuration :: "u8 \<Rightarrow> unit option" where
  "set_nand_configuration ty = (if ty = TYPE_APPS_PARTITION then Some () else None)"

text \<open>The search starts at the second row of the table.\<close>

definition flash_read_id :: "'hw bus \<Rightarrow> ptr \<Rightarrow> ptr \<Rightarrow> 'hw nand \<Rightarrow> 'hw nand option" where
  "flash_read_id b cmdlist ptrlist s =
    do {
      s1 \<leftarrow> flash_nand_read_id b cmdlist ptrlist s;
      case List.find (\<lambda>e. fi_id (info s1) AND id_mask e = id_flash_id e AND id_mask e) (tl supported_flash) of
        Some e \<Rightarrow>
          (let blocks = (if id_blksize e \<noteq> 0 \<and> id_pagesize e \<noteq> 0 then id_density e div id_blksize e else 0)
           in if blocks = 0 then None
              else Some (s1\<lparr>info := (info s1)\<lparr>
                       fi_type := (if id_widebus e \<noteq> 0 then FLASH_16BIT_NAND_DEVICE
                                   else FLASH_8BIT_NAND_DEVICE),
                       fi_page_size := id_pagesize e, fi_block_size := id_blksize e,
                       fi_spare_size := id_oobsize e, fi_num_blocks := blocks\<rparr>,
                     flash_pagesize := id_pagesize e\<rparr>))
      | None \<Rightarrow> Some (s1\<lparr>info := (info s1)\<lparr>fi_type := FLASH_8BIT_NAND_DEVICE\<rparr>\<rparr>)
    }"

section \<open>Wrappers\<close>

definition flash_mark_badblock :: "'hw bus \<Rightarrow> ptr \<Rightarrow> ptr \<Rightarrow> u32 \<Rightarrow> 'hw nand \<Rightarrow> (int \<times> 'hw nand) option" where
  "flash_mark_badblock b cmdlist ptrlist page s = flash_nand_mark_badblock b cmdlist ptrlist page s"

definition flash_erase_block :: "'hw bus \<Rightarrow> ptr \<Rightarrow> ptr \<Rightarrow> u32 \<Rightarrow> 'hw nand \<Rightarrow> (int \<times> 'hw nand) option" where
  "flash_erase_block b cmdlist ptrlist page s = flash_nand_erase_block b cmdlist ptrlist page s"

definition u_flash_read_page ::
    "'hw bus \<Rightarrow> ptr \<Rightarrow> ptr \<Rightarrow> u32 \<Rightarrow> ptr \<Rightarrow> ptr \<Rightarrow> 'hw nand \<Rightarrow> (int \<times> 'hw nand) option" where
  "u_flash_read_page b cmdlist ptrlist page addr spareaddr s =
    u_flash_nand_read_page b cmdlist ptrlist page addr spareaddr s"

definition u_flash_block_isbad :: "'hw bus \<Rightarrow> ptr \<Rightarrow> ptr \<Rightarrow> u32 \<Rightarrow> 'hw nand \<Rightarrow> (int \<times> 'hw nand) option" where
  "u_flash_block_isbad b cmdlist ptrlist page s = flash_nand_block_isbad b cmdlist ptrlist page s"

definition u_flash_write_page ::
    "'hw bus \<Rightarrow> ptr \<Rightarrow> ptr \<Rightarrow> u32 \<Rightarrow> ptr \<Rightarrow> ptr \<Rightarrow> 'hw nand \<Rightarrow> (int \<times> 'hw nand) option" where
  "u_flash_write_page b cmdlist ptrlist page addr spareaddr s =
    u_flash_nand_write_page b cmdlist ptrlist page addr spareaddr False s"

section \<open>Start-up and tables\<close>

definition flash_init :: "'hw bus \<Rightarrow> heap \<Rightarrow> 'hw nand \<Rightarrow> (heap \<times> 'hw nand) option" where
  "flash_init b h s =
    (if flash_ptable s \<noteq> 0 then None
     else do {
       (h1, p1) \<leftarrow> memalign h 32 1024;
       (h2, p2) \<leftarrow> memalign h1 32 1024;
       (h3, p3) \<leftarrow> memalign h2 32 (4096 + 128);
       (h4, p4) \<leftarrow> memalign h3 32 128;
       let s1 = s\<lparr>flash_ptrlist := p1, flash_cmdlist := p2, flash_data := p3, flash_spare := p4\<rparr>;
       s2 \<leftarrow> flash_read_id b (flash_cmdlist s1) (flash_ptrlist s1) s1;
       if fi_type (info s2) = FLASH_8BIT_NAND_DEVICE \<or> fi_type (info s2) = FLASH_16BIT_NAND_DEVICE then do {
         (r, s3) \<leftarrow> flash_nand_read_config b (flash_cmdlist s2) (flash_ptrlist s2) s2;
         if r \<noteq> 0 then None else Some (h4, s3)
       } else Some (h4, s2)
     })"

definition flash_get_ptable :: "'hw nand \<Rightarrow> ptr" where
  "flash_get_ptable s = flash_ptable s"

definition flash_set_ptable :: "ptr \<Rightarrow> 'hw nand \<Rightarrow> 'hw nand option" where
  "flash_set_ptable new_ptable s =
    (if flash_ptable s = 0 \<and> new_ptable \<noteq> 0 then Some (s\<lparr>flash_ptable := new_ptable\<rparr>) else None)"

definition flash_get_info :: "'hw nand \<Rightarrow> flash_info" where
  "flash_get_info s = info s"

definition flash_page_size :: "'hw nand \<Rightarrow> u32" where
  "flash_page_size s = flash_pagesize s"

section \<open>Erasing a partition\<close>

fun flash_erase_loop :: "'hw bus \<Rightarrow> nat \<Rightarrow> u32 \<Rightarrow> 'hw nand \<Rightarrow> 'hw nand option" where
  "flash_erase_loop b 0 block s = Some s"
| "flash_erase_loop b (Suc count) block s =
    do {
      (_, s1) \<leftarrow> flash_erase_block b (flash_cmdlist s) (flash_ptrlist s) (block * 64) s;
      flash_erase_loop b count (block + 1) s1
    }"

definition flash_erase :: "'hw bus \<Rightarrow> ptr \<Rightarrow> 'hw nand \<Rightarrow> (int \<times> 'hw nand) option" where
  "flash_erase b ptn s =
    do {
      set_nand_configuration (ptn_type (ram s) ptn);
      s1 \<leftarrow> flash_erase_loop b (unat (ptn_length (ram s) ptn)) (ptn_start (ram s) ptn) s;
      Some (0, s1)
    }"

section \<open>Reading from a partition\<close>

text \<open>
  The first loop steps over the bad blocks before the page asked for; the second reads pages.
  The error counter, which is only printed, is left out.
\<close>

partial_function (option) skip_bad_blocks ::
    "'hw bus \<Rightarrow> ptr \<Rightarrow> int \<Rightarrow> u32 \<Rightarrow> u32 \<Rightarrow> 'hw nand \<Rightarrow> (int \<times> u32 \<times> 'hw nand) option" where
  "skip_bad_blocks b ptn start_block_count start_block page s =
    (if start_block_count \<noteq> 0 \<and> start_block < ptn_start (ram s) ptn + ptn_length (ram s) ptn then do {
       (isbad, s1) \<leftarrow> u_flash_block_isbad b (flash_cmdlist s) (flash_ptrlist s) (start_block * 64) s;
       if isbad \<noteq> 0 then skip_bad_blocks b ptn start_block_count (start_block + 1) (page + 64) s1
       else skip_bad_blocks b ptn (start_block_count - 1) (start_block + 1) page s1
     } else Some (start_block_count, page, s))"

partial_function (option) flash_read_loop ::
    "'hw bus \<Rightarrow> u32 \<Rightarrow> u32 \<Rightarrow> ptr \<Rightarrow> int \<Rightarrow> u32 \<Rightarrow> ptr \<Rightarrow> u32 \<Rightarrow> 'hw nand \<Rightarrow> (int \<times> 'hw nand) option" where
  "flash_read_loop b extra_per_page lastpage spare start_block_count page img count s =
    (if page < lastpage \<and> start_block_count = 0 then
       if count = 0 then Some (0, s)
       else do {
         (result, s1) \<leftarrow> u_flash_read_page b (flash_cmdlist s) (flash_ptrlist s) page (flash_data s) spare s;
         if result = -1 then
           flash_read_loop b extra_per_page lastpage spare start_block_count (page + 1) img count s1
         else if result = -2 then
           flash_read_loop b extra_per_page lastpage spare start_block_count (page + 64) img count s1
         else do {
           let m1 = fst (memcpy (ram s1) img (flash_data s1) (flash_pagesize s1));
           let img1 = img + flash_pagesize s1;
           let m2 = fst (memcpy m1 img1 spare extra_per_page);
           flash_read_loop b extra_per_page lastpage spare start_block_count (page + 1)
             (img1 + extra_per_page) (count - 1) (s1\<lparr>ram := m2\<rparr>)
         }
       }
     else Some (-1, s))"

definition flash_read_ext ::
    "'hw bus \<Rightarrow> ptr \<Rightarrow> u32 \<Rightarrow> u32 \<Rightarrow> ptr \<Rightarrow> u32 \<Rightarrow> 'hw nand \<Rightarrow> (int \<times> 'hw nand) option" where
  "flash_read_ext b ptn extra_per_page offset data bytes s =
    (if flash_pagesize s = 0 \<or> flash_pagesize s + extra_per_page = 0 then None
     else do {
       let start = ptn_start (ram s) ptn;
       let page = start * 64 + offset div flash_pagesize s;
       let lastpage = (start + ptn_length (ram s) ptn) * 64;
       let count = (bytes + flash_pagesize s - 1 + extra_per_page) div (flash_pagesize s + extra_per_page);
       let spare = flash_spare s;
       let current_block = drop_bit 6 (page - (page AND 63));
       set_nand_configuration (ptn_type (ram s) ptn);
       set_nand_configuration TYPE_APPS_PARTITION;
       if offset AND (flash_pagesize s - 1) \<noteq> 0 then Some (-1, s)
       else do {
         (start_block_count, page1, s1) \<leftarrow>
           (if start < current_block
            then skip_bad_blocks b ptn (sint (current_block - start)) start page s
            else Some (0, page, s));
         flash_read_loop b extra_per_page lastpage spare start_block_count page1 data count s1
       }
     })"

definition flash_read :: "'hw bus \<Rightarrow> ptr \<Rightarrow> u32 \<Rightarrow> ptr \<Rightarrow> u32 \<Rightarrow> 'hw nand \<Rightarrow> (int \<times> 'hw nand) option" where
  "flash_read b ptn offset data bytes s = flash_read_ext b ptn 0 offset data bytes s"

section \<open>Writing an image to a partition\<close>

text \<open>
  One page after the other, every block erased before its first page. After a failure to write,
  the image goes back to what was written to the block so far, the block is erased and marked bad,
  and the block is written again in the next place.
\<close>

partial_function (option) flash_write_loop ::
    "'hw bus \<Rightarrow> ptr \<Rightarrow> u32 \<Rightarrow> u32 \<Rightarrow> u32 \<Rightarrow> ptr \<Rightarrow> u32 \<Rightarrow> ptr \<Rightarrow> u32 \<Rightarrow> 'hw nand \<Rightarrow> (int \<times> u32 \<times> 'hw nand) option" where
  "flash_write_loop b ptn extra_per_page wsize lastpage spare page img bytes s =
    (if bytes = 0 then Some (0, page, s)
     else if bytes < wsize then Some (-1, page, s)
     else if page \<ge> lastpage then Some (-1, page, s)
     else do {
       (bad, s1) \<leftarrow> (if page AND 63 = 0 then flash_erase_block b (flash_cmdlist s) (flash_ptrlist s) page s
                      else Some (0, s));
       if bad \<noteq> 0 then flash_write_loop b ptn extra_per_page wsize lastpage spare (page + 64) img bytes s1
       else do {
         (r, s2) \<leftarrow> u_flash_write_page b (flash_cmdlist s1) (flash_ptrlist s1) page img
                      (if extra_per_page \<noteq> 0 then img + flash_pagesize s1 else spare) s1;
         if r \<noteq> 0 then do {
           let img1 = img - (page AND 63) * wsize;
           let bytes1 = bytes + (page AND 63) * wsize;
           let page1 = page AND NOT 63;
           (_, s3) \<leftarrow> flash_erase_block b (flash_cmdlist s2) (flash_ptrlist s2) page1 s2;
           (_, s4) \<leftarrow> (if ptn_type (ram s3) ptn \<noteq> TYPE_MODEM_PARTITION
                      then flash_mark_badblock b (flash_cmdlist s3) (flash_ptrlist s3) page1 s3
                      else Some (0, s3));
           flash_write_loop b ptn extra_per_page wsize lastpage spare (page1 + 64) img1 bytes1 s4
         }
         else flash_write_loop b ptn extra_per_page wsize lastpage spare (page + 1) (img + wsize) (bytes - wsize) s2
       }
     })"

text \<open>Erase what is left of the partition.\<close>

partial_function (option) erase_rest :: "'hw bus \<Rightarrow> u32 \<Rightarrow> u32 \<Rightarrow> 'hw nand \<Rightarrow> 'hw nand option" where
  "erase_rest b lastpage page s =
    (if page < lastpage then do {
       (_, s1) \<leftarrow> flash_erase_block b (flash_cmdlist s) (flash_ptrlist s) page s;
       erase_rest b lastpage (page + 64) s1
     } else Some s)"

definition flash_write :: "'hw bus \<Rightarrow> ptr \<Rightarrow> u32 \<Rightarrow> ptr \<Rightarrow> u32 \<Rightarrow> 'hw nand \<Rightarrow> (int \<times> 'hw nand) option" where
  "flash_write b ptn extra_per_page data bytes s =
    (let start = ptn_start (ram s) ptn;
         lastpage = (start + ptn_length (ram s) ptn) * 64;
         spare = flash_spare s;
         wsize = flash_pagesize s + extra_per_page
     in if ptn_type (ram s) ptn = TYPE_MODEM_PARTITION then Some (-1, s)
        else do {
          set_nand_configuration (ptn_type (ram s) ptn);
          let s1 = s\<lparr>ram := store_words (ram s) spare (replicate 16 0xffffffff)\<rparr>;
          (r, page, s2) \<leftarrow> flash_write_loop b ptn extra_per_page wsize lastpage spare (start * 64) data bytes s1;
          if r \<noteq> 0 then Some (-1, s2)
          else do {
            s3 \<leftarrow> erase_rest b lastpage ((page + 63) AND NOT 63) s2;
            Some (0, s3)
          }
        })"

end
