(* ===== verification/Lk_Nandops.thy ===== *)
theory Lk_Nandops
  imports Lk_Flash
begin

text \<open>
  What the data mover is asked to do. The comments of \<open>dmov.h\<close> say how it walks the lists: from
  the pointer it is given to an array of commands, to the command marked last. \<open>walk\<close> does that on
  the memory the driver has prepared; the lemmas show that it finds the commands the driver meant,
  and which operation of the NAND controller, on which page, they stand for.
\<close>

section \<open>Walking a command list\<close>

definition cmd_at :: "mem \<Rightarrow> ptr \<Rightarrow> dmov_s" where
  "cmd_at m p = move (load32 m p) (load32 m (p + 4)) (load32 m (p + 8)) (load32 m (p + 12))"

fun fetch_cmds :: "nat \<Rightarrow> mem \<Rightarrow> ptr \<Rightarrow> dmov_s list" where
  "fetch_cmds 0 m p = []"
| "fetch_cmds (Suc k) m p =
    (let c = cmd_at m p
     in if dm_cmd c AND CMD_LC \<noteq> 0 then [c] else c # fetch_cmds k m (p + 16))"

text \<open>
  64 commands fill the kilobyte the driver allocates for them, and 256 entries that of the list of
  pointers, which ends with the entry that is marked as the last.
\<close>

fun walk_ptrs :: "nat \<Rightarrow> mem \<Rightarrow> ptr \<Rightarrow> dmov_s list" where
  "walk_ptrs 0 m p = []"
| "walk_ptrs (Suc k) m p =
    fetch_cmds 64 m (push_bit 3 (load32 m p)) @
    (if load32 m p AND CMD_PTR_LP \<noteq> 0 then [] else walk_ptrs k m (p + 4))"

definition walk :: "mem \<Rightarrow> ptr \<Rightarrow> dmov_s list" where
  "walk m p = walk_ptrs 256 m p"

lemma walk_ptrs_last:
  "0 < k \<Longrightarrow> load32 m p AND CMD_PTR_LP \<noteq> 0 \<Longrightarrow> walk_ptrs k m p = fetch_cmds 64 m (push_bit 3 (load32 m p))"
  by (cases k) (simp_all del: fetch_cmds.simps)

lemma walk_last: "load32 m p AND CMD_PTR_LP \<noteq> 0 \<Longrightarrow> walk m p = fetch_cmds 64 m (push_bit 3 (load32 m p))"
  unfolding walk_def by (rule walk_ptrs_last) simp_all

text \<open>The areas of the two lists, as \<open>flash_init\<close> allocates them.\<close>

definition lists_ok :: "ptr \<Rightarrow> ptr \<Rightarrow> bool" where
  "lists_ok cmdlist ptrlist \<longleftrightarrow> cmdlist AND 7 = 0 \<and> ptrlist AND 7 = 0 \<and> sep cmdlist 1024 ptrlist 1024"

text \<open>A list that ends where the data mover stops.\<close>

definition ends_once :: "dmov_s list \<Rightarrow> bool" where
  "ends_once cs \<longleftrightarrow> cs \<noteq> [] \<and> length cs \<le> 64 \<and> (\<forall>c \<in> set (butlast cs). dm_cmd c AND CMD_LC = 0) \<and>
    dm_cmd (last cs) AND CMD_LC \<noteq> 0"

lemma fetch_cmds_stored:
  "cs \<noteq> [] \<Longrightarrow> length cs \<le> k \<Longrightarrow> \<forall>c \<in> set (butlast cs). dm_cmd c AND CMD_LC = 0 \<Longrightarrow>
    dm_cmd (last cs) AND CMD_LC \<noteq> 0 \<Longrightarrow>
    (\<And>i. i < length cs \<Longrightarrow> cmd_at m (p + of_nat (16 * i)) = cs ! i) \<Longrightarrow> fetch_cmds k m p = cs"
proof (induction cs arbitrary: k p)
  case (Cons c cs)
  from Cons.prems(2) obtain k' where k: "k = Suc k'" by (cases k) simp_all
  have c: "cmd_at m p = c" using Cons.prems(5) [of 0] by simp
  show ?case
  proof (cases "cs = []")
    case True
    with c k Cons.prems(4) show ?thesis by simp
  next
    case False
    have "fetch_cmds k' m (p + 16) = cs"
    proof (rule Cons.IH)
      fix i
      assume "i < length cs"
      then show "cmd_at m (p + 16 + of_nat (16 * i)) = cs ! i"
        using Cons.prems(5) [of "Suc i"] by (simp add: add.assoc)
    qed (use False Cons.prems k in auto)
    with c k Cons.prems(3) False show ?thesis by simp
  qed
qed simp

lemma length_cmd_words [simp]: "length (concat (map cmd_words cs)) = 4 * length cs"
  by (induction cs) (simp_all add: cmd_words_def)

lemma nth_cmd_words:
  "i < length cs \<Longrightarrow> j < 4 \<Longrightarrow> concat (map cmd_words cs) ! (4 * i + j) = cmd_words (cs ! i) ! j"
proof (induction cs arbitrary: i)
  case (Cons c cs)
  have len: "length (cmd_words c) = 4" by (simp add: cmd_words_def)
  show ?case
  proof (cases i)
    case 0
    with Cons.prems len show ?thesis by (simp add: nth_append)
  next
    case (Suc i')
    with Cons len show ?thesis by (simp add: nth_append)
  qed
qed simp

lemma lists_ok_sep:
  assumes "lists_ok cmdlist ptrlist" and "i + n \<le> 1024" and "j + k \<le> 1024" and "0 < n" and "0 < k"
  shows "sep (cmdlist + of_nat i) n (ptrlist + of_nat j) k"
proof -
  have "sep cmdlist 1024 (ptrlist + of_nat j) k"
    using assms by (intro sep_sub) (simp_all add: lists_ok_def)
  then have "sep (ptrlist + of_nat j) k (cmdlist + of_nat i) n"
    using assms by (intro sep_sub) (simp_all add: sep_sym)
  then show ?thesis by (simp add: sep_sym)
qed

lemma shift_lp: "push_bit 3 CMD_PTR_LP = 0"
  by (simp add: CMD_PTR_LP_def)

lemma aligned8:
  fixes p :: u32
  assumes "p AND 7 = 0"
  shows "push_bit 3 (drop_bit 3 p) = p"
proof (rule bit_word_eqI)
  fix n
  assume n: "n < LENGTH(32)"
  have "\<not> bit p i" if "i < 3" for i
  proof -
    have "bit (7 :: u32) i" using that by (simp add: numeral_eq_Suc less_Suc_eq bit_simps) auto
    then show ?thesis using arg_cong [OF assms, of "\<lambda>x. bit x i"] by (simp add: bit_simps)
  qed
  then show "bit (push_bit 3 (drop_bit 3 p)) n = bit p n"
    using n by (cases "n < 3") (auto simp: bit_simps)
qed

lemma walk_put_cmds:
  assumes l: "lists_ok cmdlist ptrlist" and e: "ends_once cs"
  shows "walk (put_cmds cmdlist ptrlist cs m) ptrlist = cs"
proof -
  let ?ws = "concat (map cmd_words cs)" and ?m = "put_cmds cmdlist ptrlist cs m"
  have n: "length cs \<le> 64" using e by (simp add: ends_once_def)
  have w: "load32 ?m (cmdlist + of_nat (16 * i + 4 * j)) = cmd_words (cs ! i) ! j"
    if "i < length cs" "j < 4" for i j
  proof -
    have "16 * i + 4 * j + 4 \<le> 1024" using that n by simp
    then have "sep (cmdlist + of_nat (16 * i + 4 * j)) 4 (ptrlist + of_nat 0) 4"
      by (intro lists_ok_sep [OF l]) simp_all
    then have "load32 ?m (cmdlist + of_nat (16 * i + 4 * j))
        = load32 (store_words m cmdlist ?ws) (cmdlist + of_nat (4 * (4 * i + j)))"
      by (simp add: put_cmds_def load32_store32_sep algebra_simps)
    also have "\<dots> = ?ws ! (4 * i + j)" using that n by (intro load32_store_words) simp_all
    finally show ?thesis using that by (simp add: nth_cmd_words)
  qed
  have "fetch_cmds 64 ?m cmdlist = cs"
  proof (rule fetch_cmds_stored)
    fix i
    assume i: "i < length cs"
    show "cmd_at ?m (cmdlist + of_nat (16 * i)) = cs ! i"
      using w [OF i, of 0] w [OF i, of 1] w [OF i, of 2] w [OF i, of 3]
      by (simp add: cmd_at_def move_def cmd_words_def add.assoc)
  qed (use e in \<open>simp_all add: ends_once_def\<close>)
  moreover have "push_bit 3 (load32 ?m ptrlist) = cmdlist"
    using l by (simp add: put_cmds_def shift_lp aligned8 lists_ok_def)
  moreover have "load32 ?m ptrlist AND CMD_PTR_LP = CMD_PTR_LP" by (simp add: put_cmds_def bit.conj_disj_distrib2)
  ultimately show ?thesis by (simp add: walk_last CMD_PTR_LP_def)
qed

text \<open>The register block behind the pointer list is as it was written.\<close>

lemma load32_put_cmds_data:
  assumes l: "lists_ok cmdlist ptrlist" and "length cs \<le> 64" and "16 \<le> k" and "k + 4 \<le> 1024"
  shows "load32 (put_cmds cmdlist ptrlist cs m) (ptrlist + of_nat k) = load32 m (ptrlist + of_nat k)"
proof (cases "cs = []")
  case True
  have "sep (ptrlist + of_nat k) 4 ptrlist 4" using assms by (intro sep_before) simp_all
  with True show ?thesis by (simp add: put_cmds_def load32_store32_sep)
next
  case False
  have "sep (ptrlist + of_nat k) 4 ptrlist 4" using assms by (intro sep_before) simp_all
  moreover have "sep (cmdlist + of_nat 0) (16 * length cs) (ptrlist + of_nat k) 4"
    using assms False by (intro lists_ok_sep) simp_all
  ultimately show ?thesis
    by (simp add: put_cmds_def load32_store32_sep load32_words_sep sep_sym)
qed

section \<open>The lists of the driver end where they should\<close>

lemma concat_cw_length:
  "(\<And>k. k < n \<Longrightarrow> length (f k) \<le> (if k = 0 then 9 else 7)) \<Longrightarrow>
    length (concat (map f [0..<n])) \<le> 7 * n + (2 :: nat)"
proof (induction n)
  case (Suc n)
  then have "length (concat (map f [0..<n])) \<le> 7 * n + 2" by simp
  moreover have "length (f n) \<le> (if n = 0 then 9 else 7)" using Suc.prems [of n] by simp
  ultimately show ?case by (cases n) simp_all
qed simp

lemma of_nat_u32_0: "k < 2 ^ 32 \<Longrightarrow> (of_nat k :: u32) = 0 \<longleftrightarrow> k = 0"
  using unat_of_nat_u32 [of k] unat_eq_zero [of "of_nat k :: u32"] by auto

lemma ends_once_short:
  "cs \<noteq> [] \<Longrightarrow> length cs \<le> 64 \<Longrightarrow> list_all (\<lambda>c. dm_cmd c AND CMD_LC = 0) (butlast cs) \<Longrightarrow>
    dm_cmd (last cs) AND CMD_LC \<noteq> 0 \<Longrightarrow> ends_once cs"
  by (simp add: ends_once_def list_all_iff)

lemma ends_read_id: "ends_once (read_id_cmds data)"
  by (rule ends_once_short) (simp_all add: read_id_cmds_def move_def nand_consts)

lemma ends_isbad: "ends_once (isbad_cmds data buf pagesize cw)"
  by (rule ends_once_short) (simp_all add: isbad_cmds_def move_def nand_consts)

lemma ends_erase: "ends_once (erase_cmds data)"
  by (rule ends_once_short) (simp_all add: erase_cmds_def move_def nand_consts)

lemma ends_read_config: "ends_once (read_config_cmds a b)"
  by (rule ends_once_short) (simp_all add: read_config_cmds_def move_def nand_consts)

lemma page_cmds_ends:
  assumes "unat cw \<le> 8"
    and "\<And>k. k < unat cw \<Longrightarrow> length (f (of_nat k)) \<le> (if k = 0 then 9 else 7)"
    and "\<And>k c. c \<in> set (f k) \<Longrightarrow> dm_cmd c AND CMD_LC = 0"
  shows "ends_once (page_cmds data cw f)"
proof -
  let ?mid = "concat (map (\<lambda>n. f (of_nat n)) [0..<unat cw])"
  have "length ?mid \<le> 7 * unat cw + 2" by (rule concat_cw_length) (rule assms(2))
  with assms(1) have "length ?mid \<le> 58" by linarith
  moreover have "dm_cmd c AND CMD_LC = 0" if "c \<in> set ?mid" for c
    using that assms(3) by auto
  ultimately show ?thesis
    unfolding ends_once_def page_cmds_def
    by (auto simp: butlast_append move_def CMD_OCB_def CMD_LC_def CMD_OCU_def)
qed

lemma ends_read_page:
  assumes "unat cw \<le> 8"
  shows "ends_once (page_cmds data cw (read_cw_cmds data addr spareaddr cwdatasize cwoobsize))"
proof (rule page_cmds_ends [OF assms])
  show "length (read_cw_cmds data addr spareaddr cwdatasize cwoobsize (of_nat k)) \<le> (if k = 0 then 9 else 7)"
    if "k < unat cw" for k
    using that unat_lt_2p32 [of cw] by (simp add: read_cw_cmds_def of_nat_u32_0)
  show "dm_cmd c AND CMD_LC = 0" if "c \<in> set (read_cw_cmds data addr spareaddr cwdatasize cwoobsize k)" for k c
    using that by (auto simp: read_cw_cmds_def move_def nand_consts split: if_splits)
qed

lemma ends_write_page:
  assumes "unat cw \<le> 8"
  shows "ends_once (page_cmds data cw (write_cw_cmds raw data addr spareaddr cwdatasize cwoobsize))"
proof (rule page_cmds_ends [OF assms])
  show "length (write_cw_cmds raw data addr spareaddr cwdatasize cwoobsize (of_nat k)) \<le> (if k = 0 then 9 else 7)"
    if "k < unat cw" for k
    using that unat_lt_2p32 [of cw] by (simp add: write_cw_cmds_def of_nat_u32_0)
  show "dm_cmd c AND CMD_LC = 0" if "c \<in> set (write_cw_cmds raw data addr spareaddr cwdatasize cwoobsize k)" for k c
    using that by (auto simp: write_cw_cmds_def move_def nand_consts split: if_splits)
qed

section \<open>What the controller is documented to do\<close>

text \<open>
  The register block of a request is the source of the first command paced by the controller's
  command line; its words are the operation, the two address words and the chip. An erase gives
  the page number in the first address word, a page operation in the upper half of the first and
  the lower byte of the second.
\<close>

definition req_block :: "dmov_s list \<Rightarrow> ptr" where
  "req_block cs = (case List.find (\<lambda>c. dm_cmd c AND CMD_DST_CRCI 15 = DST_CRCI_NAND_CMD) cs of
     Some c \<Rightarrow> dm_src c | None \<Rightarrow> 0)"

definition req_op :: "mem \<Rightarrow> dmov_s list \<Rightarrow> u32" where
  "req_op m cs = load32 m (req_block cs)"

definition erase_page :: "mem \<Rightarrow> dmov_s list \<Rightarrow> u32" where
  "erase_page m cs = load32 m (req_block cs + 4)"

definition prog_page :: "mem \<Rightarrow> dmov_s list \<Rightarrow> u32" where
  "prog_page m cs = drop_bit 16 (load32 m (req_block cs + 4)) OR push_bit 16 (load32 m (req_block cs + 8))"

definition same_block :: "u32 \<Rightarrow> u32 \<Rightarrow> bool" where
  "same_block p q \<longleftrightarrow> unat p div 64 = unat q div 64"

text \<open>The pages a request may change, and the status words it leaves.\<close>

definition touches :: "mem \<Rightarrow> dmov_s list \<Rightarrow> u32 \<Rightarrow> bool" where
  "touches m cs page \<longleftrightarrow>
    (req_op m cs = NAND_CMD_BLOCK_ERASE \<and> same_block page (erase_page m cs)) \<or>
    (req_op m cs = NAND_CMD_PRG_PAGE_ALL \<and> page = prog_page m cs)"

definition statuses_ok :: "mem \<Rightarrow> dmov_s list \<Rightarrow> bool" where
  "statuses_ok m cs \<longleftrightarrow>
    (\<forall>c \<in> set cs. dm_cmd c = SRC_CRCI_NAND_DATA \<longrightarrow>
       load32 m (dm_dst c) AND 0x110 = 0 \<and> load32 m (dm_dst c) AND 0x80 \<noteq> 0)"

definition page_data :: "mem \<Rightarrow> dmov_s list \<Rightarrow> u8 list" where
  "page_data m cs = concat (map (\<lambda>c. rd m (dm_src c) (unat (dm_len c)))
     (filter (\<lambda>c. dm_dst c = NAND_FLASH_BUFFER) cs))"

text \<open>
  \<open>cell d page\<close> is the content of a page on the device, \<open>None\<close> when it is erased. A list that the
  data mover has completed changed memory at the destinations of its commands only and the
  device only at the pages of its request; if the status words say so, an erase has erased its
  block and a program operation has written an erased page.
\<close>

definition nand_works :: "'hw bus \<Rightarrow> ('hw \<Rightarrow> u32 \<Rightarrow> u8 list option) \<Rightarrow> bool" where
  "nand_works b cell \<longleftrightarrow> (\<forall>p m d r m' d'.
     p AND 7 = 0 \<longrightarrow> dmov_exec_cmdptr b DMOV_NAND_CHAN p (m, d) = Some (r, m', d') \<longrightarrow>
     (\<forall>q. (\<forall>c \<in> set (walk m p). unat (dm_len c) \<le> unat (q - dm_dst c)) \<longrightarrow> m' q = m q) \<and>
     (\<forall>page. \<not> touches m (walk m p) page \<longrightarrow> cell d' page = cell d page) \<and>
     (statuses_ok m' (walk m p) \<and> req_op m (walk m p) = NAND_CMD_BLOCK_ERASE \<longrightarrow>
        (\<forall>page. same_block page (erase_page m (walk m p)) \<longrightarrow> cell d' page = None)) \<and>
     (statuses_ok m' (walk m p) \<and> req_op m (walk m p) = NAND_CMD_PRG_PAGE_ALL \<and>
        cell d (prog_page m (walk m p)) = None \<longrightarrow>
        cell d' (prog_page m (walk m p)) = Some (page_data m (walk m p))))"

section \<open>The state of the driver\<close>

text \<open>Nothing but the memory and the device differs.\<close>

definition same_driver :: "'hw nand \<Rightarrow> 'hw nand \<Rightarrow> bool" where
  "same_driver s s' \<longleftrightarrow> (\<exists>m d. s' = s\<lparr>ram := m, device := d\<rparr>)"

lemma same_driver_refl [simp]: "same_driver s s"
  unfolding same_driver_def by (intro exI [of _ "ram s"] exI [of _ "device s"]) simp

lemma same_driver_upd [simp]: "same_driver s (s\<lparr>ram := m, device := d\<rparr>)"
  by (auto simp: same_driver_def)

lemma same_driver_ram [simp]: "same_driver s (s\<lparr>ram := m\<rparr>)"
  unfolding same_driver_def by (intro exI [of _ m] exI [of _ "device s"]) simp

lemma same_driver_trans: "same_driver s s' \<Longrightarrow> same_driver s' s'' \<Longrightarrow> same_driver s s''"
proof -
  assume "same_driver s s'" "same_driver s' s''"
  then obtain m d m' d' where "s' = s\<lparr>ram := m, device := d\<rparr>" "s'' = s'\<lparr>ram := m', device := d'\<rparr>"
    unfolding same_driver_def by blast
  then have "s'' = s\<lparr>ram := m', device := d'\<rparr>" by simp
  then show ?thesis by simp
qed

lemma same_driver_fields:
  assumes "same_driver s s'"
  shows "CFG0 s' = CFG0 s" "CFG1 s' = CFG1 s" "flash_pagesize s' = flash_pagesize s"
    "flash_ptrlist s' = flash_ptrlist s" "flash_cmdlist s' = flash_cmdlist s" "flash_data s' = flash_data s"
    "flash_spare s' = flash_spare s" "buf_addr s' = buf_addr s" "empty_buf_addr s' = empty_buf_addr s"
  using assms by (auto simp: same_driver_def)

text \<open>
  An address the driver's own data is not at: the two lists, the two stack buffers, and the
  registers of the controller.
\<close>

definition apart :: "'hw nand \<Rightarrow> ptr \<Rightarrow> bool" where
  "apart s q \<longleftrightarrow> 1024 \<le> unat (q - flash_cmdlist s) \<and> 1024 \<le> unat (q - flash_ptrlist s) \<and>
    4 \<le> unat (q - buf_addr s) \<and> 528 \<le> unat (q - empty_buf_addr s) \<and> 4096 \<le> unat (q - MSM_NAND_BASE)"

lemma apart_same: "same_driver s s' \<Longrightarrow> apart s' q = apart s q"
  by (simp add: apart_def same_driver_fields)

lemma off_range:
  assumes "n \<le> unat (q - a0)" and "unat off + unat len \<le> n"
  shows "unat (len :: u32) \<le> unat (q - (a0 + off :: ptr))"
proof -
  have "unat (q - (a0 + of_nat (unat off))) = unat (q - a0) - unat off"
    using assms by (intro unat_diff_retreat) simp
  with assms show ?thesis by simp
qed

lemma put_cmds_other:
  assumes "length cs \<le> 64" and "1024 \<le> unat (q - cmdlist)" and "1024 \<le> unat (q - ptrlist)"
  shows "put_cmds cmdlist ptrlist cs m q = m q"
  using assms by (simp add: put_cmds_def store32_other store_words_other)

section \<open>Where the commands write\<close>

definition safe_dst :: "'hw nand \<Rightarrow> dmov_s \<Rightarrow> bool" where
  "safe_dst s c \<longleftrightarrow> (\<forall>q. apart s q \<longrightarrow> unat (dm_len c) \<le> unat (q - dm_dst c))"

lemma safe_reg [simp]: "unat off + unat n \<le> 4096 \<Longrightarrow> safe_dst s (move c p (NAND_REG off) n)"
  using off_range [of 4096 _ MSM_NAND_BASE off n] by (auto simp: safe_dst_def move_def NAND_REG_def apart_def)

lemma safe_buffer [simp]:
  assumes "unat off + unat k + unat n \<le> 4096"
  shows "safe_dst s (move c p (NAND_REG off + k) n)"
proof -
  have "unat (off + k) \<le> unat off + unat k" by (simp add: unat_word_ariths)
  with assms have "unat (off + k) + unat n \<le> 4096" by linarith
  then have "safe_dst s (move c p (NAND_REG (off + k)) n)" by (rule safe_reg)
  then show ?thesis by (simp add: NAND_REG_def add.assoc)
qed

lemma safe_data [simp]: "unat off + unat n \<le> 1024 \<Longrightarrow> safe_dst s (move c p (flash_ptrlist s + off) n)"
  using off_range [of 1024 _ "flash_ptrlist s" off n] by (auto simp: safe_dst_def move_def apart_def)

lemma safe_data' [simp]: "unat off + unat n \<le> 1024 \<Longrightarrow> safe_dst s (move c p (off + flash_ptrlist s) n)"
  using safe_data [of off n s c p] by (simp add: add.commute)

lemma safe_buf [simp]: "unat n \<le> 4 \<Longrightarrow> safe_dst s (move c p (buf_addr s) n)"
  using off_range [of 4 _ "buf_addr s" 0 n] by (auto simp: safe_dst_def move_def apart_def)

lemmas nand_regs = NAND_FLASH_CMD_def NAND_FLASH_CHIP_SELECT_def NAND_EXEC_CMD_def NAND_FLASH_STATUS_def
  NAND_DEV0_CFG0_def NAND_DEV0_CFG1_def NAND_READ_ID_def NAND_READ_STATUS_def NAND_SFLASHC_BURST_CFG_def
  NAND_EBI2_ECC_BUF_CFG_def NAND_FLASH_BUFFER_def

lemma safe_isbad: "list_all (safe_dst s) (isbad_cmds (flash_ptrlist s + 16) (buf_addr s) pagesize cw)"
  by (simp add: isbad_cmds_def nand_regs)

lemma safe_erase: "list_all (safe_dst s) (erase_cmds (flash_ptrlist s + 16))"
  by (simp add: erase_cmds_def nand_regs)

lemma unat_8n: "unat (n :: u32) < 8 \<Longrightarrow> unat (60 + 8 * n) = 60 + 8 * unat n"
  by (simp add: unat_word_ariths)

lemma safe_result [simp]:
  assumes "unat n < 8"
  shows "safe_dst s (move c p (io_result (flash_ptrlist s + 16) n) 8)"
proof -
  have "safe_dst s (move c p (flash_ptrlist s + (60 + 8 * n)) 8)"
    by (rule safe_data) (use assms in \<open>simp add: unat_8n\<close>)
  then show ?thesis by (simp add: io_result_def add.assoc)
qed

lemma safe_write_cw:
  "unat n < 8 \<Longrightarrow> unat cwdatasize \<le> 512 \<Longrightarrow> unat cwoobsize \<le> 16 \<Longrightarrow>
    list_all (safe_dst s) (write_cw_cmds raw (flash_ptrlist s + 16) addr spareaddr cwdatasize cwoobsize n)"
  by (simp add: write_cw_cmds_def nand_regs)

lemma list_all_page_cmds:
  "P (move CMD_OCB NAND_EBI2_ECC_BUF_CFG (io_ecc_cfg_save data) 4) \<Longrightarrow>
   P (move (CMD_OCU OR CMD_LC) (io_ecc_cfg_save data) NAND_EBI2_ECC_BUF_CFG 4) \<Longrightarrow>
   (\<And>n. unat n < unat cw \<Longrightarrow> list_all P (f n)) \<Longrightarrow> list_all P (page_cmds data cw f)"
proof -
  assume P: "P (move CMD_OCB NAND_EBI2_ECC_BUF_CFG (io_ecc_cfg_save data) 4)"
    "P (move (CMD_OCU OR CMD_LC) (io_ecc_cfg_save data) NAND_EBI2_ECC_BUF_CFG 4)"
    and f: "\<And>n. unat n < unat cw \<Longrightarrow> list_all P (f n)"
  have "list_all P (f (of_nat k))" if "k < unat cw" for k
  proof (rule f)
    have "k < 2 ^ 32" using that unat_lt_2p32 [of cw] by linarith
    then show "unat (of_nat k :: u32) < unat cw" using that by (simp only: unat_of_nat_u32)
  qed
  then have "list_all P (concat (map (\<lambda>n. f (of_nat n)) [0..<unat cw]))" by (auto simp: list_all_iff)
  with P show "list_all P (page_cmds data cw f)" by (simp add: page_cmds_def)
qed

lemma safe_write_page:
  assumes "unat cw \<le> 8" and "unat cwdatasize \<le> 512" and "unat cwoobsize \<le> 16"
  shows "list_all (safe_dst s) (page_cmds (flash_ptrlist s + 16) cw
     (write_cw_cmds raw (flash_ptrlist s + 16) addr spareaddr cwdatasize cwoobsize))"
  using assms by (intro list_all_page_cmds safe_write_cw) (simp_all add: nand_regs io_ecc_cfg_save_def)

section \<open>Requests\<close>

lemma data_word:
  assumes "lists_ok cmdlist ptrlist" and "length cs \<le> 64" and "i < length ws" and "length ws \<le> 200"
  shows "load32 (put_cmds cmdlist ptrlist cs (store_words m (ptrlist + 16) ws)) (ptrlist + of_nat (16 + 4 * i)) = ws ! i"
proof -
  have "load32 (put_cmds cmdlist ptrlist cs (store_words m (ptrlist + 16) ws)) (ptrlist + of_nat (16 + 4 * i))
      = load32 (store_words m (ptrlist + 16) ws) (ptrlist + 16 + of_nat (4 * i))"
    using load32_put_cmds_data [OF assms(1,2), of "16 + 4 * i"] assms by (simp add: add.assoc)
  also have "\<dots> = ws ! i" using assms by (intro load32_store_words) simp_all
  finally show ?thesis .
qed

lemma run_works:
  assumes w: "nand_works b cell" and l: "lists_ok cmdlist ptrlist" and e: "ends_once cs"
    and run: "dmov_run b ptrlist (s\<lparr>ram := put_cmds cmdlist ptrlist cs m\<rparr>) = Some (r, s')"
  defines "mm \<equiv> put_cmds cmdlist ptrlist cs m"
  shows "same_driver s s'"
    and "\<And>q. list_all (safe_dst s) cs \<Longrightarrow> apart s q \<Longrightarrow> ram s' q = mm q"
    and "\<And>page. \<not> touches mm cs page \<Longrightarrow> cell (device s') page = cell (device s) page"
    and "\<And>page. statuses_ok (ram s') cs \<Longrightarrow> req_op mm cs = NAND_CMD_BLOCK_ERASE \<Longrightarrow>
          same_block page (erase_page mm cs) \<Longrightarrow> cell (device s') page = None"
    and "statuses_ok (ram s') cs \<Longrightarrow> req_op mm cs = NAND_CMD_PRG_PAGE_ALL \<Longrightarrow>
          cell (device s) (prog_page mm cs) = None \<Longrightarrow>
          cell (device s') (prog_page mm cs) = Some (page_data mm cs)"
proof -
  from run obtain m' d' where x: "dmov_exec_cmdptr b DMOV_NAND_CHAN ptrlist (mm, device s) = Some (r, m', d')"
    and s': "s' = s\<lparr>ram := m', device := d'\<rparr>"
    by (auto simp: dmov_run_def mm_def bind_eq_Some_conv)
  have walk: "walk mm ptrlist = cs" unfolding mm_def using l e by (rule walk_put_cmds)
  have "ptrlist AND 7 = 0" using l by (simp add: lists_ok_def)
  note k = w [unfolded nand_works_def, rule_format, OF this x, unfolded walk]
  show "same_driver s s'" by (simp add: s')
  show "ram s' q = mm q" if "list_all (safe_dst s) cs" "apart s q" for q
  proof -
    have "\<forall>c \<in> set cs. unat (dm_len c) \<le> unat (q - dm_dst c)"
      using that by (simp add: list_all_iff safe_dst_def)
    then show ?thesis using k by (simp add: s')
  qed
  show "cell (device s') page = cell (device s) page" if "\<not> touches mm cs page" for page
    using k that by (simp add: s')
  show "cell (device s') page = None" if "statuses_ok (ram s') cs" "req_op mm cs = NAND_CMD_BLOCK_ERASE"
    "same_block page (erase_page mm cs)" for page
    using k that by (simp add: s')
  show "cell (device s') (prog_page mm cs) = Some (page_data mm cs)"
    if "statuses_ok (ram s') cs" "req_op mm cs = NAND_CMD_PRG_PAGE_ALL" "cell (device s) (prog_page mm cs) = None"
    using k that by (simp add: s')
qed

section \<open>The effect of each operation\<close>

text \<open>\<open>changes cell S s s'\<close>: only pages in \<open>S\<close> and the driver's own memory differ.\<close>

definition changes :: "('hw \<Rightarrow> u32 \<Rightarrow> u8 list option) \<Rightarrow> u32 set \<Rightarrow> 'hw nand \<Rightarrow> 'hw nand \<Rightarrow> bool" where
  "changes cell S s s' \<longleftrightarrow> same_driver s s' \<and> (\<forall>q. apart s q \<longrightarrow> ram s' q = ram s q) \<and>
    (\<forall>page. page \<notin> S \<longrightarrow> cell (device s') page = cell (device s) page)"

lemma changes_refl [simp]: "changes cell S s s"
  by (simp add: changes_def)

lemma changes_trans: "changes cell S s s' \<Longrightarrow> changes cell S s' s'' \<Longrightarrow> changes cell S s s''"
  unfolding changes_def using same_driver_trans [of s s' s''] by (auto simp: apart_same)

lemma changes_mono: "changes cell S s s' \<Longrightarrow> S \<subseteq> T \<Longrightarrow> changes cell T s s'"
  by (auto simp: changes_def)

lemma changes_ram: "(\<And>q. apart s q \<Longrightarrow> m q = ram s q) \<Longrightarrow> changes cell S s (s\<lparr>ram := m\<rparr>)"
  by (simp add: changes_def)

text \<open>The areas of the driver, and a page size the command lists are made for.\<close>

definition driver_ok :: "'hw nand \<Rightarrow> bool" where
  "driver_ok s \<longleftrightarrow> lists_ok (flash_cmdlist s) (flash_ptrlist s) \<and>
    sep (flash_ptrlist s) 1024 MSM_NAND_BASE 4096 \<and>
    unat (flash_pagesize s) mod 512 = 0 \<and> 512 \<le> unat (flash_pagesize s) \<and> unat (flash_pagesize s) \<le> 4096"

lemma driver_ok_same: "same_driver s s' \<Longrightarrow> driver_ok s' = driver_ok s"
  by (simp add: driver_ok_def same_driver_fields)

lemma driver_ok_lists: "driver_ok s \<Longrightarrow> lists_ok (flash_cmdlist s) (flash_ptrlist s)"
  by (simp add: driver_ok_def)

text \<open>The step that every operation ends with.\<close>

lemma run_changes:
  assumes w: "nand_works b cell" and l: "driver_ok s" and e: "ends_once cs" and sd: "list_all (safe_dst s) cs"
    and t: "\<And>page. touches (put_cmds (flash_cmdlist s) (flash_ptrlist s) cs m) cs page \<Longrightarrow> page \<in> S"
    and m: "\<And>q. apart s q \<Longrightarrow> m q = ram s q"
    and run: "dmov_run b (flash_ptrlist s)
      (s\<lparr>ram := put_cmds (flash_cmdlist s) (flash_ptrlist s) cs m\<rparr>) = Some (r, s')"
  shows "changes cell S s s'"
proof -
  note rw = run_works [OF w driver_ok_lists [OF l] e run]
  have "ram s' q = ram s q" if "apart s q" for q
    using rw(2) [OF sd that] e m [OF that] that by (simp add: put_cmds_other apart_def ends_once_def)
  moreover have "cell (device s') page = cell (device s) page" if "page \<notin> S" for page
    using rw(3) t that by blast
  ultimately show ?thesis using rw(1) by (simp add: changes_def)
qed

lemma words_other:
  assumes "apart s q" and "16 + 4 * length ws \<le> 1024"
  shows "store_words m (flash_ptrlist s + 16) ws q = m q"
proof -
  have "unat (q - (flash_ptrlist s + of_nat 16)) = unat (q - flash_ptrlist s) - 16"
    using assms by (intro unat_diff_retreat) (simp add: apart_def)
  moreover have "1024 \<le> unat (q - flash_ptrlist s)" using assms(1) by (simp add: apart_def)
  ultimately have "4 * length ws \<le> unat (q - (flash_ptrlist s + 16))" using assms(2) by simp
  then show ?thesis by (rule store_words_other)
qed

lemma op_distinct [simp]:
  "NAND_CMD_PAGE_READ \<noteq> NAND_CMD_BLOCK_ERASE" "NAND_CMD_PAGE_READ \<noteq> NAND_CMD_PRG_PAGE_ALL"
  "NAND_CMD_PRG_PAGE_ALL \<noteq> NAND_CMD_BLOCK_ERASE" "NAND_CMD_BLOCK_ERASE \<noteq> NAND_CMD_PRG_PAGE_ALL"
  by (simp_all add: nand_consts)

lemma block_isbad: "req_block (isbad_cmds data buf pagesize cw) = data"
  by (simp add: req_block_def isbad_cmds_def move_def nand_consts)

lemma block_erase: "req_block (erase_cmds data) = data"
  by (simp add: req_block_def erase_cmds_def move_def nand_consts)

lemma block_write_page:
  assumes "0 < unat cw"
  shows "req_block (page_cmds data cw (write_cw_cmds raw data addr spareaddr cwdatasize cwoobsize)) = data"
proof -
  obtain k where "[0..<unat cw] = 0 # k" using assms by (metis upt_conv_Cons)
  then show ?thesis by (simp add: req_block_def page_cmds_def write_cw_cmds_def move_def nand_consts)
qed

lemma isbad_changes:
  assumes w: "nand_works b cell" and l: "driver_ok s"
    and r: "flash_nand_block_isbad b (flash_cmdlist s) (flash_ptrlist s) page s = Some (r, s')"
  shows "changes cell S s s'"
proof -
  let ?data = "flash_ptrlist s + 16" and ?cw = "drop_bit 9 (flash_pagesize s)"
  let ?cs = "isbad_cmds ?data (buf_addr s) (flash_pagesize s) ?cw"
  let ?ws = "isbad_data (CFG1 s) ?cw (block_start page)"
  let ?mm = "put_cmds (flash_cmdlist s) (flash_ptrlist s) ?cs (store_words (ram s) ?data ?ws)"
  from r obtain r1 where run: "dmov_run b (flash_ptrlist s) (s\<lparr>ram := ?mm\<rparr>) = Some (r1, s')"
    by (auto simp: flash_nand_block_isbad_def Let_def bind_eq_Some_conv)
  have len: "length ?ws = 9" "length ?cs = 5" by (simp_all add: isbad_data_def isbad_cmds_def)
  have "req_op ?mm ?cs = NAND_CMD_PAGE_READ"
    using data_word [OF driver_ok_lists [OF l], of ?cs 0 ?ws "ram s"] len
    by (simp add: req_op_def block_isbad) (simp add: isbad_data_def)
  then have "\<not> touches ?mm ?cs pg" for pg by (simp add: touches_def)
  then show ?thesis
    using run len by (intro run_changes [OF w l ends_isbad safe_isbad]) (auto simp: words_other)
qed

lemma erase_changes:
  assumes w: "nand_works b cell" and l: "driver_ok s"
    and r: "flash_nand_erase_block b (flash_cmdlist s) (flash_ptrlist s) page s = Some (r, s')"
  shows "changes cell {pg. same_block pg page} s s'"
    and "r = 0 \<Longrightarrow> same_block pg page \<Longrightarrow> cell (device s') pg = None"
proof -
  let ?data = "flash_ptrlist s + 16" and ?cs = "erase_cmds (flash_ptrlist s + 16)"
  have "changes cell {pg. same_block pg page} s s' \<and>
    (r = 0 \<longrightarrow> (\<forall>pg. same_block pg page \<longrightarrow> cell (device s') pg = None))"
  proof (cases "page AND 63 = 0")
    case False
    with r have "r = -1" "s' = s" by (simp_all add: flash_nand_erase_block_def Let_def)
    then show ?thesis by simp
  next
    case True
    with r obtain isbad s1 where ib: "flash_nand_block_isbad b (flash_cmdlist s) (flash_ptrlist s) page s = Some (isbad, s1)"
      by (auto simp: flash_nand_erase_block_def Let_def bind_eq_Some_conv)
    have c1: "changes cell {pg. same_block pg page} s s1" using isbad_changes [OF w l ib] .
    then have same: "same_driver s s1" by (simp add: changes_def)
    note f = same_driver_fields(4,5) [OF same]
    have l1: "driver_ok s1" using l same by (simp add: driver_ok_same)
    show ?thesis
    proof (cases "isbad = 0")
      case False
      with r ib True have "r = -1" "s' = s1" by (simp_all add: flash_nand_erase_block_def Let_def)
      with c1 show ?thesis by simp
    next
      case good: True
      let ?ws = "erase_data (CFG0 s1) (CFG1 s1) page"
      let ?mm = "put_cmds (flash_cmdlist s1) (flash_ptrlist s1) ?cs (store_words (ram s1) ?data ?ws)"
      from r ib True good obtain r1 where run: "dmov_run b (flash_ptrlist s1) (s1\<lparr>ram := ?mm\<rparr>) = Some (r1, s')"
        and res: "r = (if load32 (ram s') (?data + 20) AND 0x110 \<noteq> 0 then -1
            else if load32 (ram s') (?data + 20) AND 0x80 = 0 then -1 else 0)"
        unfolding f by (auto simp: flash_nand_erase_block_def Let_def bind_eq_Some_conv)
      have len: "length ?ws = 10" "length ?cs = 6" by (simp_all add: erase_data_def erase_cmds_def)
      have op: "req_op ?mm ?cs = NAND_CMD_BLOCK_ERASE"
        using data_word [OF driver_ok_lists [OF l], of ?cs 0 ?ws "ram s1"] len unfolding f
        by (simp add: req_op_def block_erase) (simp add: erase_data_def)
      have pg: "erase_page ?mm ?cs = page"
        using data_word [OF driver_ok_lists [OF l], of ?cs 1 ?ws "ram s1"] len unfolding f
        by (simp add: erase_page_def block_erase add.commute) (simp add: erase_data_def)
      have c2: "changes cell {pg. same_block pg page} s1 s'"
      proof (rule run_changes [OF w l1 ends_erase _ _ _ run])
        show "list_all (safe_dst s1) ?cs" using safe_erase [of s1] unfolding f .
        show "x \<in> {pg. same_block pg page}" if "touches ?mm ?cs x" for x
          using that op pg by (simp add: touches_def)
        show "store_words (ram s1) ?data ?ws q = ram s1 q" if "apart s1 q" for q
          using words_other [OF that, of ?ws "ram s1"] len unfolding f by simp
      qed
      have "cell (device s') x = None" if "r = 0" "same_block x page" for x
      proof (rule run_works(4) [OF w driver_ok_lists [OF l1] ends_erase run _ op])
        show "statuses_ok (ram s') ?cs"
          using that(1) res by (auto simp: statuses_ok_def erase_cmds_def move_def nand_consts split: if_splits)
        show "same_block x (erase_page ?mm ?cs)" using that(2) pg by simp
      qed
      with changes_trans [OF c1 c2] show ?thesis by blast
    qed
  qed
  then show "changes cell {pg. same_block pg page} s s'"
    and "r = 0 \<Longrightarrow> same_block pg page \<Longrightarrow> cell (device s') pg = None"
    by blast+
qed

text \<open>Code words: the page size is a whole number of them.\<close>

lemma driver_ok_cw:
  assumes "driver_ok s"
  shows "unat (drop_bit 9 (flash_pagesize s)) = unat (flash_pagesize s) div 512"
    and "0 < unat (drop_bit 9 (flash_pagesize s))" and "unat (drop_bit 9 (flash_pagesize s)) \<le> 8"
    and "drop_bit 9 (flash_pagesize s) \<noteq> 0"
    and "flash_pagesize s div drop_bit 9 (flash_pagesize s) = 512"
    and "512 * unat (drop_bit 9 (flash_pagesize s)) = unat (flash_pagesize s)"
proof -
  let ?p = "flash_pagesize s"
  have p: "unat ?p mod 512 = 0" "512 \<le> unat ?p" "unat ?p \<le> 4096" using assms by (simp_all add: driver_ok_def)
  show cw: "unat (drop_bit 9 ?p) = unat ?p div 512"
    by (simp add: drop_bit_eq_div unat_div)
  then show pos: "0 < unat (drop_bit 9 ?p)" using p(2) by simp
  show "unat (drop_bit 9 ?p) \<le> 8" using cw p(3) by simp
  show "drop_bit 9 ?p \<noteq> 0" using pos by auto
  show m: "512 * unat (drop_bit 9 ?p) = unat ?p"
    using cw p(1) div_mult_mod_eq [of "unat ?p" 512] by simp
  have "unat (?p div drop_bit 9 ?p) = 512"
    using pos by (simp only: unat_div flip: m) simp
  then show "?p div drop_bit 9 ?p = 512" by (simp add: word_unat_eq_iff)
qed

lemma prog_page_word:
  assumes "unat (page :: u32) < 2 ^ 24"
  shows "drop_bit 16 (push_bit 16 page) OR push_bit 16 (drop_bit 16 page AND 0xff) = page"
proof (rule bit_word_eqI)
  fix n
  assume n: "n < LENGTH(32)"
  have "take_bit 24 (unat page) = unat page" using assms by (simp add: take_bit_nat_eq_self)
  then have "unat (take_bit 24 page) = unat page" by (simp add: unsigned_take_bit_eq)
  then have "take_bit 24 page = page" by (metis unsigned_word_eqI)
  then have hi: "bit page n \<Longrightarrow> n < 24" using bit_take_bit_iff [of 24 page n] by simp
  have m: "(0xff :: u32) = mask 8" by (simp add: mask_eq_exp_minus_1)
  show "bit (drop_bit 16 (push_bit 16 page) OR push_bit 16 (drop_bit 16 page AND 0xff)) n = bit page n"
    using n hi by (cases "n < 16") (auto simp: m bit_simps less_diff_conv2)
qed

lemma data_not_reg:
  assumes "sep pl 1024 MSM_NAND_BASE 4096" and "unat off < 1024" and "unat reg < 4096"
  shows "pl + off \<noteq> NAND_REG reg"
proof
  assume "pl + off = NAND_REG reg"
  then have "unat (pl + of_nat (unat off) - MSM_NAND_BASE) = unat reg" by (simp add: NAND_REG_def)
  with sep_unat [OF assms(1,2)] assms(3) show False by simp
qed

lemma rd_chunks: "concat (map (\<lambda>n. rd m (addr + of_nat n * 512) 512) [0..<k]) = rd m addr (512 * k)"
proof (induction k)
  case (Suc k)
  have "rd m addr (512 * Suc k) = rd m addr (512 * k + 512)" by (simp add: add.commute)
  also have "\<dots> = rd m addr (512 * k) @ rd m (addr + of_nat (512 * k)) 512" by (rule rd_add)
  finally show ?case using Suc by (simp add: mult.commute)
qed simp

lemma page_data_write:
  assumes sp: "sep pl 1024 MSM_NAND_BASE 4096" and cw: "unat cw \<le> 8"
  shows "page_data m (page_cmds (pl + 16) cw (write_cw_cmds False (pl + 16) addr spareaddr 512 oob))
    = rd m addr (512 * unat cw)"
proof -
  let ?P = "\<lambda>c. dm_dst c = NAND_FLASH_BUFFER"
  have save: "io_ecc_cfg_save (pl + 16) \<noteq> NAND_FLASH_BUFFER"
  proof -
    have "pl + 48 \<noteq> NAND_REG 256" by (rule data_not_reg [OF sp]) simp_all
    moreover have "pl + 16 + 32 = pl + 48" by simp
    ultimately show ?thesis unfolding io_ecc_cfg_save_def NAND_FLASH_BUFFER_def by argo
  qed
  have result: "io_result (pl + 16) n \<noteq> NAND_FLASH_BUFFER" if "unat n < 8" for n
  proof -
    have "pl + (60 + 8 * n) \<noteq> NAND_REG 256"
      by (rule data_not_reg [OF sp]) (use that in \<open>simp_all add: unat_8n\<close>)
    then show ?thesis by (simp add: io_result_def NAND_FLASH_BUFFER_def add.assoc)
  qed
  have f: "filter ?P (write_cw_cmds False (pl + 16) addr spareaddr 512 oob n)
      = [move 0 (addr + n * 512) NAND_FLASH_BUFFER 512]" if "unat n < 8" for n
    using result that by (simp add: write_cw_cmds_def move_def) (simp add: nand_consts)
  have "filter ?P (page_cmds (pl + 16) cw (write_cw_cmds False (pl + 16) addr spareaddr 512 oob))
      = concat (map (\<lambda>n. filter ?P (write_cw_cmds False (pl + 16) addr spareaddr 512 oob (of_nat n))) [0..<unat cw])"
    using save by (simp add: page_cmds_def move_def filter_concat comp_def)
      (simp add: nand_consts)
  also have "\<dots> = concat (map (\<lambda>n. [move 0 (addr + of_nat n * 512) NAND_FLASH_BUFFER 512]) [0..<unat cw])"
  proof (rule arg_cong [where f = concat], rule map_cong [OF refl])
    fix n
    assume "n \<in> set [0..<unat cw]"
    with cw have "n < 8" by simp
    then have "unat (of_nat n :: u32) < 8" by (simp add: unat_of_nat_u32)
    then show "filter ?P (write_cw_cmds False (pl + 16) addr spareaddr 512 oob (of_nat n))
        = [move 0 (addr + of_nat n * 512) NAND_FLASH_BUFFER 512]" by (rule f)
  qed
  finally have "page_data m (page_cmds (pl + 16) cw (write_cw_cmds False (pl + 16) addr spareaddr 512 oob))
      = concat (map (\<lambda>n. rd m (addr + of_nat n * 512) 512) [0..<unat cw])"
    by (simp add: page_data_def move_def map_concat comp_def)
  then show ?thesis by (simp add: rd_chunks)
qed

lemma statuses_write_page:
  assumes "statuses_c \<equiv> \<lambda>n. load32 m (io_result data n) AND 0x110 = 0 \<and> load32 m (io_result data n) AND 0x80 \<noteq> 0"
    and "\<And>n. n < unat cw \<Longrightarrow> statuses_c (of_nat n)"
  shows "statuses_ok m (page_cmds data cw (write_cw_cmds raw data addr spareaddr cwdatasize cwoobsize))"
  unfolding statuses_ok_def
proof (intro ballI impI)
  fix c
  assume c: "c \<in> set (page_cmds data cw (write_cw_cmds raw data addr spareaddr cwdatasize cwoobsize))"
    and k: "dm_cmd c = SRC_CRCI_NAND_DATA"
  have cw_c: "dm_dst c = io_result data n"
    if "c \<in> set (write_cw_cmds raw data addr spareaddr cwdatasize cwoobsize n)" for n
    using that k by (auto simp: write_cw_cmds_def move_def nand_consts split: if_splits)
  have "SRC_CRCI_NAND_DATA \<noteq> CMD_OCB" "SRC_CRCI_NAND_DATA \<noteq> CMD_OCU OR CMD_LC"
    by (simp_all add: nand_consts)
  with c k obtain n where "n < unat cw" "c \<in> set (write_cw_cmds raw data addr spareaddr cwdatasize cwoobsize (of_nat n))"
    by (auto simp: page_cmds_def move_def)
  with cw_c assms show "load32 m (dm_dst c) AND 0x110 = 0 \<and> load32 m (dm_dst c) AND 0x80 \<noteq> 0" by simp
qed

lemma write_page_words:
  assumes l: "lists_ok cmdlist ptrlist" and n: "length cs \<le> 64" and i: "i < 4"
  shows "load32 (put_cmds cmdlist ptrlist cs (store_words (store_words m (ptrlist + 16)
      (write_page_data raw cfg0 cfg1 cw page)) (io_clrfstatus (ptrlist + 16)) write_page_clear))
      (ptrlist + of_nat (16 + 4 * i)) = write_page_data raw cfg0 cfg1 cw page ! i"
proof -
  let ?ws = "write_page_data raw cfg0 cfg1 cw page"
  let ?m1 = "store_words m (ptrlist + 16) ?ws"
  have len: "length ?ws = 8" by (simp add: write_page_data_def write_page_cfg_def)
  have "sep (ptrlist + of_nat (16 + 4 * i)) 4 (ptrlist + of_nat (16 + 4 * i) + of_nat (36 - 4 * i)) 8"
    using i by (intro sep_after) simp_all
  moreover have "ptrlist + of_nat (16 + 4 * i) + of_nat (36 - 4 * i) = io_clrfstatus (ptrlist + 16)"
  proof -
    have "ptrlist + of_nat (16 + 4 * i) + of_nat (36 - 4 * i) = ptrlist + of_nat (16 + 4 * i + (36 - 4 * i))"
      by (simp only: of_nat_add add.assoc)
    then show ?thesis using i by (simp add: io_clrfstatus_def)
  qed
  ultimately have sp: "sep (ptrlist + of_nat (16 + 4 * i)) 4 (io_clrfstatus (ptrlist + 16)) (4 * length write_page_clear)"
    by (simp add: write_page_clear_def)
  have "load32 (put_cmds cmdlist ptrlist cs (store_words ?m1 (io_clrfstatus (ptrlist + 16)) write_page_clear))
      (ptrlist + of_nat (16 + 4 * i)) = load32 ?m1 (ptrlist + of_nat (16 + 4 * i))"
    using load32_put_cmds_data [OF l n, of "16 + 4 * i"] i load32_words_sep [OF sp] by simp
  also have "\<dots> = load32 ?m1 (ptrlist + 16 + of_nat (4 * i))" by (simp add: add.assoc)
  also have "\<dots> = ?ws ! i" using i len by (intro load32_store_words) simp_all
  finally show ?thesis .
qed

lemma write_page_changes:
  assumes w: "nand_works b cell" and l: "driver_ok s" and pg: "unat page < 2 ^ 24"
    and r: "u_flash_nand_write_page b (flash_cmdlist s) (flash_ptrlist s) page addr spareaddr raw s = Some (r, s')"
  shows "changes cell {page} s s'"
    and "r = 0 \<Longrightarrow> \<not> raw \<Longrightarrow> cell (device s) page = None \<Longrightarrow>
      (\<And>i. i < unat (flash_pagesize s) \<Longrightarrow> apart s (addr + of_nat i)) \<Longrightarrow>
      cell (device s') page = Some (rd (ram s) addr (unat (flash_pagesize s)))"
proof -
  let ?cl = "flash_cmdlist s" and ?pl = "flash_ptrlist s" and ?cw = "drop_bit 9 (flash_pagesize s)"
  let ?cs = "page_cmds (?pl + 16) ?cw (write_cw_cmds raw (?pl + 16) addr spareaddr 512 (16 div ?cw))"
  let ?ws = "write_page_data raw (CFG0 s) (CFG1 s) ?cw page"
  let ?m = "store_words (store_words (ram s) (?pl + 16) ?ws) (io_clrfstatus (?pl + 16)) write_page_clear"
  let ?mm = "put_cmds ?cl ?pl ?cs ?m"
  note cw = driver_ok_cw [OF l] and lo = driver_ok_lists [OF l]
  from r cw(4,5) obtain r1 where run: "dmov_run b ?pl (s\<lparr>ram := ?mm\<rparr>) = Some (r1, s')"
    and res: "r = (if \<exists>n \<in> set [0..<unat ?cw]. load32 (ram s') (io_result (?pl + 16) (of_nat n)) AND 0x110 \<noteq> 0 \<or>
        load32 (ram s') (io_result (?pl + 16) (of_nat n)) AND 0x80 = 0 then -1 else 0)"
    by (simp add: u_flash_nand_write_page_def Let_def bind_eq_Some_conv) blast
  have e: "ends_once ?cs" using cw(3) by (rule ends_write_page)
  then have len: "length ?cs \<le> 64" by (simp add: ends_once_def)
  note word = write_page_words [OF lo len, of _ "ram s" raw "CFG0 s" "CFG1 s" ?cw page]
  have blk: "req_block ?cs = ?pl + 16" using cw(2) by (rule block_write_page)
  have op: "req_op ?mm ?cs = NAND_CMD_PRG_PAGE_ALL"
    using word [of 0] by (simp add: req_op_def blk) (simp add: write_page_data_def)
  have page: "prog_page ?mm ?cs = page"
    using word [of 1] word [of 2] prog_page_word [OF pg]
    by (simp add: prog_page_def blk add.commute) (simp add: write_page_data_def)
  have other: "?m q = ram s q" if "apart s q" for q
  proof -
    have q: "1024 \<le> unat (q - ?pl)" using that by (simp add: apart_def)
    have "unat (q - (?pl + of_nat 52)) = unat (q - ?pl) - 52" using q by (intro unat_diff_retreat) simp
    then have "8 \<le> unat (q - io_clrfstatus (?pl + 16))" using q by (simp add: io_clrfstatus_def add.assoc)
    then show ?thesis
      using words_other [OF that, of ?ws "ram s"]
      by (simp add: store_words_other write_page_clear_def write_page_data_def write_page_cfg_def)
  qed
  show "changes cell {page} s s'"
  proof (rule run_changes [OF w l e _ _ other run])
    have "unat (16 div ?cw) \<le> 16" by (simp add: unat_div)
    with cw(3) show "list_all (safe_dst s) ?cs" by (intro safe_write_page) simp_all
    show "x \<in> {page}" if "touches ?mm ?cs x" for x using that op page by (simp add: touches_def)
  qed
  show "cell (device s') page = Some (rd (ram s) addr (unat (flash_pagesize s)))"
    if "r = 0" "\<not> raw" "cell (device s) page = None" "\<And>i. i < unat (flash_pagesize s) \<Longrightarrow> apart s (addr + of_nat i)"
  proof -
    have "statuses_ok (ram s') ?cs"
      by (rule statuses_write_page [OF reflexive]) (use that(1) res in \<open>auto split: if_splits\<close>)
    from run_works(5) [OF w lo e run this op] page that(3)
    have "cell (device s') page = Some (page_data ?mm ?cs)" by simp
    also have "page_data ?mm ?cs = rd ?mm addr (512 * unat ?cw)"
      using l cw(3) that(2) by (simp add: driver_ok_def page_data_write)
    also have "\<dots> = rd (ram s) addr (512 * unat ?cw)"
    proof (rule rd_cong)
      fix i
      assume "i < 512 * unat ?cw"
      then have a: "apart s (addr + of_nat i)" using that(4) cw(6) by simp
      then have "?mm (addr + of_nat i) = ?m (addr + of_nat i)"
        using len by (intro put_cmds_other) (simp_all add: apart_def)
      then show "?mm (addr + of_nat i) = ram s (addr + of_nat i)" using other [OF a] by simp
    qed
    finally show ?thesis using cw(6) by simp
  qed
qed

end
