(* ===== verification/Lk_Flashok.thy ===== *)
theory Lk_Flashok
  imports Lk_Nandops
begin

text \<open>
  The partition operations are correct: they end, they change no page outside the partition, and
  when writing reports success the image is on the device, page after page, in erased pages of
  increasing number.
\<close>

section \<open>Pages and blocks\<close>

lemma and63: "unat (x AND 63 :: u32) = unat x mod 64"
proof -
  have "x AND 63 = take_bit 6 x" by (simp add: take_bit_eq_mask mask_eq_exp_minus_1)
  then have "x AND 63 = x mod 64" by (simp add: take_bit_eq_mod)
  then show ?thesis by (simp add: unat_mod)
qed

lemma and63_0: "(x AND 63 :: u32) = 0 \<longleftrightarrow> unat x mod 64 = 0"
  using and63 [of x] unat_eq_zero [of "x AND 63"] by simp

lemma block_first: "x - (x AND 63) = x AND NOT (63 :: u32)"
proof -
  have "(x AND NOT 63) AND (x AND 63) = 0"
    by (rule bit_word_eqI) (simp add: bit_simps)
  then have "(x AND NOT 63) + (x AND 63) = (x AND NOT 63) OR (x AND 63)"
    by (rule disjunctive_add_eq_or)
  also have "\<dots> = x" by (rule bit_word_eqI) (auto simp: bit_simps)
  finally show ?thesis by (metis add_diff_cancel_right')
qed

lemma unat_block_first: "unat (x AND NOT (63 :: u32)) = 64 * (unat x div 64)"
proof -
  have "x AND 63 \<le> x" by (simp add: word_le_nat_alt and63)
  then have "unat (x AND NOT 63) = unat x - unat x mod 64"
    unfolding block_first [symmetric] by (simp add: unat_sub and63)
  then show ?thesis by (simp add: minus_mod_eq_mult_div)
qed

lemmas unat_block_first' [simp] = unat_block_first [simplified]

lemma unat_block_start: "unat (block_start page) = 64 * (unat page div 64)"
  by (simp add: block_start_def block_first)
    (use and63_0 [of page] in \<open>auto simp: mult.commute\<close>)

lemma same_block_start [simp]: "same_block (block_start page) page"
  by (simp add: same_block_def unat_block_start)

section \<open>Marking a block bad\<close>

lemma mark_badblock_changes:
  assumes w: "nand_works b cell" and l: "driver_ok s" and pg: "unat page < 2 ^ 24"
    and r: "flash_nand_mark_badblock b (flash_cmdlist s) (flash_ptrlist s) page s = Some (r, s')"
  shows "changes cell {pg. same_block pg page} s s'"
proof -
  let ?s = "s\<lparr>ram := fst (memset (ram s) (empty_buf_addr s) 0 528)\<rparr>"
  have 1: "changes cell {pg. same_block pg page} s ?s"
    by (rule changes_ram) (simp add: memset_wr wr_other apart_def)
  have "unat (block_start page) < 2 ^ 24" using pg by (simp add: unat_block_start)
  moreover have "driver_ok ?s" using l by (simp add: driver_ok_def)
  moreover have "u_flash_nand_write_page b (flash_cmdlist ?s) (flash_ptrlist ?s) (block_start page)
      (empty_buf_addr s) 0 True ?s = Some (r, s')" using r by (simp add: flash_nand_mark_badblock_def)
  ultimately have "changes cell {block_start page} ?s s'" using write_page_changes(1) [OF w] by blast
  then have "changes cell {pg. same_block pg page} ?s s'" by (rule changes_mono) simp
  with 1 show ?thesis by (rule changes_trans)
qed

section \<open>What has been written so far\<close>

text \<open>
  \<open>ps\<close> are the pages the image is on so far. Of the block \<open>page\<close> is in, the pages before it
  hold the last part of the image and those from it on are erased.
\<close>

definition erased_from :: "('hw \<Rightarrow> u32 \<Rightarrow> u8 list option) \<Rightarrow> u32 \<Rightarrow> 'hw nand \<Rightarrow> bool" where
  "erased_from cell page s \<longleftrightarrow> (\<forall>pg. page \<le> pg \<and> same_block pg page \<longrightarrow> cell (device s) pg = None)"

definition written ::
    "('hw \<Rightarrow> u32 \<Rightarrow> u8 list option) \<Rightarrow> mem \<Rightarrow> ptr \<Rightarrow> u32 \<Rightarrow> nat \<Rightarrow> nat \<Rightarrow> nat \<Rightarrow>
      u32 list \<Rightarrow> u32 \<Rightarrow> ptr \<Rightarrow> u32 \<Rightarrow> 'hw nand \<Rightarrow> bool" where
  "written cell m0 data wsize psz lo nbytes ps page img bytes s \<longleftrightarrow>
    sorted_wrt (<) ps \<and> (\<forall>p \<in> set ps. lo \<le> unat p \<and> p < page) \<and>
    img = data + of_nat (length ps) * wsize \<and> unat bytes + length ps * unat wsize = nbytes \<and>
    unat page mod 64 \<le> length ps \<and>
    (\<forall>j < unat page mod 64. unat (ps ! (length ps - unat page mod 64 + j)) = unat page - unat page mod 64 + j) \<and>
    (\<forall>i < length ps. cell (device s) (ps ! i) = Some (rd m0 (data + of_nat i * wsize) psz)) \<and>
    (unat page mod 64 \<noteq> 0 \<longrightarrow> erased_from cell page s)"

text \<open>Giving up the block \<open>page\<close> is in.\<close>

lemma written_restart:
  assumes wr: "written cell m0 data wsize psz lo nbytes ps page img bytes s"
    and ch: "changes cell {pg. same_block pg page} s s'" and small: "unat page < 2 ^ 24" and tot: "nbytes < 2 ^ 32"
  shows "written cell m0 data wsize psz lo nbytes (take (length ps - unat page mod 64) ps)
    ((page AND NOT 63) + 64) (img - (page AND 63) * wsize) (bytes + (page AND 63) * wsize) s'"
proof -
  define off where "off = unat page mod 64"
  let ?ps = "take (length ps - off) ps"
  from wr have srt: "sorted_wrt (<) ps" and rng: "\<forall>p \<in> set ps. lo \<le> unat p \<and> p < page"
    and img: "img = data + of_nat (length ps) * wsize" and bytes: "unat bytes + length ps * unat wsize = nbytes"
    and off: "off \<le> length ps"
    and last: "\<forall>j < off. unat (ps ! (length ps - off + j)) = unat page - off + j"
    and dat: "\<forall>i < length ps. cell (device s) (ps ! i) = Some (rd m0 (data + of_nat i * wsize) psz)"
    unfolding written_def off_def by blast+
  have next_page: "unat ((page AND NOT 63) + 64) = 64 * (unat page div 64) + 64"
    using small by (simp add: unat_word_ariths)
  have before: "unat p < 64 * (unat page div 64)" if "p \<in> set ?ps" for p
  proof -
    from that obtain i where i: "i < length ps - off" "p = ps ! i" by (auto simp: in_set_conv_nth)
    show ?thesis
    proof (cases "off = 0")
      case True
      with that rng have "unat p < unat page" by (auto simp: word_less_nat_alt)
      with True show ?thesis by (simp add: off_def) (metis div_mult_mod_eq add_0_right mult.commute)
    next
      case False
      then have "ps ! i < ps ! (length ps - off)" using srt i off by (simp add: sorted_wrt_iff_nth_less)
      moreover have "unat (ps ! (length ps - off)) = unat page - off" using last False by force
      ultimately have "unat p < unat page - off" using i by (simp add: word_less_nat_alt)
      then show ?thesis by (simp add: off_def minus_mod_eq_mult_div)
    qed
  qed
  have same: "cell (device s') p = cell (device s) p" if "p \<in> set ?ps" for p
  proof -
    have "\<not> same_block p page" using before [OF that] by (auto simp: same_block_def)
    with ch show ?thesis by (simp add: changes_def)
  qed
  have wa: "page AND 63 = of_nat off"
    by (simp add: off_def flip: and63)
  have le: "off * unat wsize \<le> length ps * unat wsize" using off by (rule mult_le_mono1)
  have small_off: "unat (of_nat off * wsize) = off * unat wsize"
  proof -
    have "of_nat off * wsize = of_nat (off * unat wsize)" by simp
    moreover have "off * unat wsize < 2 ^ 32" using le bytes tot by linarith
    ultimately show ?thesis by (simp only: unat_of_nat_u32)
  qed
  have len: "length ?ps = length ps - off" by simp
  have n: "length ps = length ps - off + off" using off by simp
  have split: "length ps * unat wsize = (length ps - off) * unat wsize + off * unat wsize"
    by (subst n) (simp only: add_mult_distrib)
  have img': "img - (page AND 63) * wsize = data + of_nat (length ?ps) * wsize"
    unfolding wa img len of_nat_diff [OF off] by (simp add: algebra_simps)
  have "unat (bytes + of_nat (unat (of_nat off * wsize))) = unat bytes + unat (of_nat off * wsize)"
    using bytes tot split unfolding small_off by (intro unat_add_of_nat_u32) linarith
  then have bytes': "unat (bytes + (page AND 63) * wsize) + length ?ps * unat wsize = nbytes"
    using bytes split unfolding wa len small_off by (simp add: small_off)
  have m0: "unat ((page AND NOT 63) + 64) mod 64 = 0" unfolding next_page by simp
  have srt': "sorted_wrt (<) ?ps" using srt by (rule sorted_wrt_take)
  have rng': "\<forall>p \<in> set ?ps. lo \<le> unat p \<and> p < (page AND NOT 63) + 64"
  proof
    fix p
    assume p: "p \<in> set ?ps"
    then have "lo \<le> unat p" using rng by (meson in_set_takeD)
    moreover have "unat p < unat ((page AND NOT 63) + 64)" using before [OF p] unfolding next_page by simp
    ultimately show "lo \<le> unat p \<and> p < (page AND NOT 63) + 64" unfolding word_less_nat_alt by blast
  qed
  have "cell (device s') (?ps ! i) = Some (rd m0 (data + of_nat i * wsize) psz)" if "i < length ?ps" for i
  proof -
    have "?ps ! i \<in> set ?ps" using that by (rule nth_mem)
    with same dat that show ?thesis by simp
  qed
  with srt' rng' img' bytes' m0 show ?thesis unfolding written_def off_def [symmetric] by simp
qed

text \<open>One more page.\<close>

lemma written_page:
  assumes wr: "written cell m0 data wsize psz lo nbytes ps page img bytes s"
    and ch: "changes cell {page} s s'" and small: "unat page < 2 ^ 24" and lo: "lo \<le> unat page"
    and er: "erased_from cell page s" and c: "cell (device s') page = Some (rd m0 img psz)"
    and le: "wsize \<le> bytes" and blk: "unat page mod 64 \<le> length ps"
  shows "written cell m0 data wsize psz lo nbytes (ps @ [page]) (page + 1) (img + wsize) (bytes - wsize) s'"
proof -
  from wr have srt: "sorted_wrt (<) ps" and rng: "\<forall>p \<in> set ps. lo \<le> unat p \<and> p < page"
    and img: "img = data + of_nat (length ps) * wsize" and bytes: "unat bytes + length ps * unat wsize = nbytes"
    and last: "\<forall>j < unat page mod 64. unat (ps ! (length ps - unat page mod 64 + j)) = unat page - unat page mod 64 + j"
    and dat: "\<forall>i < length ps. cell (device s) (ps ! i) = Some (rd m0 (data + of_nat i * wsize) psz)"
    unfolding written_def by blast+
  have next_page: "unat (page + 1) = unat page + 1" using small by (simp add: unat_word_ariths)
  have mod: "unat (page + 1) mod 64 = (if unat page mod 64 = 63 then 0 else unat page mod 64 + 1)"
    unfolding next_page by (simp add: mod_Suc)
  have srt': "sorted_wrt (<) (ps @ [page])" using srt rng by (simp add: sorted_wrt_append)
  have rng': "\<forall>p \<in> set (ps @ [page]). lo \<le> unat p \<and> p < page + 1"
    using rng lo by (auto simp: word_less_nat_alt next_page)
  have img': "img + wsize = data + of_nat (length (ps @ [page])) * wsize" by (simp add: img algebra_simps)
  have bytes': "unat (bytes - wsize) + length (ps @ [page]) * unat wsize = nbytes"
    using bytes le by (simp add: unat_sub word_le_nat_alt)
  have dat': "cell (device s') ((ps @ [page]) ! i) = Some (rd m0 (data + of_nat i * wsize) psz)"
    if "i < length (ps @ [page])" for i
  proof (cases "i < length ps")
    case True
    then have "ps ! i < page" using rng by simp
    then have "cell (device s') (ps ! i) = cell (device s) (ps ! i)" using ch by (auto simp: changes_def)
    with True dat show ?thesis by (simp add: nth_append)
  next
    case False
    with that have "i = length ps" by simp
    with c img show ?thesis by (simp add: nth_append)
  qed
  have er': "erased_from cell (page + 1) s'" if "unat (page + 1) mod 64 \<noteq> 0"
    unfolding erased_from_def
  proof (intro allI impI)
    fix pg
    assume pg: "page + 1 \<le> pg \<and> same_block pg (page + 1)"
    then have lt: "page < pg" by (simp add: word_le_nat_alt word_less_nat_alt next_page)
    have "(unat page + 1) div 64 = unat page div 64"
      using that mod by (simp add: next_page split: if_splits) (simp add: div_Suc)
    with pg have "same_block pg page" by (simp add: same_block_def next_page)
    with lt er have "cell (device s) pg = None" by (simp add: erased_from_def)
    moreover have "cell (device s') pg = cell (device s) pg" using ch lt by (auto simp: changes_def)
    ultimately show "cell (device s') pg = None" by simp
  qed
  have last': "unat ((ps @ [page]) ! (length (ps @ [page]) - unat (page + 1) mod 64 + j))
      = unat (page + 1) - unat (page + 1) mod 64 + j" if "j < unat (page + 1) mod 64" for j
  proof -
    let ?off = "unat page mod 64"
    have off: "unat (page + 1) mod 64 = ?off + 1" using that mod by (simp split: if_splits)
    have ge: "?off \<le> unat page" by simp
    show ?thesis
    proof (cases "j = ?off")
      case True
      with off blk ge show ?thesis by (simp add: nth_append next_page)
    next
      case False
      with that off have "j < ?off" unfolding off by linarith
      have "length (ps @ [page]) - unat (page + 1) mod 64 + j = length ps - ?off + j" unfolding off by simp
      moreover have "length ps - ?off + j < length ps" using \<open>j < ?off\<close> blk by linarith
      ultimately have "(ps @ [page]) ! (length (ps @ [page]) - unat (page + 1) mod 64 + j) = ps ! (length ps - ?off + j)"
        by (simp add: nth_append)
      moreover have "unat (page + 1) - unat (page + 1) mod 64 = unat page - ?off"
        unfolding off unfolding next_page by simp
      ultimately show ?thesis using last \<open>j < ?off\<close> by simp
    qed
  qed
  have "unat (page + 1) mod 64 \<le> length (ps @ [page])" using mod blk by simp
  with srt' rng' img' bytes' dat' er' last' show ?thesis unfolding written_def by blast
qed

section \<open>The loop that writes\<close>

definition pages :: "nat \<Rightarrow> nat \<Rightarrow> u32 set" where
  "pages lo hi = {pg. lo \<le> unat pg \<and> unat pg < hi}"

lemma block_in_pages:
  assumes "lo mod 64 = 0" and "hi mod 64 = 0" and "lo \<le> unat page" and "unat page < hi" and "same_block pg page"
  shows "pg \<in> pages lo hi"
proof -
  have "64 * (lo div 64) = lo" using assms(1) by auto
  have h: "64 * (hi div 64) = hi" using assms(2) by auto
  have "lo div 64 \<le> unat page div 64" using assms(3) by (rule div_le_mono)
  moreover have "unat page div 64 < hi div 64"
    by (rule less_mult_imp_div_less) (use h assms(4) in simp)
  moreover have "unat pg div 64 = unat page div 64" using assms(5) by (simp add: same_block_def)
  moreover have "unat pg = 64 * (unat pg div 64) + unat pg mod 64" "unat pg mod 64 < 64" by simp_all
  ultimately show ?thesis using \<open>64 * (lo div 64) = lo\<close> h unfolding pages_def mem_Collect_eq by linarith
qed

text \<open>At the start of a block, nothing in it has been written yet.\<close>

lemma written_new_block:
  assumes wr: "written cell m0 data wsize psz lo nbytes ps page img bytes s"
    and ch: "changes cell {pg. same_block pg page} s s'" and al: "unat page mod 64 = 0"
  shows "written cell m0 data wsize psz lo nbytes ps page img bytes s'"
proof -
  have "cell (device s') p = cell (device s) p" if "p \<in> set ps" for p
  proof -
    have "unat p < unat page" using wr that by (simp add: written_def word_less_nat_alt)
    moreover have "64 * (unat page div 64) = unat page" using al by auto
    ultimately have "unat p div 64 < unat page div 64" by (intro less_mult_imp_div_less) simp
    then have "\<not> same_block p page" by (simp add: same_block_def)
    with ch show ?thesis by (simp add: changes_def)
  qed
  with wr al show ?thesis unfolding written_def by simp
qed

lemma image_bytes:
  assumes "written cell m0 data wsize psz lo nbytes ps page img bytes s"
    and "wsize \<le> bytes" and "psz \<le> unat wsize"
    and ap: "\<forall>i < nbytes. apart s (data + of_nat i)" and m0: "\<forall>q. apart s q \<longrightarrow> ram s q = m0 q"
  shows "\<forall>i < psz. apart s (img + of_nat i)" and "rd (ram s) img psz = rd m0 img psz"
proof -
  from assms(1) have img: "img = data + of_nat (length ps) * wsize"
    and bytes: "unat bytes + length ps * unat wsize = nbytes" unfolding written_def by blast+
  show a: "\<forall>i < psz. apart s (img + of_nat i)"
  proof (intro allI impI)
    fix i
    assume "i < psz"
    with assms(2,3) bytes have "length ps * unat wsize + i < nbytes" by (simp add: word_le_nat_alt)
    with ap have "apart s (data + of_nat (length ps * unat wsize + i))" by blast
    then show "apart s (img + of_nat i)" by (simp add: img add.assoc)
  qed
  show "rd (ram s) img psz = rd m0 img psz" using a m0 by (intro rd_cong) simp
qed

lemma first_step:
  assumes w: "nand_works b cell" and drv: "driver_ok s"
    and er: "(if page AND 63 = 0 then flash_erase_block b (flash_cmdlist s) (flash_ptrlist s) page s
      else Some (0, s)) = Some (bad, s1)"
    and wr: "written cell m0 data wsize psz lo nbytes ps page img bytes s"
  shows "written cell m0 data wsize psz lo nbytes ps page img bytes s1"
    and "changes cell {pg. same_block pg page} s s1"
    and "bad = 0 \<longrightarrow> erased_from cell page s1"
    and "bad \<noteq> 0 \<longrightarrow> unat page mod 64 = 0"
proof -
  have "written cell m0 data wsize psz lo nbytes ps page img bytes s1 \<and>
    changes cell {pg. same_block pg page} s s1 \<and> (bad = 0 \<longrightarrow> erased_from cell page s1) \<and>
    (bad \<noteq> 0 \<longrightarrow> unat page mod 64 = 0)"
  proof (cases "page AND 63 = 0")
    case True
    with er have e: "flash_nand_erase_block b (flash_cmdlist s) (flash_ptrlist s) page s = Some (bad, s1)"
      by (simp add: flash_erase_block_def)
    note c = erase_changes(1) [OF w drv e]
    have "bad = 0 \<longrightarrow> erased_from cell page s1"
      using erase_changes(2) [OF w drv e] by (simp add: erased_from_def)
    moreover have "written cell m0 data wsize psz lo nbytes ps page img bytes s1"
      by (rule written_new_block [OF wr c]) (use True and63_0 [of page] in blast)
    ultimately show ?thesis using c True by (simp add: and63_0)
  next
    case False
    with er have "bad = 0" "s1 = s" by simp_all
    moreover have "erased_from cell page s" using wr False unfolding written_def and63_0 by blast
    ultimately show ?thesis using wr by simp
  qed
  then show "written cell m0 data wsize psz lo nbytes ps page img bytes s1"
    and "changes cell {pg. same_block pg page} s s1"
    and "bad = 0 \<longrightarrow> erased_from cell page s1"
    and "bad \<noteq> 0 \<longrightarrow> unat page mod 64 = 0" by blast+
qed

text \<open>The two calls after a failure to write change the block only.\<close>

lemma give_up_block:
  assumes w: "nand_works b cell" and drv: "driver_ok s2" and small: "unat page < 2 ^ 24"
    and e: "flash_erase_block b (flash_cmdlist s2) (flash_ptrlist s2) (page AND NOT 63) s2 = Some (x, s3)"
    and m: "(if ptn_type (ram s3) ptn \<noteq> TYPE_MODEM_PARTITION
       then flash_mark_badblock b (flash_cmdlist s3) (flash_ptrlist s3) (page AND NOT 63) s3
       else Some (0, s3)) = Some (y, s4)"
  shows "changes cell {pg. same_block pg page} s2 s4"
proof -
  have blk: "same_block pg (page AND NOT 63) = same_block pg page" for pg
    by (simp add: same_block_def unat_block_first)
  have small': "unat (page AND NOT 63) < 2 ^ 24" using small unfolding unat_block_first by linarith
  have c1: "changes cell {pg. same_block pg page} s2 s3"
    using erase_changes(1) [OF w drv e [unfolded flash_erase_block_def]] unfolding blk .
  then have "same_driver s2 s3" by (simp add: changes_def)
  then have d3: "driver_ok s3" using drv driver_ok_same by blast
  have "changes cell {pg. same_block pg page} s3 s4"
  proof (cases "ptn_type (ram s3) ptn \<noteq> TYPE_MODEM_PARTITION")
    case True
    have "flash_nand_mark_badblock b (flash_cmdlist s3) (flash_ptrlist s3) (page AND NOT 63) s3 = Some (y, s4)"
      using m by (simp only: if_P [OF True] flash_mark_badblock_def)
    from mark_badblock_changes [OF w d3 small' this] show ?thesis unfolding blk .
  next
    case False
    with m have "s4 = s3" by simp
    then show ?thesis by simp
  qed
  with c1 show ?thesis by (rule changes_trans)
qed

lemma write_loop_correct:
  assumes w: "nand_works b cell" and lo: "lo mod 64 = 0" and hi: "unat lastpage mod 64 = 0" "unat lastpage \<le> 2 ^ 24"
    and psz: "psz \<le> unat wsize" and nb: "nbytes < 2 ^ 32"
  shows "driver_ok s \<Longrightarrow> unat (flash_pagesize s) = psz \<Longrightarrow> \<forall>i < nbytes. apart s (data + of_nat i) \<Longrightarrow>
    \<forall>q. apart s q \<longrightarrow> ram s q = m0 q \<Longrightarrow> written cell m0 data wsize psz lo nbytes ps page img bytes s \<Longrightarrow>
    lo \<le> unat page \<Longrightarrow> page \<le> lastpage \<Longrightarrow>
    flash_write_loop b ptn extra wsize lastpage spare page img bytes s = Some (r, page', s') \<Longrightarrow>
    changes cell (pages lo (unat lastpage)) s s' \<and> lo \<le> unat page' \<and> page' \<le> lastpage \<and>
    (r = 0 \<longrightarrow> (\<exists>ps' img'. written cell m0 data wsize psz lo nbytes ps' page' img' 0 s'))"
proof (induction "unat lastpage - unat page" arbitrary: page ps img bytes s rule: less_induct)
  case less
  note drv = less.prems(1) and psz_s = less.prems(2) and ap = less.prems(3) and m0 = less.prems(4)
    and wr = less.prems(5) and lo_page = less.prems(6) and page_le = less.prems(7) and run = less.prems(8)
  let ?P = "pages lo (unat lastpage)"
  have cont: "changes cell ?P s s' \<and> lo \<le> unat page' \<and> page' \<le> lastpage \<and>
      (r = 0 \<longrightarrow> (\<exists>ps' img'. written cell m0 data wsize psz lo nbytes ps' page' img' 0 s'))"
    if ch: "changes cell ?P s t" and "written cell m0 data wsize psz lo nbytes ps1 page1 img1 bytes1 t"
      and "unat page < unat page1" and "page1 \<le> lastpage" and "page < lastpage"
      and "flash_write_loop b ptn extra wsize lastpage spare page1 img1 bytes1 t = Some (r, page', s')"
    for t ps1 page1 img1 bytes1
  proof -
    have same: "same_driver s t" using ch by (simp add: changes_def)
    have "changes cell ?P t s' \<and> lo \<le> unat page' \<and> page' \<le> lastpage \<and>
      (r = 0 \<longrightarrow> (\<exists>ps' img'. written cell m0 data wsize psz lo nbytes ps' page' img' 0 s'))"
    proof (rule less.hyps)
      show "unat lastpage - unat page1 < unat lastpage - unat page"
        using that(3,5) by (simp add: word_less_nat_alt)
      show "\<forall>i < nbytes. apart t (data + of_nat i)" using ap by (simp add: apart_same [OF same])
      show "\<forall>q. apart t q \<longrightarrow> ram t q = m0 q" using ch m0 by (simp add: apart_same [OF same] changes_def)
      show "lo \<le> unat page1" using lo_page that(3) by simp
    qed (use that drv psz_s same in \<open>simp_all add: driver_ok_same same_driver_fields\<close>)
    with changes_trans [OF ch] show ?thesis by blast
  qed
  show ?case
  proof (cases "bytes = 0")
    case True
    with run wr lo_page page_le show ?thesis by (subst (asm) flash_write_loop.simps) auto
  next
    case False
    show ?thesis
    proof (cases "bytes < wsize \<or> lastpage \<le> page")
      case True
      with run False lo_page page_le show ?thesis by (subst (asm) flash_write_loop.simps) (auto split: if_splits)
    next
      case go: False
      then have lt: "page < lastpage" and le: "wsize \<le> bytes" by (auto simp: not_less not_le)
      have small: "unat page < 2 ^ 24" using lt hi(2) by (simp add: word_less_nat_alt)
      have blk: "{pg. same_block pg page} \<subseteq> ?P"
        using block_in_pages [OF lo hi(1) lo_page] lt by (auto simp: word_less_nat_alt)
      from run False go obtain bad s1 where
        er: "(if page AND 63 = 0 then flash_erase_block b (flash_cmdlist s) (flash_ptrlist s) page s
              else Some (0, s)) = Some (bad, s1)"
        and rest: "(if bad \<noteq> 0 then flash_write_loop b ptn extra wsize lastpage spare (page + 64) img bytes s1
         else do {
           (r, s2) \<leftarrow> u_flash_write_page b (flash_cmdlist s1) (flash_ptrlist s1) page img
                        (if extra \<noteq> 0 then img + flash_pagesize s1 else spare) s1;
           if r \<noteq> 0 then do {
             let img1 = img - (page AND 63) * wsize;
             let bytes1 = bytes + (page AND 63) * wsize;
             let page1 = page AND NOT 63;
             (_, s3) \<leftarrow> flash_erase_block b (flash_cmdlist s2) (flash_ptrlist s2) page1 s2;
             (_, s4) \<leftarrow> (if ptn_type (ram s3) ptn \<noteq> TYPE_MODEM_PARTITION
                        then flash_mark_badblock b (flash_cmdlist s3) (flash_ptrlist s3) page1 s3
                        else Some (0, s3));
             flash_write_loop b ptn extra wsize lastpage spare (page1 + 64) img1 bytes1 s4
           }
           else flash_write_loop b ptn extra wsize lastpage spare (page + 1) (img + wsize) (bytes - wsize) s2
         }) = Some (r, page', s')"
        by (subst (asm) flash_write_loop.simps) (auto simp: bind_eq_Some_conv)
      have wr1: "written cell m0 data wsize psz lo nbytes ps page img bytes s1"
        and c1: "changes cell {pg. same_block pg page} s s1"
        and fresh: "bad = 0 \<Longrightarrow> erased_from cell page s1"
        and al: "bad \<noteq> 0 \<Longrightarrow> unat page mod 64 = 0"
        using first_step [OF w drv er wr] by blast+
      have same1: "same_driver s s1" using c1 by (simp add: changes_def)
      have drv1: "driver_ok s1" using drv by (simp add: driver_ok_same [OF same1])
      have next_blk: "unat ((page AND NOT 63) + 64) = 64 * (unat page div 64) + 64"
        using small by (simp add: unat_word_ariths)
      have "64 * (unat lastpage div 64) = unat lastpage" using hi(1) by auto
      moreover have "unat page div 64 < unat lastpage div 64"
        by (rule less_mult_imp_div_less) (use calculation lt in \<open>simp add: word_less_nat_alt\<close>)
      ultimately have next_le: "(page AND NOT 63) + 64 \<le> lastpage" unfolding word_le_nat_alt next_blk by linarith
      have next_gt: "unat page < unat ((page AND NOT 63) + 64)" unfolding next_blk by linarith
      show ?thesis
      proof (cases "bad = 0")
        case False
        then have 0: "page AND 63 = 0" using al by (simp add: and63_0)
        have first: "page AND NOT 63 = page" using block_first [of page] 0 by simp
        have "written cell m0 data wsize psz lo nbytes ps (page + 64) img bytes s1"
          using written_restart [OF wr c1 small nb] al [OF False] 0 unfolding first by simp
        moreover have "flash_write_loop b ptn extra wsize lastpage spare (page + 64) img bytes s1 = Some (r, page', s')"
          using rest False by simp
        ultimately show ?thesis
          using cont [OF changes_mono [OF c1 blk] _ next_gt next_le lt] unfolding first by blast
      next
        case good: True
        from rest good obtain r1 s2 where
          wp: "u_flash_write_page b (flash_cmdlist s1) (flash_ptrlist s1) page img
            (if extra \<noteq> 0 then img + flash_pagesize s1 else spare) s1 = Some (r1, s2)"
          and after: "(if r1 \<noteq> 0 then do {
             (_, s3) \<leftarrow> flash_erase_block b (flash_cmdlist s2) (flash_ptrlist s2) (page AND NOT 63) s2;
             (_, s4) \<leftarrow> (if ptn_type (ram s3) ptn \<noteq> TYPE_MODEM_PARTITION
                        then flash_mark_badblock b (flash_cmdlist s3) (flash_ptrlist s3) (page AND NOT 63) s3
                        else Some (0, s3));
             flash_write_loop b ptn extra wsize lastpage spare ((page AND NOT 63) + 64)
               (img - (page AND 63) * wsize) (bytes + (page AND 63) * wsize) s4
           } else flash_write_loop b ptn extra wsize lastpage spare (page + 1) (img + wsize) (bytes - wsize) s2)
           = Some (r, page', s')"
          unfolding Let_def by (auto simp: bind_eq_Some_conv)
        note wpc = write_page_changes [OF w drv1 small wp [unfolded u_flash_write_page_def]]
        have c2: "changes cell {pg. same_block pg page} s s2"
          using changes_trans [OF c1 changes_mono [OF wpc(1)]] by (simp add: same_block_def)
        have same2: "same_driver s s2" using c2 by (simp add: changes_def)
        show ?thesis
        proof (cases "r1 = 0")
          case True
          have m1: "\<forall>q. apart s1 q \<longrightarrow> ram s1 q = m0 q"
            using c1 m0 by (simp add: apart_same [OF same1] changes_def)
          have ap1: "\<forall>i < nbytes. apart s1 (data + of_nat i)" using ap by (simp add: apart_same [OF same1])
          note ib = image_bytes [OF wr1 le psz ap1 m1]
          have pz1: "unat (flash_pagesize s1) = psz" using psz_s by (simp add: same_driver_fields [OF same1])
          have er1: "erased_from cell page s1" using fresh good by blast
          then have "cell (device s1) page = None" by (simp add: erased_from_def same_block_def)
          with wpc(2) True ib pz1 have "cell (device s2) page = Some (rd m0 img psz)" by simp
          moreover have "unat page mod 64 \<le> length ps" using wr by (simp only: written_def)
          ultimately have "written cell m0 data wsize psz lo nbytes (ps @ [page]) (page + 1) (img + wsize) (bytes - wsize) s2"
            using written_page [OF wr1 wpc(1) small lo_page er1 _ le] by blast
          moreover have "unat (page + 1) = unat page + 1" using small by (simp add: unat_word_ariths)
          ultimately show ?thesis
            using cont [OF changes_mono [OF c2 blk], of "ps @ [page]" "page + 1"] after True lt
            by (simp add: word_less_nat_alt word_le_nat_alt)
        next
          case False
          with after obtain x s3 y s4 where
            e3: "flash_erase_block b (flash_cmdlist s2) (flash_ptrlist s2) (page AND NOT 63) s2 = Some (x, s3)"
            and m4: "(if ptn_type (ram s3) ptn \<noteq> TYPE_MODEM_PARTITION
              then flash_mark_badblock b (flash_cmdlist s3) (flash_ptrlist s3) (page AND NOT 63) s3
              else Some (0, s3)) = Some (y, s4)"
            and loop: "flash_write_loop b ptn extra wsize lastpage spare ((page AND NOT 63) + 64)
               (img - (page AND 63) * wsize) (bytes + (page AND 63) * wsize) s4 = Some (r, page', s')"
            by (auto simp only: if_P bind_eq_Some_conv split_paired_Ex prod.case simp_thms)
          have drv2: "driver_ok s2" using drv by (simp add: driver_ok_same [OF same2])
          have c4: "changes cell {pg. same_block pg page} s s4"
            using changes_trans [OF c2 give_up_block [OF w drv2 small e3 m4]] .
          from cont [OF changes_mono [OF c4 blk] written_restart [OF wr c4 small nb] next_gt next_le lt loop]
          show ?thesis .
        qed
      qed
    qed
  qed
qed

section \<open>Erasing\<close>

lemma unat_add64: "unat page < 2 ^ 24 \<Longrightarrow> unat (page + 64 :: u32) = unat page + 64"
  by (simp add: unat_word_ariths)

lemma pages_mono: "lo' \<le> lo \<Longrightarrow> hi \<le> hi' \<Longrightarrow> pages lo hi \<subseteq> pages lo' hi'"
  by (auto simp: pages_def)

lemma erase_rest_changes:
  assumes w: "nand_works b cell" and hi: "unat lastpage mod 64 = 0" "unat lastpage \<le> 2 ^ 24"
  shows "driver_ok s \<Longrightarrow> unat page mod 64 = 0 \<Longrightarrow> erase_rest b lastpage page s = Some s' \<Longrightarrow>
    changes cell (pages (unat page) (unat lastpage)) s s'"
proof (induction "unat lastpage - unat page" arbitrary: page s rule: less_induct)
  case less
  note drv = less.prems(1) and al = less.prems(2) and run = less.prems(3)
  show ?case
  proof (cases "page < lastpage")
    case False
    with run show ?thesis by (subst (asm) erase_rest.simps) simp
  next
    case True
    then have lt: "unat page < unat lastpage" by (simp add: word_less_nat_alt)
    with hi(2) have p64: "unat (page + 64) = unat page + 64" by (intro unat_add64) simp
    from run True obtain r s1 where e: "flash_nand_erase_block b (flash_cmdlist s) (flash_ptrlist s) page s = Some (r, s1)"
      and rest: "erase_rest b lastpage (page + 64) s1 = Some s'"
      by (subst (asm) erase_rest.simps) (auto simp: bind_eq_Some_conv flash_erase_block_def)
    have "{pg. same_block pg page} \<subseteq> pages (unat page) (unat lastpage)"
      using block_in_pages [OF al hi(1) order_refl lt] by blast
    with erase_changes(1) [OF w drv e] have c1: "changes cell (pages (unat page) (unat lastpage)) s s1"
      by (rule changes_mono)
    then have "driver_ok s1" using drv driver_ok_same unfolding changes_def by blast
    then have "changes cell (pages (unat (page + 64)) (unat lastpage)) s1 s'"
      using less.hyps [OF _ _ _ rest] lt al p64 by simp
    then have "changes cell (pages (unat page) (unat lastpage)) s1 s'"
      by (rule changes_mono) (simp add: pages_mono p64)
    with c1 show ?thesis by (rule changes_trans)
  qed
qed

lemma erase_loop_changes:
  assumes w: "nand_works b cell"
  shows "driver_ok s \<Longrightarrow> unat block + n \<le> 2 ^ 18 \<Longrightarrow> flash_erase_loop b n block s = Some s' \<Longrightarrow>
    changes cell (pages (64 * unat block) (64 * (unat block + n))) s s'"
proof (induction n arbitrary: block s)
  case (Suc n)
  let ?P = "pages (64 * unat block) (64 * (unat block + Suc n))"
  from Suc.prems(3) obtain r s1 where
    e: "flash_nand_erase_block b (flash_cmdlist s) (flash_ptrlist s) (block * 64) s = Some (r, s1)"
    and rest: "flash_erase_loop b n (block + 1) s1 = Some s'"
    by (auto simp: bind_eq_Some_conv flash_erase_block_def)
  have b64: "unat (block * 64) = 64 * unat block" using Suc.prems(2) by (simp add: unat_word_ariths)
  have b1: "unat (block + 1) = unat block + 1" using Suc.prems(2) by (simp add: unat_word_ariths)
  have "{pg. same_block pg (block * 64)} \<subseteq> ?P"
    using block_in_pages [of "64 * unat block" "64 * (unat block + Suc n)" "block * 64"] b64 by auto
  with erase_changes(1) [OF w Suc.prems(1) e] have c1: "changes cell ?P s s1" by (rule changes_mono)
  then have "driver_ok s1" using Suc.prems(1) driver_ok_same unfolding changes_def by blast
  then have "changes cell (pages (64 * unat (block + 1)) (64 * (unat (block + 1) + n))) s1 s'"
    using Suc.IH [OF _ _ rest] Suc.prems(2) b1 by simp
  then have "changes cell ?P s1 s'" by (rule changes_mono) (simp add: pages_mono b1)
  with c1 show ?case by (rule changes_trans)
qed simp

section \<open>Writing an image\<close>

text \<open>The partition, and what the caller of \<open>flash_write\<close> has to provide.\<close>

definition first_page :: "mem \<Rightarrow> ptr \<Rightarrow> nat" where
  "first_page m ptn = 64 * unat (ptn_start m ptn)"

definition end_page :: "mem \<Rightarrow> ptr \<Rightarrow> nat" where
  "end_page m ptn = 64 * (unat (ptn_start m ptn) + unat (ptn_length m ptn))"

definition image_ok :: "'hw nand \<Rightarrow> ptr \<Rightarrow> nat \<Rightarrow> bool" where
  "image_ok s data n \<longleftrightarrow> (\<forall>i < n. apart s (data + of_nat i) \<and> 64 \<le> unat (data + of_nat i - flash_spare s))"

lemma partition_words:
  assumes "end_page m ptn \<le> 2 ^ 24"
  shows "unat (ptn_start m ptn * 64) = first_page m ptn"
    and "unat ((ptn_start m ptn + ptn_length m ptn) * 64) = end_page m ptn"
    and "first_page m ptn mod 64 = 0" and "end_page m ptn mod 64 = 0" and "first_page m ptn \<le> end_page m ptn"
  using assms by (simp_all add: first_page_def end_page_def unat_word_ariths)

lemma flash_write_main:
  assumes w: "nand_works b cell" and drv: "driver_ok s" and part: "end_page (ram s) ptn \<le> 2 ^ 24"
    and ex: "unat (flash_pagesize s) + unat extra < 2 ^ 32" and im: "image_ok s data (unat bytes)"
    and run: "flash_write b ptn extra data bytes s = Some (r, s')"
  shows "(\<forall>pg. pg \<notin> pages (first_page (ram s) ptn) (end_page (ram s) ptn) \<longrightarrow>
        cell (device s') pg = cell (device s) pg) \<and>
    (r = 0 \<longrightarrow> (\<exists>ps. sorted_wrt (<) ps \<and> set ps \<subseteq> pages (first_page (ram s) ptn) (end_page (ram s) ptn) \<and>
       length ps * (unat (flash_pagesize s) + unat extra) = unat bytes \<and>
       (\<forall>i < length ps. cell (device s') (ps ! i) =
          Some (rd (ram s) (data + of_nat i * (flash_pagesize s + extra)) (unat (flash_pagesize s))))))"
proof (cases "ptn_type (ram s) ptn = TYPE_MODEM_PARTITION")
  case True
  with run show ?thesis by (simp add: flash_write_def Let_def)
next
  case False
  let ?ws = "flash_pagesize s + extra" and ?lo = "first_page (ram s) ptn" and ?hi = "end_page (ram s) ptn"
  let ?lastpage = "(ptn_start (ram s) ptn + ptn_length (ram s) ptn) * 64"
  let ?s1 = "s\<lparr>ram := store_words (ram s) (flash_spare s) (replicate 16 0xffffffff)\<rparr>"
  note pw = partition_words [OF part]
  from run False obtain r1 page s2 where
    loop: "flash_write_loop b ptn extra ?ws ?lastpage (flash_spare s) (ptn_start (ram s) ptn * 64) data bytes ?s1
      = Some (r1, page, s2)"
    and fin: "(if r1 \<noteq> 0 then Some (-1, s2) else do {
        s3 \<leftarrow> erase_rest b ?lastpage ((page + 63) AND NOT 63) s2; Some (0, s3) }) = Some (r, s')"
    by (auto simp: flash_write_def Let_def bind_eq_Some_conv simp del: distrib_right_numeral)
  have ws: "unat ?ws = unat (flash_pagesize s) + unat extra" using ex by (simp add: unat_word_ariths)
  have drv1: "driver_ok ?s1" using drv by (simp add: driver_ok_def)
  have start: "written cell (ram ?s1) data ?ws (unat (flash_pagesize s)) ?lo (unat bytes) []
      (ptn_start (ram s) ptn * 64) data bytes ?s1"
    unfolding written_def pw(1) by (simp add: pw(3))
  have ap: "\<forall>i < unat bytes. apart ?s1 (data + of_nat i)" using im by (simp add: image_ok_def apart_def)
  have main: "changes cell (pages ?lo ?hi) ?s1 s2 \<and> ?lo \<le> unat page \<and> page \<le> ?lastpage \<and>
    (r1 = 0 \<longrightarrow> (\<exists>ps img. written cell (ram ?s1) data ?ws (unat (flash_pagesize s)) ?lo (unat bytes) ps page img 0 s2))"
    using write_loop_correct [OF w pw(3) _ _ _ _ drv1 _ ap _ start _ _ loop] pw part ws
    by (simp add: word_le_nat_alt unat_lt_2p32 [simplified])
  show ?thesis
  proof (cases "r1 = 0")
    case False
    with fin have "r = -1" "s' = s2" by simp_all
    with main show ?thesis by (simp add: changes_def)
  next
    case True
    with fin obtain s3 where er: "erase_rest b ?lastpage ((page + 63) AND NOT 63) s2 = Some s3" and s': "s' = s3"
      by (auto simp: bind_eq_Some_conv)
    let ?up = "(page + 63) AND NOT 63"
    have page_hi: "unat page \<le> 2 ^ 24" using main pw(2) part by (simp add: word_le_nat_alt)
    then have "unat (page + 63) = unat page + 63" by (simp add: unat_word_ariths)
    then have up: "unat ?up = 64 * ((unat page + 63) div 64)" by (simp only: unat_block_first)
    have "same_driver ?s1 s2" using main by (simp add: changes_def)
    then have "driver_ok s2" using drv1 driver_ok_same by blast
    then have c3: "changes cell (pages (unat ?up) ?hi) s2 s'"
      using erase_rest_changes [OF w _ _ _ _ er] pw part up unfolding s' by simp
    from main True obtain ps img where
      wr: "written cell (ram ?s1) data ?ws (unat (flash_pagesize s)) ?lo (unat bytes) ps page img 0 s2" by blast
    have le_up: "unat page \<le> unat ?up" unfolding up by simp
    have out: "cell (device s') pg = cell (device s) pg" if "pg \<notin> pages ?lo ?hi" for pg
    proof -
      have "pg \<notin> pages (unat ?up) ?hi" using that main le_up by (auto simp: pages_def)
      with c3 main that show ?thesis by (simp add: changes_def)
    qed
    have dat: "cell (device s') (ps ! i) = Some (rd (ram s) (data + of_nat i * ?ws) (unat (flash_pagesize s)))"
      if i: "i < length ps" for i
    proof -
      from wr have mem: "\<forall>p \<in> set ps. ?lo \<le> unat p \<and> p < page" and n: "length ps * unat ?ws = unat bytes"
        and c: "cell (device s2) (ps ! i) = Some (rd (ram ?s1) (data + of_nat i * ?ws) (unat (flash_pagesize s)))"
        using i unfolding written_def by auto
      have "ps ! i < page" using mem i by simp
      then have "unat (ps ! i) < unat page" by (simp only: word_less_nat_alt)
      with le_up have "unat (ps ! i) < unat ?up" by linarith
      then have "cell (device s') (ps ! i) = cell (device s2) (ps ! i)" using c3 by (simp add: changes_def pages_def)
      also note c
      also have "rd (ram ?s1) (data + of_nat i * ?ws) (unat (flash_pagesize s))
          = rd (ram s) (data + of_nat i * ?ws) (unat (flash_pagesize s))"
      proof (rule rd_cong)
        fix j
        assume j: "j < unat (flash_pagesize s)"
        have "Suc i * unat ?ws \<le> length ps * unat ?ws" using i by (intro mult_le_mono1) simp
        with j n ws have "i * unat ?ws + j < unat bytes" by simp
        with im have "64 \<le> unat (data + of_nat (i * unat ?ws + j) - flash_spare s)" by (simp only: image_ok_def)
        then show "ram ?s1 (data + of_nat i * ?ws + of_nat j) = ram s (data + of_nat i * ?ws + of_nat j)"
          by (simp add: store_words_other add.assoc)
      qed
      finally show ?thesis .
    qed
    have "sorted_wrt (<) ps" "length ps * unat ?ws = unat bytes" using wr unfolding written_def by auto
    moreover have "set ps \<subseteq> pages ?lo ?hi"
    proof
      fix p
      assume "p \<in> set ps"
      with wr have "?lo \<le> unat p" "p < page" unfolding written_def by auto
      with main show "p \<in> pages ?lo ?hi"
        using pw(2) by (simp add: pages_def word_less_nat_alt word_le_nat_alt)
    qed
    ultimately show ?thesis using out dat unfolding ws by blast
  qed
qed

end
