(* ===== verification/Lk_Flashend.thy ===== *)
theory Lk_Flashend
  imports Lk_Flashok
begin

text \<open>
  The partition operations end. All the hardware has to do for it is to answer: the data mover
  reports a result after finitely many looks at its status, and queues finitely many results.
\<close>

section \<open>A data mover that answers\<close>

definition dmov_answers :: "'hw bus \<Rightarrow> ('hw \<Rightarrow> nat) \<Rightarrow> bool" where
  "dmov_answers b work \<longleftrightarrow>
    (\<forall>m d v m' d'. readl b (DMOV_STATUS DMOV_NAND_CHAN) (m, d) = (v, m', d') \<longrightarrow>
       work d' \<le> work d \<and> (v AND DMOV_STATUS_RSLT_VALID = 0 \<longrightarrow> work d' < work d) \<and>
       (DMOV_STATUS_RSLT_COUNT v \<noteq> 0 \<longrightarrow> 0 < work d')) \<and>
    (\<forall>m d v m' d'. readl b (DMOV_RSLT DMOV_NAND_CHAN) (m, d) = (v, m', d') \<longrightarrow>
       0 < work d \<longrightarrow> work d' < work d)"

lemma dmov_wait_returns:
  "dmov_answers b work \<Longrightarrow> \<exists>mc'. dmov_wait b (dmov_prep_ch DMOV_NAND_CHAN) (m, d) = Some mc'"
proof (induction "work d" arbitrary: m d rule: less_induct)
  case less
  obtain v m' d' where rd: "readl b (DMOV_STATUS DMOV_NAND_CHAN) (m, d) = (v, m', d')" by (metis prod_cases3)
  then have "v AND DMOV_STATUS_RSLT_VALID = 0 \<Longrightarrow> work d' < work d"
    using less.prems unfolding dmov_answers_def by blast
  with less rd show ?case by (subst dmov_wait.simps) (simp add: dmov_prep_ch_def)
qed

lemma dmov_drain_returns:
  "dmov_answers b work \<Longrightarrow> DMOV_STATUS_RSLT_COUNT n \<noteq> 0 \<longrightarrow> 0 < work d \<Longrightarrow>
    \<exists>r mc'. dmov_drain b (dmov_prep_ch DMOV_NAND_CHAN) n (m, d) = Some (r, mc')"
proof (induction "work d" arbitrary: n m d rule: less_induct)
  case less
  show ?case
  proof (cases "DMOV_STATUS_RSLT_COUNT n = 0")
    case True
    then show ?thesis by (subst dmov_drain.simps) simp
  next
    case False
    obtain v m1 d1 where r1: "readl b (DMOV_RSLT DMOV_NAND_CHAN) (m, d) = (v, m1, d1)" by (metis prod_cases3)
    obtain n' m2 d2 where r2: "readl b (DMOV_STATUS DMOV_NAND_CHAN) (m1, d1) = (n', m2, d2)" by (metis prod_cases3)
    have "work d1 < work d" using less.prems False r1 unfolding dmov_answers_def by blast
    moreover have "work d2 \<le> work d1 \<and> (DMOV_STATUS_RSLT_COUNT n' \<noteq> 0 \<longrightarrow> 0 < work d2)"
      using less.prems(1) r2 unfolding dmov_answers_def by blast
    ultimately have "\<exists>r mc'. dmov_drain b (dmov_prep_ch DMOV_NAND_CHAN) n' (m2, d2) = Some (r, mc')"
      using less.hyps [of d2 n' m2] less.prems(1) by simp
    with False r1 r2 show ?thesis
      by (subst dmov_drain.simps) (simp add: dmov_prep_ch_def Let_def split: prod.splits)
  qed
qed

lemma dmov_exec_returns:
  assumes "dmov_answers b work"
  shows "\<exists>r m' d'. dmov_exec_cmdptr b DMOV_NAND_CHAN p mc = Some (r, m', d')"
proof -
  let ?ch = "dmov_prep_ch DMOV_NAND_CHAN"
  obtain m0 d0 where w0: "writel b (DMOV_CMD_PTR_LIST OR DMOV_CMD_ADDR p) (ch_cmd ?ch) mc = (m0, d0)" by fastforce
  obtain m1 d1 where w1: "dmov_wait b ?ch (m0, d0) = Some (m1, d1)"
    using dmov_wait_returns [OF assms] by fastforce
  obtain n m2 d2 where r: "readl b (DMOV_STATUS DMOV_NAND_CHAN) (m1, d1) = (n, m2, d2)" by (metis prod_cases3)
  have "DMOV_STATUS_RSLT_COUNT n \<noteq> 0 \<longrightarrow> 0 < work d2" using assms r unfolding dmov_answers_def by blast
  then obtain x m3 d3 where "dmov_drain b ?ch n (m2, d2) = Some (x, m3, d3)"
    using dmov_drain_returns [OF assms] by fastforce
  with w0 w1 r show ?thesis by (simp add: dmov_exec_cmdptr_def Let_def) (simp add: dmov_prep_ch_def)
qed

section \<open>Every operation returns\<close>

text \<open>An operation returns, and leaves the driver's variables alone.\<close>

definition returns :: "('hw nand \<Rightarrow> (int \<times> 'hw nand) option) \<Rightarrow> 'hw nand \<Rightarrow> bool" where
  "returns f s \<longleftrightarrow> (\<exists>r s'. f s = Some (r, s') \<and> same_driver s s')"

lemma run_returns: "dmov_answers b work \<Longrightarrow> returns (dmov_run b p) s"
  using dmov_exec_returns [of b work p "(ram s, device s)"] by (auto simp: returns_def dmov_run_def)

text \<open>Going on after an operation that returns.\<close>

lemma bind_returns:
  assumes "g = Some (r, s1)" and "same_driver s s1"
    and "\<And>r. \<exists>r2 s2. f r s1 = Some (r2, s2) \<and> same_driver s1 s2"
  shows "\<exists>r2 s2. g \<bind> (\<lambda>(r, s'). f r s') = Some (r2, s2) \<and> same_driver s s2"
  using assms same_driver_trans [of s s1] by fastforce

lemma returns_bind:
  assumes "returns g s" and "\<And>r s'. same_driver s s' \<Longrightarrow> \<exists>r2 s2. f r s' = Some (r2, s2) \<and> same_driver s' s2"
  shows "\<exists>r2 s2. g s \<bind> (\<lambda>(r, s'). f r s') = Some (r2, s2) \<and> same_driver s s2"
proof -
  from assms(1) obtain r s1 where "g s = Some (r, s1)" and s1: "same_driver s s1" unfolding returns_def by blast
  then show ?thesis using assms(2) [OF s1] by (rule bind_returns)
qed

lemma run_bind:
  assumes a: "dmov_answers b work"
    and f: "\<And>r s'. same_driver s s' \<Longrightarrow> \<exists>r2 s2. f r s' = Some (r2, s2) \<and> same_driver s' s2"
  shows "\<exists>r2 s2. dmov_run b p (s\<lparr>ram := m\<rparr>) \<bind> (\<lambda>(r, s'). f r s') = Some (r2, s2) \<and> same_driver s s2"
proof -
  from run_returns [OF a] obtain r s1 where r: "dmov_run b p (s\<lparr>ram := m\<rparr>) = Some (r, s1)" "same_driver (s\<lparr>ram := m\<rparr>) s1"
    unfolding returns_def by blast
  then have s1: "same_driver s s1" using same_driver_trans same_driver_ram by blast
  show ?thesis using r(1) s1 f [OF s1] by (rule bind_returns)
qed

lemma isbad_returns: "dmov_answers b work \<Longrightarrow> returns (flash_nand_block_isbad b cl pl page) s"
  unfolding returns_def flash_nand_block_isbad_def Let_def by (rule run_bind) simp_all

lemma erase_block_returns:
  assumes a: "dmov_answers b work"
  shows "returns (flash_nand_erase_block b cl pl page) s"
proof (cases "page AND 63 = 0")
  case False
  then show ?thesis by (simp add: returns_def flash_nand_erase_block_def Let_def)
next
  case True
  have "\<exists>r s'. flash_nand_block_isbad b cl pl page s \<bind> (\<lambda>(isbad, s1).
      if isbad \<noteq> 0 then Some (-1, s1)
      else dmov_run b pl (s1\<lparr>ram := put_cmds cl pl (erase_cmds (pl + 16))
             (store_words (ram s1) (pl + 16) (erase_data (CFG0 s1) (CFG1 s1) page))\<rparr>) \<bind>
           (\<lambda>(_, s2). Some (if load32 (ram s2) (pl + 16 + 20) AND 0x110 \<noteq> 0 then -1
              else if load32 (ram s2) (pl + 16 + 20) AND 0x80 = 0 then -1 else 0, s2)))
      = Some (r, s') \<and> same_driver s s'"
  proof (rule returns_bind [OF isbad_returns [OF a]])
    show "\<exists>r2 s2. (if isbad \<noteq> 0 then Some (-1, s1)
      else dmov_run b pl (s1\<lparr>ram := put_cmds cl pl (erase_cmds (pl + 16))
             (store_words (ram s1) (pl + 16) (erase_data (CFG0 s1) (CFG1 s1) page))\<rparr>) \<bind>
           (\<lambda>(_, s2). Some (if load32 (ram s2) (pl + 16 + 20) AND 0x110 \<noteq> 0 then -1
              else if load32 (ram s2) (pl + 16 + 20) AND 0x80 = 0 then -1 else 0, s2)))
      = Some (r2, s2) \<and> same_driver s1 s2" for isbad s1
    proof (cases "isbad = 0")
      case True
      then show ?thesis by (simp only: simp_thms if_False) (rule run_bind [OF a], blast intro: same_driver_refl)
    qed simp
  qed
  with True show ?thesis by (simp only: returns_def flash_nand_erase_block_def Let_def simp_thms if_False)
qed

lemma cwperpage_nonzero: "512 \<le> unat (ps :: u32) \<Longrightarrow> drop_bit 9 ps \<noteq> 0"
proof -
  assume ps: "512 \<le> unat ps"
  have "unat (drop_bit 9 ps) = unat ps div 512" by (simp add: drop_bit_eq_div unat_div)
  with ps show ?thesis by auto
qed

lemma write_page_returns:
  assumes a: "dmov_answers b work" and ps: "512 \<le> unat (flash_pagesize s)"
  shows "returns (u_flash_nand_write_page b cl pl page addr spareaddr raw) s"
  unfolding returns_def u_flash_nand_write_page_def Let_def if_not_P [OF cwperpage_nonzero [OF ps]]
  by (rule run_bind [OF a]) (blast intro: same_driver_refl)

lemma read_page_returns:
  assumes a: "dmov_answers b work" and ps: "512 \<le> unat (flash_pagesize s)"
  shows "returns (u_flash_nand_read_page b cl pl page addr spareaddr) s"
  unfolding returns_def u_flash_nand_read_page_def Let_def if_not_P [OF cwperpage_nonzero [OF ps]]
proof (rule returns_bind [OF isbad_returns [OF a]], goal_cases)
  case (1 isbad s1)
  show ?case
  proof (cases "isbad = 0")
    case True
    then show ?thesis
      by (simp only: simp_thms if_False) (rule run_bind [OF a], simp)
  qed simp
qed

lemma mark_badblock_returns:
  assumes a: "dmov_answers b work" and ps: "512 \<le> unat (flash_pagesize s)"
  shows "returns (flash_nand_mark_badblock b cl pl page) s"
proof -
  let ?s = "s\<lparr>ram := fst (memset (ram s) (empty_buf_addr s) 0 528)\<rparr>"
  have "returns (u_flash_nand_write_page b cl pl (block_start page) (empty_buf_addr s) 0 True) ?s"
    by (rule write_page_returns [OF a]) (simp add: ps)
  then obtain r s' where "flash_nand_mark_badblock b cl pl page s = Some (r, s')" "same_driver ?s s'"
    unfolding returns_def flash_nand_mark_badblock_def by blast
  then show ?thesis unfolding returns_def using same_driver_trans [OF same_driver_ram] by blast
qed

section \<open>The loops end\<close>

lemma unat_mult64: "unat (x * 64 :: u32) mod 64 = 0"
proof -
  have "(unat x * 64) mod 2 ^ 32 mod 64 = (unat x * 64) mod 64" by (rule mod_mod_cancel) simp
  then show ?thesis by (simp add: unat_word_ariths)
qed

lemma next_block:
  assumes "page < lastpage" and "unat (lastpage :: u32) mod 64 = 0"
  shows "unat ((page AND NOT 63) + 64) = 64 * (unat page div 64) + 64"
    and "unat page < unat ((page AND NOT 63) + 64)" and "(page AND NOT 63) + 64 \<le> lastpage"
    and "unat (page + 64) = unat page + 64"
proof -
  have l: "64 * (unat lastpage div 64) = unat lastpage" using assms(2) by auto
  have lt: "unat page < unat lastpage" using assms(1) by (simp add: word_less_nat_alt)
  then have "unat page div 64 < unat lastpage div 64" using l by (intro less_mult_imp_div_less) simp
  with l have le: "64 * (unat page div 64) + 64 \<le> unat lastpage" by linarith
  have top: "unat lastpage < 2 ^ 32" by (rule unat_lt_2p32)
  have "64 * (unat lastpage div 64) < 64 * 2 ^ 26" using l top by simp
  then have "unat lastpage div 64 < 2 ^ 26" by (simp only: mult_less_cancel1)
  then have "64 * (unat lastpage div 64) + 64 \<le> 64 * 2 ^ 26" by simp
  then have p: "unat page + 64 < 2 ^ 32" using lt l by simp
  show n: "unat ((page AND NOT 63) + 64) = 64 * (unat page div 64) + 64"
    using le top by (simp add: unat_word_ariths)
  show "unat page < unat ((page AND NOT 63) + 64)" unfolding n by linarith
  show "(page AND NOT 63) + 64 \<le> lastpage" unfolding word_le_nat_alt n by (rule le)
  show "unat (page + 64) = unat page + 64" using p by (simp add: unat_word_ariths)
qed

lemma erase_rest_returns:
  assumes a: "dmov_answers b work" and l: "unat lastpage mod 64 = 0"
  shows "\<exists>s'. erase_rest b lastpage page s = Some s'"
proof (induction "unat lastpage - unat page" arbitrary: page s rule: less_induct)
  case less
  show ?case
  proof (cases "page < lastpage")
    case False
    then show ?thesis by (subst erase_rest.simps) simp
  next
    case True
    from erase_block_returns [OF a] obtain r s1
      where e: "flash_nand_erase_block b (flash_cmdlist s) (flash_ptrlist s) page s = Some (r, s1)"
      unfolding returns_def by blast
    have "unat (page + 64) = unat page + 64" using True l by (rule next_block)
    then have "unat lastpage - unat (page + 64) < unat lastpage - unat page"
      using True by (simp add: word_less_nat_alt)
    from less.hyps [OF this, of s1] e True show ?thesis
      by (subst erase_rest.simps) (simp add: flash_erase_block_def)
  qed
qed

lemma flash_write_loop_returns:
  assumes a: "dmov_answers b work" and l: "unat lastpage mod 64 = 0"
  shows "512 \<le> unat (flash_pagesize s) \<Longrightarrow>
    \<exists>r. flash_write_loop b ptn extra wsize lastpage spare page img bytes s = Some r"
proof (induction "unat lastpage - unat page" arbitrary: page img bytes s rule: less_induct)
  case less
  note ps = less.prems
  show ?case
  proof (cases "bytes = 0 \<or> bytes < wsize \<or> lastpage \<le> page")
    case True
    then show ?thesis by (subst flash_write_loop.simps) auto
  next
    case False
    then have lt: "page < lastpage" by auto
    note nb = next_block [OF lt l]
    have again: "\<exists>r. flash_write_loop b ptn extra wsize lastpage spare page1 img1 bytes1 t = Some r"
      if "same_driver s t" "unat page < unat page1" for page1 img1 bytes1 t
    proof (rule less.hyps)
      show "unat lastpage - unat page1 < unat lastpage - unat page"
        using that(2) lt by (simp add: word_less_nat_alt)
      show "512 \<le> unat (flash_pagesize t)" using ps by (simp add: same_driver_fields [OF that(1)])
    qed
    have "returns (flash_erase_block b (flash_cmdlist s) (flash_ptrlist s) page) s"
      using erase_block_returns [OF a] unfolding flash_erase_block_def .
    then obtain bad s1 where s1: "(if page AND 63 = 0 then flash_erase_block b (flash_cmdlist s) (flash_ptrlist s) page s
        else Some (0, s)) = Some (bad, s1)" and d1: "same_driver s s1"
      unfolding returns_def by (cases "page AND 63 = 0") auto
    have "512 \<le> unat (flash_pagesize s1)" using ps by (simp add: same_driver_fields [OF d1])
    from write_page_returns [OF a this] obtain r s2 where
      s2: "u_flash_write_page b (flash_cmdlist s1) (flash_ptrlist s1) page img
        (if extra \<noteq> 0 then img + flash_pagesize s1 else spare) s1 = Some (r, s2)" and d2: "same_driver s1 s2"
      unfolding returns_def u_flash_write_page_def by blast
    have d02: "same_driver s s2" using d1 d2 by (rule same_driver_trans)
    from erase_block_returns [OF a] obtain x s3 where
      s3: "flash_erase_block b (flash_cmdlist s2) (flash_ptrlist s2) (page AND NOT 63) s2 = Some (x, s3)"
      and d3: "same_driver s2 s3"
      unfolding returns_def flash_erase_block_def by blast
    have d03: "same_driver s s3" using d02 d3 by (rule same_driver_trans)
    have "512 \<le> unat (flash_pagesize s3)" using ps by (simp add: same_driver_fields [OF d03])
    from mark_badblock_returns [OF a this] obtain y0 t4 where
      "flash_mark_badblock b (flash_cmdlist s3) (flash_ptrlist s3) (page AND NOT 63) s3 = Some (y0, t4)"
      "same_driver s3 t4" unfolding returns_def flash_mark_badblock_def by blast
    then obtain y s4 where
      s4: "(if ptn_type (ram s3) ptn \<noteq> TYPE_MODEM_PARTITION
        then flash_mark_badblock b (flash_cmdlist s3) (flash_ptrlist s3) (page AND NOT 63) s3
        else Some (0, s3)) = Some (y, s4)" and d4: "same_driver s3 s4"
      by (cases "ptn_type (ram s3) ptn \<noteq> TYPE_MODEM_PARTITION") auto
    have d04: "same_driver s s4" using d03 d4 by (rule same_driver_trans)
    have p1: "unat page < unat (page + 64)" "unat page < unat (page + 1)"
      using nb(4) unat_lt_2p32 [of "page + 64"] by (simp_all add: unat_word_ariths)
    show ?thesis
      using again [OF d1 p1(1)] again [OF d02 p1(2)] again [OF d04 nb(2)] False s1 s2 s3 s4
      by (subst flash_write_loop.simps) (simp del: unat_block_first' cong: if_cong)
  qed
qed

lemma skip_bad_blocks_returns:
  assumes a: "dmov_answers b work"
  shows "\<exists>c page' s'. skip_bad_blocks b ptn count start_block page s = Some (c, page', s') \<and> same_driver s s'"
proof (induction "2 ^ 32 - unat start_block" arbitrary: count start_block page s rule: less_induct)
  case less
  show ?case
  proof (cases "count \<noteq> 0 \<and> start_block < ptn_start (ram s) ptn + ptn_length (ram s) ptn")
    case False
    then show ?thesis by (subst skip_bad_blocks.simps) auto
  next
    case True
    from isbad_returns [OF a] obtain i s1 where
      i: "u_flash_block_isbad b (flash_cmdlist s) (flash_ptrlist s) (start_block * 64) s = Some (i, s1)"
      and d: "same_driver s s1" unfolding returns_def u_flash_block_isbad_def by blast
    have "unat start_block < unat (ptn_start (ram s) ptn + ptn_length (ram s) ptn)"
      using True by (simp only: word_less_nat_alt)
    then have up: "unat start_block + 1 < 2 ^ 32"
      using unat_lt_2p32 [of "ptn_start (ram s) ptn + ptn_length (ram s) ptn"] by linarith
    then have "unat (start_block + 1) = unat start_block + 1" by (simp add: unat_word_ariths)
    then have m: "2 ^ 32 - unat (start_block + 1) < 2 ^ 32 - unat start_block" using up by simp
    have "\<exists>c page' s'. skip_bad_blocks b ptn count' (start_block + 1) page1 s1 = Some (c, page', s') \<and> same_driver s s'"
      for count' page1 using less.hyps [OF m, of count' page1 s1] same_driver_trans [OF d] by blast
    with True i show ?thesis by (subst skip_bad_blocks.simps) simp
  qed
qed

lemma flash_read_loop_returns:
  assumes a: "dmov_answers b work" and l: "unat lastpage mod 64 = 0"
  shows "512 \<le> unat (flash_pagesize s) \<Longrightarrow>
    \<exists>r. flash_read_loop b extra lastpage spare sbc page img count s = Some r"
proof (induction "unat lastpage - unat page" arbitrary: page img count s rule: less_induct)
  case less
  show ?case
  proof (cases "page < lastpage \<and> sbc = 0 \<and> count \<noteq> 0")
    case False
    then show ?thesis by (subst flash_read_loop.simps) auto
  next
    case True
    then have lt: "page < lastpage" by simp
    from read_page_returns [OF a less.prems] obtain r s1 where
      r: "u_flash_read_page b (flash_cmdlist s) (flash_ptrlist s) page (flash_data s) spare s = Some (r, s1)"
      and d: "same_driver s s1" unfolding returns_def u_flash_read_page_def by blast
    have p: "unat (page + 64) = unat page + 64" using lt l by (rule next_block)
    then have p1: "unat (page + 1) = unat page + 1"
      using unat_lt_2p32 [of "page + 64"] by (simp add: unat_word_ariths)
    have again: "\<exists>r. flash_read_loop b extra lastpage spare sbc page1 img1 count1 t = Some r"
      if "same_driver s t" "unat page < unat page1" for page1 img1 count1 t
    proof (rule less.hyps)
      show "unat lastpage - unat page1 < unat lastpage - unat page"
        using that(2) lt by (simp add: word_less_nat_alt)
      show "512 \<le> unat (flash_pagesize t)" using less.prems by (simp add: same_driver_fields [OF that(1)])
    qed
    have dm: "same_driver s (s1\<lparr>ram := m\<rparr>)" for m using d same_driver_ram by (rule same_driver_trans)
    have "\<exists>x. flash_read_loop b extra lastpage spare sbc (page + 1) img count s1 = Some x"
      "\<exists>x. flash_read_loop b extra lastpage spare sbc (page + 64) img count s1 = Some x"
      using again [OF d] p p1 by simp_all
    moreover have "\<exists>x. flash_read_loop b extra lastpage spare sbc (page + 1) i2 c2 (s1\<lparr>ram := m\<rparr>) = Some x" for i2 c2 m
      using again [OF dm] p1 by simp
    ultimately show ?thesis using True r by (subst flash_read_loop.simps) (simp add: Let_def)
  qed
qed

end
