(* ===== verification/Lk_Nandsim.thy ===== *)
theory Lk_Nandsim
  imports Lk_Flashend
begin

text \<open>
  A small NAND controller behind the bus, to show that what the properties ask of the hardware can
  be had: it carries out each list at once, reports success in every status word and finds no
  block bad. The state is the content of the pages and the number of results queued.
\<close>

type_synonym sim = "(u32 \<Rightarrow> u8 list option) \<times> nat"

definition sim_store :: "dmov_s \<Rightarrow> mem \<Rightarrow> mem" where
  "sim_store c m =
    (if dm_cmd c = SRC_CRCI_NAND_DATA \<and> 4 \<le> unat (dm_len c) then store32 m (dm_dst c) 0x80
     else if dm_cmd c = CMD_OCU OR CMD_LC \<and> dm_len c = 4 \<and> NAND_FLASH_BUFFER \<le> dm_src c
       then store32 m (dm_dst c) 0xFFFFFFFF
     else m)"

definition sim_mem :: "dmov_s list \<Rightarrow> mem \<Rightarrow> mem" where
  "sim_mem cs m = fold sim_store cs m"

definition sim_cells :: "mem \<Rightarrow> dmov_s list \<Rightarrow> (u32 \<Rightarrow> u8 list option) \<Rightarrow> u32 \<Rightarrow> u8 list option" where
  "sim_cells m cs cells page =
    (if \<not> touches m cs page then cells page
     else if req_op m cs = NAND_CMD_BLOCK_ERASE then None
     else if cells page = None then Some (page_data m cs) else cells page)"

definition sim_read :: "ptr \<Rightarrow> sim machine \<Rightarrow> u32 \<times> sim machine" where
  "sim_read a mc = (case mc of (m, cells, n) \<Rightarrow>
     if a = DMOV_STATUS DMOV_NAND_CHAN then ((if 0 < n then 0x20000002 else 2), (m, cells, n))
     else if a = DMOV_RSLT DMOV_NAND_CHAN then (0x80000002, (m, cells, n - 1))
     else (0, (m, cells, n)))"

definition sim_write :: "ptr \<Rightarrow> u32 \<Rightarrow> sim machine \<Rightarrow> sim machine" where
  "sim_write a v mc = (case mc of (m, cells, n) \<Rightarrow>
     if a = DMOV_CMD_PTR DMOV_NAND_CHAN then
       (let cs = walk m (push_bit 3 v) in (sim_mem cs m, sim_cells m cs cells, 1))
     else (m, cells, n))"

definition sim_bus :: "sim bus" where
  "sim_bus = \<lparr> bus_read = sim_read, bus_write = sim_write \<rparr>"

lemma chan_regs:
  "DMOV_STATUS DMOV_NAND_CHAN \<noteq> DMOV_RSLT DMOV_NAND_CHAN" "DMOV_RSLT DMOV_NAND_CHAN \<noteq> DMOV_STATUS DMOV_NAND_CHAN"
  by (simp_all add: nand_consts)

lemma sim_status: "readl sim_bus (DMOV_STATUS DMOV_NAND_CHAN) (m, cells, n) =
    ((if 0 < n then 0x20000002 else 2), (m, cells, n))"
  by (simp add: readl_def sim_bus_def sim_read_def)

lemma sim_result: "readl sim_bus (DMOV_RSLT DMOV_NAND_CHAN) (m, cells, n) = (0x80000002, (m, cells, n - 1))"
  by (simp add: readl_def sim_bus_def sim_read_def chan_regs)

lemma sim_answers: "dmov_answers sim_bus snd"
  unfolding dmov_answers_def
  by (auto simp: sim_status sim_result DMOV_STATUS_RSLT_VALID_def DMOV_STATUS_RSLT_COUNT_def)

lemma ptr_list_bit: "push_bit 3 DMOV_CMD_PTR_LIST = 0"
  by (simp add: DMOV_CMD_PTR_LIST_def)

lemma sim_exec:
  assumes "p AND 7 = 0"
  shows "dmov_exec_cmdptr sim_bus DMOV_NAND_CHAN p (m, cells, n) =
    Some (0, sim_mem (walk m p) m, sim_cells m (walk m p) cells, 0)"
proof -
  let ?ch = "dmov_prep_ch DMOV_NAND_CHAN" and ?cs = "walk m p"
  let ?d = "(sim_mem ?cs m, sim_cells m ?cs cells, 1 :: nat)"
  have "push_bit 3 (DMOV_CMD_PTR_LIST OR DMOV_CMD_ADDR p) = p"
    using assms by (simp add: DMOV_CMD_ADDR_def ptr_list_bit aligned8)
  then have w: "writel sim_bus (DMOV_CMD_PTR_LIST OR DMOV_CMD_ADDR p) (ch_cmd ?ch) (m, cells, n) = ?d"
    by (simp add: writel_def sim_bus_def sim_write_def dmov_prep_ch_def Let_def)
  have wait: "dmov_wait sim_bus ?ch ?d = Some ?d"
    by (subst dmov_wait.simps) (simp add: dmov_prep_ch_def sim_status DMOV_STATUS_RSLT_VALID_def)
  have drain: "dmov_drain sim_bus ?ch 0x20000002 ?d = Some (0, sim_mem ?cs m, sim_cells m ?cs cells, 0)"
    apply (subst dmov_drain.simps)
    apply (simp add: dmov_prep_ch_def sim_status sim_result DMOV_STATUS_RSLT_COUNT_def)
    apply (subst dmov_drain.simps)
    apply (simp add: DMOV_STATUS_RSLT_COUNT_def)
    done
  show ?thesis
    using wait drain by (simp add: dmov_exec_cmdptr_def Let_def w) (simp add: dmov_prep_ch_def sim_status)
qed

lemma sim_mem_other:
  "\<forall>c \<in> set cs. unat (dm_len c) \<le> unat (q - dm_dst c) \<Longrightarrow> sim_mem cs m q = m q"
proof (induction cs arbitrary: m)
  case (Cons c cs)
  have "sim_store c m q = m q"
    using Cons.prems by (auto simp: sim_store_def intro!: store32_other)
  with Cons show ?case by (simp add: sim_mem_def)
qed (simp add: sim_mem_def)

lemma sim_works: "nand_works sim_bus fst"
  unfolding nand_works_def
proof (intro allI impI)
  fix p m d r m' d'
  assume "p AND 7 = 0" and "dmov_exec_cmdptr sim_bus DMOV_NAND_CHAN p (m, d) = Some (r, m', d')"
  then have m': "m' = sim_mem (walk m p) m" and d': "fst d' = sim_cells m (walk m p) (fst d)"
    using sim_exec [of p m "fst d" "snd d"] by auto
  show "(\<forall>q. (\<forall>c \<in> set (walk m p). unat (dm_len c) \<le> unat (q - dm_dst c)) \<longrightarrow> m' q = m q) \<and>
     (\<forall>page. \<not> touches m (walk m p) page \<longrightarrow> fst d' page = fst d page) \<and>
     (statuses_ok m' (walk m p) \<and> req_op m (walk m p) = NAND_CMD_BLOCK_ERASE \<longrightarrow>
        (\<forall>page. same_block page (erase_page m (walk m p)) \<longrightarrow> fst d' page = None)) \<and>
     (statuses_ok m' (walk m p) \<and> req_op m (walk m p) = NAND_CMD_PRG_PAGE_ALL \<and>
        fst d (prog_page m (walk m p)) = None \<longrightarrow>
        fst d' (prog_page m (walk m p)) = Some (page_data m (walk m p)))"
    unfolding m' d' using sim_mem_other [of "walk m p"] by (auto simp: sim_cells_def touches_def)
qed

section \<open>A driver in front of it\<close>

text \<open>A 2048-byte page device with one partition, of one block, described at 0x6000.\<close>

definition sim_nand :: "sim nand" where
  "sim_nand = \<lparr> ram = store32 (\<lambda>_. 0) 0x6014 1, device = (\<lambda>_. None, 0), CFG0 = 0xAA5400C0, CFG1 = 0x8745E,
     nand_cfg1 = 0,
     info = \<lparr> fi_id = 0x5500baec, fi_type = 2, fi_vendor = 0xec, fi_device = 0xba, fi_page_size = 2048,
              fi_block_size = 131072, fi_spare_size = 64, fi_num_blocks = 2048 \<rparr>,
     flash_pagesize = 2048, flash_ptrlist = 0x1800, flash_cmdlist = 0x1000, flash_data = 0x2000,
     flash_spare = 0x4000, flash_ptable = 0, buf_addr = 0x5000, empty_buf_addr = 0x5100,
     CFG0_TMP_addr = 0x5400, CFG1_TMP_addr = 0x5404 \<rparr>"

lemma sim_fields [simp]:
  "flash_pagesize sim_nand = 2048" "flash_ptrlist sim_nand = 0x1800" "flash_cmdlist sim_nand = 0x1000"
  "flash_spare sim_nand = 0x4000" "buf_addr sim_nand = 0x5000" "empty_buf_addr sim_nand = 0x5100"
  "device sim_nand = (\<lambda>_. None, 0)" "ram sim_nand = store32 (\<lambda>_. 0) 0x6014 1" "flash_data sim_nand = 0x2000"
  by (simp_all add: sim_nand_def)

lemma sim_driver_ok: "driver_ok sim_nand"
  by (simp add: driver_ok_def lists_ok_def sep_def MSM_NAND_BASE_def)

lemma load32_zero: "load32 (\<lambda>_. 0) p = 0"
  by (simp add: load32_def)

lemma sim_partition:
  "ptn_start (ram sim_nand) 0x6000 = 0" "ptn_length (ram sim_nand) 0x6000 = 1"
  "ptn_type (ram sim_nand) 0x6000 = TYPE_APPS_PARTITION"
  by (simp_all add: ptn_start_def ptn_length_def ptn_type_def load32_store32_sep sep_def load32_zero
      store32_other TYPE_APPS_PARTITION_def)

lemma sim_image: "image_ok sim_nand 0x8000 2048"
  unfolding image_ok_def
proof (intro allI impI)
  fix i :: nat
  assume i: "i < 2048"
  have d: "unat (0x8000 + of_nat i - a :: u32) = unat (0x8000 - a) + i" if "unat (0x8000 - a :: u32) < 2 ^ 31" for a
    using unat_diff_advance [of "0x8000" a i] that i by simp
  have "unat (0x8000 + of_nat i - MSM_NAND_BASE :: u32) = unat (0x8000 - MSM_NAND_BASE :: u32) + i"
    using i by (intro unat_diff_advance) (simp add: MSM_NAND_BASE_def)
  then show "apart sim_nand (0x8000 + of_nat i) \<and> 64 \<le> unat (0x8000 + of_nat i - flash_spare sim_nand)"
    using d [of 4096] d [of 6144] d [of 20480] d [of 20736] d [of 16384]
    by (simp add: apart_def) (simp add: MSM_NAND_BASE_def)
qed

section \<open>Its operations succeed\<close>

lemma sim_run:
  assumes "same_driver sim_nand s" and "ends_once cs"
    and mm: "mm = put_cmds 0x1000 0x1800 cs m"
  shows "dmov_run sim_bus 0x1800 (s\<lparr>ram := mm\<rparr>)
    = Some (0, s\<lparr>ram := sim_mem cs mm, device := (sim_cells mm cs (fst (device s)), 0)\<rparr>)"
proof -
  have "walk mm 0x1800 = cs"
    unfolding mm using assms(2) sim_driver_ok by (intro walk_put_cmds) (simp_all add: driver_ok_def)
  then show ?thesis
    using sim_exec [of 6144 mm "fst (device s)" "snd (device s)"] by (simp add: dmov_run_def)
qed

lemma sim_isbad:
  assumes "same_driver sim_nand s"
  shows "\<exists>s'. flash_nand_block_isbad sim_bus 0x1000 0x1800 page s = Some (0, s') \<and> same_driver sim_nand s'"
proof -
  note f = same_driver_fields [OF assms, simplified]
  let ?cs = "isbad_cmds 0x1810 0x5000 2048 4" and ?d = "isbad_data (CFG1 s) 4 (block_start page)"
  let ?mm = "put_cmds 0x1000 0x1800 ?cs (store_words (ram s) 0x1810 ?d)"
  have cw: "drop_bit 9 (2048 :: u32) = 4" by simp
  have m: "sim_mem ?cs ?mm = store32 (store32 ?mm 0x182C 0x80) 0x5000 0xFFFFFFFF"
    by (simp add: sim_mem_def isbad_cmds_def sim_store_def move_def) (simp add: nand_consts)
  have st: "load32 (sim_mem ?cs ?mm) 0x182C = 0x80"
    unfolding m by (simp add: load32_store32_sep sep_def)
  have b: "sim_mem ?cs ?mm 0x5000 = 0xFF" "sim_mem ?cs ?mm 0x5001 = 0xFF"
    unfolding m by (simp_all add: store32_def word_bytes_def)
  let ?s = "s\<lparr>ram := sim_mem ?cs ?mm, device := (sim_cells ?mm ?cs (fst (device s)), 0)\<rparr>"
  have "flash_nand_block_isbad sim_bus 0x1000 0x1800 page s = Some (0, ?s)"
    using sim_run [OF assms ends_isbad refl, of 6160 20480 2048 4 "store_words (ram s) 0x1810 ?d"] st b
    by (simp add: flash_nand_block_isbad_def Let_def f cw)
  then show ?thesis using same_driver_trans [OF assms same_driver_upd] by blast
qed

lemma sim_erase:
  assumes "same_driver sim_nand s" and "page AND 63 = 0"
  shows "\<exists>s'. flash_erase_block sim_bus 0x1000 0x1800 page s = Some (0, s') \<and> same_driver sim_nand s'"
proof -
  from sim_isbad [OF assms(1)] obtain s1 where
    i: "flash_nand_block_isbad sim_bus 0x1000 0x1800 page s = Some (0, s1)" and s1: "same_driver sim_nand s1" by blast
  let ?cs = "erase_cmds 0x1810" and ?d = "erase_data (CFG0 s1) (CFG1 s1) page"
  let ?mm = "put_cmds 0x1000 0x1800 ?cs (store_words (ram s1) 0x1810 ?d)"
  have "sim_mem ?cs ?mm = store32 ?mm 0x1824 0x80"
    by (simp add: sim_mem_def erase_cmds_def sim_store_def move_def) (simp add: nand_consts)
  then have st: "load32 (sim_mem ?cs ?mm) 0x1824 = 0x80" by simp
  let ?s = "s1\<lparr>ram := sim_mem ?cs ?mm, device := (sim_cells ?mm ?cs (fst (device s1)), 0)\<rparr>"
  have "flash_erase_block sim_bus 0x1000 0x1800 page s = Some (0, ?s)"
    using sim_run [OF s1 ends_erase refl, of 6160 "store_words (ram s1) 0x1810 ?d"] st i assms(2)
    by (simp add: flash_erase_block_def flash_nand_erase_block_def Let_def)
  then show ?thesis using same_driver_trans [OF s1 same_driver_upd] by blast
qed

lemma sim_store_move:
  "sim_store (move 0 p d n) m = m" "sim_store (move DST_CRCI_NAND_CMD p d n) m = m"
  "sim_store (move SRC_CRCI_NAND_DATA p d 8) m = store32 m d 0x80" "sim_store (move CMD_OCB p d n) m = m"
  "p < NAND_FLASH_BUFFER \<Longrightarrow> sim_store (move (CMD_OCU OR CMD_LC) p d n) m = m"
  by (simp_all add: sim_store_def move_def) (auto simp: nand_consts)

lemma sim_cw:
  "fold sim_store (write_cw_cmds False 0x1810 addr spareaddr sz oob n) m = store32 m (io_result 0x1810 n) 0x80"
  by (simp add: write_cw_cmds_def sim_store_move)

lemma sim_statuses:
  "sim_mem (page_cmds 0x1810 4 (write_cw_cmds False 0x1810 addr spareaddr 512 4)) m
    = store32 (store32 (store32 (store32 m 0x183C 0x80) 0x1844 0x80) 0x184C 0x80) 0x1854 0x80"
proof -
  have u: "[0..<unat (4 :: u32)] = [0, 1, 2, 3]" by (simp add: upt_rec)
  have "io_ecc_cfg_save 0x1810 < NAND_FLASH_BUFFER" by (simp add: io_ecc_cfg_save_def nand_consts)
  then show ?thesis
    unfolding sim_mem_def page_cmds_def u by (simp add: sim_store_move sim_cw) (simp add: io_result_def)
qed

lemma sim_write_page:
  assumes "same_driver sim_nand s"
  shows "\<exists>s'. u_flash_write_page sim_bus 0x1000 0x1800 page addr spareaddr s = Some (0, s') \<and> same_driver sim_nand s'"
proof -
  note f = same_driver_fields [OF assms, simplified]
  let ?cs = "page_cmds 0x1810 4 (write_cw_cmds False 0x1810 addr spareaddr 512 4)"
  let ?m = "store_words (store_words (ram s) 0x1810 (write_page_data False (CFG0 s) (CFG1 s) 4 page))
    (io_clrfstatus 0x1810) write_page_clear"
  let ?mm = "put_cmds 0x1000 0x1800 ?cs ?m"
  have cw: "drop_bit 9 (2048 :: u32) = 4" "(2048 :: u32) div 4 = 512" "(16 :: u32) div 4 = 4" by simp_all
  have e: "ends_once ?cs" by (rule ends_write_page) simp
  have st: "load32 (sim_mem ?cs ?mm) (io_result 0x1810 (of_nat n)) = 0x80" if "n \<in> set [0..<unat (4 :: u32)]" for n
  proof -
    have "n \<in> {0, 1, 2, 3}" using that by auto
    then show ?thesis
      unfolding sim_statuses io_result_def
      by (elim insertE emptyE) (simp_all add: load32_store32_sep sep_def)
  qed
  let ?s = "s\<lparr>ram := sim_mem ?cs ?mm, device := (sim_cells ?mm ?cs (fst (device s)), 0)\<rparr>"
  have "u_flash_write_page sim_bus 0x1000 0x1800 page addr spareaddr s = Some (0, ?s)"
    using sim_run [OF assms e refl, of ?m] st
    by (simp add: u_flash_write_page_def u_flash_nand_write_page_def Let_def f cw)
  then show ?thesis using same_driver_trans [OF assms same_driver_upd] by blast
qed

text \<open>An image of one page is written.\<close>

lemma sim_flash_write: "\<exists>s'. flash_write sim_bus 0x6000 0 0x8000 2048 sim_nand = Some (0, s')"
proof -
  let ?s = "sim_nand\<lparr>ram := store_words (ram sim_nand) 0x4000 (replicate 16 0xffffffff)\<rparr>"
  have d: "same_driver sim_nand ?s" by simp
  from sim_erase [OF d, of 0] obtain s1 where
    e: "flash_erase_block sim_bus 0x1000 0x1800 0 ?s = Some (0, s1)" and d1: "same_driver sim_nand s1" by auto
  from sim_write_page [OF d1] obtain s2 where
    w: "u_flash_write_page sim_bus 0x1000 0x1800 0 0x8000 0x4000 s1 = Some (0, s2)" by blast
  have "flash_write_loop sim_bus 0x6000 0 2048 64 0x4000 1 0x8800 0 s2 = Some (0, 1, s2)"
    by (subst flash_write_loop.simps) simp
  then have "flash_write_loop sim_bus 0x6000 0 2048 64 0x4000 0 0x8000 2048 ?s = Some (0, 1, s2)"
    using e w same_driver_fields [OF d1] by (subst flash_write_loop.simps) simp
  moreover have "erase_rest sim_bus 64 64 s2 = Some s2"
    by (subst erase_rest.simps) simp
  ultimately show ?thesis
    using sim_partition
    by (simp add: flash_write_def Let_def set_nand_configuration_def TYPE_APPS_PARTITION_def TYPE_MODEM_PARTITION_def)
qed

end
