(* ===== verification/Lk_Storage.thy ===== *)
theory Lk_Storage
  imports Lk_Nandsim
begin

text \<open>
  The properties of the partition table and of the flash driver, each with an application to the
  small device of \<open>Lk_Nandsim\<close>.
\<close>

section \<open>Writing and erasing partitions\<close>


lemma sim_end_page: "end_page (ram sim_nand) 0x6000 = 64" "first_page (ram sim_nand) 0x6000 = 0"
  by (simp_all only: end_page_def first_page_def sim_partition) simp_all




lemma some_triple: "\<exists>x. f = Some x \<Longrightarrow> \<exists>p q r. f = Some (p, q, r)"
  by auto

text \<open>
  C10: the partition operations end, also over bad blocks and failing pages: for a data mover
  that answers, a page size of at least one code word and an application partition, erasing,
  writing and reading return.
\<close>

theorem flash_operations_return:
  assumes "dmov_answers b work" and "512 \<le> unat (flash_pagesize s)" and "flash_pagesize s + extra \<noteq> 0"
    and "ptn_type (ram s) ptn = TYPE_APPS_PARTITION"
  shows "(\<exists>r s'. flash_erase b ptn s = Some (r, s')) \<and>
    (\<exists>r s'. flash_write b ptn extra data bytes s = Some (r, s')) \<and>
    (\<exists>r s'. flash_read_ext b ptn extra off data bytes s = Some (r, s'))"
proof (intro conjI)
  have set: "set_nand_configuration TYPE_APPS_PARTITION = Some ()" by (simp add: set_nand_configuration_def)
  have "\<exists>s'. flash_erase_loop b n block t = Some s'" for n block t
  proof (induction n arbitrary: block t)
    case (Suc n)
    obtain r t1 where "flash_erase_block b (flash_cmdlist t) (flash_ptrlist t) (block * 64) t = Some (r, t1)"
      using erase_block_returns [OF assms(1)] unfolding returns_def flash_erase_block_def by blast
    with Suc show ?case by simp
  qed simp
  then show "\<exists>r s'. flash_erase b ptn s = Some (r, s')"
    using assms(4) set by (simp add: flash_erase_def) (metis bind.bind_lunit)
  let ?l = "(ptn_start (ram s) ptn + ptn_length (ram s) ptn) * 64"
  let ?s = "s\<lparr>ram := store_words (ram s) (flash_spare s) (replicate 16 0xffffffff)\<rparr>"
  have "512 \<le> unat (flash_pagesize ?s)" using assms(2) by simp
  from flash_write_loop_returns [OF assms(1) unat_mult64 this]
  have "\<exists>x. flash_write_loop b ptn extra (flash_pagesize s + extra) ?l (flash_spare s)
      (ptn_start (ram s) ptn * 64) data bytes ?s = Some x" by blast
  then obtain r page s2 where loop: "flash_write_loop b ptn extra (flash_pagesize s + extra) ?l (flash_spare s)
      (ptn_start (ram s) ptn * 64) data bytes ?s = Some (r, page, s2)"
    using some_triple by blast
  obtain s3 where rest: "erase_rest b ?l ((page + 63) AND NOT 63) s2 = Some s3"
    using erase_rest_returns [OF assms(1) unat_mult64] by blast
  have "TYPE_APPS_PARTITION \<noteq> TYPE_MODEM_PARTITION"
    by (simp add: TYPE_APPS_PARTITION_def TYPE_MODEM_PARTITION_def)
  then have "flash_write b ptn extra data bytes s = (if r \<noteq> 0 then Some (-1, s2) else Some (0, s3))"
    unfolding flash_write_def Let_def assms(4) set
    by (simp only: loop rest bind.bind_lunit prod.case if_False)
  then show "\<exists>r s'. flash_write b ptn extra data bytes s = Some (r, s')" by (cases "r = 0") simp_all
  let ?start = "ptn_start (ram s) ptn"
  let ?page = "?start * 64 + off div flash_pagesize s"
  let ?cur = "drop_bit 6 (?page - (?page AND 63))"
  let ?count = "(bytes + flash_pagesize s - 1 + extra) div (flash_pagesize s + extra)"
  obtain c page1 s1 where skip: "(if ?start < ?cur then skip_bad_blocks b ptn (sint (?cur - ?start)) ?start ?page s
      else Some (0, ?page, s)) = Some (c, page1, s1)" and d1: "same_driver s s1"
    using skip_bad_blocks_returns [OF assms(1), of ptn "sint (?cur - ?start)" ?start ?page s]
    by (cases "?start < ?cur") (auto simp only: if_True if_False same_driver_refl)
  have "512 \<le> unat (flash_pagesize s1)" using assms(2) by (simp add: same_driver_fields [OF d1])
  from flash_read_loop_returns [OF assms(1) unat_mult64 this]
  obtain x where x: "flash_read_loop b extra ?l (flash_spare s) c page1 data ?count s1 = Some x" by blast
  have "\<not> (flash_pagesize s = 0 \<or> flash_pagesize s + extra = 0)" using assms(2,3) by auto
  then have "flash_read_ext b ptn extra off data bytes s
      = (if off AND (flash_pagesize s - 1) \<noteq> 0 then Some (-1, s) else Some x)"
    unfolding flash_read_ext_def Let_def assms(4) set
    by (simp only: skip x bind.bind_lunit prod.case if_False)
  then show "\<exists>r s'. flash_read_ext b ptn extra off data bytes s = Some (r, s')"
    by (cases "off AND (flash_pagesize s - 1) = 0") (cases x, simp_all)
qed

theorem flash_operations_return_witness:
  "\<exists>r s'. flash_read_ext sim_bus 0x6000 64 2048 0x9000 4000 sim_nand = Some (r, s')"
  using flash_operations_return [OF sim_answers, of sim_nand 64 "0x6000"] sim_partition(3) by simp

section \<open>Reading\<close>

text \<open>The loop looks at the bound before it looks at whether it is done.\<close>

lemma read_loop_below:
  assumes l: "unat lastpage mod 64 = 0"
  shows "flash_read_loop b extra lastpage spare sbc page img count s = Some (0, s') \<Longrightarrow>
    unat page + unat count < unat lastpage"
proof (induction "unat lastpage - unat page" arbitrary: page img count s rule: less_induct)
  case less
  note run = less.prems
  show ?case
  proof (cases "page < lastpage \<and> sbc = 0")
    case False
    with run show ?thesis by (subst (asm) flash_read_loop.simps) auto
  next
    case True
    then have lt: "page < lastpage" by simp
    then have ltn: "unat page < unat lastpage" by (simp add: word_less_nat_alt)
    have p64: "unat (page + 64) = unat page + 64" using lt l by (rule next_block)
    then have p1: "unat (page + 1) = unat page + 1"
      using unat_lt_2p32 [of "page + 64"] by (simp add: unat_word_ariths)
    have m: "unat lastpage - unat (page + 1) < unat lastpage - unat page"
      "unat lastpage - unat (page + 64) < unat lastpage - unat page"
      using p1 p64 ltn by simp_all
    show ?thesis
    proof (cases "count = 0")
      case True
      with ltn show ?thesis by simp
    next
      case False
      from run have "u_flash_read_page b (flash_cmdlist s) (flash_ptrlist s) page (flash_data s) spare s \<bind>
        (\<lambda>(r, s1). if r = -1 then flash_read_loop b extra lastpage spare sbc (page + 1) img count s1
         else if r = -2 then flash_read_loop b extra lastpage spare sbc (page + 64) img count s1
         else flash_read_loop b extra lastpage spare sbc (page + 1)
             (img + flash_pagesize s1 + extra) (count - 1)
             (s1\<lparr>ram := fst (memcpy (fst (memcpy (ram s1) img (flash_data s1) (flash_pagesize s1)))
                (img + flash_pagesize s1) spare extra)\<rparr>)) = Some (0, s')"
        by (subst (asm) flash_read_loop.simps, unfold Let_def) (use True False in simp)
      then consider s1 where "flash_read_loop b extra lastpage spare sbc (page + 1) img count s1 = Some (0, s')"
        | s1 where "flash_read_loop b extra lastpage spare sbc (page + 64) img count s1 = Some (0, s')"
        | i2 t where "flash_read_loop b extra lastpage spare sbc (page + 1) i2 (count - 1) t = Some (0, s')"
        by (auto simp: bind_eq_Some_conv split: if_splits)
      then show ?thesis
      proof cases
        case 1
        from less.hyps [OF m(1) this] p1 show ?thesis by simp
      next
        case 2
        from less.hyps [OF m(2) this] p64 show ?thesis by simp
      next
        case 3
        have "unat (count - 1) = unat count - 1" using False by (simp add: unat_minus_one)
        with less.hyps [OF m(1) 3] p1 show ?thesis by simp
      qed
    qed
  qed
qed

text \<open>
  C11: \<open>flash_read_ext\<close> from the start of a partition reports success only if the partition has a
  page more than the data needs: the loop tests the end of the partition before it tests whether it
  is done, so a read of every page, or of the last one, is reported as a failure.
\<close>

theorem flash_read_needs_spare_page:
  assumes "flash_read_ext b ptn extra 0 data bytes s = Some (0, s')" and "end_page (ram s) ptn \<le> 2 ^ 24"
    and "unat bytes + unat (flash_pagesize s) + unat extra < 2 ^ 32"
  shows "first_page (ram s) ptn +
      (unat bytes + unat (flash_pagesize s) - 1 + unat extra) div (unat (flash_pagesize s) + unat extra)
    < end_page (ram s) ptn"
proof -
  note pw = partition_words [OF assms(2)]
  let ?start = "ptn_start (ram s) ptn" and ?ps = "flash_pagesize s"
  from assms(1) have nz: "?ps \<noteq> 0" by (auto simp: flash_read_ext_def split: if_splits)
  have a0: "(?start * 64) AND 63 = 0" using unat_mult64 [of ?start] by (simp only: and63_0)
  have st: "unat ?start \<le> 2 ^ 18" using assms(2) by (simp add: end_page_def)
  have "unat (drop_bit 6 (?start * 64)) = unat ?start"
    unfolding drop_bit_eq_div using st by (simp add: unat_div unat_word_ariths)
  then have cur: "drop_bit 6 (?start * 64) = ?start" by (simp only: word_unat_eq_iff)
  from assms(1) have "flash_read_loop b extra ((?start + ptn_length (ram s) ptn) * 64) (flash_spare s) 0
      (?start * 64) data ((bytes + ?ps - 1 + extra) div (?ps + extra)) s = Some (0, s')"
    by (simp add: flash_read_ext_def Let_def bind_eq_Some_conv a0 cur del: distrib_right_numeral split: if_splits)
  from read_loop_below [OF unat_mult64 this]
  have "first_page (ram s) ptn + unat ((bytes + ?ps - 1 + extra) div (?ps + extra)) < end_page (ram s) ptn"
    unfolding pw(1,2) .
  moreover have "unat (bytes + ?ps - 1 + extra) = unat bytes + unat ?ps - 1 + unat extra"
  proof -
    have 1: "unat (bytes + ?ps) = unat bytes + unat ?ps" using assms(3) by (simp add: unat_word_ariths)
    have "bytes + ?ps \<noteq> 0" using 1 nz by (metis add_is_0 unat_eq_zero unat_0)
    then have "unat (bytes + ?ps - 1) = unat bytes + unat ?ps - 1" using 1 by (simp add: unat_minus_one)
    then show ?thesis using assms(3) by (simp add: unat_word_ariths)
  qed
  moreover have "unat (?ps + extra) = unat ?ps + unat extra" using assms(3) by (simp add: unat_word_ariths)
  ultimately show ?thesis by (simp add: unat_div)
qed

theorem flash_read_needs_spare_page_witness:
  "flash_read_ext sim_bus 0x6000 0 0 0x9000 0 sim_nand = Some (0, sim_nand) \<and>
    (\<forall>s'. flash_read_ext sim_bus 0x6000 0 0 0x9000 131072 sim_nand \<noteq> Some (0, s'))"
proof
  have "flash_read_loop sim_bus 0 64 0x4000 0 0 0x9000 0 sim_nand = Some (0, sim_nand)"
    by (subst flash_read_loop.simps) simp
  then show "flash_read_ext sim_bus 0x6000 0 0 0x9000 0 sim_nand = Some (0, sim_nand)"
    using sim_partition by (simp add: flash_read_ext_def Let_def set_nand_configuration_def)
  show "\<forall>s'. flash_read_ext sim_bus 0x6000 0 0 0x9000 131072 sim_nand \<noteq> Some (0, s')"
  proof (intro allI notI)
    fix s'
    assume "flash_read_ext sim_bus 0x6000 0 0 0x9000 131072 sim_nand = Some (0, s')"
    from flash_read_needs_spare_page [OF this, unfolded sim_end_page] show False by simp
  qed
qed

section \<open>What the data mover is given\<close>

text \<open>
  C12: the lists the driver builds fit in the kilobyte it has for them, end with the one command
  that is marked last, and are what the data mover finds when it walks from the pointer list: for
  every operation, for up to eight code words a page, and whatever was in memory before.
\<close>

theorem driver_lists_walk:
  assumes "lists_ok cmdlist ptrlist" and "unat cwperpage \<le> 8"
    and "cs = read_id_cmds data \<or> cs = isbad_cmds data buf pagesize cwperpage \<or> cs = erase_cmds data \<or>
      cs = read_config_cmds data buf \<or>
      cs = page_cmds data cwperpage (read_cw_cmds data addr spareaddr cwdatasize cwoobsize) \<or>
      cs = page_cmds data cwperpage (write_cw_cmds raw data addr spareaddr cwdatasize cwoobsize)"
  shows "walk (put_cmds cmdlist ptrlist cs m) ptrlist = cs \<and> 16 * length cs \<le> 1024"
proof -
  have "ends_once cs"
    using assms(2,3) by (elim disjE)
      (simp_all add: ends_read_id ends_isbad ends_erase ends_read_config ends_read_page ends_write_page)
  with walk_put_cmds [OF assms(1) this, of m] show ?thesis by (simp add: ends_once_def)
qed

theorem driver_lists_walk_witness:
  "walk (put_cmds 0x1000 0x1800 (page_cmds 0x1810 8 (write_cw_cmds False 0x1810 0x8000 0x4000 512 2)) (\<lambda>_. 0)) 0x1800
    = page_cmds 0x1810 8 (write_cw_cmds False 0x1810 0x8000 0x4000 512 2)"
proof -
  have "lists_ok 0x1000 0x1800" using sim_driver_ok by (simp add: driver_ok_def)
  moreover have "unat (8 :: u32) \<le> 8" by simp
  ultimately show ?thesis
    by (rule driver_lists_walk [OF _ _ disjI2 [OF disjI2 [OF disjI2 [OF disjI2 [OF disjI2 [OF refl]]]]], THEN conjunct1])
qed

text \<open>The destination of a command is within the \<open>n\<close> bytes at \<open>a\<close>.\<close>

definition in_area :: "ptr \<Rightarrow> nat \<Rightarrow> dmov_s \<Rightarrow> bool" where
  "in_area a n c \<longleftrightarrow> unat (dm_dst c - a) + unat (dm_len c) \<le> n"

lemma in_area_move [simp]: "in_area a n (move c p (a + off) k) \<longleftrightarrow> unat off + unat k \<le> n"
  by (simp add: in_area_def move_def)

lemma in_area_start [simp]: "in_area a n (move c p a k) \<longleftrightarrow> unat k \<le> n"
  by (simp add: in_area_def move_def)

lemma in_area_reg [simp]: "in_area MSM_NAND_BASE n (move c p (NAND_REG off) k) \<longleftrightarrow> unat off + unat k \<le> n"
  by (simp add: NAND_REG_def)




section \<open>The partition table\<close>




end
