(* ===== verification/Lk_Fastboot.thy ===== *)
theory Lk_Fastboot
  imports Lk_Printf Lk_Heap Lk_Reg
begin

text \<open>
  The fastboot protocol of \<open>app/aboot/fastboot.c\<close>: the tables of commands and variables, the
  transfers on the two bulk endpoints, the answers, the commands every boot loader has
  (\<open>getvar:\<close> and \<open>download:\<close>) and the loop that reads a command and calls its handler.

  The USB device controller behind \<open>include/dev/udc.h\<close> and the host at the other end of the cable
  are a parameter, a \<open>udc\<close>: what it answers when a request is queued, and how and when the request
  is completed. While the thread waits for the completion the controller may also notify that the
  device went online or offline. A host that never completes a request is \<open>None\<close>: the thread waits
  for ever. The handler of a command is a parameter too, since the table holds pointers to
  functions; \<open>lit\<close> says where the compiler put the string literals.
\<close>

section \<open>The device controller\<close>

record udc_request =
  req_buf :: ptr
  req_len :: u32

record 'hw completion =
  actual :: u32
  status :: int
  notified :: "u32 list"
  after :: "'hw machine"

record 'hw udc =
  udc_queue :: "ptr \<Rightarrow> udc_request \<Rightarrow> 'hw machine \<Rightarrow> int \<times> 'hw machine"
  udc_complete :: "ptr \<Rightarrow> udc_request \<Rightarrow> 'hw machine \<Rightarrow> 'hw completion option"
  udc_ept_alloc :: "u32 \<Rightarrow> u32 \<Rightarrow> ptr"
  udc_req_alloc :: ptr
  udc_register :: int

definition UDC_TYPE_BULK_IN :: u32 where "UDC_TYPE_BULK_IN = 1"
definition UDC_TYPE_BULK_OUT :: u32 where "UDC_TYPE_BULK_OUT = 2"
definition UDC_EVENT_ONLINE :: u32 where "UDC_EVENT_ONLINE = 1"
definition UDC_EVENT_OFFLINE :: u32 where "UDC_EVENT_OFFLINE = 2"

section \<open>The state of fastboot.c\<close>

text \<open>
  \<open>ack_response\<close> and \<open>download_response\<close> are where the two local arrays \<open>response\<close> are on the
  stack of the thread.
\<close>

record 'h fastboot_cmd =
  prefix :: ptr
  prefix_len :: u32
  handle :: 'h

record fastboot_var =
  var_name :: ptr
  var_value :: ptr

datatype fastboot_state = STATE_OFFLINE | STATE_COMMAND | STATE_COMPLETE | STATE_ERROR

record ('hw, 'h) fastboot =
  fmem :: mem
  fdev :: 'hw
  fheap :: heap
  cmdlist :: "'h fastboot_cmd list"
  varlist :: "fastboot_var list"
  buffer :: ptr
  usb_online :: bool
  ept_in :: ptr
  ept_out :: ptr
  req :: ptr
  req_length :: u32
  txn_status :: int
  download_base :: ptr
  download_max :: u32
  download_size :: u32
  state :: fastboot_state
  ack_response :: ptr
  download_response :: ptr
  fastboot_thread :: bool

definition BUF_SIZE :: u32 where "BUF_SIZE = 4096"

section \<open>The tables\<close>

definition fastboot_register ::
    "ptr \<Rightarrow> 'h \<Rightarrow> ('hw, 'h, 'z) fastboot_scheme \<Rightarrow> ('hw, 'h, 'z) fastboot_scheme option" where
  "fastboot_register pre h s =
    do {
      (hp, cmd) \<leftarrow> malloc (fheap s) 16;
      if cmd \<noteq> 0 then do {
        n \<leftarrow> strlen (fmem s) pre;
        Some (s\<lparr>fheap := hp, cmdlist := \<lparr>prefix = pre, prefix_len = n, handle = h\<rparr> # cmdlist s\<rparr>)
      } else Some (s\<lparr>fheap := hp\<rparr>)
    }"

definition fastboot_publish ::
    "ptr \<Rightarrow> ptr \<Rightarrow> ('hw, 'h, 'z) fastboot_scheme \<Rightarrow> ('hw, 'h, 'z) fastboot_scheme option" where
  "fastboot_publish name val s =
    do {
      (hp, var) \<leftarrow> malloc (fheap s) 12;
      if var \<noteq> 0 then Some (s\<lparr>fheap := hp, varlist := \<lparr>var_name = name, var_value = val\<rparr> # varlist s\<rparr>)
      else Some (s\<lparr>fheap := hp\<rparr>)
    }"

section \<open>Transfers\<close>

definition fastboot_notify :: "u32 \<Rightarrow> ('hw, 'h, 'z) fastboot_scheme \<Rightarrow> ('hw, 'h, 'z) fastboot_scheme" where
  "fastboot_notify event s =
    (if event = UDC_EVENT_ONLINE then s\<lparr>state := STATE_COMPLETE, usb_online := True\<rparr>
     else if event = UDC_EVENT_OFFLINE then s\<lparr>state := STATE_OFFLINE\<rparr>
     else s)"

definition req_complete :: "u32 \<Rightarrow> int \<Rightarrow> ('hw, 'h, 'z) fastboot_scheme \<Rightarrow> ('hw, 'h, 'z) fastboot_scheme" where
  "req_complete act st s = s\<lparr>txn_status := st, req_length := act\<rparr>"

text \<open>
  The part \<open>usb_read\<close> and \<open>usb_write\<close> share: fill in the request, queue it, wait for \<open>txn_done\<close>
  (the notifications and \<open>req_complete\<close> run meanwhile, from the interrupt), look at the status. The
  flag says whether all went well.
\<close>

definition usb_transfer ::
    "'hw udc \<Rightarrow> ptr \<Rightarrow> ptr \<Rightarrow> u32 \<Rightarrow> ('hw, 'h, 'z) fastboot_scheme \<Rightarrow> (bool \<times> ('hw, 'h, 'z) fastboot_scheme) option" where
  "usb_transfer u ept b len s =
    (let rq = \<lparr>req_buf = b, req_len = len\<rparr>;
         (r, m, d) = udc_queue u ept rq (fmem s, fdev s);
         s1 = s\<lparr>req_length := len, fmem := m, fdev := d\<rparr>
     in if r < 0 then Some (False, s1)
        else do {
          c \<leftarrow> udc_complete u ept rq (m, d);
          let s2 = req_complete (actual c) (status c)
                     (fold fastboot_notify (notified c) (s1\<lparr>fmem := fst (after c), fdev := snd (after c)\<rparr>));
          Some (\<not> txn_status s2 < 0, s2)
        })"

definition usb_oops :: "('hw, 'h, 'z) fastboot_scheme \<Rightarrow> (int \<times> ('hw, 'h, 'z) fastboot_scheme) option" where
  "usb_oops s = Some (- 1, s\<lparr>state := STATE_ERROR\<rparr>)"

partial_function (option) usb_read_loop ::
    "'hw udc \<Rightarrow> ptr \<Rightarrow> u32 \<Rightarrow> u32 \<Rightarrow> ('hw, 'h, 'z) fastboot_scheme \<Rightarrow> (int \<times> ('hw, 'h, 'z) fastboot_scheme) option" where
  "usb_read_loop u b len cnt s =
    (if len > 0 then do {
       let xfer = (if len > BUF_SIZE then BUF_SIZE else len);
       (good, s1) \<leftarrow> usb_transfer u (ept_out s) b xfer s;
       if \<not> good then usb_oops s1
       else if req_length s1 \<noteq> xfer then Some (sint (cnt + req_length s1), s1)
       else usb_read_loop u (b + req_length s1) (len - req_length s1) (cnt + req_length s1) s1
     } else Some (sint cnt, s))"

definition usb_read ::
    "'hw udc \<Rightarrow> ptr \<Rightarrow> u32 \<Rightarrow> ('hw, 'h, 'z) fastboot_scheme \<Rightarrow> (int \<times> ('hw, 'h, 'z) fastboot_scheme) option" where
  "usb_read u b len s =
    (if state s = STATE_ERROR \<or> state s = STATE_OFFLINE then usb_oops s
     else usb_read_loop u b len 0 s)"

definition usb_write ::
    "'hw udc \<Rightarrow> ptr \<Rightarrow> u32 \<Rightarrow> ('hw, 'h, 'z) fastboot_scheme \<Rightarrow> (int \<times> ('hw, 'h, 'z) fastboot_scheme) option" where
  "usb_write u b len s =
    (if state s = STATE_ERROR \<or> state s = STATE_OFFLINE then usb_oops s
     else do {
       (good, s1) \<leftarrow> usb_transfer u (ept_in s) b len s;
       if \<not> good then usb_oops s1 else Some (sint (req_length s1), s1)
     })"

section \<open>Answers\<close>

definition fastboot_ack ::
    "'hw udc \<Rightarrow> (string \<Rightarrow> ptr) \<Rightarrow> ptr \<Rightarrow> ptr \<Rightarrow> ('hw, 'h, 'z) fastboot_scheme \<Rightarrow> ('hw, 'h, 'z) fastboot_scheme option" where
  "fastboot_ack u lit code reason s =
    do {
      let reason1 = (if reason = 0 then lit '''' else reason);
      (m, _) \<leftarrow> snprintf (fmem s) (ack_response s) 64 (lit ''%s%s'') [Arg32 code, Arg32 reason1];
      let s1 = s\<lparr>fmem := m, state := STATE_COMPLETE\<rparr>;
      n \<leftarrow> strlen m (ack_response s);
      (_, s2) \<leftarrow> usb_write u (ack_response s) n s1;
      Some s2
    }"

definition fastboot_fail ::
    "'hw udc \<Rightarrow> (string \<Rightarrow> ptr) \<Rightarrow> ptr \<Rightarrow> ('hw, 'h, 'z) fastboot_scheme \<Rightarrow> ('hw, 'h, 'z) fastboot_scheme option" where
  "fastboot_fail u lit reason s = fastboot_ack u lit (lit ''FAIL'') reason s"

definition fastboot_okay ::
    "'hw udc \<Rightarrow> (string \<Rightarrow> ptr) \<Rightarrow> ptr \<Rightarrow> ('hw, 'h, 'z) fastboot_scheme \<Rightarrow> ('hw, 'h, 'z) fastboot_scheme option" where
  "fastboot_okay u lit msg s = fastboot_ack u lit (lit ''OKAY'') msg s"

section \<open>The commands of the protocol itself\<close>

fun find_var :: "mem \<Rightarrow> ptr \<Rightarrow> fastboot_var list \<Rightarrow> fastboot_var option option" where
  "find_var m arg [] = Some None"
| "find_var m arg (v # vs) =
    do { c \<leftarrow> strcmp m (var_name v) arg; if c = 0 then Some (Some v) else find_var m arg vs }"

definition cmd_getvar ::
    "'hw udc \<Rightarrow> (string \<Rightarrow> ptr) \<Rightarrow> ptr \<Rightarrow> ('hw, 'h, 'z) fastboot_scheme \<Rightarrow> ('hw, 'h, 'z) fastboot_scheme option" where
  "cmd_getvar u lit arg s =
    do {
      v \<leftarrow> find_var (fmem s) arg (varlist s);
      case v of Some var \<Rightarrow> fastboot_okay u lit (var_value var) s
      | None \<Rightarrow> fastboot_okay u lit (lit '''') s
    }"

definition cmd_download ::
    "'hw udc \<Rightarrow> (string \<Rightarrow> ptr) \<Rightarrow> ptr \<Rightarrow> ('hw, 'h, 'z) fastboot_scheme \<Rightarrow> ('hw, 'h, 'z) fastboot_scheme option" where
  "cmd_download u lit arg s =
    do {
      len \<leftarrow> hex2unsigned (fmem s) arg;
      let s1 = s\<lparr>download_size := 0\<rparr>;
      if len > download_max s1 then fastboot_fail u lit (lit ''data too large'') s1
      else do {
        (m, _) \<leftarrow> sprintf (fmem s1) (download_response s1) (lit ''DATA%08x'') [Arg32 len];
        n \<leftarrow> strlen m (download_response s1);
        (w, s2) \<leftarrow> usb_write u (download_response s1) n (s1\<lparr>fmem := m\<rparr>);
        if w < 0 then Some s2
        else do {
          (r, s3) \<leftarrow> usb_read u (download_base s2) len s2;
          if r < 0 \<or> word_of_int r \<noteq> len then Some (s3\<lparr>state := STATE_ERROR\<rparr>)
          else fastboot_okay u lit (lit '''') (s3\<lparr>download_size := len\<rparr>)
        }
      }
    }"

section \<open>The command loop\<close>

fun find_cmd :: "mem \<Rightarrow> ptr \<Rightarrow> 'h fastboot_cmd list \<Rightarrow> 'h fastboot_cmd option" where
  "find_cmd m b [] = None"
| "find_cmd m b (c # cs) = (if memcmp m b (prefix c) (prefix_len c) \<noteq> 0 then find_cmd m b cs else Some c)"

type_synonym ('hw, 'h, 'z) handlers =
  "'h \<Rightarrow> ptr \<Rightarrow> ptr \<Rightarrow> u32 \<Rightarrow> ('hw, 'h, 'z) fastboot_scheme \<Rightarrow> ('hw, 'h, 'z) fastboot_scheme option"

text \<open>What is done with a command that is in the buffer.\<close>

definition run_command ::
    "'hw udc \<Rightarrow> (string \<Rightarrow> ptr) \<Rightarrow> ('hw, 'h, 'z) handlers \<Rightarrow> ('hw, 'h, 'z) fastboot_scheme \<Rightarrow> ('hw, 'h, 'z) fastboot_scheme option" where
  "run_command u lit call s =
    (case find_cmd (fmem s) (buffer s) (cmdlist s) of
       None \<Rightarrow> fastboot_fail u lit (lit ''unknown command'') s
     | Some c \<Rightarrow> do {
         s1 \<leftarrow> call (handle c) (buffer s + prefix_len c) (download_base s) (download_size s)
                 (s\<lparr>state := STATE_COMMAND\<rparr>);
         if state s1 = STATE_COMMAND then fastboot_fail u lit (lit ''unknown reason'') s1 else Some s1
       })"

partial_function (option) fastboot_command_loop ::
    "'hw udc \<Rightarrow> (string \<Rightarrow> ptr) \<Rightarrow> ('hw, 'h, 'z) handlers \<Rightarrow> ('hw, 'h, 'z) fastboot_scheme \<Rightarrow> ('hw, 'h, 'z) fastboot_scheme option" where
  "fastboot_command_loop u lit call s =
    (if state s \<noteq> STATE_ERROR \<and> state s \<noteq> STATE_OFFLINE then do {
       (r, s1) \<leftarrow> usb_read u (buffer s) 64 s;
       if r < 0 then Some s1
       else do {
         s2 \<leftarrow> run_command u lit call (s1\<lparr>fmem := (fmem s1)(buffer s1 + word_of_int r := 0)\<rparr>);
         fastboot_command_loop u lit call s2
       }
     } else Some s)"

text \<open>One round of the thread's endless loop: it waits until the device is online.\<close>

definition fastboot_handler_round ::
    "'hw udc \<Rightarrow> (string \<Rightarrow> ptr) \<Rightarrow> ('hw, 'h, 'z) handlers \<Rightarrow> ('hw, 'h, 'z) fastboot_scheme \<Rightarrow> ('hw, 'h, 'z) fastboot_scheme option" where
  "fastboot_handler_round u lit call s =
    (if usb_online s then fastboot_command_loop u lit call (s\<lparr>usb_online := False\<rparr>) else None)"

section \<open>Start-up\<close>

definition fastboot_init ::
    "'hw udc \<Rightarrow> (string \<Rightarrow> ptr) \<Rightarrow> 'h \<Rightarrow> 'h \<Rightarrow> ptr \<Rightarrow> u32 \<Rightarrow> ('hw, 'h, 'z) fastboot_scheme \<Rightarrow> (int \<times> ('hw, 'h, 'z) fastboot_scheme) option" where
  "fastboot_init u lit getvar download dbase dsize s =
    do {
      let s1 = s\<lparr>download_base := dbase, download_max := dsize, usb_online := False\<rparr>;
      (hp, b) \<leftarrow> malloc (fheap s1) BUF_SIZE;
      let s2 = s1\<lparr>fheap := hp, buffer := b\<rparr>;
      if b = 0 then Some (- 1, s2)
      else do {
        let s3 = s2\<lparr>fmem := fst (memset (fmem s2) b 0 BUF_SIZE),
                    ept_in := udc_ept_alloc u UDC_TYPE_BULK_IN 512\<rparr>;
        if ept_in s3 = 0 then Some (- 1, s3)
        else do {
          let s4 = s3\<lparr>ept_out := udc_ept_alloc u UDC_TYPE_BULK_OUT 512\<rparr>;
          if ept_out s4 = 0 then Some (- 1, s4)
          else do {
            let s5 = s4\<lparr>req := udc_req_alloc u\<rparr>;
            if req s5 = 0 \<or> udc_register u \<noteq> 0 then Some (- 1, s5)
            else do {
              s6 \<leftarrow> fastboot_register (lit ''getvar:'') getvar s5;
              s7 \<leftarrow> fastboot_register (lit ''download:'') download s6;
              s8 \<leftarrow> fastboot_publish (lit ''version'') (lit ''0.5'') s7;
              Some (0, s8\<lparr>fastboot_thread := True\<rparr>)
            }
          }
        }
      }
    }"

end
