(* ===== verification/Lk_Fastok.thy ===== *)
theory Lk_Fastok
  imports Lk_Fastboot
begin

text \<open>
  What a host can do to the machine through the fastboot protocol: the memory a transfer and a
  command can change, whatever the host sends, and what is sent back. The commands a boot loader
  registers besides the two of the protocol enter through the locale \<open>fastboot_handlers\<close>.
\<close>

section \<open>Sequences of fallible steps\<close>

lemma bind_someE:
  assumes "f \<bind> g = Some y"
  obtains x where "f = Some x" "g x = Some y"
  using assms by (cases f) simp_all

lemma bind_pairE:
  assumes "f \<bind> (\<lambda>(a, b). g a b) = Some y"
  obtains a b where "f = Some (a, b)" "g a b = Some y"
  using assms by (cases f) auto

section \<open>Areas of memory\<close>

definition area :: "ptr \<Rightarrow> nat \<Rightarrow> ptr set" where
  "area p n = {q. unat (q - p) < n}"

definition frame :: "ptr set \<Rightarrow> mem \<Rightarrow> mem \<Rightarrow> bool" where
  "frame W m m' \<longleftrightarrow> (\<forall>q. q \<notin> W \<longrightarrow> m' q = m q)"

lemma area_0 [simp]: "area p 0 = {}"
  by (simp add: area_def)

lemma area_mono: "n \<le> k \<Longrightarrow> area p n \<subseteq> area p k"
  by (auto simp: area_def)

lemma area_sub: "off + n \<le> k \<Longrightarrow> off < 2 ^ 32 \<Longrightarrow> area (p + of_nat off) n \<subseteq> area p k"
proof
  fix q
  assume k: "off + n \<le> k" "off < 2 ^ 32" and q: "q \<in> area (p + of_nat off) n"
  have "q - p = (q - (p + of_nat off)) + of_nat off" by simp
  then have "unat (q - p) \<le> unat (q - (p + of_nat off)) + unat (of_nat off :: ptr)"
    by (metis unat_word_ariths(1) mod_less_eq_dividend)
  with k q show "q \<in> area p k" by (simp add: area_def unat_of_nat_u32)
qed

lemma area_I: "i < n \<Longrightarrow> i < 2 ^ 32 \<Longrightarrow> p + of_nat i \<in> area p n"
  by (simp add: area_def unat_of_nat_u32)

lemma sep_area: "area p n \<inter> area q k = {} \<Longrightarrow> 0 < n \<Longrightarrow> 0 < k \<Longrightarrow> n \<le> 2 ^ 32 \<Longrightarrow> k \<le> 2 ^ 32 \<Longrightarrow> sep p n q k"
proof -
  assume d: "area p n \<inter> area q k = {}" and n: "0 < n" "0 < k"
  have "q \<in> area q k" "p \<in> area p n" using n by (simp_all add: area_def)
  with d have "q \<notin> area p n" "p \<notin> area q k" by auto
  then show "sep p n q k" by (simp add: area_def sep_def)
qed

lemma area_sep: "sep p n q k \<Longrightarrow> area p n \<inter> area q k = {}"
proof -
  assume s: "sep p n q k"
  have "k \<le> unat (x - q)" if "unat (x - p) < n" for x
    using sep_unat [OF s that] by simp
  then show "area p n \<inter> area q k = {}" by (force simp: area_def)
qed

lemma frame_refl [simp]: "frame W m m"
  by (simp add: frame_def)

lemma frame_trans: "frame W m m1 \<Longrightarrow> frame W m1 m2 \<Longrightarrow> frame W m m2"
  by (simp add: frame_def)

lemma frame_mono: "frame V m m' \<Longrightarrow> V \<subseteq> W \<Longrightarrow> frame W m m'"
  by (auto simp: frame_def)

lemma frame_wr: "length xs \<le> 2 ^ 32 \<Longrightarrow> area p (length xs) \<subseteq> W \<Longrightarrow> frame W m (wr m p xs)"
  by (auto simp: frame_def area_def wr_apply)

lemma frame_upd: "p \<in> W \<Longrightarrow> frame W m (m(p := x))"
  by (auto simp: frame_def)

lemma cstr_frame:
  assumes "cstr m p xs" and "frame W m m'" and "area p (length xs + 1) \<inter> W = {}"
  shows "cstr m' p xs"
proof (rule cstr_cong [OF assms(1)])
  fix i
  assume "i \<le> length xs"
  then have "p + of_nat i \<in> area p (length xs + 1)" using cstr_length [OF assms(1)] by (intro area_I) simp_all
  with assms(2,3) show "m' (p + of_nat i) = m (p + of_nat i)" by (auto simp: frame_def)
qed

section \<open>The contract of the device controller\<close>

text \<open>
  What the driver of a controller promises: on one of its endpoints, when it is ready, a transfer of
  at most a page moves at most as many bytes as the request asks for, changes memory only in the
  buffer of the request and in the memory the driver has for itself, and leaves the driver ready.
\<close>

record 'hw udc_terms =
  driver_area :: "ptr set"
  channels :: "ptr set"
  ready :: "'hw \<Rightarrow> bool"

definition udc_ok :: "'hw udc_terms \<Rightarrow> 'hw udc \<Rightarrow> bool" where
  "udc_ok K u \<longleftrightarrow>
    (\<forall>ept rq m d r m1 d1. ept \<in> channels K \<and> ready K d \<and> req_len rq \<le> BUF_SIZE \<and>
        udc_queue u ept rq (m, d) = (r, m1, d1) \<longrightarrow>
      (r < 0 \<longrightarrow> ready K d1 \<and> frame (driver_area K) m m1) \<and>
      (\<forall>c. 0 \<le> r \<and> udc_complete u ept rq (m1, d1) = Some c \<longrightarrow>
        ready K (snd (after c)) \<and> actual c \<le> req_len rq \<and>
        frame (driver_area K \<union> area (req_buf rq) (unat (req_len rq))) m (fst (after c))))"

text \<open>The part of the state that transfers leave alone.\<close>

definition fixed :: "('hw, 'h, 'z) fastboot_scheme \<Rightarrow> ('hw, 'h, 'z) fastboot_scheme \<Rightarrow> bool" where
  "fixed s s' \<longleftrightarrow> s' = s\<lparr>fmem := fmem s', fdev := fdev s', usb_online := usb_online s', req_length := req_length s',
     txn_status := txn_status s', state := state s', download_size := download_size s'\<rparr>"

lemma fixed_refl [simp]: "fixed s s"
  by (simp add: fixed_def)

lemma fixed_fields:
  assumes "fixed s s'"
  shows "fheap s' = fheap s" "cmdlist s' = cmdlist s" "varlist s' = varlist s" "buffer s' = buffer s"
    "ept_in s' = ept_in s" "ept_out s' = ept_out s" "req s' = req s" "download_base s' = download_base s"
    "download_max s' = download_max s" "ack_response s' = ack_response s"
    "download_response s' = download_response s" "fastboot_thread s' = fastboot_thread s"
    "fastboot.more s' = fastboot.more s"
  by (subst assms [unfolded fixed_def]; simp)+

lemma fixed_iff:
  "fixed s s' \<longleftrightarrow> fheap s' = fheap s \<and> cmdlist s' = cmdlist s \<and> varlist s' = varlist s \<and> buffer s' = buffer s \<and>
    ept_in s' = ept_in s \<and> ept_out s' = ept_out s \<and> req s' = req s \<and> download_base s' = download_base s \<and>
    download_max s' = download_max s \<and> ack_response s' = ack_response s \<and>
    download_response s' = download_response s \<and> fastboot_thread s' = fastboot_thread s \<and>
    fastboot.more s' = fastboot.more s"
  by (rule iffI) (simp_all add: fixed_fields, simp add: fixed_def)

lemma fixed_trans: "fixed s s1 \<Longrightarrow> fixed s1 s2 \<Longrightarrow> fixed s s2"
  by (simp add: fixed_iff)

lemma notify_fields:
  "fixed s (fold fastboot_notify es s)" "fmem (fold fastboot_notify es s) = fmem s"
  "fdev (fold fastboot_notify es s) = fdev s" "download_size (fold fastboot_notify es s) = download_size s"
proof -
  have "fixed s (fold fastboot_notify es s) \<and> fmem (fold fastboot_notify es s) = fmem s \<and>
      fdev (fold fastboot_notify es s) = fdev s \<and> download_size (fold fastboot_notify es s) = download_size s"
    by (induction es arbitrary: s) (auto simp: fastboot_notify_def fixed_iff)
  then show "fixed s (fold fastboot_notify es s)" "fmem (fold fastboot_notify es s) = fmem s"
    "fdev (fold fastboot_notify es s) = fdev s" "download_size (fold fastboot_notify es s) = download_size s"
    by simp_all
qed


lemma transfer_keeps:
  assumes "udc_ok K u" and "usb_transfer u ept b len s = Some (good, s')" and "ept \<in> channels K"
    and "ready K (fdev s)" and "len \<le> BUF_SIZE"
  shows "frame (driver_area K \<union> area b (unat len)) (fmem s) (fmem s') \<and> fixed s s' \<and> download_size s' = download_size s \<and>
    ready K (fdev s') \<and> (good \<longrightarrow> req_length s' \<le> len)"
proof -
  let ?rq = "\<lparr>req_buf = b, req_len = len\<rparr>"
  obtain r m d where q: "udc_queue u ept ?rq (fmem s, fdev s) = (r, m, d)" by (metis prod_cases3)
  note ok = assms(1) [unfolded udc_ok_def, rule_format, of ept "fdev s" ?rq "fmem s" r m d]
  show ?thesis
  proof (cases "r < 0")
    case True
    with ok q assms(3-5) have "ready K d" "frame (driver_area K) (fmem s) m" by simp_all
    with assms(2) q True show ?thesis by (auto simp: usb_transfer_def fixed_iff intro: frame_mono)
  next
    case False
    with assms(2) q obtain c where c: "udc_complete u ept ?rq (m, d) = Some c"
      by (auto simp: usb_transfer_def split: bind_splits)
    with ok q assms(3-5) False have "actual c \<le> len" "ready K (snd (after c))"
      "frame (driver_area K \<union> area b (unat len)) (fmem s) (fst (after c))" by simp_all
    with assms(2) q c False show ?thesis
      by (auto simp: usb_transfer_def req_complete_def notify_fields fixed_iff fixed_fields [OF notify_fields(1)])
  qed
qed

lemma read_loop_keeps:
  "usb_read_loop u b len cnt s = Some y \<Longrightarrow> udc_ok K u \<Longrightarrow> ept_out s \<in> channels K \<Longrightarrow> ready K (fdev s) \<Longrightarrow>
    frame (driver_area K \<union> area b (unat len)) (fmem s) (fmem (snd y)) \<and> fixed s (snd y) \<and>
    download_size (snd y) = download_size s \<and> ready K (fdev (snd y)) \<and>
    (fst y = - 1 \<and> state (snd y) = STATE_ERROR \<or> (\<exists>k \<le> len. fst y = sint (cnt + k)))"
proof (induction rule: usb_read_loop.raw_induct [rotated 1, consumes 1, case_names step])
  case (step f u b len cnt s y)
  note eq = step(2) and ok = step(3) and chan = step(4) and rdy = step(5) and IH = step(1)
  show ?case
  proof (cases "len > 0")
    case False
    then have "len = 0" by (simp add: word_gt_0)
    with eq rdy show ?thesis by auto
  next
    case True
    define x where "x = (if len > BUF_SIZE then BUF_SIZE else len)"
    have x: "x \<le> len" "x \<le> BUF_SIZE" by (auto simp: x_def)
    have ux: "unat x \<le> unat len" using x(1) by (simp only: word_le_nat_alt)
    from True eq [folded x_def] obtain good s1 where t: "usb_transfer u (ept_out s) b x s = Some (good, s1)"
      by (auto simp: Let_def split: bind_splits)
    note k = transfer_keeps [OF ok t chan rdy x(2)]
    have fr: "frame (driver_area K \<union> area b (unat len)) (fmem s) (fmem s1)"
      by (rule frame_mono [OF conjunct1 [OF k] Un_mono [OF subset_refl area_mono [OF ux]]])
    consider (bad) "\<not> good" | (short) "good" "req_length s1 \<noteq> x" | (full) "good" "req_length s1 = x" by blast
    then show ?thesis
    proof cases
      case bad
      with eq [folded x_def] True t have "y = (- 1, s1\<lparr>state := STATE_ERROR\<rparr>)" by (simp add: usb_oops_def Let_def)
      with k fr show ?thesis by (simp add: fixed_iff)
    next
      case short
      with eq [folded x_def] True t have "y = (sint (cnt + req_length s1), s1)" by (auto simp: Let_def)
      with k fr short(1) x(1) show ?thesis by (auto intro: order_trans)
    next
      case full
      with eq [folded x_def] True t have rest: "f u (b + x) (len - x) (cnt + x) s1 = Some y" by (auto simp: Let_def)
      have "fixed s s1" "ready K (fdev s1)" using k by blast+
      then have "ept_out s1 \<in> channels K" "ready K (fdev s1)" using chan by (simp_all add: fixed_fields)
      from IH [OF rest ok this] have i: "frame (driver_area K \<union> area (b + x) (unat (len - x))) (fmem s1) (fmem (snd y))"
        "fixed s1 (snd y)" "download_size (snd y) = download_size s1" "ready K (fdev (snd y))"
        "fst y = - 1 \<and> state (snd y) = STATE_ERROR \<or> (\<exists>k \<le> len - x. fst y = sint (cnt + x + k))" by blast+
      have "area (b + x) (unat (len - x)) \<subseteq> area b (unat len)"
        using area_sub [of "unat x" "unat (len - x)" "unat len" b] ux unat_lt_2p32 [of x]
        by (simp only: unat_sub [OF x(1)]) simp
      then have "driver_area K \<union> area (b + x) (unat (len - x)) \<subseteq> driver_area K \<union> area b (unat len)" by blast
      from frame_trans [OF fr frame_mono [OF i(1) this]]
      have "frame (driver_area K \<union> area b (unat len)) (fmem s) (fmem (snd y))" .
      moreover have "fixed s (snd y)" using k i(2) by (blast intro: fixed_trans)
      moreover have "\<exists>j \<le> len. sint (cnt + x + k) = sint (cnt + j)" if "k \<le> len - x" for k
        using le_plus' [OF x(1) that] by (intro exI [of _ "x + k"]) (simp add: add.assoc)
      ultimately show ?thesis using i(3-5) k by auto
    qed
  qed
qed

lemma read_keeps:
  assumes "udc_ok K u" and "usb_read u b len s = Some (r, s')" and "ept_out s \<in> channels K" and "ready K (fdev s)"
  shows "frame (driver_area K \<union> area b (unat len)) (fmem s) (fmem s') \<and> fixed s s' \<and> download_size s' = download_size s \<and>
    ready K (fdev s') \<and> (r = - 1 \<and> state s' = STATE_ERROR \<or> (\<exists>k \<le> len. r = sint k))"
proof (cases "state s = STATE_ERROR \<or> state s = STATE_OFFLINE")
  case True
  with assms(2,4) show ?thesis by (auto simp: usb_read_def usb_oops_def fixed_iff)
next
  case False
  with assms(2) have "usb_read_loop u b len 0 s = Some (r, s')" by (simp add: usb_read_def)
  from read_loop_keeps [OF this assms(1,3,4)] show ?thesis by simp
qed

lemma write_keeps:
  assumes "udc_ok K u" and "usb_write u b len s = Some (r, s')" and "ept_in s \<in> channels K" and "ready K (fdev s)"
    and "len \<le> BUF_SIZE"
  shows "frame (driver_area K \<union> area b (unat len)) (fmem s) (fmem s') \<and> fixed s s' \<and> download_size s' = download_size s \<and>
    ready K (fdev s')"
proof (cases "state s = STATE_ERROR \<or> state s = STATE_OFFLINE")
  case True
  with assms(2,4) show ?thesis by (auto simp: usb_write_def usb_oops_def fixed_iff)
next
  case False
  with assms(2) obtain good s1 where t: "usb_transfer u (ept_in s) b len s = Some (good, s1)"
    by (auto simp: usb_write_def split: bind_splits)
  with False assms(2) show ?thesis
    using transfer_keeps [OF assms(1) t assms(3-5)] by (auto simp: usb_write_def usb_oops_def fixed_iff split: if_splits)
qed

section \<open>The text of an answer\<close>

definition str_bytes :: "string \<Rightarrow> u8 list" where
  "str_bytes w = map of_char w"

lemma length_str_bytes [simp]: "length (str_bytes w) = length w"
  by (simp add: str_bytes_def)

definition const_str :: "mem \<Rightarrow> ptr set \<Rightarrow> ptr \<Rightarrow> u8 list \<Rightarrow> bool" where
  "const_str m W p xs \<longleftrightarrow> cstr m p xs \<and> area p (length xs + 1) \<inter> W = {}"

lemma const_str_frame: "const_str m W p xs \<Longrightarrow> frame W m m' \<Longrightarrow> const_str m' W p xs"
  unfolding const_str_def by (blast intro: cstr_frame)

lemma const_str_sep: "const_str m W p xs \<Longrightarrow> area q n \<subseteq> W \<Longrightarrow> 0 < n \<Longrightarrow> n \<le> 2 ^ 32 \<Longrightarrow> sep p (length xs + 1) q n"
  using cstr_length [of m p xs] by (intro sep_area) (auto simp: const_str_def)

text \<open>What \<open>%s\<close> prints for a pointer; the libc prints something for the null pointer too.\<close>

definition shown :: "ptr \<Rightarrow> u8 list \<Rightarrow> u8 list" where
  "shown p xs = (if p = 0 then null_string else xs)"

definition answer :: "u8 list \<Rightarrow> u8 list \<Rightarrow> u8 list" where
  "answer cs rs = take 63 (cs @ rs)"

lemma format_two_strings:
  assumes "a = 0 \<or> S a = Some xs" and "b = 0 \<or> S b = Some ys"
  shows "format S (str_bytes ''%s%s'') [Arg32 a, Arg32 b] = Some (shown a xs @ shown b ys)"
  using assms
  by (auto simp: str_bytes_def format_def vsn_modifier_def conv_out_def str_out_def flag_defs has_flag_def shown_def)

lemma shown_no_nul: "cstr m p xs \<Longrightarrow> 0 \<notin> set (shown p xs)"
  by (auto simp: shown_def null_string_def dest: cstr_no_nul)

lemma ack_prints:
  assumes fmt: "const_str m W fmt (str_bytes ''%s%s'')" and code: "const_str m W code cs"
    and reason: "const_str m W reason rs" and W: "area p 64 \<subseteq> W"
  defines "t \<equiv> answer (shown code cs) (shown reason rs)"
  shows "\<exists>n. snprintf m p 64 fmt [Arg32 code, Arg32 reason] = Some (wr m p (t @ [0]), n)"
    and "strlen (wr m p (t @ [0])) p = Some (of_nat (length t))" and "length t \<le> 63"
proof -
  define S where "S = (\<lambda>q. if q = code then Some cs else if q = reason then Some rs else None)"
  have same: "cs = rs" if "code = reason" using that code reason by (auto simp: const_str_def dest: cstr_unique)
  have ok: "strings_ok m p 64 S"
    using const_str_sep [OF code W] const_str_sep [OF reason W] code reason
    by (auto simp: S_def strings_ok_def const_str_def)
  have "format S (str_bytes ''%s%s'') [Arg32 code, Arg32 reason] = Some (shown code cs @ shown reason rs)"
    by (rule format_two_strings) (auto simp: S_def same)
  moreover have "cstr m fmt (str_bytes ''%s%s'')" using fmt by (simp add: const_str_def)
  ultimately have "vsnprintf m p 64 fmt [Arg32 code, Arg32 reason] = Some (wr m p (fits 64 (shown code cs @ shown reason rs) @ [0]),
      sint (of_nat (length (fits 64 (shown code cs @ shown reason rs))) :: u32))"
    using const_str_sep [OF fmt W] ok by (intro vsnprintf_writes [of m fmt "str_bytes ''%s%s''" S _ _ 64]) simp_all
  then show "\<exists>n. snprintf m p 64 fmt [Arg32 code, Arg32 reason] = Some (wr m p (t @ [0]), n)"
    by (simp add: snprintf_def fits_def t_def answer_def)
  have "0 \<notin> set t"
    using shown_no_nul code reason by (auto simp: t_def answer_def const_str_def dest!: in_set_takeD)
  moreover show "length t \<le> 63" by (simp add: t_def answer_def)
  ultimately show "strlen (wr m p (t @ [0])) p = Some (of_nat (length t))"
    by (intro strlen_cstr cstr_wr) simp_all
qed

section \<open>What the commands keep\<close>

text \<open>
  The memory the protocol may change: its own buffer, the download area, the two arrays on the
  stack of its thread, and what the driver of the controller has for itself. The string literals and the values of the variables lie elsewhere.
\<close>

definition writable :: "'hw udc_terms \<Rightarrow> ('hw, 'h, 'z) fastboot_scheme \<Rightarrow> ptr set" where
  "writable K s = driver_area K \<union> area (buffer s) 4096 \<union> area (download_base s) (unat (download_max s)) \<union>
    area (ack_response s) 64 \<union> area (download_response s) 64"

definition fastboot_literals :: "string list" where
  "fastboot_literals = ['''', ''%s%s'', ''FAIL'', ''OKAY'', ''data too large'', ''DATA%08x'',
    ''unknown command'', ''unknown reason'']"

definition fb_ok :: "'hw udc_terms \<Rightarrow> (string \<Rightarrow> ptr) \<Rightarrow> ('hw, 'h, 'z) fastboot_scheme \<Rightarrow> bool" where
  "fb_ok K lit s \<longleftrightarrow>
    (\<forall>w \<in> set fastboot_literals. const_str (fmem s) (writable K s) (lit w) (str_bytes w)) \<and>
    (\<forall>v \<in> set (varlist s). \<exists>xs. const_str (fmem s) (writable K s) (var_value v) xs) \<and>
    download_size s \<le> download_max s \<and> ept_in s \<in> channels K \<and> ept_out s \<in> channels K \<and> ready K (fdev s)"

definition kept :: "'hw udc_terms \<Rightarrow> ('hw, 'h, 'z) fastboot_scheme \<Rightarrow> ('hw, 'h, 'z) fastboot_scheme \<Rightarrow> bool" where
  "kept K s s' \<longleftrightarrow> frame (writable K s) (fmem s) (fmem s') \<and> fixed s s' \<and>
    (download_size s \<le> download_max s \<longrightarrow> download_size s' \<le> download_max s') \<and>
    (ready K (fdev s) \<longrightarrow> ready K (fdev s'))"

lemma kept_refl [simp]: "kept K s s"
  by (simp add: kept_def)

lemma fixed_writable: "fixed s s' \<Longrightarrow> writable K s' = writable K s"
  by (simp add: writable_def fixed_fields)

lemma kept_trans: "kept K s s1 \<Longrightarrow> kept K s1 s2 \<Longrightarrow> kept K s s2"
  unfolding kept_def by (metis fixed_writable fixed_trans frame_trans)

lemma kept_ok: "kept K s s' \<Longrightarrow> fb_ok K lit s \<Longrightarrow> fb_ok K lit s'"
proof -
  assume "kept K s s'" and ok: "fb_ok K lit s"
  then have f: "frame (writable K s) (fmem s) (fmem s')" and x: "fixed s s'" by (simp_all add: kept_def)
  show "fb_ok K lit s'"
    unfolding fb_ok_def fixed_writable [OF x] fixed_fields [OF x]
    using const_str_frame [OF _ f] ok \<open>kept K s s'\<close> fixed_fields(9) [OF x] unfolding fb_ok_def kept_def by simp blast
qed

lemma lit_ok: "fb_ok K lit s \<Longrightarrow> w \<in> set fastboot_literals \<Longrightarrow> const_str (fmem s) (writable K s) (lit w) (str_bytes w)"
  by (simp add: fb_ok_def)

lemma keptI:
  "frame V (fmem s) (fmem s') \<Longrightarrow> V \<subseteq> writable K s \<Longrightarrow> fixed s s' \<Longrightarrow> download_size s' = download_size s \<Longrightarrow>
    ready K (fdev s') \<Longrightarrow> kept K s s'"
  by (auto simp: kept_def fixed_fields intro: frame_mono)

lemma kept_state [simp]: "kept K s (s\<lparr>state := x\<rparr>)" "kept K (s\<lparr>state := x\<rparr>) s' \<longleftrightarrow> kept K s s'"
  by (simp_all add: kept_def fixed_iff writable_def)

lemma kept_mem: "length xs \<le> 2 ^ 32 \<Longrightarrow> area p (length xs) \<subseteq> writable K s \<Longrightarrow> kept K s (s\<lparr>fmem := wr (fmem s) p xs\<rparr>)"
  by (simp add: kept_def fixed_iff frame_wr)

lemma writable_parts:
  "area (buffer s) 4096 \<subseteq> writable K s" "area (ack_response s) 64 \<subseteq> writable K s"
  "area (download_response s) 64 \<subseteq> writable K s" "area (download_base s) (unat (download_max s)) \<subseteq> writable K s"
  by (auto simp: writable_def)

lemma area_part: "area p k \<subseteq> W \<Longrightarrow> n \<le> k \<Longrightarrow> area p n \<subseteq> W"
  using area_mono [of n k p] by blast

lemma write_kept:
  assumes "udc_ok K u" and "fb_ok K lit s" and "usb_write u p k s = Some (w, s')" and "area p (unat k) \<subseteq> writable K s"
    and "k \<le> BUF_SIZE"
  shows "kept K s s'"
proof -
  have "ept_in s \<in> channels K" "ready K (fdev s)" using assms(2) by (simp_all add: fb_ok_def)
  from write_keeps [OF assms(1,3) this assms(5)] assms(4) show ?thesis
    by (intro keptI [of "driver_area K \<union> area p (unat k)"]) (auto simp: writable_def)
qed

lemma read_kept:
  assumes "udc_ok K u" and "fb_ok K lit s" and "usb_read u p k s = Some (r, s')" and "area p (unat k) \<subseteq> writable K s"
  shows "kept K s s'" and "r = - 1 \<and> state s' = STATE_ERROR \<or> (\<exists>j \<le> k. r = sint j)"
proof -
  have "ept_out s \<in> channels K" "ready K (fdev s)" using assms(2) by (simp_all add: fb_ok_def)
  note r = read_keeps [OF assms(1,3) this]
  from r assms(4) show "kept K s s'"
    by (intro keptI [of "driver_area K \<union> area p (unat k)"]) (auto simp: writable_def)
  from r show "r = - 1 \<and> state s' = STATE_ERROR \<or> (\<exists>j \<le> k. r = sint j)" by blast
qed

text \<open>What an answer sends: at most 63 bytes of the code and the text.\<close>

lemma fastboot_ack_sends:
  assumes ok: "fb_ok K lit s" and code: "const_str (fmem s) (writable K s) code cs"
    and reason: "reason = 0 \<and> rs = [] \<or> reason \<noteq> 0 \<and> const_str (fmem s) (writable K s) reason rs"
  defines "t \<equiv> answer (shown code cs) (shown (if reason = 0 then lit '''' else reason) rs)"
  shows "fastboot_ack u lit code reason s = map_option snd (usb_write u (ack_response s) (of_nat (length t))
      (s\<lparr>fmem := wr (fmem s) (ack_response s) (t @ [0]), state := STATE_COMPLETE\<rparr>))"
    and "length t \<le> 63"
proof -
  let ?r = "if reason = 0 then lit '''' else reason"
  have lits: "const_str (fmem s) (writable K s) (lit ''%s%s'') (str_bytes ''%s%s'')"
    "const_str (fmem s) (writable K s) (lit '''') (str_bytes '''')"
    using ok by (auto intro!: lit_ok simp: fastboot_literals_def)
  then have r: "const_str (fmem s) (writable K s) ?r rs" using reason by (auto simp: str_bytes_def)
  note p = ack_prints [OF lits(1) code r writable_parts(2), folded t_def]
  from p(1) obtain n where n: "snprintf (fmem s) (ack_response s) 64 (lit ''%s%s'') [Arg32 code, Arg32 ?r]
      = Some (wr (fmem s) (ack_response s) (t @ [0]), n)" by blast
  show "fastboot_ack u lit code reason s = map_option snd (usb_write u (ack_response s) (of_nat (length t))
      (s\<lparr>fmem := wr (fmem s) (ack_response s) (t @ [0]), state := STATE_COMPLETE\<rparr>))"
    unfolding fastboot_ack_def Let_def n using p(2)
    by (cases "usb_write u (ack_response s) (of_nat (length t))
      (s\<lparr>fmem := wr (fmem s) (ack_response s) (t @ [0]), state := STATE_COMPLETE\<rparr>)") auto
  show "length t \<le> 63" by (rule p(3))
qed

lemma ack_keeps:
  assumes "udc_ok K u" and ok: "fb_ok K lit s" and code: "const_str (fmem s) (writable K s) code cs"
    and reason: "reason = 0 \<or> (\<exists>rs. const_str (fmem s) (writable K s) reason rs)"
    and eq: "fastboot_ack u lit code reason s = Some s'"
  shows "kept K s s'"
proof -
  obtain rs where rs: "reason = 0 \<and> rs = [] \<or> reason \<noteq> 0 \<and> const_str (fmem s) (writable K s) reason rs"
    using reason by auto
  define t where "t = answer (shown code cs) (shown (if reason = 0 then lit '''' else reason) rs)"
  note a = fastboot_ack_sends [OF ok code rs, folded t_def]
  let ?s = "s\<lparr>fmem := wr (fmem s) (ack_response s) (t @ [0])\<rparr>"
  have k: "kept K s ?s" using a(2) by (intro kept_mem area_part [OF writable_parts(2)]) simp_all
  have kc: "kept K s (?s\<lparr>state := STATE_COMPLETE\<rparr>)" using kept_trans [OF k] by simp
  from a(1) eq obtain r where "usb_write u (ack_response s) (of_nat (length t)) (?s\<lparr>state := STATE_COMPLETE\<rparr>) = Some (r, s')"
    by auto
  from write_kept [OF assms(1) kept_ok [OF kc ok] this] have "kept K (?s\<lparr>state := STATE_COMPLETE\<rparr>) s'"
    using a(2) area_part [OF writable_parts(2) [of s K], of "length t"]
    by (simp add: unat_of_nat_u32 BUF_SIZE_def word_le_nat_alt writable_def)
  then show ?thesis using kept_trans [OF k] by simp
qed

lemma fail_okay_keep:
  assumes "udc_ok K u" and "fb_ok K lit s" and "reason = 0 \<or> (\<exists>rs. const_str (fmem s) (writable K s) reason rs)"
  shows "fastboot_fail u lit reason s = Some s' \<Longrightarrow> kept K s s'"
    and "fastboot_okay u lit reason s = Some s' \<Longrightarrow> kept K s s'"
  unfolding fastboot_fail_def fastboot_okay_def
  using lit_ok [OF assms(2), of "''FAIL''"] lit_ok [OF assms(2), of "''OKAY''"]
  by (auto intro: ack_keeps [OF assms(1,2) _ assms(3)] simp: fastboot_literals_def)

lemma literal_reason: "fb_ok K lit s \<Longrightarrow> w \<in> set fastboot_literals \<Longrightarrow>
    lit w = 0 \<or> (\<exists>rs. const_str (fmem s) (writable K s) (lit w) rs)"
  using lit_ok by blast

lemma lit_keep:
  assumes "udc_ok K u" and "fb_ok K lit s" and "w \<in> set fastboot_literals"
  shows "fastboot_fail u lit (lit w) s = Some s' \<Longrightarrow> kept K s s'"
    and "fastboot_okay u lit (lit w) s = Some s' \<Longrightarrow> kept K s s'"
  by (rule fail_okay_keep [OF assms(1,2) literal_reason [OF assms(2,3)]]; assumption)+

lemma find_var_member: "find_var m arg vs = Some (Some v) \<Longrightarrow> v \<in> set vs"
  by (induction vs) (auto split: bind_splits if_splits)

lemma getvar_keeps:
  assumes u: "udc_ok K u" and ok: "fb_ok K lit s" and eq: "cmd_getvar u lit arg s = Some s'"
  shows "kept K s s'"
proof -
  from eq obtain v where v: "find_var (fmem s) arg (varlist s) = Some v" by (auto simp: cmd_getvar_def split: bind_splits)
  show ?thesis
  proof (cases v)
    case None
    with eq v have "fastboot_okay u lit (lit '''') s = Some s'" by (simp add: cmd_getvar_def)
    then show ?thesis by (intro lit_keep(2) [OF u ok]) (simp_all add: fastboot_literals_def)
  next
    case (Some var)
    with eq v have "fastboot_okay u lit (var_value var) s = Some s'" by (simp add: cmd_getvar_def)
    moreover from v Some have "var \<in> set (varlist s)" by (auto intro: find_var_member)
    then have "\<exists>xs. const_str (fmem s) (writable K s) (var_value var) xs" using ok by (simp add: fb_ok_def)
    ultimately show ?thesis by (intro fail_okay_keep(2) [OF u ok]) auto
  qed
qed

text \<open>\<open>"DATA%08x"\<close> and its number need 13 of the 64 bytes.\<close>

lemma data_format_bytes: "data_format = str_bytes ''DATA%08x''"
  by (simp add: data_format_def str_bytes_def)

lemma data_out_length: "length (hex_out LEADZEROFLAG (ucast (x :: u32))) \<le> 8"
proof -
  have "unat (ucast x :: u64) < 16 ^ Suc 7" using unat_lt_2p32 [of x] by (simp add: unat_ucast_u64)
  then show ?thesis unfolding hex_out_def using length_hex_string [of _ 7] by fastforce
qed

lemma data_prints:
  assumes fmt: "const_str m W fmt (str_bytes ''DATA%08x'')" and W: "area p 64 \<subseteq> W"
  shows "\<exists>t n. sprintf m p fmt [Arg32 x] = Some (wr m p (t @ [0]), n) \<and> length t = 12 \<and>
    strlen (wr m p (t @ [0])) p = Some 12 \<and> hex2unsigned (wr m p (t @ [0])) (p + 4) = Some x"
proof -
  define hs where "hs = hex_out LEADZEROFLAG (ucast x)"
  define t where "t = [68, 65, 84, 65] @ replicate (8 - length hs) 48 @ hs"
  have c: "cstr m fmt data_format" using fmt by (simp add: const_str_def data_format_bytes)
  have f: "format (\<lambda>_. None) data_format [Arg32 x] = Some t" by (simp add: format_data t_def hs_def)
  have len: "length t = 12" using data_out_length [of x] by (simp add: t_def hs_def)
  have n9: "length data_format + 1 = 9" by (simp add: data_format_def)
  have s: "sep fmt (length data_format + 1) p 64"
    using const_str_sep [OF fmt W] by (simp add: data_format_bytes)
  have nz: "0 \<notin> set t" using hex_out_no_nul [of LEADZEROFLAG "ucast x"] by (auto simp: t_def hs_def)
  have "sprintf m p fmt [Arg32 x] = Some (wr m p (t @ [0]), int (length t))" "cstr (wr m p (t @ [0])) p t"
    using sprintf_cstr [OF c f nz _ _ s strings_ok_empty] len by auto
  moreover from this have "strlen (wr m p (t @ [0])) p = Some 12" using strlen_cstr len by fastforce
  moreover have "sep fmt 9 p 13" using s unfolding n9 by (rule sep_le) simp_all
  from print_parse_data [OF c this, of x] calculation(1) have "hex2unsigned (wr m p (t @ [0])) (p + 4) = Some x" by simp
  ultimately show ?thesis using len by blast
qed

lemma writable_upd [simp]:
  "writable K (s\<lparr>fmem := m\<rparr>) = writable K s" "writable K (s\<lparr>download_size := n\<rparr>) = writable K s"
  "writable K (s\<lparr>state := x\<rparr>) = writable K s"
  by (simp_all add: writable_def)

lemma kept_size: "n \<le> download_max s \<Longrightarrow> kept K s (s\<lparr>download_size := n\<rparr>)"
  by (simp add: kept_def fixed_iff)

lemma kept_max: "kept K s s' \<Longrightarrow> download_max s' = download_max s" "kept K s s' \<Longrightarrow> writable K s' = writable K s"
  "kept K s s' \<Longrightarrow> download_base s' = download_base s" "kept K s s' \<Longrightarrow> buffer s' = buffer s"
  "kept K s s' \<Longrightarrow> cmdlist s' = cmdlist s"
  by (auto simp: kept_def fixed_fields fixed_writable)

text \<open>
  \<open>download:\<close> either refuses the size, or announces it and reads exactly that many bytes to the
  download area, or leaves the protocol in the error state with nothing downloaded.
\<close>

lemma download_cases:
  assumes eq: "cmd_download u lit arg s = Some s'"
  obtains (refused) len where "hex2unsigned (fmem s) arg = Some len" "len > download_max s"
      "fastboot_fail u lit (lit ''data too large'') (s\<lparr>download_size := 0\<rparr>) = Some s'"
  | (sent) len m n k w s2 where "hex2unsigned (fmem s) arg = Some len" "len \<le> download_max s"
      "sprintf (fmem s) (download_response s) (lit ''DATA%08x'') [Arg32 len] = Some (m, n)"
      "strlen m (download_response s) = Some k"
      "usb_write u (download_response s) k (s\<lparr>download_size := 0, fmem := m\<rparr>) = Some (w, s2)"
      "w < 0 \<and> s' = s2 \<or> (\<exists>r s3. usb_read u (download_base s2) len s2 = Some (r, s3) \<and>
        (s' = s3\<lparr>state := STATE_ERROR\<rparr> \<or>
         0 \<le> r \<and> word_of_int r = len \<and> fastboot_okay u lit (lit '''') (s3\<lparr>download_size := len\<rparr>) = Some s'))"
  using eq unfolding cmd_download_def
  by (auto simp: Let_def not_less not_le split: bind_splits if_splits)

lemma download_keeps:
  assumes u: "udc_ok K u" and ok: "fb_ok K lit s" and eq: "cmd_download u lit arg s = Some s'"
  shows "kept K s s'"
  using eq
proof (cases rule: download_cases)
  case (refused len)
  have k: "kept K s (s\<lparr>download_size := 0\<rparr>)" by (rule kept_size) simp
  from refused(3) have "kept K (s\<lparr>download_size := 0\<rparr>) s'"
    by (intro lit_keep(1) [OF u kept_ok [OF k ok]]) (simp_all add: fastboot_literals_def)
  with k show ?thesis by (rule kept_trans)
next
  case (sent len m n k w s2)
  have "const_str (fmem s) (writable K s) (lit ''DATA%08x'') (str_bytes ''DATA%08x'')"
    using ok by (rule lit_ok) (simp add: fastboot_literals_def)
  from data_prints [OF this writable_parts(3), of len] sent(3,4) obtain t where
    t: "m = wr (fmem s) (download_response s) (t @ [0])" "length t = 12" "k = 12" by auto
  let ?s1 = "s\<lparr>fmem := m\<rparr>" and ?s0 = "s\<lparr>download_size := 0, fmem := m\<rparr>"
  have "kept K s ?s1" unfolding t(1) using t(2) by (intro kept_mem area_part [OF writable_parts(3)]) simp_all
  moreover have "kept K ?s1 (?s1\<lparr>download_size := 0\<rparr>)" by (rule kept_size) simp
  moreover have "?s0 = ?s1\<lparr>download_size := 0\<rparr>" by simp
  ultimately have k0: "kept K s ?s0" by (metis kept_trans)
  have "kept K ?s0 s2"
    by (rule write_kept [OF u kept_ok [OF k0 ok] sent(5)])
      (use t(3) in \<open>simp_all add: area_part [OF writable_parts(3)] BUF_SIZE_def\<close>)
  with k0 have k2: "kept K s s2" by (rule kept_trans)
  from sent(6) show ?thesis
  proof (elim disjE exE conjE)
    fix r s3
    assume r: "usb_read u (download_base s2) len s2 = Some (r, s3)"
    have "unat len \<le> unat (download_max s2)" using sent(2) kept_max [OF k2] by (simp add: word_le_nat_alt)
    then have "kept K s2 s3" by (intro read_kept(1) [OF u kept_ok [OF k2 ok] r] area_part [OF writable_parts(4)])
    with k2 have k3: "kept K s s3" by (rule kept_trans)
    show "kept K s s'" if "s' = s3\<lparr>state := STATE_ERROR\<rparr>"
      using kept_trans [OF k3] that by simp
    let ?s4 = "s3\<lparr>download_size := len\<rparr>"
    have k4: "kept K s ?s4"
      using sent(2) kept_max(1) [OF k3] by (intro kept_trans [OF k3] kept_size) simp
    show "kept K s s'" if "fastboot_okay u lit (lit '''') ?s4 = Some s'"
      using that
      by (intro kept_trans [OF k4] lit_keep(2) [OF u kept_ok [OF k4 ok]]) (simp_all add: fastboot_literals_def)
  qed (use k2 in simp)
qed

section \<open>The command loop\<close>

lemma buffer_line: "area (buffer s) (unat (64 :: u32)) \<subseteq> writable K s"
  by (rule area_part [OF writable_parts(1)]) simp

lemma read_count: "k \<le> (64 :: u32) \<Longrightarrow> 0 \<le> sint k \<and> unat (word_of_int (sint k) :: u32) \<le> 64"
  by (simp add: word_le_nat_alt sint_u32_small)

lemma read_failed: "r = - 1 \<and> P \<or> (\<exists>k \<le> (64 :: u32). r = sint k) \<Longrightarrow> r < 0 \<Longrightarrow> P"
  using read_count by fastforce

lemma read_succeeded:
  assumes "r = - 1 \<and> P \<or> (\<exists>k \<le> (64 :: u32). r = sint k)" and "\<not> r < 0"
  obtains k where "k \<le> (64 :: u32)" "r = sint k"
  using assms by auto

lemma terminate_kept:
  assumes "k \<le> (64 :: u32)"
  shows "kept K s (s\<lparr>fmem := (fmem s)(buffer s + word_of_int (sint k) := 0)\<rparr>)"
proof -
  have "unat k < 4096" using assms by (simp add: word_le_nat_alt)
  then have "buffer s + word_of_int (sint k) \<in> writable K s"
    using writable_parts(1) [of s K] by (auto simp: area_def)
  then show ?thesis by (simp add: kept_def fixed_iff frame_upd)
qed

text \<open>
  What the loop needs of the handlers in its table: each keeps what the protocol keeps, in a state
  whose parameters are well formed. A boot loader adds its own commands by giving the law for them.
\<close>

locale fastboot_handlers =
  fixes K :: "'hw udc_terms" and u :: "'hw udc" and lit :: "string \<Rightarrow> ptr"
    and call :: "('hw, 'h, 'z) handlers"
    and good :: "('hw, 'h, 'z) fastboot_scheme \<Rightarrow> bool"
  assumes handler_keeps: "udc_ok K u \<Longrightarrow> fb_ok K lit s \<Longrightarrow> good s \<Longrightarrow> call h arg data sz s = Some s' \<Longrightarrow> kept K s s'"
    and good_kept: "good s \<Longrightarrow> kept K s s' \<Longrightarrow> good s'"
begin

lemma run_command_keeps:
  assumes u: "udc_ok K u" and ok: "fb_ok K lit s" and g: "good s" and eq: "run_command u lit call s = Some s'"
  shows "kept K s s'"
proof (cases "find_cmd (fmem s) (buffer s) (cmdlist s)")
  case None
  with eq show ?thesis
    by (intro lit_keep(1) [OF u ok, of "''unknown command''"]) (simp_all add: run_command_def fastboot_literals_def)
next
  case (Some c)
  let ?call = "call (handle c) (buffer s + prefix_len c) (download_base s) (download_size s) (s\<lparr>state := STATE_COMMAND\<rparr>)"
  have kc: "kept K s (s\<lparr>state := STATE_COMMAND\<rparr>)" by simp
  from eq Some have "?call \<bind>
      (\<lambda>s1. if state s1 = STATE_COMMAND then fastboot_fail u lit (lit ''unknown reason'') s1 else Some s1) = Some s'"
    by (simp add: run_command_def)
  then obtain s1 where s1: "?call = Some s1"
    and s': "(if state s1 = STATE_COMMAND then fastboot_fail u lit (lit ''unknown reason'') s1 else Some s1) = Some s'"
    by (cases ?call) simp_all
  from handler_keeps [OF u kept_ok [OF kc ok] good_kept [OF g kc] s1] have k1: "kept K s s1" by simp
  show ?thesis
  proof (cases "state s1 = STATE_COMMAND")
    case True
    with s' show ?thesis
      by (intro kept_trans [OF k1] lit_keep(1) [OF u kept_ok [OF k1 ok], of "''unknown reason''"])
        (simp_all add: fastboot_literals_def)
  next
    case False
    with s' k1 show ?thesis by simp
  qed
qed

lemma command_loop_keeps:
  "fastboot_command_loop u0 lit0 call0 s = Some s' \<Longrightarrow> u0 = u \<Longrightarrow> lit0 = lit \<Longrightarrow> call0 = call \<Longrightarrow>
    udc_ok K u \<Longrightarrow> fb_ok K lit s \<Longrightarrow> good s \<Longrightarrow>
    kept K s s' \<and> (state s' = STATE_ERROR \<or> state s' = STATE_OFFLINE)"
proof (induction rule: fastboot_command_loop.raw_induct [rotated 1, consumes 1, case_names step])
  case (step f u0 lit0 call0 s s')
  note IH = step(1) and eq = step(2) [unfolded step(3-5)] and u = step(6) and ok = step(7) and g = step(8)
  show ?case
  proof (cases "state s \<noteq> STATE_ERROR \<and> state s \<noteq> STATE_OFFLINE")
    case False
    with eq have "s' = s" by (simp del: not_all)
    with False show ?thesis by simp
  next
    case True
    note eq1 = eq [unfolded if_P [OF True]]
    obtain r s1 where r: "usb_read u (buffer s) 64 s = Some (r, s1)"
      and eq2: "(if r < 0 then Some s1
        else run_command u lit call (s1\<lparr>fmem := (fmem s1)(buffer s1 + word_of_int r := 0)\<rparr>) \<bind> f u lit call) = Some s'"
      by (rule bind_pairE [OF eq1])
    have k1: "kept K s s1" by (rule read_kept(1) [OF u ok r buffer_line])
    note r1 = read_kept(2) [OF u ok r buffer_line]
    show ?thesis
    proof (cases "r < 0")
      case True
      have "state s1 = STATE_ERROR" by (rule read_failed [OF r1 True])
      moreover have "s1 = s'" by (rule option.inject [THEN iffD1, OF eq2 [unfolded if_P [OF True]]])
      ultimately show ?thesis using k1 by blast
    next
      case False
      obtain k where k: "k \<le> (64 :: u32)" "r = sint k" by (rule read_succeeded [OF r1 False])
      let ?s2 = "s1\<lparr>fmem := (fmem s1)(buffer s1 + word_of_int r := 0)\<rparr>"
      have "kept K s1 ?s2" unfolding k(2) by (rule terminate_kept [OF k(1)])
      then have k2: "kept K s ?s2" by (rule kept_trans [OF k1])
      obtain s3 where s3: "run_command u lit call ?s2 = Some s3" and f: "f u lit call s3 = Some s'"
        by (rule bind_someE [OF eq2 [unfolded if_not_P [OF False]]])
      have "kept K ?s2 s3" by (rule run_command_keeps [OF u kept_ok [OF k2 ok] good_kept [OF g k2] s3])
      with k2 have k3: "kept K s s3" by (rule kept_trans)
      from IH [OF f refl refl refl u kept_ok [OF k3 ok] good_kept [OF g k3]] show ?thesis
        using kept_trans [OF k3] by blast
    qed
  qed
qed

end

text \<open>The two commands of the protocol itself satisfy the law.\<close>

datatype builtin = Cmd_getvar | Cmd_download

definition builtin_call :: "'hw udc \<Rightarrow> (string \<Rightarrow> ptr) \<Rightarrow> ('hw, builtin, 'z) handlers" where
  "builtin_call u lit h arg data sz s =
    (case h of Cmd_getvar \<Rightarrow> cmd_getvar u lit arg s | Cmd_download \<Rightarrow> cmd_download u lit arg s)"

interpretation protocol: fastboot_handlers K u lit "builtin_call u lit" "\<lambda>s. True" for K :: "'hw udc_terms" and u :: "'hw udc" and lit
  by unfold_locales
    (auto simp: builtin_call_def split: builtin.splits intro: getvar_keeps download_keeps)

section \<open>Which variable and which command\<close>

text \<open>The tables as lists of strings, the entry registered last first.\<close>

definition vars_hold :: "mem \<Rightarrow> ptr set \<Rightarrow> fastboot_var list \<Rightarrow> (u8 list \<times> u8 list) list \<Rightarrow> bool" where
  "vars_hold m W vs tbl \<longleftrightarrow> list_all2 (\<lambda>v (n, x). cstr m (var_name v) n \<and> var_value v \<noteq> 0 \<and> const_str m W (var_value v) x) vs tbl"

definition cmds_hold :: "mem \<Rightarrow> 'h fastboot_cmd list \<Rightarrow> (u8 list \<times> 'h) list \<Rightarrow> bool" where
  "cmds_hold m cs tbl \<longleftrightarrow> list_all2 (\<lambda>c (p, h). rd m (prefix c) (length p) = p \<and> unat (prefix_len c) = length p \<and> handle c = h) cs tbl"

lemma find_var_map_of:
  assumes "vars_hold m W vs tbl" and "cstr m arg n"
  shows "(case map_of tbl n of None \<Rightarrow> find_var m arg vs = Some None
    | Some x \<Rightarrow> \<exists>v. find_var m arg vs = Some (Some v) \<and> var_value v \<noteq> 0 \<and> const_str m W (var_value v) x)"
  using assms(1) unfolding vars_hold_def
proof (induction rule: list_all2_induct)
  case Nil
  then show ?case by simp
next
  case (Cons v vs e tbl)
  obtain k x where e: "e = (k, x)" by (cases e)
  with Cons.hyps have v: "cstr m (var_name v) k" "var_value v \<noteq> 0" "const_str m W (var_value v) x" by auto
  obtain c where c: "strcmp m (var_name v) arg = Some c" using strcmp_byte_diff [OF v(1) assms(2)] by blast
  then have "c = 0 \<longleftrightarrow> k = n" using strcmp_eq [OF v(1) assms(2)] by auto
  with c v Cons.IH e show ?case by (auto split: option.splits)
qed

lemma find_cmd_find:
  assumes "cmds_hold m cs tbl"
  shows "(case List.find (\<lambda>(p, h). rd m b (length p) = p) tbl of None \<Rightarrow> find_cmd m b cs = None
    | Some (p, h) \<Rightarrow> \<exists>c. find_cmd m b cs = Some c \<and> unat (prefix_len c) = length p \<and> handle c = h)"
  using assms unfolding cmds_hold_def
proof (induction rule: list_all2_induct)
  case Nil
  then show ?case by simp
next
  case (Cons c cs e tbl)
  obtain p h where e: "e = (p, h)" by (cases e)
  with Cons.hyps have c: "rd m (prefix c) (length p) = p" "unat (prefix_len c) = length p" "handle c = h" by auto
  then have "memcmp m b (prefix c) (prefix_len c) = 0 \<longleftrightarrow> rd m b (length p) = p" by (simp add: memcmp_0_iff)
  with c Cons.IH e show ?case by (auto split: option.splits)
qed

end
