(* ===== verification/Lk_Atags.thy ===== *)
theory Lk_Atags
  imports Lk_Ptable
begin

text \<open>
  The parameters for the kernel (\<open>boot_linux\<close> in \<open>app/aboot/aboot.c\<close> and \<open>target_atag_mem\<close> in
  \<open>target/msm7200a_htc_wince/atags.c\<close>): a list of tags, each with its size in words and its kind.
  \<open>parse_tags\<close> reads a list the way its format asks for, up to the tag of size 0, and the lemmas show
  that it finds the tags that were meant.
\<close>

section \<open>Writing tags\<close>

text \<open>\<open>*ptr++ = w\<close> on a pointer to words.\<close>

type_synonym tag_out = "mem \<times> ptr"

definition put :: "u32 \<Rightarrow> tag_out \<Rightarrow> tag_out" where
  "put w = (\<lambda>(m, p). (store32 m p w, p + 4))"

definition ATAG_CORE :: u32 where "ATAG_CORE = 0x54410001"
definition ATAG_MEM :: u32 where "ATAG_MEM = 0x54410002"
definition ATAG_INITRD2 :: u32 where "ATAG_INITRD2 = 0x54420005"
definition ATAG_PTBL :: u32 where "ATAG_PTBL = 0x4d534d70"
definition ATAG_CMDLINE :: u32 where "ATAG_CMDLINE = 0x54410009"

definition EBI_SIZE :: u32 where "EBI_SIZE = 0x06800000"
definition EBI_BASE :: u32 where "EBI_BASE = 0x10000000"
definition EBIN_BASE :: u32 where "EBIN_BASE = 0x20000000"
definition EBIN_SIZE :: u32 where "EBIN_SIZE = 0x04c00000"

definition target_atag_mem :: "tag_out \<Rightarrow> tag_out" where
  "target_atag_mem o1 =
    fold put [4, ATAG_MEM, EBI_BASE, EBI_SIZE, 4, ATAG_MEM, EBIN_BASE, EBIN_SIZE] o1"

text \<open>\<open>struct atag_ptbl_entry\<close>, filled in on the stack and copied: 28 bytes.\<close>

definition atag_ptbl_entry :: "mem \<Rightarrow> ptr \<Rightarrow> u8 list" where
  "atag_ptbl_entry m ptn =
    (rd m ptn 16)[15 := 0] @ word_bytes (ptn_start m ptn) @ word_bytes (ptn_length m ptn) @ word_bytes (ptn_flags m ptn)"

definition ptentry_to_tag :: "ptr \<Rightarrow> tag_out \<Rightarrow> tag_out" where
  "ptentry_to_tag ptn = (\<lambda>(m, p).
    if ptn_type m ptn = TYPE_MODEM_PARTITION then (m, p)
    else (wr m p (atag_ptbl_entry m ptn), p + 28))"

fun ptable_to_tag :: "ptr \<Rightarrow> nat \<Rightarrow> int \<Rightarrow> tag_out \<Rightarrow> tag_out" where
  "ptable_to_tag t 0 i o1 = o1"
| "ptable_to_tag t (Suc k) i o1 = ptable_to_tag t k (i + 1) (ptentry_to_tag (ptable_get (fst o1) t i) o1)"

definition put_ptable :: "ptr \<Rightarrow> tag_out \<Rightarrow> tag_out" where
  "put_ptable t o1 =
    (if t \<noteq> 0 \<and> ptable_count (fst o1) t \<noteq> 0 then
       (let n = ptable_count (fst o1) t;
            o2 = put ATAG_PTBL (put (2 + word_of_int n * 7) o1)
        in ptable_to_tag t (nat n) 0 o2)
     else o1)"

definition put_cmdline :: "ptr \<Rightarrow> tag_out \<Rightarrow> tag_out option" where
  "put_cmdline cmd o1 =
    do {
      cmdline_len \<leftarrow> strlen (fst o1) cmd;
      if sint cmdline_len > 0 then
        (let n = (cmdline_len + 4) AND NOT 3;
             (m, p) = put ATAG_CMDLINE (put (n div 4 + 2) o1)
         in Some (fst (memcpy m p cmd cmdline_len), p + 4 * (n div 4)))
      else Some o1
    }"

text \<open>The command line of the image, or else the one of the board; a null pointer when both are empty.\<close>

definition choose_cmdline :: "mem \<Rightarrow> ptr \<Rightarrow> ptr \<Rightarrow> ptr" where
  "choose_cmdline m cmdline t_cmdline =
    (if cmdline \<noteq> 0 \<and> m cmdline \<noteq> 0 then cmdline
     else if t_cmdline \<noteq> 0 \<and> m t_cmdline \<noteq> 0 then t_cmdline
     else 0)"

definition boot_tags :: "mem \<Rightarrow> ptr \<Rightarrow> ptr \<Rightarrow> ptr \<Rightarrow> ptr \<Rightarrow> u32 \<Rightarrow> ptr \<Rightarrow> mem option" where
  "boot_tags m tags cmdline t_cmdline ramdisk ramdisk_size ptable =
    do {
      let o1 = put ATAG_CORE (put 2 (m, tags));
      let o2 = (if ramdisk_size \<noteq> 0 then fold put [4, ATAG_INITRD2, ramdisk, ramdisk_size] o1 else o1);
      let o3 = target_atag_mem o2;
      let o4 = put_ptable ptable o3;
      o5 \<leftarrow> put_cmdline (choose_cmdline (fst o4) cmdline t_cmdline) o4;
      Some (fst (put 0 (put 0 o5)))
    }"

section \<open>Reading tags\<close>

fun parse_tags :: "nat \<Rightarrow> mem \<Rightarrow> ptr \<Rightarrow> (u32 \<times> u8 list) list" where
  "parse_tags 0 m p = []"
| "parse_tags (Suc k) m p =
    (let n = load32 m p in
     if n = 0 then []
     else (load32 m (p + 4), rd m (p + 8) (4 * unat n - 8)) # parse_tags k m (p + 4 * n))"

definition encode_tag :: "u32 \<times> u8 list \<Rightarrow> u8 list" where
  "encode_tag = (\<lambda>(t, b). word_bytes (of_nat (length b div 4 + 2)) @ word_bytes t @ b)"

definition tag_ok :: "u32 \<times> u8 list \<Rightarrow> bool" where
  "tag_ok = (\<lambda>(t, b). 4 dvd length b \<and> length b < 2 ^ 31)"

lemma parse_encoded:
  assumes "rd m p (length (concat (map encode_tag ts)) + 4) = concat (map encode_tag ts) @ word_bytes 0"
    and "\<forall>t \<in> set ts. tag_ok t" and "length ts < k"
  shows "parse_tags k m p = ts"
  using assms
proof (induction ts arbitrary: p k)
  case Nil
  then have "load32 m p = 0" by (intro load32_bytes) simp
  then show ?case using Nil(3) by (cases k) simp_all
next
  case (Cons tb ts)
  obtain t b where tb: "tb = (t, b)" by (cases tb)
  let ?n = "of_nat (length b div 4 + 2) :: u32" and ?r = "concat (map encode_tag ts)"
  have b: "4 dvd length b" "length b < 2 ^ 31" using Cons.prems(2) tb by (simp_all add: tag_ok_def)
  have n: "unat ?n = length b div 4 + 2" using b by (intro unat_of_nat_u32) simp
  then have n4: "4 * unat ?n = length b + 8" using b(1) by simp
  have len: "length (concat (map encode_tag (tb # ts))) + 4 = 4 + (4 + (length b + (length ?r + 4)))"
    by (simp add: tb encode_tag_def)
  have all: "rd m p (4 + (4 + (length b + (length ?r + 4)))) = word_bytes ?n @ word_bytes t @ b @ ?r @ word_bytes 0"
    using Cons.prems(1) unfolding len by (simp add: tb encode_tag_def)
  then have parts: "rd m p 4 = word_bytes ?n" "rd m (p + 4) 4 = word_bytes t" "rd m (p + 8) (length b) = b"
    "rd m (p + 8 + of_nat (length b)) (length ?r + 4) = ?r @ word_bytes 0"
    unfolding rd_add [of m p 4] rd_add [of m _ 4 "length b + (length ?r + 4)"] rd_add [of m _ "length b" "length ?r + 4"]
    by (simp_all add: append_eq_append_conv add.assoc)
  have "4 * ?n = of_nat (length b + 8)" unfolding n4 [symmetric] by (simp del: of_nat_add)
  then have nx: "p + 4 * ?n = p + 8 + of_nat (length b)" by (simp add: algebra_simps)
  have "?n \<noteq> 0" using n by (metis add_is_0 unat_0 zero_neq_numeral)
  moreover have "load32 m p = ?n" "load32 m (p + 4) = t" by (rule load32_bytes, rule parts)+
  moreover obtain k' where k: "k = Suc k'" "length ts < k'" using Cons.prems(3) by (cases k) auto
  moreover have "parse_tags k' m (p + 4 * ?n) = ts"
    using Cons.IH [of "p + 4 * ?n" k'] parts(4) Cons.prems(2) k(2) unfolding nx by simp
  moreover have "4 * unat ?n - 8 = length b" using n4 by simp
  ultimately show ?case using parts(3) by (simp add: tb Let_def)
qed

section \<open>What is written\<close>

text \<open>\<open>wrote m tags bs o1\<close>: from \<open>m\<close> and \<open>tags\<close> on, the bytes \<open>bs\<close> have been written.\<close>

definition wrote :: "mem \<Rightarrow> ptr \<Rightarrow> u8 list \<Rightarrow> tag_out \<Rightarrow> bool" where
  "wrote m tags bs o1 \<longleftrightarrow> o1 = (wr m tags bs, tags + of_nat (length bs))"

lemma wrote_Nil: "wrote m tags [] (m, tags)"
  by (simp add: wrote_def)

lemma wrote_put: "wrote m tags bs o1 \<Longrightarrow> wrote m tags (bs @ word_bytes w) (put w o1)"
  by (simp add: wrote_def put_def store32_def wr_append)

lemma wrote_fold: "wrote m tags bs o1 \<Longrightarrow> wrote m tags (bs @ concat (map word_bytes ws)) (fold put ws o1)"
  by (induction ws arbitrary: bs o1) (simp, use wrote_put in fastforce)

lemma rd_wrote:
  assumes "wrote m tags bs o1" and "length bs \<le> L" and "sep q n tags L" and "i + k \<le> n"
  shows "rd (fst o1) (q + of_nat i) k = rd m (q + of_nat i) k"
proof (rule rd_cong)
  fix j
  assume "j < k"
  then have "L \<le> unat (q + of_nat (i + j) - tags)" using assms(3,4) \<open>j < k\<close> by (intro sep_unat [of q n]) simp_all
  then show "fst o1 (q + of_nat i + of_nat j) = m (q + of_nat i + of_nat j)"
    using assms(1,2) by (simp add: wrote_def wr_other add.assoc)
qed

lemma load32_wrote:
  "wrote m tags bs o1 \<Longrightarrow> length bs \<le> L \<Longrightarrow> sep q n tags L \<Longrightarrow> i + 4 \<le> n \<Longrightarrow>
    load32 (fst o1) (q + of_nat i) = load32 m (q + of_nat i)"
  by (rule load32_bytes) (simp add: rd_wrote word_bytes_load32)

lemma entry_wrote:
  assumes "wrote m tags bs o1" and "length bs \<le> L" and "sep q n tags L" and "i + 32 \<le> n"
  shows "atag_ptbl_entry (fst o1) (q + of_nat i) = atag_ptbl_entry m (q + of_nat i)"
    and "ptn_type (fst o1) (q + of_nat i) = ptn_type m (q + of_nat i)"
proof -
  have l: "load32 (fst o1) (q + of_nat i + of_nat j) = load32 m (q + of_nat i + of_nat j)" if "j + 4 \<le> 32" for j
    using load32_wrote [OF assms(1,2,3), of "i + j"] that assms(4) by (simp add: add.assoc)
  show "atag_ptbl_entry (fst o1) (q + of_nat i) = atag_ptbl_entry m (q + of_nat i)"
    using rd_wrote [OF assms(1,2,3), of i 16] l [of 16] l [of 20] l [of 24] assms(4)
    by (simp add: atag_ptbl_entry_def ptn_start_def ptn_length_def ptn_flags_def)
  show "ptn_type (fst o1) (q + of_nat i) = ptn_type m (q + of_nat i)"
    using rd_wrote [OF assms(1,2,3), of "i + 28" 1] assms(4) by (simp add: ptn_type_def rd_Suc add.assoc)
qed

lemma length_atag_entry [simp]: "length (atag_ptbl_entry m p) = 28"
  by (simp add: atag_ptbl_entry_def)

text \<open>The entries of the partitions that are not the modem's, in order.\<close>

definition listed :: "mem \<Rightarrow> ptr \<Rightarrow> nat list \<Rightarrow> u8 list" where
  "listed m t is = concat (map (\<lambda>i. if ptn_type m (t + of_nat (32 * i)) = TYPE_MODEM_PARTITION then []
     else atag_ptbl_entry m (t + of_nat (32 * i))) is)"

lemma length_listed: "length (listed m t is) \<le> 28 * length is"
  by (induction "is") (auto simp: listed_def)

lemma listed_dvd: "4 dvd length (listed m t is)"
  by (induction "is") (auto simp: listed_def)

lemma ptable_to_tag_wrote:
  assumes "wrote m tags bs o1" and "length bs + 28 * k \<le> L" and "sep t 1028 tags L" and "i + k \<le> 32"
    and "ptable_count m t = int (i + k)"
  shows "wrote m tags (bs @ listed m t [i..<i + k]) (ptable_to_tag t k (int i) o1)"
  using assms
proof (induction k arbitrary: i bs o1)
  case 0
  then show ?case by (simp add: listed_def)
next
  case (Suc k)
  let ?p = "t + of_nat (32 * i)"
  have len: "length bs \<le> L" using Suc.prems(2) by simp
  have i: "32 * i + 32 \<le> 1028" using Suc.prems(4) by simp
  note e = entry_wrote [OF Suc.prems(1) len Suc.prems(3) i]
  have cnt: "ptable_count (fst o1) t = ptable_count m t"
    using load32_wrote [OF Suc.prems(1) len Suc.prems(3), of 1024] by (simp add: ptable_count_def ptable_count_addr_def)
  have get: "ptable_get (fst o1) t (int i) = ?p"
    using Suc.prems(5) by (simp add: ptable_get_def cnt ptable_parts_nat)
  define ys where "ys = (if ptn_type m ?p = TYPE_MODEM_PARTITION then [] else atag_ptbl_entry m ?p)"
  have "wrote m tags (bs @ ys) (ptentry_to_tag ?p o1)"
    using Suc.prems(1) e by (auto simp: ptentry_to_tag_def wrote_def ys_def wr_append)
  moreover have "length ys \<le> 28" by (simp add: ys_def)
  ultimately have "wrote m tags ((bs @ ys) @ listed m t [Suc i..<Suc i + k]) (ptable_to_tag t k (int (Suc i)) (ptentry_to_tag ?p o1))"
    using Suc.prems by (intro Suc.IH) simp_all
  moreover have "[i..<i + Suc k] = i # [Suc i..<Suc i + k]" using upt_conv_Cons [of i "i + Suc k"] by simp
  ultimately show ?case by (simp add: get listed_def ys_def add.commute)
qed

lemma unat_and_not_3: "unat ((x :: u32) AND NOT 3) = 4 * (unat x div 4)"
proof -
  have "x AND 3 = take_bit 2 x" by (simp add: take_bit_eq_mask mask_eq_exp_minus_1)
  then have "x AND 3 = x mod 4" by (simp add: take_bit_eq_mod)
  then have m: "unat (x AND 3) = unat x mod 4" by (simp add: unat_mod)
  have "(x AND NOT 3) AND (x AND 3) = 0" by (rule bit_word_eqI) (simp add: bit_simps)
  then have "(x AND NOT 3) + (x AND 3) = (x AND NOT 3) OR (x AND 3)" by (rule disjunctive_add_eq_or)
  also have "\<dots> = x" by (rule bit_word_eqI) (auto simp: bit_simps)
  finally have "x AND NOT 3 = x - (x AND 3)" by (metis add_diff_cancel_right')
  moreover have "x AND 3 \<le> x" by (simp add: word_le_nat_alt m)
  ultimately have "unat (x AND NOT 3) = unat x - unat x mod 4" by (simp add: unat_sub m)
  then show ?thesis by (simp add: minus_mod_eq_mult_div)
qed

lemma put_cmdline_wrote:
  assumes w: "wrote m tags bs o1" and c: "cstr m cmd cs" and sep: "sep cmd (length cs + 1) tags L"
    and len: "length bs + length cs + 12 \<le> L" and L: "L < 2 ^ 31"
  shows "\<exists>o2 pad. put_cmdline cmd o1 = Some o2 \<and> length pad \<le> 4 \<and> 4 dvd length (cs @ pad) \<and>
    wrote m tags (bs @ (if cs = [] then [] else encode_tag (ATAG_CMDLINE, cs @ pad))) o2"
proof -
  have c1: "cstr (fst o1) cmd cs"
    using w c sep len by (simp add: wrote_def) (rule cstr_wr_apart, auto intro: sep_le)
  have n: "strlen (fst o1) cmd = Some (of_nat (length cs))" using c1 by (rule strlen_cstr)
  have i: "sint (of_nat (length cs) :: u32) = int (length cs)" using len L by (intro sint_of_nat_u32) simp
  show ?thesis
  proof (cases "cs = []")
    case True
    with n w show ?thesis by (intro exI [of _ o1] exI [of _ "[]"]) (simp add: put_cmdline_def)
  next
    case False
    let ?q = "length cs div 4 + 1"
    let ?n = "(of_nat (length cs) + 4 :: u32) AND NOT 3"
    have u: "unat (of_nat (length cs) + 4 :: u32) = length cs + 4"
      using len L unat_of_nat_u32 [of "length cs + 4"] by simp
    then have "unat (?n div 4) = ?q" by (simp only: unat_div unat_and_not_3) simp
    from arg_cong [OF this, of "of_nat :: nat \<Rightarrow> u32"] have d: "?n div 4 = of_nat ?q" by (simp del: of_nat_add)
    define bs1 where "bs1 = bs @ word_bytes (of_nat ?q + 2) @ word_bytes ATAG_CMDLINE"
    define o2 where "o2 = put ATAG_CMDLINE (put (of_nat ?q + 2) o1)"
    have w2: "wrote m tags bs1 o2"
      unfolding bs1_def o2_def using wrote_put [OF wrote_put [OF w]] by simp
    define p where "p = tags + of_nat (length bs1)"
    have o2: "o2 = (wr m tags bs1, p)" using w2 by (simp add: wrote_def p_def)
    have src: "rd (fst o2) cmd (length cs) = cs"
      using rd_wrote [OF w2 _ sep, of 0 "length cs"] len c by (simp add: bs1_def cstr_iff)
    have "sep cmd (length cs + 1) (tags + of_nat (length bs1)) (length cs)"
      by (rule sep_sub [OF sep]) (use len False in \<open>simp_all add: bs1_def\<close>)
    then have sp: "length cs \<le> unat (p - cmd)" by (simp add: sep_def p_def)
    have m2: "fst (memcpy (fst o2) p cmd (of_nat (length cs))) = wr (wr m tags bs1) p cs"
      using src sp len L memcpy_wr [of "of_nat (length cs)" p cmd "fst o2"] by (simp add: o2 unat_of_nat_u32)
    define pad where "pad = rd (wr (wr m tags bs1) p cs) (p + of_nat (length cs)) (4 * ?q - length cs)"
    have lp: "length (cs @ pad) = 4 * ?q" "length pad \<le> 4" by (simp_all add: pad_def)
    have q2: "length (cs @ pad) div 4 + 2 = ?q + 2" unfolding lp by simp
    have enc: "encode_tag (ATAG_CMDLINE, cs @ pad) = word_bytes (of_nat ?q + 2) @ word_bytes ATAG_CMDLINE @ cs @ pad"
      unfolding encode_tag_def prod.case q2 by simp
    have "wr (wr m tags bs1) p cs = wr (wr (wr m tags bs1) p cs) (p + of_nat (length cs)) pad"
      unfolding pad_def by (rule wr_rd_id [symmetric]) simp
    also have "\<dots> = wr m tags (bs1 @ cs @ pad)" by (simp add: wr_append p_def)
    finally have m3: "wr (wr m tags bs1) p cs = wr m tags (bs @ encode_tag (ATAG_CMDLINE, cs @ pad))"
      by (simp add: enc bs1_def)
    have "p + of_nat (4 * ?q) = tags + of_nat (length (bs @ encode_tag (ATAG_CMDLINE, cs @ pad)))"
      using lp(1) by (simp add: p_def bs1_def enc)
    then have "put_cmdline cmd o1 = Some (wr m tags (bs @ encode_tag (ATAG_CMDLINE, cs @ pad)),
        tags + of_nat (length (bs @ encode_tag (ATAG_CMDLINE, cs @ pad))))"
      unfolding put_cmdline_def n bind.bind_lunit i Let_def d o2_def [symmetric] o2 prod.case
        m2 [unfolded o2 fst_conv] m3 using False by simp
    with False lp show ?thesis by (intro exI conjI) (auto simp: wrote_def)
  qed
qed

section \<open>The whole list\<close>

definition meant_tags :: "mem \<Rightarrow> ptr \<Rightarrow> nat \<Rightarrow> ptr \<Rightarrow> u32 \<Rightarrow> u8 list \<Rightarrow> (u32 \<times> u8 list) list" where
  "meant_tags m ptable count ramdisk ramdisk_size cmd =
    [(ATAG_CORE, [])] @
    (if ramdisk_size \<noteq> 0 then [(ATAG_INITRD2, word_bytes ramdisk @ word_bytes ramdisk_size)] else []) @
    [(ATAG_MEM, word_bytes EBI_BASE @ word_bytes EBI_SIZE), (ATAG_MEM, word_bytes EBIN_BASE @ word_bytes EBIN_SIZE)] @
    (if count \<noteq> 0 then [(ATAG_PTBL, listed m ptable [0..<count])] else []) @
    (if cmd \<noteq> [] then [(ATAG_CMDLINE, cmd)] else [])"

lemma length_word_tag [simp]: "length (encode_tag (t, b)) = length b + 8"
  by (simp add: encode_tag_def)

lemma put_ptable_wrote:
  assumes w: "wrote m tags bs o1" and len: "length bs + 904 \<le> L" and sep: "t \<noteq> 0 \<Longrightarrow> sep t 1028 tags L"
    and cnt: "if t = 0 then n = 0 else n \<le> 32 \<and> ptable_count m t = int n"
    and apps: "\<forall>i < n. ptn_type m (t + of_nat (32 * i)) \<noteq> TYPE_MODEM_PARTITION"
  shows "wrote m tags (bs @ (if n \<noteq> 0 then encode_tag (ATAG_PTBL, listed m t [0..<n]) else [])) (put_ptable t o1)"
proof (cases "n = 0")
  case True
  have "ptable_count (fst o1) t = ptable_count m t" if "t \<noteq> 0"
    using load32_wrote [OF w, of L t 1028 1024] sep that len by (simp add: ptable_count_def ptable_count_addr_def)
  with True w cnt show ?thesis by (auto simp: put_ptable_def)
next
  case False
  then have t: "t \<noteq> 0" "n \<le> 32" "ptable_count m t = int n" using cnt by (auto split: if_splits)
  have c: "ptable_count (fst o1) t = int n"
    using load32_wrote [OF w, of L t 1028 1024] sep t len by (simp add: ptable_count_def ptable_count_addr_def)
  let ?h = "word_bytes (2 + of_nat n * 7) @ word_bytes ATAG_PTBL"
  have "wrote m tags (bs @ ?h) (put ATAG_PTBL (put (2 + of_nat n * 7) o1))"
    using wrote_put [OF wrote_put [OF w]] by simp
  then have "wrote m tags ((bs @ ?h) @ listed m t [0..<0 + n]) (ptable_to_tag t n (int 0) (put ATAG_PTBL (put (2 + of_nat n * 7) o1)))"
    using t sep len by (intro ptable_to_tag_wrote [where L = L]) simp_all
  moreover have "length (listed m t is) = 28 * length is" if "\<forall>i \<in> set is. i < n" for "is"
    using that apps by (induction "is") (auto simp: listed_def)
  then have "length (listed m t [0..<n]) = 28 * n" by simp
  then have "encode_tag (ATAG_PTBL, listed m t [0..<n]) = ?h @ listed m t [0..<n]"
    by (simp add: encode_tag_def algebra_simps)
  ultimately show ?thesis using False t(1) by (simp add: put_ptable_def c)
qed

text \<open>The bounds on the command line leave room for every tag before it.\<close>

lemma boot_tags_parse:
  assumes L: "1000 + length cs \<le> L" "L < 2 ^ 31"
    and t: "t \<noteq> 0 \<Longrightarrow> sep t 1028 tags L" "if t = 0 then n = 0 else n \<le> 32 \<and> ptable_count m t = int n"
    and apps: "\<forall>i < n. ptn_type m (t + of_nat (32 * i)) \<noteq> TYPE_MODEM_PARTITION"
    and cmd: "sep cmdline 1 tags L" "sep tcmdline 1 tags L"
    and c: "cstr m (choose_cmdline m cmdline tcmdline) cs" "sep (choose_cmdline m cmdline tcmdline) (length cs + 1) tags L"
  shows "\<exists>m' pad. boot_tags m tags cmdline tcmdline ramdisk ramdisk_size t = Some m' \<and> length pad \<le> 4 \<and>
    (\<forall>q. L \<le> unat (q - tags) \<longrightarrow> m' q = m q) \<and>
    parse_tags 8 m' tags = meant_tags m t n ramdisk ramdisk_size (if cs = [] then [] else cs @ pad)"
proof -
  define core where "core = [(ATAG_CORE, [] :: u8 list)]"
  define initrd where "initrd = (if ramdisk_size \<noteq> 0 then [(ATAG_INITRD2, word_bytes ramdisk @ word_bytes ramdisk_size)] else [])"
  define mems where "mems = [(ATAG_MEM, word_bytes EBI_BASE @ word_bytes EBI_SIZE), (ATAG_MEM, word_bytes EBIN_BASE @ word_bytes EBIN_SIZE)]"
  define ptbl where "ptbl = (if n \<noteq> 0 then [(ATAG_PTBL, listed m t [0..<n])] else [])"
  let ?e = "\<lambda>ts. concat (map encode_tag ts)"
  define o1 where "o1 = put ATAG_CORE (put 2 (m, tags))"
  define o2 where "o2 = (if ramdisk_size \<noteq> 0 then fold put [4, ATAG_INITRD2, ramdisk, ramdisk_size] o1 else o1)"
  define o3 where "o3 = target_atag_mem o2"
  define o4 where "o4 = put_ptable t o3"
  have w1: "wrote m tags (?e core) o1"
    unfolding o1_def using wrote_put [OF wrote_put [OF wrote_Nil]] by (simp add: core_def encode_tag_def)
  have w2: "wrote m tags (?e (core @ initrd)) o2"
    using w1 wrote_fold [OF w1, of "[4, ATAG_INITRD2, ramdisk, ramdisk_size]"]
    by (simp add: o2_def initrd_def encode_tag_def)
  have w3: "wrote m tags (?e (core @ initrd @ mems)) o3"
    unfolding o3_def target_atag_mem_def
    using wrote_fold [OF w2, of "[4, ATAG_MEM, EBI_BASE, EBI_SIZE, 4, ATAG_MEM, EBIN_BASE, EBIN_SIZE]"]
    by (simp add: mems_def encode_tag_def)
  have l3: "length (?e (core @ initrd @ mems)) \<le> 64" by (simp add: core_def initrd_def mems_def)
  have w4: "wrote m tags (?e (core @ initrd @ mems @ ptbl)) o4"
    using put_ptable_wrote [OF w3 _ t apps] l3 L by (auto simp: o4_def ptbl_def)
  have n: "n \<le> 32" using t(2) by (auto split: if_splits)
  have l4: "length (?e (core @ initrd @ mems @ ptbl)) \<le> 968"
    using l3 n length_listed [of m t "[0..<n]"] by (simp add: ptbl_def)
  define bs where "bs = ?e (core @ initrd @ mems @ ptbl)"
  have l4: "length bs \<le> 968" unfolding bs_def by (rule l4)
  note w4 = w4 [folded bs_def]
  have same: "fst o4 q = m q" if "sep q 1 tags L" for q
    using rd_wrote [OF w4 _ that, of 0 1] l4 L by (simp add: rd_Suc)
  have ch: "choose_cmdline (fst o4) cmdline tcmdline = choose_cmdline m cmdline tcmdline"
    using cmd by (simp add: choose_cmdline_def same)
  from put_cmdline_wrote [OF w4 c _ L(2)] l4 L(1) obtain o5 pad where
    o5: "put_cmdline (choose_cmdline m cmdline tcmdline) o4 = Some o5" and pad: "length pad \<le> 4" "4 dvd length (cs @ pad)"
    and w5: "wrote m tags (bs @ (if cs = [] then [] else encode_tag (ATAG_CMDLINE, cs @ pad))) o5" by auto
  define ts where "ts = core @ initrd @ mems @ ptbl @ (if cs = [] then [] else [(ATAG_CMDLINE, cs @ pad)])"
  have "wrote m tags (?e ts) o5" using w5 by (simp add: ts_def bs_def split: if_splits)
  from wrote_put [OF wrote_put [OF this]] have w6: "wrote m tags (?e ts @ word_bytes 0 @ word_bytes 0) (put 0 (put 0 o5))" by simp
  define m' where "m' = fst (put 0 (put 0 o5))"
  have m': "m' = wr m tags (?e ts @ word_bytes 0 @ word_bytes 0)" using w6 by (simp add: m'_def wrote_def)
  have "?e ts = bs @ (if cs = [] then [] else encode_tag (ATAG_CMDLINE, cs @ pad))" by (simp add: ts_def bs_def)
  then have l6: "length (?e ts) + 8 \<le> L" using l4 pad(1) L(1) by simp
  have "rd m' tags (length (?e ts @ word_bytes 0 @ word_bytes 0)) = ?e ts @ word_bytes 0 @ word_bytes 0"
    unfolding m' using l6 L(2) by (intro rd_wr_same) simp
  then have "rd m' tags ((length (?e ts) + 4) + 4) = (?e ts @ word_bytes 0) @ word_bytes 0" by (simp add: add.assoc)
  then have "rd m' tags (length (?e ts) + 4) = ?e ts @ word_bytes 0"
    unfolding rd_add [of m' tags "length (?e ts) + 4" 4] by (subst (asm) append_eq_append_conv) simp_all
  moreover have "4 dvd length (listed m t [0..<n])" by (rule listed_dvd)
  then have "\<forall>t \<in> set ts. tag_ok t"
    using pad L n length_listed [of m t "[0..<n]"]
    by (auto simp: ts_def core_def initrd_def mems_def ptbl_def tag_ok_def)
  moreover have "length ts < 8" by (simp add: ts_def core_def initrd_def mems_def ptbl_def)
  ultimately have "parse_tags 8 m' tags = ts" by (rule parse_encoded)
  also have "ts = meant_tags m t n ramdisk ramdisk_size (if cs = [] then [] else cs @ pad)"
    by (auto simp: ts_def core_def initrd_def mems_def ptbl_def meant_tags_def)
  finally have p: "parse_tags 8 m' tags = meant_tags m t n ramdisk ramdisk_size (if cs = [] then [] else cs @ pad)" .
  have "m' q = m q" if "L \<le> unat (q - tags)" for q unfolding m' using that l6 by (intro wr_other) simp
  moreover have "boot_tags m tags cmdline tcmdline ramdisk ramdisk_size t = Some m'"
    unfolding boot_tags_def Let_def o1_def [symmetric] o2_def [symmetric] o3_def [symmetric] o4_def [symmetric] ch o5
    by (simp add: m'_def)
  ultimately show ?thesis using p pad(1) by blast
qed

end
