(* ===== verification/Lk_Aboot.thy ===== *)
theory Lk_Aboot
  imports Lk_Fastok Lk_Atags Lk_Flash
begin

text \<open>
  The boot loader application (\<open>app/aboot/aboot.c\<close>): booting a kernel from flash or from a
  downloaded image, and the commands it adds to fastboot; with the choices of the target it asks
  for (\<open>target/init.c\<close>, \<open>target/msm7200a_htc_wince/init.c\<close>).

  A function of the code that starts the kernel or restarts the device does not return. The
  functions here say so with a sum: \<open>Inl\<close> a state that is returned, \<open>Inr\<close> the machine that is left
  behind with the place where the processor goes on.
\<close>

section \<open>The target\<close>

definition SCRATCH_ADDR :: u32 where "SCRATCH_ADDR = 0x10000000 + 0x01000000"
definition TAGS_ADDR :: u32 where "TAGS_ADDR = 0x10000000 + 0x00000100"
definition KERNEL_ADDR :: u32 where "KERNEL_ADDR = 0x10000000 + 0x00008000"
definition RAMDISK_ADDR :: u32 where "RAMDISK_ADDR = 0x10000000 + 0x00800000"

record msm7k_board =
  scratch_addr :: ptr
  scratch_size :: u32
  board_cmdline :: ptr

text \<open>
  The makefile passes \<open>SCRATCH_ADDR\<close> to the compiler as the text \<open>0x10000000+0x01000000\<close>, without
  parentheses, so that the subtraction takes away the first number and adds the second. The
  address comes from the default in \<open>target/init.c\<close>: the target defines a function of another name.
\<close>

definition target_get_scratch_address :: ptr where
  "target_get_scratch_address = SCRATCH_ADDR"

definition target_get_scratch_size :: "msm7k_board option \<Rightarrow> u32" where
  "target_get_scratch_size board =
    (case board of
       Some b \<Rightarrow> if scratch_addr b \<noteq> 0 then scratch_size b else push_bit 20 98 - 0x10000000 + 0x01000000
     | None \<Rightarrow> push_bit 20 98 - 0x10000000 + 0x01000000)"

definition target_get_cmdline :: "(string \<Rightarrow> ptr) \<Rightarrow> msm7k_board option \<Rightarrow> ptr" where
  "target_get_cmdline lit board =
    (case board of Some b \<Rightarrow> if board_cmdline b \<noteq> 0 then board_cmdline b else lit '''' | None \<Rightarrow> lit '''')"

definition target_is_emmc_boot :: bool where
  "target_is_emmc_boot \<longleftrightarrow> False"

datatype boot_reason = BOOT_UNKNOWN | BOOT_WARM | BOOT_COLD | BOOT_CHARGING | BOOT_BATTERY | BOOT_UNEXPECTED
  | BOOT_RECOVERY | BOOT_FASTBOOT

definition MARK_BUTTON :: u32 where "MARK_BUTTON = 0x42555454"
definition MARK_CHARGER :: u32 where "MARK_CHARGER = 0x43515247"
definition MARK_BATTERY :: u32 where "MARK_BATTERY = 0x4e424234"
definition MARK_OFF :: u32 where "MARK_OFF = 0x4f465352"
definition MARK_RESET :: u32 where "MARK_RESET = 0x52455354"
definition MARK_SOFTRESET :: u32 where "MARK_SOFTRESET = 0x53525354"
definition MARK_FASTBOOT :: u32 where "MARK_FASTBOOT = 0x46414254"
definition MARK_RECOVERY :: u32 where "MARK_RECOVERY = 0x52435652"
definition MARK_LK_TAG :: u32 where "MARK_LK_TAG = 0x504f4f50"

definition LK_BOOTREASON_ADDR :: ptr where "LK_BOOTREASON_ADDR = 0x8dfff0"
definition SPL_BOOT_REASON_ADDR :: ptr where "SPL_BOOT_REASON_ADDR = 0x8105c"

text \<open>The boot reason is kept in memory, which survives a restart.\<close>

definition get_boot_reason :: "mem \<Rightarrow> boot_reason" where
  "get_boot_reason m =
    (let bootcode = load32 m SPL_BOOT_REASON_ADDR;
         ret = (if bootcode = MARK_BUTTON then BOOT_COLD
                else if bootcode = MARK_CHARGER then BOOT_CHARGING
                else if bootcode = MARK_BATTERY then BOOT_BATTERY
                else if bootcode = MARK_OFF then BOOT_UNEXPECTED
                else if bootcode = MARK_RESET then BOOT_WARM
                else if bootcode = MARK_SOFTRESET then BOOT_WARM
                else BOOT_UNKNOWN);
         sgn = load32 m LK_BOOTREASON_ADDR;
         xsgn = load32 m (LK_BOOTREASON_ADDR + 4)
     in if sgn XOR xsgn = MARK_LK_TAG \<and> sgn = MARK_FASTBOOT then BOOT_FASTBOOT
        else if sgn XOR xsgn = MARK_LK_TAG \<and> sgn = MARK_RECOVERY then BOOT_RECOVERY
        else ret)"

text \<open>
  \<open>platform_exit\<close> calls \<open>target_exit\<close>; of its effects the model has the ones on memory. What
  \<open>reboot_device\<close> leaves in memory before the other processor restarts the device:
\<close>

definition target_exit :: "mem \<Rightarrow> mem" where
  "target_exit m = store32 (store32 m LK_BOOTREASON_ADDR 0) (LK_BOOTREASON_ADDR + 4) 0"

definition platform_exit :: "mem \<Rightarrow> mem" where
  "platform_exit m = target_exit m"

definition reboot_device :: "boot_reason \<Rightarrow> mem \<Rightarrow> mem" where
  "reboot_device reboot_mode m =
    (let m1 = (case reboot_mode of
                 BOOT_FASTBOOT \<Rightarrow> store32 (store32 m LK_BOOTREASON_ADDR MARK_FASTBOOT)
                   (LK_BOOTREASON_ADDR + 4) (MARK_FASTBOOT XOR MARK_LK_TAG)
               | BOOT_RECOVERY \<Rightarrow> store32 (store32 m LK_BOOTREASON_ADDR MARK_RECOVERY)
                   (LK_BOOTREASON_ADDR + 4) (MARK_RECOVERY XOR MARK_LK_TAG)
               | _ \<Rightarrow> store32 (store32 m LK_BOOTREASON_ADDR 0) (LK_BOOTREASON_ADDR + 4) 0);
         m2 = store32 m1 SPL_BOOT_REASON_ADDR (if reboot_mode = BOOT_CHARGING then MARK_CHARGER else MARK_SOFTRESET)
     in platform_exit m2)"

section \<open>The state\<close>

text \<open>
  \<open>nand\<close> is the state of the flash driver; the memory and the devices are those of the whole
  machine and are put into it when the driver runs. \<open>boot_buf\<close> is the buffer of \<open>aboot.c\<close>, \<open>boot_hdr\<close>
  the header that \<open>cmd_boot\<close> has on the stack.
\<close>

record ('hw, 'h) aboot = "('hw, 'h) fastboot" +
  nand :: "'hw nand"
  page_size :: u32
  page_mask :: u32
  boot_into_recovery :: u32
  boot_buf :: ptr
  boot_hdr :: ptr
  udc_running :: bool

definition on_flash :: "('hw nand \<Rightarrow> ('a \<times> 'hw nand) option) \<Rightarrow> ('hw, 'h, 'z) aboot_scheme \<Rightarrow> ('a \<times> ('hw, 'h, 'z) aboot_scheme) option" where
  "on_flash f s =
    do { (r, n) \<leftarrow> f ((nand s)\<lparr>ram := fmem s, device := fdev s\<rparr>);
         Some (r, s\<lparr>fmem := ram n, fdev := device n, nand := n\<rparr>) }"

text \<open>Where the processor goes when a function does not return.\<close>

datatype leave = Kernel ptr u32 ptr | Restart

section \<open>Booting\<close>

definition ROUND_TO_PAGE :: "u32 \<Rightarrow> u32 \<Rightarrow> u32" where
  "ROUND_TO_PAGE x y = (x + y) AND NOT y"

definition BOOT_MAGIC_SIZE :: u32 where "BOOT_MAGIC_SIZE = 8"
definition BOOT_ARGS_SIZE :: u32 where "BOOT_ARGS_SIZE = 512"
definition SIZEOF_BOOT_IMG_HDR :: u32 where "SIZEOF_BOOT_IMG_HDR = 608"

definition hdr_kernel_size :: "mem \<Rightarrow> ptr \<Rightarrow> u32" where "hdr_kernel_size m h = load32 m (h + 8)"
definition hdr_kernel_addr :: "mem \<Rightarrow> ptr \<Rightarrow> u32" where "hdr_kernel_addr m h = load32 m (h + 12)"
definition hdr_ramdisk_size :: "mem \<Rightarrow> ptr \<Rightarrow> u32" where "hdr_ramdisk_size m h = load32 m (h + 16)"
definition hdr_ramdisk_addr :: "mem \<Rightarrow> ptr \<Rightarrow> u32" where "hdr_ramdisk_addr m h = load32 m (h + 20)"
definition hdr_page_size :: "mem \<Rightarrow> ptr \<Rightarrow> u32" where "hdr_page_size m h = load32 m (h + 36)"
definition hdr_cmdline :: "ptr \<Rightarrow> ptr" where "hdr_cmdline h = h + 64"

definition boot_linux ::
    "(string \<Rightarrow> ptr) \<Rightarrow> msm7k_board option \<Rightarrow> ptr \<Rightarrow> ptr \<Rightarrow> ptr \<Rightarrow> u32 \<Rightarrow> ptr \<Rightarrow> u32 \<Rightarrow> ('hw, 'h, 'z) aboot_scheme
     \<Rightarrow> (('hw, 'h, 'z) aboot_scheme \<times> leave) option" where
  "boot_linux lit board entry tags cmdline machtype ramdisk ramdisk_size s =
    do {
      m \<leftarrow> boot_tags (fmem s) tags cmdline (target_get_cmdline lit board) ramdisk ramdisk_size (flash_get_ptable (nand s));
      Some (s\<lparr>fmem := platform_exit m\<rparr>, Kernel entry machtype tags)
    }"

text \<open>The read of one part of the image: the offset goes on by the length.\<close>

definition boot_linux_from_flash ::
    "'hw bus \<Rightarrow> (string \<Rightarrow> ptr) \<Rightarrow> msm7k_board option \<Rightarrow> u32 \<Rightarrow> ('hw, 'h, 'z) aboot_scheme
     \<Rightarrow> (('hw, 'h, 'z) aboot_scheme + ('hw, 'h, 'z) aboot_scheme \<times> leave) option" where
  "boot_linux_from_flash b lit board machtype s =
    (let ptable = flash_get_ptable (nand s); hdr = boot_buf s in
     if ptable = 0 then Some (Inl s)
     else do {
       ptn \<leftarrow> ptable_find (fmem s) ptable (lit (if boot_into_recovery s = 0 then ''boot'' else ''recovery''));
       if ptn = 0 then Some (Inl s)
       else do {
         (r, s1) \<leftarrow> on_flash (flash_read b ptn 0 (boot_buf s) (page_size s)) s;
         if r \<noteq> 0 then Some (Inl s1)
         else if memcmp (fmem s1) hdr (lit ''ANDROID!'') BOOT_MAGIC_SIZE \<noteq> 0 then Some (Inl s1)
         else if hdr_page_size (fmem s1) hdr \<noteq> page_size s1 then Some (Inl s1)
         else do {
           let n = ROUND_TO_PAGE (hdr_kernel_size (fmem s1) hdr) (page_mask s1);
           (r, s2) \<leftarrow> on_flash (flash_read b ptn (page_size s1) (hdr_kernel_addr (fmem s1) hdr) n) s1;
           if r \<noteq> 0 then Some (Inl s2)
           else do {
             let n2 = ROUND_TO_PAGE (hdr_ramdisk_size (fmem s2) hdr) (page_mask s2);
             (r, s3) \<leftarrow> on_flash (flash_read b ptn (page_size s1 + n) (hdr_ramdisk_addr (fmem s2) hdr) n2) s2;
             if r \<noteq> 0 then Some (Inl s3)
             else do {
               let cmdline = (if fmem s3 (hdr_cmdline hdr) \<noteq> 0 then hdr_cmdline hdr else target_get_cmdline lit board);
               left \<leftarrow> boot_linux lit board (hdr_kernel_addr (fmem s3) hdr) TAGS_ADDR cmdline machtype
                 (hdr_ramdisk_addr (fmem s3) hdr) (hdr_ramdisk_size (fmem s3) hdr) s3;
               Some (Inr left)
             }
           }
         }
       }
     })"

section \<open>The commands of the boot loader\<close>

definition udc_stop :: "('hw, 'h, 'z) aboot_scheme \<Rightarrow> ('hw, 'h, 'z) aboot_scheme" where
  "udc_stop s = s\<lparr>udc_running := False\<rparr>"

definition cmd_boot ::
    "'hw udc \<Rightarrow> (string \<Rightarrow> ptr) \<Rightarrow> msm7k_board option \<Rightarrow> u32 \<Rightarrow> ptr \<Rightarrow> u32 \<Rightarrow> ('hw, 'h, 'z) aboot_scheme
     \<Rightarrow> (('hw, 'h, 'z) aboot_scheme + ('hw, 'h, 'z) aboot_scheme \<times> leave) option" where
  "cmd_boot u lit board machtype data sz s =
    (if sz < SIZEOF_BOOT_IMG_HDR then map_option Inl (fastboot_fail u lit (lit ''invalid bootimage header'') s)
     else do {
       let hdr = boot_hdr s;
       let m1 = fst (memcpy (fmem s) hdr data SIZEOF_BOOT_IMG_HDR);
       let m2 = m1(hdr_cmdline hdr + (BOOT_ARGS_SIZE - 1) := 0);
       let s2 = s\<lparr>fmem := m2\<rparr>;
       let s3 = (if target_is_emmc_boot \<and> hdr_page_size m2 hdr \<noteq> 0
                 then s2\<lparr>page_size := hdr_page_size m2 hdr, page_mask := hdr_page_size m2 hdr - 1\<rparr> else s2);
       let kernel_actual = ROUND_TO_PAGE (hdr_kernel_size m2 hdr) (page_mask s3);
       let ramdisk_actual = ROUND_TO_PAGE (hdr_ramdisk_size m2 hdr) (page_mask s3);
       if page_size s3 + kernel_actual + ramdisk_actual < sz
       then map_option Inl (fastboot_fail u lit (lit ''incomplete bootimage'') s3)
       else do {
         let m4 = fst (memmove m2 KERNEL_ADDR (data + page_size s3) (hdr_kernel_size m2 hdr));
         let m5 = fst (memmove m4 RAMDISK_ADDR (data + page_size s3 + kernel_actual) (hdr_ramdisk_size m4 hdr));
         s6 \<leftarrow> fastboot_okay u lit (lit '''') (s3\<lparr>fmem := m5\<rparr>);
         left \<leftarrow> boot_linux lit board KERNEL_ADDR TAGS_ADDR (hdr_cmdline hdr) machtype RAMDISK_ADDR
           (hdr_ramdisk_size (fmem s6) hdr) (udc_stop s6);
         Some (Inr left)
       }
     })"

definition cmd_erase ::
    "'hw bus \<Rightarrow> 'hw udc \<Rightarrow> (string \<Rightarrow> ptr) \<Rightarrow> ptr \<Rightarrow> ('hw, 'h, 'z) aboot_scheme \<Rightarrow> ('hw, 'h, 'z) aboot_scheme option" where
  "cmd_erase b u lit arg s =
    (let ptable = flash_get_ptable (nand s) in
     if ptable = 0 then fastboot_fail u lit (lit ''partition table doesn't exist'') s
     else do {
       ptn \<leftarrow> ptable_find (fmem s) ptable arg;
       if ptn = 0 then fastboot_fail u lit (lit ''unknown partition name'') s
       else do {
         (r, s1) \<leftarrow> on_flash (flash_erase b ptn) s;
         if r \<noteq> 0 then fastboot_fail u lit (lit ''failed to erase partition'') s1
         else fastboot_okay u lit (lit '''') s1
       }
     })"

text \<open>\<open>!strcmp(ptn->name, a) || !strcmp(ptn->name, b) || \<dots>\<close>\<close>

fun named_any :: "mem \<Rightarrow> ptr \<Rightarrow> ptr list \<Rightarrow> bool option" where
  "named_any m name [] = Some False"
| "named_any m name (w # ws) =
    do { c \<leftarrow> strcmp m name w; if c = 0 then Some True else named_any m name ws }"

definition cmd_flash ::
    "'hw bus \<Rightarrow> 'hw udc \<Rightarrow> (string \<Rightarrow> ptr) \<Rightarrow> ptr \<Rightarrow> ptr \<Rightarrow> u32 \<Rightarrow> ('hw, 'h, 'z) aboot_scheme \<Rightarrow> ('hw, 'h, 'z) aboot_scheme option" where
  "cmd_flash b u lit arg data sz s =
    (let ptable = flash_get_ptable (nand s) in
     if ptable = 0 then fastboot_fail u lit (lit ''partition table doesn't exist'') s
     else do {
       ptn \<leftarrow> ptable_find (fmem s) ptable arg;
       if ptn = 0 then fastboot_fail u lit (lit ''unknown partition name'') s
       else do {
         image \<leftarrow> named_any (fmem s) ptn [lit ''boot'', lit ''recovery''];
         if image \<and> memcmp (fmem s) data (lit ''ANDROID!'') BOOT_MAGIC_SIZE \<noteq> 0
         then fastboot_fail u lit (lit ''image is not a boot image'') s
         else do {
           with_spare \<leftarrow> named_any (fmem s) ptn [lit ''system'', lit ''userdata'', lit ''persist''];
           let extra = (if with_spare then drop_bit 9 (page_size s) * 16 else 0);
           let sz1 = (if with_spare then sz else ROUND_TO_PAGE sz (page_mask s));
           (r, s1) \<leftarrow> on_flash (flash_write b ptn extra data sz1) s;
           if r \<noteq> 0 then fastboot_fail u lit (lit ''flash write failure'') s1
           else fastboot_okay u lit (lit '''') s1
         }
       }
     })"

definition cmd_continue ::
    "'hw bus \<Rightarrow> 'hw udc \<Rightarrow> (string \<Rightarrow> ptr) \<Rightarrow> msm7k_board option \<Rightarrow> u32 \<Rightarrow> ('hw, 'h, 'z) aboot_scheme
     \<Rightarrow> (('hw, 'h, 'z) aboot_scheme + ('hw, 'h, 'z) aboot_scheme \<times> leave) option" where
  "cmd_continue b u lit board machtype s =
    do {
      s1 \<leftarrow> fastboot_okay u lit (lit '''') s;
      boot_linux_from_flash b lit board machtype (udc_stop s1)
    }"

definition restart :: "boot_reason \<Rightarrow> ('hw, 'h, 'z) aboot_scheme \<Rightarrow> ('hw, 'h, 'z) aboot_scheme \<times> leave" where
  "restart r s = (s\<lparr>fmem := reboot_device r (fmem s)\<rparr>, Restart)"

definition cmd_reboot ::
    "'hw udc \<Rightarrow> (string \<Rightarrow> ptr) \<Rightarrow> ('hw, 'h, 'z) aboot_scheme \<Rightarrow> (('hw, 'h, 'z) aboot_scheme \<times> leave) option" where
  "cmd_reboot u lit s = do { s1 \<leftarrow> fastboot_okay u lit (lit '''') s; Some (restart BOOT_WARM s1) }"

definition cmd_reboot_bootloader ::
    "'hw udc \<Rightarrow> (string \<Rightarrow> ptr) \<Rightarrow> ('hw, 'h, 'z) aboot_scheme \<Rightarrow> (('hw, 'h, 'z) aboot_scheme \<times> leave) option" where
  "cmd_reboot_bootloader u lit s = do { s1 \<leftarrow> fastboot_okay u lit (lit '''') s; Some (restart BOOT_FASTBOOT s1) }"

section \<open>Fastboot mode\<close>

datatype aboot_handler = H_getvar | H_download | H_flash | H_erase | H_boot | H_continue | H_reboot | H_reboot_bootloader

text \<open>A handler that does not return is \<open>None\<close> for the command loop.\<close>

definition returned :: "('a + 'b) option \<Rightarrow> 'a option" where
  "returned r = (case r of Some (Inl s) \<Rightarrow> Some s | _ \<Rightarrow> None)"

definition aboot_call ::
    "'hw bus \<Rightarrow> 'hw udc \<Rightarrow> (string \<Rightarrow> ptr) \<Rightarrow> msm7k_board option \<Rightarrow> u32 \<Rightarrow> aboot_handler \<Rightarrow> ptr \<Rightarrow> ptr \<Rightarrow> u32
     \<Rightarrow> ('hw, aboot_handler, 'z) aboot_scheme \<Rightarrow> ('hw, aboot_handler, 'z) aboot_scheme option" where
  "aboot_call b u lit board machtype h arg data sz s =
    (case h of
       H_getvar \<Rightarrow> cmd_getvar u lit arg s
     | H_download \<Rightarrow> cmd_download u lit arg s
     | H_flash \<Rightarrow> cmd_flash b u lit arg data sz s
     | H_erase \<Rightarrow> cmd_erase b u lit arg s
     | H_boot \<Rightarrow> returned (cmd_boot u lit board machtype data sz s)
     | H_continue \<Rightarrow> returned (cmd_continue b u lit board machtype s)
     | H_reboot \<Rightarrow> returned (map_option Inr (cmd_reboot u lit s))
     | H_reboot_bootloader \<Rightarrow> returned (map_option Inr (cmd_reboot_bootloader u lit s)))"

definition enter_fastboot ::
    "'hw udc \<Rightarrow> (string \<Rightarrow> ptr) \<Rightarrow> msm7k_board option \<Rightarrow> ('hw, aboot_handler, 'z) aboot_scheme
     \<Rightarrow> ('hw, aboot_handler, 'z) aboot_scheme option" where
  "enter_fastboot u lit board s =
    do {
      s \<leftarrow> fastboot_register (lit ''flash:'') H_flash s;
      s \<leftarrow> fastboot_register (lit ''erase:'') H_erase s;
      s \<leftarrow> fastboot_register (lit ''boot'') H_boot s;
      s \<leftarrow> fastboot_register (lit ''continue'') H_continue s;
      s \<leftarrow> fastboot_register (lit ''reboot'') H_reboot s;
      s \<leftarrow> fastboot_register (lit ''reboot-bootloader'') H_reboot_bootloader s;
      s \<leftarrow> fastboot_publish (lit ''product'') (lit ''msm7200a_htc_wince'') s;
      s \<leftarrow> fastboot_publish (lit ''kernel'') (lit ''lk'') s;
      (_, s) \<leftarrow> fastboot_init u lit H_getvar H_download target_get_scratch_address (target_get_scratch_size board) s;
      Some (s\<lparr>udc_running := True\<rparr>)
    }"

end
