(* ===== verification/Lk_Recovery.thy ===== *)
theory Lk_Recovery
  imports Lk_Aboot
begin

text \<open>
  Messages between the boot loader and the recovery system (\<open>app/aboot/recovery.c\<close>), kept in the
  second page of the partition \<open>misc\<close>, the firmware updates they ask for, and the start of the boot
  loader (\<open>boot_nand\<close>, \<open>boot_recovery\<close> and \<open>aboot_init\<close> of \<open>aboot.c\<close>), which decides on them,
  on the boot reason and on the keys.
\<close>

section \<open>Recovery messages\<close>

definition MISC_COMMAND_PAGE :: u32 where "MISC_COMMAND_PAGE = 1"
definition SIZEOF_RECOVERY_MESSAGE :: u32 where "SIZEOF_RECOVERY_MESSAGE = 1088"
definition SIZEOF_UPDATE_HEADER :: u32 where "SIZEOF_UPDATE_HEADER = 60"
definition UPDATE_MAGIC_SIZE :: u32 where "UPDATE_MAGIC_SIZE = 16"

definition msg_command :: "ptr \<Rightarrow> ptr" where "msg_command p = p"
definition msg_status :: "ptr \<Rightarrow> ptr" where "msg_status p = p + 32"
definition hdr_image_offset :: "mem \<Rightarrow> ptr \<Rightarrow> u32" where "hdr_image_offset m p = load32 m (p + 24)"
definition hdr_image_length :: "mem \<Rightarrow> ptr \<Rightarrow> u32" where "hdr_image_length m p = load32 m (p + 28)"

text \<open>
  The buffer of \<open>recovery.c\<close> and, on the stack of \<open>recovery_init\<close>, the message, the header of an
  update and the name of a partition.
\<close>

record recovery_vars =
  rec_buf :: ptr
  rec_msg :: ptr
  rec_header :: ptr
  rec_partition :: ptr

text \<open>
  Every function looks its partition up in the table; \<open>0\<close> stands for a missing table as for a
  missing partition, which the code treats alike.
\<close>

definition find_partition :: "ptr \<Rightarrow> ('hw, 'h, 'z) aboot_scheme \<Rightarrow> ptr option" where
  "find_partition name s =
    (let ptable = flash_get_ptable (nand s) in if ptable = 0 then Some 0 else ptable_find (fmem s) ptable name)"

definition get_recovery_message ::
    "'hw bus \<Rightarrow> (string \<Rightarrow> ptr) \<Rightarrow> recovery_vars \<Rightarrow> ptr \<Rightarrow> ('hw, 'h, 'z) aboot_scheme \<Rightarrow> (int \<times> ('hw, 'h, 'z) aboot_scheme) option" where
  "get_recovery_message b lit v out s =
    do {
      let pagesize = flash_page_size (nand s);
      ptn \<leftarrow> find_partition (lit ''misc'') s;
      if ptn = 0 then Some (- 1, s)
      else do {
        (r, s1) \<leftarrow> on_flash (flash_read b ptn (pagesize * MISC_COMMAND_PAGE) (rec_buf v) pagesize) s;
        if r \<noteq> 0 then Some (- 1, s1)
        else Some (0, s1\<lparr>fmem := fst (memcpy (fmem s1) out (rec_buf v) SIZEOF_RECOVERY_MESSAGE)\<rparr>)
      }
    }"

definition set_recovery_message ::
    "'hw bus \<Rightarrow> (string \<Rightarrow> ptr) \<Rightarrow> ptr \<Rightarrow> ('hw, 'h, 'z) aboot_scheme \<Rightarrow> (int \<times> ('hw, 'h, 'z) aboot_scheme) option" where
  "set_recovery_message b lit msg s =
    do {
      let pagesize = flash_page_size (nand s);
      ptn \<leftarrow> find_partition (lit ''misc'') s;
      if ptn = 0 then Some (- 1, s)
      else do {
        let n = pagesize * (MISC_COMMAND_PAGE + 1);
        (r, s1) \<leftarrow> on_flash (flash_read b ptn 0 SCRATCH_ADDR n) s;
        if r \<noteq> 0 then Some (- 1, s1)
        else do {
          let offset = pagesize * MISC_COMMAND_PAGE + SCRATCH_ADDR;
          let s2 = s1\<lparr>fmem := fst (memcpy (fmem s1) offset msg SIZEOF_RECOVERY_MESSAGE)\<rparr>;
          (r, s3) \<leftarrow> on_flash (flash_write b ptn 0 SCRATCH_ADDR n) s2;
          Some (if r \<noteq> 0 then - 1 else 0, s3)
        }
      }
    }"

definition read_update_header_for_bootloader ::
    "'hw bus \<Rightarrow> (string \<Rightarrow> ptr) \<Rightarrow> recovery_vars \<Rightarrow> ptr \<Rightarrow> ('hw, 'h, 'z) aboot_scheme \<Rightarrow> (int \<times> ('hw, 'h, 'z) aboot_scheme) option" where
  "read_update_header_for_bootloader b lit v header s =
    do {
      let pagesize = flash_page_size (nand s);
      ptn \<leftarrow> find_partition (lit ''cache'') s;
      if ptn = 0 then Some (- 1, s)
      else do {
        (r, s1) \<leftarrow> on_flash (flash_read b ptn 0 (rec_buf v) pagesize) s;
        if r \<noteq> 0 then Some (- 1, s1)
        else do {
          let m = fst (memcpy (fmem s1) header (rec_buf v) SIZEOF_UPDATE_HEADER);
          Some (if strncmp m header (lit ''MSM-RADIO-UPDATE'') UPDATE_MAGIC_SIZE \<noteq> 0 then - 1 else 0, s1\<lparr>fmem := m\<rparr>)
        }
      }
    }"

definition update_firmware_image ::
    "'hw bus \<Rightarrow> (string \<Rightarrow> ptr) \<Rightarrow> ptr \<Rightarrow> ptr \<Rightarrow> ('hw, 'h, 'z) aboot_scheme \<Rightarrow> (int \<times> ('hw, 'h, 'z) aboot_scheme) option" where
  "update_firmware_image b lit header name s =
    do {
      let pagemask = flash_page_size (nand s) - 1;
      ptn \<leftarrow> find_partition (lit ''cache'') s;
      if ptn = 0 then Some (- 1, s)
      else do {
        let n = (hdr_image_length (fmem s) header + pagemask) AND NOT pagemask;
        (r, s1) \<leftarrow> on_flash (flash_read b ptn (hdr_image_offset (fmem s) header) SCRATCH_ADDR n) s;
        if r \<noteq> 0 then Some (- 1, s1)
        else do {
          ptn \<leftarrow> find_partition name s1;
          if ptn = 0 then Some (- 1, s1)
          else do {
            (r, s2) \<leftarrow> on_flash (flash_write b ptn 0 SCRATCH_ADDR n) s1;
            Some (if r \<noteq> 0 then - 1 else 0, s2)
          }
        }
      }
    }"

text \<open>\<open>strcpy\<close> into a field of the message.\<close>

definition set_field :: "ptr \<Rightarrow> ptr \<Rightarrow> ('hw, 'h, 'z) aboot_scheme \<Rightarrow> ('hw, 'h, 'z) aboot_scheme option" where
  "set_field dst src s = do { (m, _) \<leftarrow> strcpy (fmem s) dst src; Some (s\<lparr>fmem := m\<rparr>) }"

definition send_recovery_msg ::
    "'hw bus \<Rightarrow> (string \<Rightarrow> ptr) \<Rightarrow> recovery_vars \<Rightarrow> ('hw, 'h, 'z) aboot_scheme \<Rightarrow> (('hw, 'h, 'z) aboot_scheme \<times> leave) option" where
  "send_recovery_msg b lit v s =
    do {
      s1 \<leftarrow> set_field (msg_command (rec_msg v)) (lit ''boot-recovery'') s;
      (_, s2) \<leftarrow> set_recovery_message b lit (rec_msg v) s1;
      Some (restart BOOT_UNKNOWN (s2\<lparr>boot_into_recovery := 1\<rparr>))
    }"

definition recovery_init ::
    "'hw bus \<Rightarrow> (string \<Rightarrow> ptr) \<Rightarrow> recovery_vars \<Rightarrow> ('hw, 'h, 'z) aboot_scheme
     \<Rightarrow> (int \<times> ('hw, 'h, 'z) aboot_scheme + ('hw, 'h, 'z) aboot_scheme \<times> leave) option" where
  "recovery_init b lit v s =
    do {
      (r, s0) \<leftarrow> get_recovery_message b lit v (rec_msg v) s;
      if r \<noteq> 0 then Some (Inl (- 1, s0))
      else do {
        let s1 = s0\<lparr>fmem := (fmem s0)(msg_command (rec_msg v) + 31 := 0)\<rparr>;
        c \<leftarrow> strcmp (fmem s1) (lit ''boot-recovery'') (msg_command (rec_msg v));
        if c = 0 then do {
          s2 \<leftarrow> set_field (msg_command (rec_msg v)) (lit '''') s1;
          s3 \<leftarrow> set_field (msg_status (rec_msg v)) (lit ''OKAY'') s2;
          (_, s4) \<leftarrow> set_recovery_message b lit (rec_msg v) s3;
          Some (Inl (0, s4\<lparr>boot_into_recovery := 1\<rparr>))
        }
        else do {
          c \<leftarrow> strcmp (fmem s1) (lit ''update-radio'') (msg_command (rec_msg v));
          if c \<noteq> 0 then Some (Inl (0, s1))
          else do {
            s2 \<leftarrow> set_field (rec_partition v) (lit ''FOTA'') s1;
            (r, s3) \<leftarrow> read_update_header_for_bootloader b lit v (rec_header v) s2;
            if r \<noteq> 0 then do {
              s4 \<leftarrow> set_field (msg_status (rec_msg v)) (lit ''invalid-update'') s3;
              map_option Inr (send_recovery_msg b lit v s4)
            }
            else do {
              (r, s4) \<leftarrow> update_firmware_image b lit (rec_header v) (rec_partition v) s3;
              s5 \<leftarrow> set_field (msg_status (rec_msg v)) (lit (if r \<noteq> 0 then ''failed-update'' else ''OKAY'')) s4;
              map_option Inr (send_recovery_msg b lit v s5)
            }
          }
        }
      }
    }"

section \<open>The start of the boot loader\<close>

definition boot_nand ::
    "'hw bus \<Rightarrow> 'hw udc \<Rightarrow> (string \<Rightarrow> ptr) \<Rightarrow> recovery_vars \<Rightarrow> msm7k_board option \<Rightarrow> u32 \<Rightarrow> ('hw, aboot_handler, 'z) aboot_scheme
     \<Rightarrow> (('hw, aboot_handler, 'z) aboot_scheme + ('hw, aboot_handler, 'z) aboot_scheme \<times> leave) option" where
  "boot_nand b u lit v board machtype s =
    do {
      r \<leftarrow> recovery_init b lit v s;
      (case r of
         Inr left \<Rightarrow> Some (Inr left)
       | Inl (_, s1) \<Rightarrow> do {
           r1 \<leftarrow> boot_linux_from_flash b lit board machtype s1;
           (case r1 of
              Inr left \<Rightarrow> Some (Inr left)
            | Inl s2 \<Rightarrow> map_option Inl (enter_fastboot u lit board s2))
         })
    }"

definition boot_recovery ::
    "'hw bus \<Rightarrow> 'hw udc \<Rightarrow> (string \<Rightarrow> ptr) \<Rightarrow> recovery_vars \<Rightarrow> msm7k_board option \<Rightarrow> u32 \<Rightarrow> ('hw, aboot_handler, 'z) aboot_scheme
     \<Rightarrow> (('hw, aboot_handler, 'z) aboot_scheme + ('hw, aboot_handler, 'z) aboot_scheme \<times> leave) option" where
  "boot_recovery b u lit v board machtype s = boot_nand b u lit v board machtype (s\<lparr>boot_into_recovery := 1\<rparr>)"

text \<open>
  Ten times, 50 milliseconds apart, the power key and the camera key are looked at; \<open>pressed\<close> is what
  \<open>keys_get_state\<close> answers at each of them.
\<close>

datatype choice = Choose_fastboot | Choose_recovery | Choose_nand

fun poll_keys :: "(int \<times> int) list \<Rightarrow> choice" where
  "poll_keys [] = Choose_nand"
| "poll_keys ((pwr, cmr) # rest) =
    (if pwr \<noteq> 0 then Choose_fastboot else if cmr \<noteq> 0 then Choose_recovery else poll_keys rest)"

definition boot_choice :: "(nat \<Rightarrow> int \<times> int) \<Rightarrow> mem \<Rightarrow> choice" where
  "boot_choice pressed m =
    (case get_boot_reason m of
       BOOT_FASTBOOT \<Rightarrow> Choose_fastboot
     | BOOT_RECOVERY \<Rightarrow> Choose_recovery
     | _ \<Rightarrow> poll_keys (map pressed [0..<10]))"

definition aboot_init ::
    "'hw bus \<Rightarrow> 'hw udc \<Rightarrow> (string \<Rightarrow> ptr) \<Rightarrow> recovery_vars \<Rightarrow> msm7k_board option \<Rightarrow> u32 \<Rightarrow> (nat \<Rightarrow> int \<times> int)
     \<Rightarrow> ('hw, aboot_handler, 'z) aboot_scheme
     \<Rightarrow> (('hw, aboot_handler, 'z) aboot_scheme + ('hw, aboot_handler, 'z) aboot_scheme \<times> leave) option" where
  "aboot_init b u lit v board machtype pressed s =
    (let ps = (if flash_page_size (nand s) = 0 then 4096 else flash_page_size (nand s));
         s1 = s\<lparr>page_size := ps, page_mask := ps - 1\<rparr>
     in case boot_choice pressed (fmem s1) of
          Choose_fastboot \<Rightarrow> map_option Inl (enter_fastboot u lit board s1)
        | Choose_recovery \<Rightarrow> boot_recovery b u lit v board machtype s1
        | Choose_nand \<Rightarrow> boot_nand b u lit v board machtype s1)"

end
