(* ===== verification/Lk_Boot.thy ===== *)
theory Lk_Boot
  imports Lk_Recovery
begin

text \<open>
  The properties of the fastboot protocol, of the parameters for the kernel and of the choices of
  the boot loader, each with an application to a small machine.
\<close>

section \<open>A small machine\<close>

text \<open>Where the literals are, and a memory that holds them.\<close>

definition sim_strings :: "(ptr \<times> string) list" where
  "sim_strings = [(0x1000, ''''), (0x1010, ''%s%s''), (0x1020, ''FAIL''), (0x1030, ''OKAY''),
    (0x1040, ''data too large''), (0x1050, ''DATA%08x''), (0x1060, ''unknown command''),
    (0x1070, ''unknown reason''), (0x1080, ''version''), (0x1090, ''0.5''), (0x10a0, ''flash:''), (0x10b0, ''erase:''),
    (0x10c0, ''boot''), (0x10d0, ''continue''), (0x10e0, ''reboot''), (0x10f0, ''getvar:''), (0x1100, ''download:''),
    (0x1120, ''reboot-bootloader''), (0x1140, ''product''), (0x1150, ''msm7200a_htc_wince''), (0x1170, ''kernel''), (0x1180, ''lk'')]"

definition sim_lit :: "string \<Rightarrow> ptr" where
  "sim_lit w = (case find (\<lambda>(a, x). x = w) sim_strings of Some (a, x) \<Rightarrow> a | None \<Rightarrow> 0)"

definition apart :: "ptr \<times> string \<Rightarrow> ptr \<times> string \<Rightarrow> bool" where
  "apart x y \<longleftrightarrow> sep (fst x) (length (snd x) + 1) (fst y) (length (snd y) + 1)"

definition write_string :: "ptr \<times> string \<Rightarrow> mem \<Rightarrow> mem" where
  "write_string x m = wr m (fst x) (str_bytes (snd x) @ [0])"

definition sim_memory :: mem where
  "sim_memory = fold write_string sim_strings (\<lambda>q. 0)"

text \<open>A controller whose transfers all fail, as when the cable is pulled.\<close>

definition sim_udc :: "unit udc" where
  "sim_udc = \<lparr> udc_queue = (\<lambda>ept rq mc. (0, mc)),
    udc_complete = (\<lambda>ept rq mc. Some \<lparr> actual = 0, status = - 1, notified = [], after = mc \<rparr>),
    udc_ept_alloc = (\<lambda>ty n. ty), udc_req_alloc = 1, udc_register = 0 \<rparr>"

definition sim_terms :: "unit udc_terms" where
  "sim_terms = \<lparr> driver_area = {}, channels = {1, 2}, ready = (\<lambda>d. True) \<rparr>"

definition sim_fastboot :: "(unit, builtin) fastboot" where
  "sim_fastboot = \<lparr> fmem = sim_memory, fdev = (),
    fheap = \<lparr> base = 0, hlen = 0, free_list = 0, fnodes = undefined, clen = (\<lambda>_. 0), hdr = (\<lambda>_. \<lparr> magic = 0, aptr = 0, asize = 0 \<rparr>) \<rparr>,
    cmdlist = [], varlist = [\<lparr> var_name = 0x1080, var_value = 0x1090 \<rparr>], buffer = 0x10000, usb_online = True,
    ept_in = 1, ept_out = 2, req = 3, req_length = 0, txn_status = 0, download_base = 0x20000, download_max = 0x10000,
    download_size = 0, state = STATE_COMPLETE, ack_response = 0x8000, download_response = 0x8040,
    fastboot_thread = True \<rparr>"

text \<open>Strings written apart from each other are all there.\<close>

lemma write_strings_keep:
  "cstr m p xs \<Longrightarrow> \<forall>x \<in> set ws. sep p (length xs + 1) (fst x) (length (snd x) + 1) \<Longrightarrow> cstr (fold write_string ws m) p xs"
proof (induction ws arbitrary: m)
  case (Cons x ws)
  then have "cstr (write_string x m) p xs" by (simp add: write_string_def cstr_wr_apart)
  with Cons show ?case by simp
qed simp

lemma write_strings:
  assumes "sorted_wrt apart ws" and "\<forall>x \<in> set ws. 0 \<notin> set (str_bytes (snd x)) \<and> length (snd x) < 2 ^ 32"
  shows "\<forall>x \<in> set ws. cstr (fold write_string ws m) (fst x) (str_bytes (snd x))"
  using assms
proof (induction ws arbitrary: m)
  case (Cons x ws)
  have "cstr (write_string x m) (fst x) (str_bytes (snd x))"
    unfolding write_string_def using Cons.prems by (intro cstr_wr) auto
  then have "cstr (fold write_string ws (write_string x m)) (fst x) (str_bytes (snd x))"
    using Cons.prems by (intro write_strings_keep) (auto simp: apart_def)
  with Cons show ?case by auto
qed simp

lemma sim_cstrs: "\<forall>x \<in> set sim_strings. cstr sim_memory (fst x) (str_bytes (snd x))"
  unfolding sim_memory_def
  by (rule write_strings) (simp_all add: sim_strings_def apart_def sep_def str_bytes_def)

lemma sim_const_str:
  assumes "(p, w) \<in> set sim_strings"
  shows "const_str sim_memory (writable sim_terms sim_fastboot) p (str_bytes w)"
proof -
  have "sep p (length w + 1) 0x10000 4096" "sep p (length w + 1) 0x20000 65536"
    "sep p (length w + 1) 0x8000 64" "sep p (length w + 1) 0x8040 64"
    using assms by (auto simp: sim_strings_def sep_def)
  then have "area p (length w + 1) \<inter> writable sim_terms sim_fastboot = {}"
    using area_sep by (simp add: writable_def sim_fastboot_def sim_terms_def Int_Un_distrib)
  with sim_cstrs assms show ?thesis unfolding const_str_def by force
qed

lemma sim_lit_mem: "w \<in> set fastboot_literals \<Longrightarrow> (sim_lit w, w) \<in> set sim_strings"
  by (auto simp: fastboot_literals_def sim_lit_def sim_strings_def)

lemma sim_ok: "fb_ok sim_terms sim_lit sim_fastboot"
  unfolding fb_ok_def
proof (intro conjI ballI)
  fix w
  assume "w \<in> set fastboot_literals"
  then show "const_str (fmem sim_fastboot) (writable sim_terms sim_fastboot) (sim_lit w) (str_bytes w)"
    using sim_const_str [OF sim_lit_mem] by (simp add: sim_fastboot_def)
next
  fix v
  assume "v \<in> set (varlist sim_fastboot)"
  then show "\<exists>xs. const_str (fmem sim_fastboot) (writable sim_terms sim_fastboot) (var_value v) xs"
    using sim_const_str [of "0x1090" "''0.5''"] by (auto simp: sim_fastboot_def sim_strings_def)
qed (simp_all add: sim_fastboot_def sim_terms_def)



section \<open>What a host can do\<close>




text \<open>
  C22: \<open>getvar:\<close> is the lookup in the association list of what was published, the latest value of a
  name first: the answer sent is \<open>OKAY\<close> and the value, or \<open>OKAY\<close> alone for an unknown name, cut
  off after 63 bytes.
\<close>

theorem getvar_answers:
  assumes "fb_ok K lit s" and "vars_hold (fmem s) (writable K s) (varlist s) tbl" and "cstr (fmem s) arg name"
    and "lit ''OKAY'' \<noteq> 0" and "lit '''' \<noteq> 0"
    and "t = answer (str_bytes ''OKAY'') (case map_of tbl name of Some x \<Rightarrow> x | None \<Rightarrow> [])"
  shows "cmd_getvar u lit arg s = map_option snd (usb_write u (ack_response s) (of_nat (length t))
    (s\<lparr>fmem := wr (fmem s) (ack_response s) (t @ [0]), state := STATE_COMPLETE\<rparr>))"
proof -
  have okay: "const_str (fmem s) (writable K s) (lit ''OKAY'') (str_bytes ''OKAY'')"
    and nil: "const_str (fmem s) (writable K s) (lit '''') []"
    using lit_ok [OF assms(1), of "''OKAY''"] lit_ok [OF assms(1), of "''''"]
    by (auto simp: fastboot_literals_def str_bytes_def)
  have ack: "fastboot_okay u lit p s = map_option snd (usb_write u (ack_response s) (of_nat (length a))
      (s\<lparr>fmem := wr (fmem s) (ack_response s) (a @ [0]), state := STATE_COMPLETE\<rparr>))"
    if "p \<noteq> 0" "const_str (fmem s) (writable K s) p x" "a = answer (str_bytes ''OKAY'') x" for p x a
    using fastboot_ack_sends(1) [OF assms(1) okay, of p x u] that assms(4) by (simp add: fastboot_okay_def shown_def)
  show ?thesis
  proof (cases "map_of tbl name")
    case None
    with find_var_map_of [OF assms(2,3)] have "find_var (fmem s) arg (varlist s) = Some None" by simp
    then show ?thesis using ack [OF assms(5) nil] assms(6) None by (simp add: cmd_getvar_def)
  next
    case (Some x)
    with find_var_map_of [OF assms(2,3)] obtain v where "find_var (fmem s) arg (varlist s) = Some (Some v)"
      "var_value v \<noteq> 0" "const_str (fmem s) (writable K s) (var_value v) x" by auto
    then show ?thesis using ack assms(6) Some by (simp add: cmd_getvar_def)
  qed
qed

lemma sim_vars: "vars_hold (fmem sim_fastboot) (writable sim_terms sim_fastboot) (varlist sim_fastboot) [(str_bytes ''version'', str_bytes ''0.5'')]"
  using sim_cstrs sim_const_str [of "0x1090" "''0.5''"]
  by (simp add: vars_hold_def sim_fastboot_def) (simp add: sim_strings_def)

theorem getvar_answers_witness:
  "cmd_getvar sim_udc sim_lit 0x1080 sim_fastboot = map_option snd (usb_write sim_udc 0x8000 7
    (sim_fastboot\<lparr>fmem := wr sim_memory 0x8000 [79, 75, 65, 89, 48, 46, 53, 0], state := STATE_COMPLETE\<rparr>))"
proof -
  have "cstr (fmem sim_fastboot) 0x1080 (str_bytes ''version'')"
    using sim_cstrs by (simp add: sim_fastboot_def sim_strings_def)
  from getvar_answers [OF sim_ok sim_vars this _ _ refl, of sim_udc] show ?thesis
    by (simp add: sim_lit_def sim_strings_def answer_def str_bytes_def) (simp add: sim_fastboot_def)
qed

section \<open>Which command runs\<close>

definition aboot_commands :: "(string \<times> aboot_handler) list" where
  "aboot_commands = [(''download:'', H_download), (''getvar:'', H_getvar), (''reboot-bootloader'', H_reboot_bootloader),
    (''reboot'', H_reboot), (''continue'', H_continue), (''boot'', H_boot), (''erase:'', H_erase), (''flash:'', H_flash)]"

definition starts :: "u8 list \<Rightarrow> u8 list \<Rightarrow> bool" where
  "starts line p \<longleftrightarrow> take (length p) line = p"

lemma rd_starts:
  assumes "cstr m b line" and "0 \<notin> set p"
  shows "rd m b (length p) = p \<longleftrightarrow> starts line p"
proof (cases "length p \<le> length line")
  case True
  then show ?thesis using cstr_rd_take [OF assms(1)] by (simp add: starts_def)
next
  case False
  then have "rd m b (length p) ! length line = 0" using cstr_nul [OF assms(1)] by simp
  moreover have "p ! length line \<noteq> 0" using False assms(2) by (metis not_le nth_mem)
  ultimately have "rd m b (length p) \<noteq> p" by metis
  moreover have "\<not> starts line p" using False by (auto simp: starts_def dest: arg_cong [where f = length])
  ultimately show ?thesis by simp
qed

text \<open>When no entry is hidden by a shorter one before it, the first match is a longest match.\<close>

lemma find_Some_member: "find P xs = Some x \<Longrightarrow> x \<in> set xs \<and> P x"
  by (auto simp: find_Some_iff)

lemma find_longest:
  assumes "sorted_wrt (\<lambda>x y. length (fst x) < length (fst y) \<longrightarrow> \<not> starts (fst y) (fst x)) tbl"
    and "find (\<lambda>x. starts line (fst x)) tbl = Some x" and "y \<in> set tbl" and "starts line (fst y)"
  shows "length (fst y) \<le> length (fst x)"
  using assms
proof (induction tbl)
  case (Cons z tbl)
  show ?case
  proof (cases "starts line (fst z)")
    case True
    then have x: "x = z" using Cons.prems(2) by simp
    show ?thesis
    proof (rule ccontr)
      assume n: "\<not> ?thesis"
      then have "length (fst z) < length (fst y)" by (simp add: x)
      moreover have "starts (fst y) (fst z)"
        using True Cons.prems(4) n unfolding starts_def x by (metis nle_le take_take min_def)
      ultimately show False using Cons.prems(1,3) n by (auto simp: x)
    qed
  next
    case False
    with Cons show ?thesis by auto
  qed
qed simp

lemma register_table:
  assumes "fastboot_register pre h s = Some s'" and "cstr (fmem s) pre p" and "cmds_hold m (cmdlist s) tbl"
    and "cstr m pre p"
  shows "fmem s' = fmem s \<and> (cmdlist s' = cmdlist s \<or> length (cmdlist s') = Suc (length (cmdlist s)) \<and> cmds_hold m (cmdlist s') ((p, h) # tbl))"
  using assms strlen_cstr [OF assms(2)] cstr_length [OF assms(2)]
  by (auto simp: fastboot_register_def cmds_hold_def cstr_iff unat_of_nat_u32 split: bind_splits if_splits)

lemma register_mem: "fastboot_register p h s = Some s' \<Longrightarrow> fmem s' = fmem s \<and> length (cmdlist s') \<le> Suc (length (cmdlist s))"
  by (auto simp: fastboot_register_def split: bind_splits if_splits)

lemma publish_table: "fastboot_publish n v s = Some s' \<Longrightarrow> fmem s' = fmem s \<and> cmdlist s' = cmdlist s"
  by (auto simp: fastboot_publish_def split: bind_splits if_splits)

lemma init_table:
  fixes s s' :: "('hw, 'h, 'z) fastboot_scheme"
  assumes "fastboot_init u lit h1 h2 dbase dsize s = Some (r, s')"
  obtains (early) "cmdlist s' = cmdlist s"
  | (all) sa sb sc :: "('hw, 'h, 'z) fastboot_scheme" where "cmdlist sa = cmdlist s" "fmem sa = fmem s'" "fastboot_register (lit ''getvar:'') h1 sa = Some sb"
      "fastboot_register (lit ''download:'') h2 sb = Some sc" "cmdlist s' = cmdlist sc"
proof -
  let ?run = "\<lambda>sa sb sc sd. fastboot_register (lit ''getvar:'') h1 sa = Some sb \<and>
      fastboot_register (lit ''download:'') h2 sb = Some sc \<and> fastboot_publish (lit ''version'') (lit ''0.5'') sc = Some sd \<and>
      s' = sd\<lparr>fastboot_thread := True\<rparr> \<and> cmdlist sa = cmdlist s"
  have "\<exists>sa sb sc sd. ?run sa sb sc sd" if "cmdlist s' \<noteq> cmdlist s"
    using assms that unfolding fastboot_init_def Let_def
    by (elim bind_pairE) (auto split: if_splits elim!: bind_someE,
      intro exI conjI, assumption, assumption, assumption, rule refl, simp)
  then show ?thesis
  proof (cases "cmdlist s' = cmdlist s")
    case False
    assume "cmdlist s' \<noteq> cmdlist s \<Longrightarrow> \<exists>sa sb sc sd. ?run sa sb sc sd"
    from this [OF False] obtain sa sb sc sd where r: "fastboot_register (lit ''getvar:'') h1 sa = Some sb"
      "fastboot_register (lit ''download:'') h2 sb = Some sc" "fastboot_publish (lit ''version'') (lit ''0.5'') sc = Some sd"
      "s' = sd\<lparr>fastboot_thread := True\<rparr>" "cmdlist sa = cmdlist s" by blast
    have "fmem s' = fmem sa" "cmdlist s' = cmdlist sc"
      using register_mem [OF r(1)] register_mem [OF r(2)] publish_table [OF r(3)] r(4) by simp_all
    with r(4) show ?thesis by (intro all [OF r(5) _ r(1,2)]) simp_all
  qed (rule early)
qed

text \<open>The table of the boot loader, when every allocation succeeded.\<close>

lemma enter_fastboot_table:
  assumes "enter_fastboot u lit board s = Some s'" and "cmdlist s = []" and "length (cmdlist s') = 8"
    and "\<forall>(w, h) \<in> set aboot_commands. cstr (fmem s) (lit w) (str_bytes w) \<and> cstr (fmem s') (lit w) (str_bytes w)"
  shows "cmds_hold (fmem s') (cmdlist s') (map (\<lambda>(w, h). (str_bytes w, h)) aboot_commands)"
proof -
  let ?m = "fmem s'"
  have lits: "cstr (fmem s) (lit w) (str_bytes w)" "cstr ?m (lit w) (str_bytes w)" if "(w, h) \<in> set aboot_commands" for w h
    using assms(4) that by auto
  have step: "cmds_hold ?m (cmdlist y) ((str_bytes w, h) # tbl)"
    if "fastboot_register (lit w) h x = Some y" "fmem x = fmem s \<or> fmem x = ?m" "(w, h) \<in> set aboot_commands"
      "cmds_hold ?m (cmdlist x) tbl" "length (cmdlist y) = Suc (length (cmdlist x))" for x y w h tbl
  proof -
    have "cstr (fmem x) (lit w) (str_bytes w)" using lits [OF that(3)] that(2) by auto
    from register_table [OF that(1) this that(4) lits(2) [OF that(3)]] that(5) show ?thesis by auto
  qed
  from assms(1) obtain x1 x2 x3 x4 x5 x6 p1 p2 r i where
    x: "fastboot_register (lit ''flash:'') H_flash s = Some x1" "fastboot_register (lit ''erase:'') H_erase x1 = Some x2"
      "fastboot_register (lit ''boot'') H_boot x2 = Some x3" "fastboot_register (lit ''continue'') H_continue x3 = Some x4"
      "fastboot_register (lit ''reboot'') H_reboot x4 = Some x5"
      "fastboot_register (lit ''reboot-bootloader'') H_reboot_bootloader x5 = Some x6"
    and p: "fastboot_publish (lit ''product'') (lit ''msm7200a_htc_wince'') x6 = Some p1"
      "fastboot_publish (lit ''kernel'') (lit ''lk'') p1 = Some p2"
    and i: "fastboot_init u lit H_getvar H_download target_get_scratch_address (target_get_scratch_size board) p2 = Some (r, i)"
    and s': "s' = i\<lparr>udc_running := True\<rparr>"
    unfolding enter_fastboot_def by (elim bind_someE bind_pairE) simp
  note mem = x [THEN register_mem]
  have pc: "cmdlist p2 = cmdlist x6" using p [THEN publish_table] by simp
  have s'i: "fmem s' = fmem i" "cmdlist s' = cmdlist i" by (simp_all add: s')
  from i show ?thesis
  proof (cases rule: init_table)
    case early
    then have "length (cmdlist s') \<le> 6" using mem pc assms(2) s'i by simp
    with assms(3) show ?thesis by simp
  next
    case (all sa sb sc)
    note len = mem all(3) [THEN register_mem] all(4) [THEN register_mem]
    have "length (cmdlist sc) = 8" using assms(3) s'i all(5) by simp
    then have l: "length (cmdlist x1) = 1" "length (cmdlist x2) = 2" "length (cmdlist x3) = 3" "length (cmdlist x4) = 4"
      "length (cmdlist x5) = 5" "length (cmdlist x6) = 6" "length (cmdlist sb) = 7" "length (cmdlist sc) = 8"
      using len all(1) pc assms(2) by auto
    let ?t = "map (\<lambda>(w, h). (str_bytes w, h)) aboot_commands"
    have c0: "cmds_hold ?m (cmdlist s) (drop 8 ?t)" by (simp add: cmds_hold_def assms(2) aboot_commands_def)
    have c1: "cmds_hold ?m (cmdlist x1) (drop 7 ?t)"
      using step [OF x(1) _ _ c0] l mem assms(2) by (simp add: aboot_commands_def)
    have c2: "cmds_hold ?m (cmdlist x2) (drop 6 ?t)"
      using step [OF x(2) _ _ c1] l mem assms(2) by (simp add: aboot_commands_def)
    have c3: "cmds_hold ?m (cmdlist x3) (drop 5 ?t)"
      using step [OF x(3) _ _ c2] l mem assms(2) by (simp add: aboot_commands_def)
    have c4: "cmds_hold ?m (cmdlist x4) (drop 4 ?t)"
      using step [OF x(4) _ _ c3] l mem assms(2) by (simp add: aboot_commands_def)
    have c5: "cmds_hold ?m (cmdlist x5) (drop 3 ?t)"
      using step [OF x(5) _ _ c4] l mem assms(2) by (simp add: aboot_commands_def)
    have c6: "cmds_hold ?m (cmdlist x6) (drop 2 ?t)"
      using step [OF x(6) _ _ c5] l mem assms(2) by (simp add: aboot_commands_def)
    have c7: "cmds_hold ?m (cmdlist sb) (drop 1 ?t)"
      using step [OF all(3) _ _ c6 [folded pc all(1)]] l all(1,2) pc by (simp add: aboot_commands_def s'i)
    have "cmds_hold ?m (cmdlist sc) (drop 0 ?t)"
      using step [OF all(4) _ _ c7] l all(2) len by (simp add: aboot_commands_def s'i)
    then show ?thesis by (simp add: s'i all(5))
  qed
qed

text \<open>
  C20: when every allocation at start-up succeeded, a line from the host runs the handler of the
  longest command name it starts with (so \<open>reboot-bootloader\<close> is not taken for \<open>reboot\<close>), and is
  unknown when it starts with none.
\<close>

theorem longest_command_runs:
  assumes "enter_fastboot u lit board s = Some s'" and "cmdlist s = []" and "length (cmdlist s') = 8"
    and "\<forall>(w, h) \<in> set aboot_commands. cstr (fmem s) (lit w) (str_bytes w) \<and> cstr (fmem s') (lit w) (str_bytes w)"
    and "cstr (fmem s') b line"
  shows "case find_cmd (fmem s') b (cmdlist s') of
      None \<Rightarrow> \<forall>(w, h) \<in> set aboot_commands. \<not> starts line (str_bytes w)
    | Some c \<Rightarrow> \<exists>w. (w, handle c) \<in> set aboot_commands \<and> starts line (str_bytes w) \<and> unat (prefix_len c) = length w \<and>
        (\<forall>(w', h') \<in> set aboot_commands. starts line (str_bytes w') \<longrightarrow> length w' \<le> length w)"
proof -
  let ?t = "map (\<lambda>(w, h). (str_bytes w, h)) aboot_commands"
  have nz: "0 \<notin> set p" if "(p, h) \<in> set ?t" for p h
    using that by (auto simp: aboot_commands_def str_bytes_def)
  have eq: "find (\<lambda>(p, h). rd (fmem s') b (length p) = p) ?t = find (\<lambda>x. starts line (fst x)) ?t"
  proof (rule find_cong [OF refl])
    fix x
    assume "x \<in> set ?t"
    then have "0 \<notin> set (fst x)" using nz [of "fst x" "snd x"] by simp
    then show "(case x of (p, h) \<Rightarrow> rd (fmem s') b (length p) = p) \<longleftrightarrow> starts line (fst x)"
      using rd_starts [OF assms(5)] by (cases x) simp
  qed
  have order: "sorted_wrt (\<lambda>x y. length (fst x) < length (fst y) \<longrightarrow> \<not> starts (fst y) (fst x)) ?t"
    by (simp add: aboot_commands_def starts_def str_bytes_def)
  note f = find_cmd_find [OF enter_fastboot_table [OF assms(1-4)], of b, unfolded eq]
  show ?thesis
  proof (cases "find (\<lambda>x. starts line (fst x)) ?t")
    case None
    then have "\<forall>x \<in> set ?t. \<not> starts line (fst x)" by (simp add: find_None_iff)
    with f None show ?thesis by (auto split: option.splits)
  next
    case (Some x)
    obtain p h where x: "x = (p, h)" by (cases x)
    from find_Some_member [OF Some] x have m: "(p, h) \<in> set ?t" "starts line p" by simp_all
    then obtain w where w: "(w, h) \<in> set aboot_commands" "p = str_bytes w" by auto
    from f Some x obtain c where c: "find_cmd (fmem s') b (cmdlist s') = Some c" "unat (prefix_len c) = length p" "handle c = h"
      by auto
    have "length w' \<le> length w" if "(w', h') \<in> set aboot_commands" "starts line (str_bytes w')" for w' h'
    proof -
      have "(str_bytes w', h') \<in> set ?t" using that(1) by force
      from find_longest [OF order Some this] that(2) show ?thesis by (simp add: x w(2))
    qed
    then show ?thesis using c w m by auto
  qed
qed

text \<open>A heap with a single free chunk, from which small blocks are cut one after the other.\<close>

definition one_chunk :: "ptr \<Rightarrow> ptr \<Rightarrow> u32 \<Rightarrow> heap \<Rightarrow> bool" where
  "one_chunk l c n h \<longleftrightarrow> free_list h = l \<and> nxt (fnodes h) l = c \<and> nxt (fnodes h) c = l \<and>
    prv (fnodes h) l = c \<and> prv (fnodes h) c = l \<and> c \<noteq> l \<and> c \<noteq> 0 \<and> clen h c = n"

lemma one_chunk_malloc:
  assumes "one_chunk l c n h" and "alloc_total sz 0 = k" and "k \<le> n" and "k + 12 < n"
    and "c + k \<noteq> l" and "c + k \<noteq> 0" and "k \<noteq> 0" and "c + 12 \<noteq> 0"
  obtains h' where "malloc h sz = Some (h', c + 12)" "one_chunk l (c + k) (n - k) h'"
proof -
  have w: "alloc_walk h k c = Some c"
    using assms(1,3) by (subst alloc_walk.simps) (simp add: one_chunk_def)
  show thesis
    using assms w that
    by (auto simp: malloc_def heap_alloc_def alloc_from_def one_chunk_def list_next_def list_delete_def
        list_add_tail_def heap_create_free_chunk_def Let_def SIZEOF_FREE_HEAP_CHUNK_def SIZEOF_ALLOC_STRUCT_BEGIN_def)
qed

lemma alloc_totals: "alloc_total 16 0 = 28" "alloc_total 12 0 = 24" "alloc_total 4096 0 = 4108"
  by (simp_all add: alloc_total_def ROUNDUP_def SIZEOF_FREE_HEAP_CHUNK_def SIZEOF_ALLOC_STRUCT_BEGIN_def)

lemma register_ok:
  assumes "one_chunk l c n (fheap s)" and "cstr (fmem s) pre p" and "40 < n" and "c + 28 \<noteq> l" and "c + 28 \<noteq> 0" and "c + 12 \<noteq> 0"
  obtains s' where "fastboot_register pre h s = Some s'" "one_chunk l (c + 28) (n - 28) (fheap s')" "fmem s' = fmem s"
    "length (cmdlist s') = Suc (length (cmdlist s))"
proof -
  have n: "28 \<le> n" "28 + 12 < n" using assms(3) by (simp_all add: word_le_nat_alt word_less_nat_alt)
  obtain h' where h': "malloc (fheap s) 16 = Some (h', c + 12)" "one_chunk l (c + 28) (n - 28) h'"
    by (rule one_chunk_malloc [OF assms(1) alloc_totals(1) n assms(4,5) _ assms(6)]) simp_all
  with strlen_cstr [OF assms(2)] assms(6) that show thesis by (simp add: fastboot_register_def)
qed

lemma publish_ok:
  assumes "one_chunk l c n (fheap s)" and "40 < n" and "c + 24 \<noteq> l" and "c + 24 \<noteq> 0" and "c + 12 \<noteq> 0"
  obtains s' where "fastboot_publish name val s = Some s'" "one_chunk l (c + 24) (n - 24) (fheap s')" "fmem s' = fmem s"
    "cmdlist s' = cmdlist s"
proof -
  have n: "24 \<le> n" "24 + 12 < n" using assms(2) by (simp_all add: word_le_nat_alt word_less_nat_alt)
  obtain h' where h': "malloc (fheap s) 12 = Some (h', c + 12)" "one_chunk l (c + 24) (n - 24) h'"
    by (rule one_chunk_malloc [OF assms(1) alloc_totals(2) n assms(3,4) _ assms(5)]) simp_all
  with assms(5) that show thesis by (simp add: fastboot_publish_def)
qed

definition sim_aboot :: "(unit, aboot_handler) aboot" where
  "sim_aboot = \<lparr> fmem = sim_memory, fdev = (),
    fheap = \<lparr> base = 0x100000, hlen = 0x100000, free_list = 0x9000,
      fnodes = \<lparr> prv = (\<lambda>_. 0)(0x9000 := 0x100000, 0x100000 := 0x9000), nxt = (\<lambda>_. 0)(0x9000 := 0x100000, 0x100000 := 0x9000) \<rparr>,
      clen = (\<lambda>_. 0x100000), hdr = (\<lambda>_. \<lparr> magic = 0, aptr = 0, asize = 0 \<rparr>) \<rparr>,
    cmdlist = [], varlist = [], buffer = 0, usb_online = False, ept_in = 0, ept_out = 0, req = 0, req_length = 0,
    txn_status = 0, download_base = 0, download_max = 0, download_size = 0, state = STATE_OFFLINE,
    ack_response = 0x8000, download_response = 0x8040, fastboot_thread = False,
    nand = \<lparr> ram = sim_memory, device = (), CFG0 = 0, CFG1 = 0, nand_cfg1 = 0,
      info = \<lparr> fi_id = 0, fi_type = 0, fi_vendor = 0, fi_device = 0, fi_page_size = 0, fi_block_size = 0,
        fi_spare_size = 0, fi_num_blocks = 0 \<rparr>,
      flash_pagesize = 2048, flash_ptrlist = 0, flash_cmdlist = 0, flash_data = 0, flash_spare = 0, flash_ptable = 0,
      buf_addr = 0, empty_buf_addr = 0, CFG0_TMP_addr = 0, CFG1_TMP_addr = 0 \<rparr>,
    page_size = 2048, page_mask = 2047, boot_into_recovery = 0, boot_buf = 0xa000, boot_hdr = 0x8100, udc_running = False \<rparr>"

lemma sim_lit_cstr: "(sim_lit w, w) \<in> set sim_strings \<Longrightarrow> cstr sim_memory (sim_lit w) (str_bytes w)"
  using sim_cstrs by force

lemma sim_lits: "\<forall>(w, h) \<in> set aboot_commands. (sim_lit w, w) \<in> set sim_strings"
  by (simp add: aboot_commands_def sim_lit_def sim_strings_def)

lemma sim_after_memset: "(p, w) \<in> set sim_strings \<Longrightarrow> cstr (wr sim_memory 1048804 (replicate 4096 0)) p (str_bytes w)"
  using sim_cstrs by (intro cstr_wr_apart) (force, auto simp: sim_strings_def sep_def)

lemma sim_enter:
  "\<exists>s'. enter_fastboot sim_udc sim_lit None sim_aboot = Some s' \<and> length (cmdlist s') = 8 \<and>
    fmem s' = wr sim_memory 1048804 (replicate 4096 0)"
proof -
  have lits: "cstr sim_memory (sim_lit w) (str_bytes w)" if "w \<in> fst ` set aboot_commands" for w
    using sim_lits sim_lit_cstr that by fastforce
  have h0: "one_chunk 0x9000 0x100000 0x100000 (fheap sim_aboot)" and m0: "fmem sim_aboot = sim_memory"
    by (simp_all add: one_chunk_def sim_aboot_def)
  have lits2: "cstr (wr sim_memory 1048804 (replicate 4096 0)) (sim_lit w) (str_bytes w)" if "w \<in> fst ` set aboot_commands" for w
    using sim_lits sim_after_memset that by fastforce
  obtain x1 where x1: "fastboot_register (sim_lit ''flash:'') H_flash sim_aboot = Some x1" "one_chunk 0x9000 1048604 1048548 (fheap x1)"
    "fmem x1 = sim_memory" "length (cmdlist x1) = Suc (length (cmdlist sim_aboot))"
    by (rule register_ok [OF h0, of "sim_lit ''flash:''" "str_bytes ''flash:''"]) (simp_all add: m0 lits aboot_commands_def)
  obtain x2 where x2: "fastboot_register (sim_lit ''erase:'') H_erase x1 = Some x2" "one_chunk 0x9000 1048632 1048520 (fheap x2)"
    "fmem x2 = sim_memory" "length (cmdlist x2) = Suc (length (cmdlist x1))"
    by (rule register_ok [OF x1(2), of "sim_lit ''erase:''" "str_bytes ''erase:''"]) (simp_all add: x1(3) lits aboot_commands_def)
  obtain x3 where x3: "fastboot_register (sim_lit ''boot'') H_boot x2 = Some x3" "one_chunk 0x9000 1048660 1048492 (fheap x3)"
    "fmem x3 = sim_memory" "length (cmdlist x3) = Suc (length (cmdlist x2))"
    by (rule register_ok [OF x2(2), of "sim_lit ''boot''" "str_bytes ''boot''"]) (simp_all add: x2(3) lits aboot_commands_def)
  obtain x4 where x4: "fastboot_register (sim_lit ''continue'') H_continue x3 = Some x4" "one_chunk 0x9000 1048688 1048464 (fheap x4)"
    "fmem x4 = sim_memory" "length (cmdlist x4) = Suc (length (cmdlist x3))"
    by (rule register_ok [OF x3(2), of "sim_lit ''continue''" "str_bytes ''continue''"]) (simp_all add: x3(3) lits aboot_commands_def)
  obtain x5 where x5: "fastboot_register (sim_lit ''reboot'') H_reboot x4 = Some x5" "one_chunk 0x9000 1048716 1048436 (fheap x5)"
    "fmem x5 = sim_memory" "length (cmdlist x5) = Suc (length (cmdlist x4))"
    by (rule register_ok [OF x4(2), of "sim_lit ''reboot''" "str_bytes ''reboot''"]) (simp_all add: x4(3) lits aboot_commands_def)
  obtain x6 where x6: "fastboot_register (sim_lit ''reboot-bootloader'') H_reboot_bootloader x5 = Some x6" "one_chunk 0x9000 1048744 1048408 (fheap x6)"
    "fmem x6 = sim_memory" "length (cmdlist x6) = Suc (length (cmdlist x5))"
    by (rule register_ok [OF x5(2), of "sim_lit ''reboot-bootloader''" "str_bytes ''reboot-bootloader''"]) (simp_all add: x5(3) lits aboot_commands_def)
  obtain x7 where x7: "fastboot_publish (sim_lit ''product'') (sim_lit ''msm7200a_htc_wince'') x6 = Some x7" "one_chunk 0x9000 1048768 1048384 (fheap x7)"
    "fmem x7 = sim_memory" "cmdlist x7 = cmdlist x6"
    by (rule publish_ok [OF x6(2), of "sim_lit ''product''" "sim_lit ''msm7200a_htc_wince''"]) (simp_all add: x6(3))
  obtain x8 where x8: "fastboot_publish (sim_lit ''kernel'') (sim_lit ''lk'') x7 = Some x8" "one_chunk 0x9000 1048792 1048360 (fheap x8)"
    "fmem x8 = sim_memory" "cmdlist x8 = cmdlist x7"
    by (rule publish_ok [OF x7(2), of "sim_lit ''kernel''" "sim_lit ''lk''"]) (simp_all add: x7(3))
  obtain hp where hp: "malloc (fheap x8) 4096 = Some (hp, 1048804)" "one_chunk 0x9000 1052900 1044252 hp"
    by (rule one_chunk_malloc [OF x8(2) alloc_totals(3)]) simp_all
  define y where "y = x8\<lparr>download_base := target_get_scratch_address, download_max := target_get_scratch_size None,
    usb_online := False, fheap := hp, buffer := 1048804, fmem := wr sim_memory 1048804 (replicate 4096 0),
    ept_in := 1, ept_out := 2, req := 1\<rparr>"
  have hy: "one_chunk 0x9000 1052900 1044252 (fheap y)" "fmem y = wr sim_memory 1048804 (replicate 4096 0)" "cmdlist y = cmdlist x8"
    using hp by (simp_all add: y_def)
  have ry: "req y = 1" by (simp add: y_def)
  obtain x9 where x9: "fastboot_register (sim_lit ''getvar:'') H_getvar y = Some x9" "one_chunk 0x9000 1052928 1044224 (fheap x9)"
    "fmem x9 = fmem y" "length (cmdlist x9) = Suc (length (cmdlist y))"
    by (rule register_ok [OF hy(1), of "sim_lit ''getvar:''" "str_bytes ''getvar:''"])
      (simp_all add: hy(2) lits2 hy(2) aboot_commands_def)
  obtain x10 where x10: "fastboot_register (sim_lit ''download:'') H_download x9 = Some x10" "one_chunk 0x9000 1052956 1044196 (fheap x10)"
    "fmem x10 = fmem x9" "length (cmdlist x10) = Suc (length (cmdlist x9))"
    by (rule register_ok [OF x9(2), of "sim_lit ''download:''" "str_bytes ''download:''"])
      (simp_all add: x9(3) lits2 hy(2) aboot_commands_def)
  obtain x11 where x11: "fastboot_publish (sim_lit ''version'') (sim_lit ''0.5'') x10 = Some x11" "one_chunk 0x9000 1052980 1044172 (fheap x11)"
    "fmem x11 = fmem x10" "cmdlist x11 = cmdlist x10"
    by (rule publish_ok [OF x10(2), of "sim_lit ''version''" "sim_lit ''0.5''"]) simp_all
  have "fastboot_init sim_udc sim_lit H_getvar H_download target_get_scratch_address (target_get_scratch_size None) x8
      = Some (0, x11\<lparr>fastboot_thread := True\<rparr>)"
    using hp(1) x9(1) x10(1) x11(1) x8(3) ry unfolding fastboot_init_def
    by (simp add: Let_def BUF_SIZE_def memset_wr sim_udc_def UDC_TYPE_BULK_IN_def UDC_TYPE_BULK_OUT_def y_def [symmetric])
  then have "enter_fastboot sim_udc sim_lit None sim_aboot = Some (x11\<lparr>fastboot_thread := True, udc_running := True\<rparr>)"
    unfolding enter_fastboot_def by (simp add: x1(1) x2(1) x3(1) x4(1) x5(1) x6(1) x7(1) x8(1))
  moreover have "length (cmdlist x11) = 8"
    by (simp add: x11(4) x10(4) x9(4) hy(3) x8(4) x7(4) x6(4) x5(4) x4(4) x3(4) x2(4) x1(4)) (simp add: sim_aboot_def)
  moreover have "fmem x11 = wr sim_memory 1048804 (replicate 4096 0)"
    by (simp add: x11(3) x10(3) x9(3) hy(2))
  ultimately show ?thesis by simp
qed

theorem longest_command_runs_witness:
  "\<exists>s' c. enter_fastboot sim_udc sim_lit None sim_aboot = Some s' \<and>
    find_cmd (fmem s') 0x1120 (cmdlist s') = Some c \<and> handle c = H_reboot_bootloader"
proof -
  obtain s' where s': "enter_fastboot sim_udc sim_lit None sim_aboot = Some s'" "length (cmdlist s') = 8"
    "fmem s' = wr sim_memory 1048804 (replicate 4096 0)" using sim_enter by blast
  have empty: "cmdlist sim_aboot = []" and mem: "fmem sim_aboot = sim_memory" by (simp_all add: sim_aboot_def)
  have line: "cstr (fmem s') 0x1120 (str_bytes ''reboot-bootloader'')"
    unfolding s'(3) by (rule sim_after_memset) (simp add: sim_strings_def)
  have lits: "\<forall>(w, h) \<in> set aboot_commands. cstr (fmem sim_aboot) (sim_lit w) (str_bytes w) \<and> cstr (fmem s') (sim_lit w) (str_bytes w)"
    using sim_lits sim_lit_cstr sim_after_memset unfolding s'(3) mem by fastforce
  note l = longest_command_runs [OF s'(1) empty s'(2) lits line]
  have rb: "(''reboot-bootloader'', H_reboot_bootloader) \<in> set aboot_commands" by (simp add: aboot_commands_def)
  have self: "starts (str_bytes w) (str_bytes w)" for w by (simp add: starts_def)
  show ?thesis
  proof (cases "find_cmd (fmem s') 0x1120 (cmdlist s')")
    case None
    with l rb self show ?thesis by fastforce
  next
    case (Some c)
    with l obtain w where w: "(w, handle c) \<in> set aboot_commands"
      "\<forall>(w', h') \<in> set aboot_commands. starts (str_bytes ''reboot-bootloader'') (str_bytes w') \<longrightarrow> length w' \<le> length w" by auto
    with rb self have "17 \<le> length w" by fastforce
    with w(1) have "handle c = H_reboot_bootloader" by (auto simp: aboot_commands_def)
    with Some s'(1) show ?thesis by blast
  qed
qed

section \<open>The target\<close>





text \<open>
  C23: with a board that sets no scratch area, as all boards of this target, the download area is
  declared larger than the memory of the device: it goes round the end of the address space and
  contains the memory the boot loader itself runs in, its heap with the command table included.
\<close>

theorem download_area_covers_boot_loader:
  "target_get_scratch_size None = 0xF7200000 \<and>
    area 0 0x08200000 \<subseteq> area target_get_scratch_address (unat (target_get_scratch_size None)) \<and>
    area HEAP_START (unat HEAP_LEN) \<subseteq> area target_get_scratch_address (unat (target_get_scratch_size None))"
proof -
  have size: "target_get_scratch_size None = 0xF7200000" by (simp add: target_get_scratch_size_def push_bit_eq_mult)
  have low: "q \<in> area target_get_scratch_address (unat (0xF7200000 :: u32))" if "unat q < 0x08200000" for q :: ptr
  proof -
    have shift: "q - 0x11000000 = q + 0xEF000000" by simp
    have "unat q + unat (0xEF000000 :: ptr) < 2 ^ LENGTH(32)" using that by simp
    then have "unat (q + 0xEF000000) = unat q + unat (0xEF000000 :: ptr)" by (rule unat_add_lem [THEN iffD1])
    then have "unat (q - 0x11000000) = unat q + 0xEF000000" unfolding shift by simp
    with that show ?thesis by (simp add: area_def target_get_scratch_address_def SCRATCH_ADDR_def)
  qed
  then have "area 0 0x08200000 \<subseteq> area target_get_scratch_address (unat (0xF7200000 :: u32))" by (auto simp: area_def)
  moreover have "area HEAP_START (unat HEAP_LEN) \<subseteq> area 0 0x08200000"
    using area_sub [of "unat HEAP_START" "unat HEAP_LEN" "0x08200000" 0] by (simp add: HEAP_START_def HEAP_LEN_def)
  ultimately show ?thesis unfolding size by blast
qed

text \<open>
  C24: the reason for a restart does not survive it: the marker that \<open>reboot_device\<close> leaves for the
  fastboot and the recovery mode is cleared again by \<open>target_exit\<close>, so the boot loader then sees a
  warm start (or a start for charging) whatever was asked for.
\<close>

theorem reboot_reason_lost:
  "get_boot_reason (reboot_device reason m) = (if reason = BOOT_CHARGING then BOOT_CHARGING else BOOT_WARM)"
proof -
  have sep: "sep SPL_BOOT_REASON_ADDR 4 LK_BOOTREASON_ADDR 4" "sep SPL_BOOT_REASON_ADDR 4 (LK_BOOTREASON_ADDR + 4) 4"
    "sep LK_BOOTREASON_ADDR 4 (LK_BOOTREASON_ADDR + 4) 4"
    by (simp_all add: sep_def SPL_BOOT_REASON_ADDR_def LK_BOOTREASON_ADDR_def)
  have "get_boot_reason (platform_exit (store32 m1 SPL_BOOT_REASON_ADDR x)) = 
      (if x = MARK_CHARGER then BOOT_CHARGING else if x = MARK_SOFTRESET then BOOT_WARM
       else get_boot_reason (platform_exit (store32 m1 SPL_BOOT_REASON_ADDR x)))" for m1 x
    using sep by (simp add: get_boot_reason_def platform_exit_def target_exit_def load32_store32_sep Let_def
        MARK_CHARGER_def MARK_SOFTRESET_def MARK_BUTTON_def MARK_BATTERY_def MARK_OFF_def MARK_RESET_def
        MARK_LK_TAG_def MARK_FASTBOOT_def MARK_RECOVERY_def)
  from this [of _ MARK_CHARGER] this [of _ MARK_SOFTRESET] show ?thesis
    by (simp add: reboot_device_def Let_def MARK_CHARGER_def MARK_SOFTRESET_def)
qed

end
