(* ===== verification/Lk_Hsusb.thy ===== *)
theory Lk_Hsusb
  imports Lk_Fastboot
begin

text \<open>
  The USB device controller driver of \<open>platform/msm_shared/hsusb.c\<close>, which implements
  \<open>include/dev/udc.h\<close>: descriptors, endpoints, requests, the control transfers on endpoint 0 and the
  interrupt handler.

  The controller reads and writes the queue heads of the endpoints and the queue items of the
  requests by itself; they are records under their addresses (\<open>dma\<close>) beside the state of the
  controller (\<open>ctl\<close>), and the bus works on both and on the memory. Descriptors, endpoints and requests
  are only used through their types: they are records too. What the driver calls back in the gadget
  is recorded in \<open>events\<close>. An access through a null pointer, which the code makes when an allocation
  fails, is \<open>None\<close>.
\<close>

section \<open>Registers\<close>

definition MSM_USB_BASE :: ptr where "MSM_USB_BASE = 0xA0800000"
definition USB_ID :: ptr where "USB_ID = MSM_USB_BASE + 0x0000"
definition USB_USBCMD :: ptr where "USB_USBCMD = MSM_USB_BASE + 0x0140"
definition USB_USBSTS :: ptr where "USB_USBSTS = MSM_USB_BASE + 0x0144"
definition USB_USBINTR :: ptr where "USB_USBINTR = MSM_USB_BASE + 0x0148"
definition USB_DEVICEADDR :: ptr where "USB_DEVICEADDR = MSM_USB_BASE + 0x0154"
definition USB_ENDPOINTLISTADDR :: ptr where "USB_ENDPOINTLISTADDR = MSM_USB_BASE + 0x0158"
definition USB_ULPI_VIEWPORT :: ptr where "USB_ULPI_VIEWPORT = MSM_USB_BASE + 0x0170"
definition USB_PORTSC :: ptr where "USB_PORTSC = MSM_USB_BASE + 0x0184"
definition USB_OTGSC :: ptr where "USB_OTGSC = MSM_USB_BASE + 0x01A4"
definition USB_USBMODE :: ptr where "USB_USBMODE = MSM_USB_BASE + 0x01A8"
definition USB_ENDPTSETUPSTAT :: ptr where "USB_ENDPTSETUPSTAT = MSM_USB_BASE + 0x01AC"
definition USB_ENDPTPRIME :: ptr where "USB_ENDPTPRIME = MSM_USB_BASE + 0x01B0"
definition USB_ENDPTFLUSH :: ptr where "USB_ENDPTFLUSH = MSM_USB_BASE + 0x01B4"
definition USB_ENDPTCOMPLETE :: ptr where "USB_ENDPTCOMPLETE = MSM_USB_BASE + 0x01BC"
definition USB_ENDPTCTRL :: "u8 \<Rightarrow> ptr" where "USB_ENDPTCTRL n = MSM_USB_BASE + 0x01C0 + 4 * ucast n"

definition CONFIG_MAX_PKT :: "u32 \<Rightarrow> u32" where "CONFIG_MAX_PKT n = push_bit 16 n"
definition CONFIG_ZLT :: u32 where "CONFIG_ZLT = push_bit 29 1"
definition CONFIG_IOS :: u32 where "CONFIG_IOS = push_bit 15 1"
definition TERMINATE :: u32 where "TERMINATE = 1"
definition INFO_BYTES :: "u32 \<Rightarrow> u32" where "INFO_BYTES n = push_bit 16 n"
definition INFO_IOC :: u32 where "INFO_IOC = push_bit 15 1"
definition INFO_ACTIVE :: u32 where "INFO_ACTIVE = push_bit 7 1"
definition INFO_HALTED :: u32 where "INFO_HALTED = push_bit 6 1"
definition STS_SLI :: u32 where "STS_SLI = push_bit 8 1"
definition STS_URI :: u32 where "STS_URI = push_bit 6 1"
definition STS_PCI :: u32 where "STS_PCI = push_bit 2 1"
definition STS_UEI :: u32 where "STS_UEI = push_bit 1 1"
definition STS_UI :: u32 where "STS_UI = push_bit 0 1"
definition EPT_TX :: "u32 \<Rightarrow> u32" where "EPT_TX n = push_bit (unat n + 16) 1"
definition EPT_RX :: "u32 \<Rightarrow> u32" where "EPT_RX n = push_bit (unat n) 1"
definition CTRL_TXE :: u32 where "CTRL_TXE = push_bit 23 1"
definition CTRL_TXR :: u32 where "CTRL_TXR = push_bit 22 1"
definition CTRL_RXE :: u32 where "CTRL_RXE = push_bit 7 1"
definition CTRL_RXR :: u32 where "CTRL_RXR = push_bit 6 1"
definition CTRL_TXT_BULK :: u32 where "CTRL_TXT_BULK = push_bit 18 2"
definition CTRL_RXT_BULK :: u32 where "CTRL_RXT_BULK = push_bit 2 2"
definition ULPI_RUN :: u32 where "ULPI_RUN = push_bit 30 1"
definition ULPI_WRITE :: u32 where "ULPI_WRITE = push_bit 29 1"
definition ULPI_READ :: u32 where "ULPI_READ = push_bit 29 0"
definition ULPI_ADDR :: "u32 \<Rightarrow> u32" where "ULPI_ADDR n = push_bit 16 (n AND 255)"
definition ULPI_DATA :: "u32 \<Rightarrow> u32" where "ULPI_DATA n = n AND 255"
definition ULPI_DATA_READ :: "u32 \<Rightarrow> u32" where "ULPI_DATA_READ n = drop_bit 8 n AND 255"
definition B_SESSION_VALID :: u32 where "B_SESSION_VALID = push_bit 11 1"

definition GET_STATUS :: u8 where "GET_STATUS = 0"
definition CLEAR_FEATURE :: u8 where "CLEAR_FEATURE = 1"
definition SET_ADDRESS :: u8 where "SET_ADDRESS = 5"
definition GET_DESCRIPTOR :: u8 where "GET_DESCRIPTOR = 6"
definition GET_CONFIGURATION :: u8 where "GET_CONFIGURATION = 8"
definition SET_CONFIGURATION :: u8 where "SET_CONFIGURATION = 9"
definition TYPE_DEVICE :: u32 where "TYPE_DEVICE = 1"
definition TYPE_CONFIGURATION :: u32 where "TYPE_CONFIGURATION = 2"
definition TYPE_STRING :: u32 where "TYPE_STRING = 3"
definition TYPE_INTERFACE :: u8 where "TYPE_INTERFACE = 4"
definition TYPE_ENDPOINT :: u8 where "TYPE_ENDPOINT = 5"
definition DEVICE_READ :: u8 where "DEVICE_READ = 0x80"
definition DEVICE_WRITE :: u8 where "DEVICE_WRITE = 0x00"
definition ENDPOINT_WRITE :: u8 where "ENDPOINT_WRITE = 0x02"

section \<open>State\<close>

record ept_queue_head =
  qh_config :: u32
  qh_next :: u32
  qh_info :: u32
  setup_data :: "u8 list"

record ept_queue_item =
  qi_next :: u32
  qi_info :: u32
  page0 :: u32
  page1 :: u32

record 'c dma =
  heads :: "ptr \<Rightarrow> ept_queue_head"
  items :: "ptr \<Rightarrow> ept_queue_item"
  ctl :: 'c

record udc_descriptor =
  desc_tag :: u16
  desc_len :: u16
  desc_data :: "u8 list"

datatype callback = No_callback | Ep0in_complete | Gadget_complete

record usb_request =
  rq_buf :: ptr
  rq_length :: u32
  rq_complete :: callback
  rq_item :: ptr

record udc_endpoint =
  ept_bit :: u32
  ept_head :: ptr
  ept_req :: ptr
  ept_num :: u8
  ept_is_in :: bool
  maxpkt :: u16

record udc_gadget =
  ifc_class :: u8
  ifc_subclass :: u8
  ifc_protocol :: u8
  ifc_endpoints :: u8
  ifc_string :: ptr
  gadget_epts :: "ptr list"

record udc_device =
  vendor_id :: u16
  product_id :: u16
  version_id :: u16
  manufacturer :: ptr
  product :: ptr
  serialno :: ptr

datatype psy_charger_state = CHG_OFF | CHG_USB_LOW | CHG_USB_HIGH | CHG_AC

text \<open>The functions a board gives to the driver; a null pointer is \<open>None\<close>.\<close>

record 'c pda_power_supply =
  psy_usb_online :: "('c \<Rightarrow> bool) option"
  psy_ac_online :: "('c \<Rightarrow> bool) option"
  psy_set_state :: "(psy_charger_state \<Rightarrow> 'c \<Rightarrow> 'c) option"
  psy_want_charging :: "('c \<Rightarrow> bool) option"

record 'c msm_hsusb_pdata =
  power_supply :: "'c pda_power_supply option"
  set_ulpi_state :: "(bool \<Rightarrow> 'c \<Rightarrow> 'c) option"

datatype gadget_event = Notified u32 | Completed ptr u32 int

record 'c usb =
  usb_mem :: mem
  dma :: "'c dma"
  usb_heap :: heap
  desc_list :: "udc_descriptor list"
  next_string_id :: u32
  endpoints :: "ptr \<Rightarrow> udc_endpoint"
  requests :: "ptr \<Rightarrow> usb_request"
  ept_list :: "ptr list"
  epts :: ptr
  host_online :: bool
  usb_highspeed :: bool
  the_device :: "udc_device option"
  the_gadget :: "udc_gadget option"
  pdata :: "'c msm_hsusb_pdata option"
  ept_alloc_table :: u32
  ep0in :: ptr
  ep0out :: ptr
  ep0req :: ptr
  usb_config_value :: u8
  irq_handler :: bool
  irq_unmasked :: bool
  events :: "gadget_event list"

definition usb_readl :: "'c dma bus \<Rightarrow> ptr \<Rightarrow> 'c usb \<Rightarrow> u32 \<times> 'c usb" where
  "usb_readl b a s = (let (v, m, x) = readl b a (usb_mem s, dma s) in (v, s\<lparr>usb_mem := m, dma := x\<rparr>))"

definition usb_writel :: "'c dma bus \<Rightarrow> u32 \<Rightarrow> ptr \<Rightarrow> 'c usb \<Rightarrow> 'c usb" where
  "usb_writel b v a s = (let (m, x) = writel b v a (usb_mem s, dma s) in s\<lparr>usb_mem := m, dma := x\<rparr>)"

definition set_head :: "ptr \<Rightarrow> (ept_queue_head \<Rightarrow> ept_queue_head) \<Rightarrow> 'c usb \<Rightarrow> 'c usb" where
  "set_head p f s = s\<lparr>dma := (dma s)\<lparr>heads := (heads (dma s))(p := f (heads (dma s) p))\<rparr>\<rparr>"

definition set_item :: "ptr \<Rightarrow> (ept_queue_item \<Rightarrow> ept_queue_item) \<Rightarrow> 'c usb \<Rightarrow> 'c usb" where
  "set_item p f s = s\<lparr>dma := (dma s)\<lparr>items := (items (dma s))(p := f (items (dma s) p))\<rparr>\<rparr>"

definition set_ept :: "ptr \<Rightarrow> (udc_endpoint \<Rightarrow> udc_endpoint) \<Rightarrow> 'c usb \<Rightarrow> 'c usb" where
  "set_ept p f s = s\<lparr>endpoints := (endpoints s)(p := f (endpoints s p))\<rparr>"

definition set_req :: "ptr \<Rightarrow> (usb_request \<Rightarrow> usb_request) \<Rightarrow> 'c usb \<Rightarrow> 'c usb" where
  "set_req p f s = s\<lparr>requests := (requests s)(p := f (requests s p))\<rparr>"

section \<open>Descriptors\<close>

text \<open>The bytes of a new descriptor after the first two are what the heap left there.\<close>

definition udc_descriptor_alloc ::
    "u32 \<Rightarrow> u32 \<Rightarrow> u32 \<Rightarrow> 'c usb \<Rightarrow> (udc_descriptor option \<times> 'c usb) option" where
  "udc_descriptor_alloc ty num len s =
    (if len > 255 \<or> len < 2 \<or> num > 255 \<or> ty > 255 then Some (None, s)
     else do {
       (h, p) \<leftarrow> malloc (usb_heap s) (8 + len);
       let s1 = s\<lparr>usb_heap := h\<rparr>;
       if p = 0 then Some (None, s1)
       else Some (Some \<lparr>desc_tag = ucast (push_bit 8 ty OR num), desc_len = ucast len,
                    desc_data = (rd (usb_mem s) (p + 8) (unat len))[0 := ucast len, 1 := ucast ty]\<rparr>, s1)
     })"

definition udc_descriptor_register :: "udc_descriptor \<Rightarrow> 'c usb \<Rightarrow> 'c usb" where
  "udc_descriptor_register desc s = s\<lparr>desc_list := desc # desc_list s\<rparr>"

text \<open>The loop that widens the characters: \<open>k\<close> of them from \<open>str\<close>, to the bytes from \<open>i\<close> on.\<close>

fun expand_ascii :: "mem \<Rightarrow> ptr \<Rightarrow> nat \<Rightarrow> nat \<Rightarrow> u8 list \<Rightarrow> u8 list" where
  "expand_ascii m str 0 i d = d"
| "expand_ascii m str (Suc k) i d = expand_ascii m (str + 1) k (i + 2) (d[i := m str, Suc i := 0])"

definition udc_string_desc_alloc :: "ptr \<Rightarrow> 'c usb \<Rightarrow> (u32 \<times> 'c usb) option" where
  "udc_string_desc_alloc str s =
    (if next_string_id s > 255 then Some (0, s)
     else if str = 0 then Some (0, s)
     else do {
       len \<leftarrow> strlen (usb_mem s) str;
       (d, s1) \<leftarrow> udc_descriptor_alloc TYPE_STRING (next_string_id s) (len * 2 + 2) s;
       (case d of None \<Rightarrow> Some (0, s1)
        | Some desc \<Rightarrow>
            let s2 = s1\<lparr>next_string_id := next_string_id s1 + 1\<rparr>;
                desc1 = desc\<lparr>desc_data := expand_ascii (usb_mem s2) str (unat len) 2 (desc_data desc)\<rparr>
            in Some (ucast (desc_tag desc1 AND 0xff), udc_descriptor_register desc1 s2))
     })"

section \<open>The power supply\<close>

definition psy_query :: "('c pda_power_supply \<Rightarrow> ('c \<Rightarrow> bool) option) \<Rightarrow> 'c usb \<Rightarrow> bool" where
  "psy_query f s =
    (case pdata s of None \<Rightarrow> False
     | Some pd \<Rightarrow> case power_supply pd of None \<Rightarrow> False
       | Some psy \<Rightarrow> case f psy of None \<Rightarrow> False | Some q \<Rightarrow> q (ctl (dma s)))"

definition is_usb_connected :: "'c usb \<Rightarrow> bool" where
  "is_usb_connected s = psy_query psy_usb_online s"

definition is_ac_connected :: "'c usb \<Rightarrow> bool" where
  "is_ac_connected s = psy_query psy_ac_online s"

definition psy_wants_charging :: "'c usb \<Rightarrow> bool" where
  "psy_wants_charging s = psy_query psy_want_charging s"

definition set_ctl :: "('c \<Rightarrow> 'c) \<Rightarrow> 'c usb \<Rightarrow> 'c usb" where
  "set_ctl f s = s\<lparr>dma := (dma s)\<lparr>ctl := f (ctl (dma s))\<rparr>\<rparr>"

definition set_charger_state :: "psy_charger_state \<Rightarrow> 'c usb \<Rightarrow> 'c usb" where
  "set_charger_state st s =
    (case pdata s of None \<Rightarrow> s
     | Some pd \<Rightarrow> case power_supply pd of None \<Rightarrow> s
       | Some psy \<Rightarrow> case psy_set_state psy of None \<Rightarrow> s | Some f \<Rightarrow> set_ctl (f st) s)"

definition ulpi_set_power :: "bool \<Rightarrow> 'c usb \<Rightarrow> 'c usb" where
  "ulpi_set_power enabled s =
    (case pdata s of None \<Rightarrow> s
     | Some pd \<Rightarrow> case set_ulpi_state pd of None \<Rightarrow> s | Some f \<Rightarrow> set_ctl (f enabled) s)"

section \<open>Endpoints\<close>

definition u_udc_endpoint_alloc :: "u32 \<Rightarrow> bool \<Rightarrow> u32 \<Rightarrow> 'c usb \<Rightarrow> (ptr \<times> 'c usb) option" where
  "u_udc_endpoint_alloc num inp max_pkt s =
    do {
      (h, p) \<leftarrow> malloc (usb_heap s) 20;
      if p = 0 then None
      else do {
        let hd_p = epts s + 64 * (num * 2 + (if inp then 1 else 0));
        let cfg = CONFIG_MAX_PKT max_pkt OR CONFIG_ZLT OR (if \<not> inp \<and> num = 0 then CONFIG_IOS else 0);
        let e = \<lparr>ept_bit = (if inp then EPT_TX (ucast (ucast num :: u8)) else EPT_RX (ucast (ucast num :: u8))),
                 ept_head = hd_p, ept_req = 0, ept_num = ucast num, ept_is_in = inp, maxpkt = ucast max_pkt\<rparr>;
        Some (p, set_head hd_p (\<lambda>q. q\<lparr>qh_config := cfg\<rparr>)
          (s\<lparr>usb_heap := h, endpoints := (endpoints s)(p := e), ept_list := p # ept_list s\<rparr>))
      }
    }"

definition udc_endpoint_alloc :: "u32 \<Rightarrow> u32 \<Rightarrow> 'c usb \<Rightarrow> (ptr \<times> 'c usb) option" where
  "udc_endpoint_alloc ty pkt s =
    (if ty \<noteq> UDC_TYPE_BULK_IN \<and> ty \<noteq> UDC_TYPE_BULK_OUT then Some (0, s)
     else let inp = (ty = UDC_TYPE_BULK_IN); bit_of = (\<lambda>n. if inp then EPT_TX n else EPT_RX n) in
       case find (\<lambda>n. ept_alloc_table s AND bit_of n = 0) [1, 2, 3, 4, 5, 6, 7, 8, 9, 10, 11, 12, 13, 14, 15] of
         None \<Rightarrow> Some (0, s)
       | Some n \<Rightarrow> do {
           (ept, s1) \<leftarrow> u_udc_endpoint_alloc n inp pkt s;
           Some (ept, if ept \<noteq> 0 then s1\<lparr>ept_alloc_table := ept_alloc_table s1 OR bit_of n\<rparr> else s1)
         })"

definition endpoint_enable :: "'c dma bus \<Rightarrow> ptr \<Rightarrow> u32 \<Rightarrow> 'c usb \<Rightarrow> 'c usb" where
  "endpoint_enable b ept yes s =
    (let e = endpoints s ept; (n, s1) = usb_readl b (USB_ENDPTCTRL (ept_num e)) s;
         n1 = (if yes = 0 then n
               else if ept_is_in e then n OR (CTRL_TXE OR CTRL_TXR OR CTRL_TXT_BULK)
               else n OR (CTRL_RXE OR CTRL_RXR OR CTRL_RXT_BULK));
         s2 = (if yes \<noteq> 0 \<and> ept_num e \<noteq> 0
               then set_head (ept_head e) (\<lambda>q. q\<lparr>qh_config := CONFIG_MAX_PKT (if usb_highspeed s1 then 512 else 64) OR CONFIG_ZLT\<rparr>) s1
               else s1)
     in usb_writel b n1 (USB_ENDPTCTRL (ept_num e)) s2)"

section \<open>Requests\<close>

definition udc_request_alloc :: "'c usb \<Rightarrow> (ptr \<times> 'c usb) option" where
  "udc_request_alloc s =
    do {
      (h, r) \<leftarrow> malloc (usb_heap s) 20;
      if r = 0 then None
      else do {
        (h, it) \<leftarrow> memalign h 32 32;
        Some (r, set_req r (\<lambda>q. q\<lparr>rq_buf := 0, rq_length := 0, rq_item := it\<rparr>) (s\<lparr>usb_heap := h\<rparr>))
      }
    }"

definition udc_request_queue :: "'c dma bus \<Rightarrow> ptr \<Rightarrow> ptr \<Rightarrow> 'c usb \<Rightarrow> int \<times> 'c usb" where
  "udc_request_queue b ept rq s =
    (let r = requests s rq; it = rq_item r; phys = rq_buf r;
         s1 = set_item it (\<lambda>q. q\<lparr>qi_next := TERMINATE, qi_info := INFO_BYTES (rq_length r) OR INFO_IOC OR INFO_ACTIVE,
                page0 := phys, page1 := (phys AND 0xfffff000) + 0x1000\<rparr>) s;
         s2 = set_head (ept_head (endpoints s1 ept)) (\<lambda>q. q\<lparr>qh_next := it, qh_info := 0\<rparr>) s1;
         s3 = set_ept ept (\<lambda>e. e\<lparr>ept_req := rq\<rparr>) s2
     in (0, usb_writel b (ept_bit (endpoints s3 ept)) USB_ENDPTPRIME s3))"

definition ep0in_complete :: "'c dma bus \<Rightarrow> ptr \<Rightarrow> u32 \<Rightarrow> int \<Rightarrow> 'c usb \<Rightarrow> 'c usb" where
  "ep0in_complete b rq act st s =
    (if st = 0 then snd (udc_request_queue b (ep0out s) rq (set_req rq (\<lambda>q. q\<lparr>rq_length := 0, rq_complete := No_callback\<rparr>) s))
     else s)"

definition call_complete :: "'c dma bus \<Rightarrow> ptr \<Rightarrow> u32 \<Rightarrow> int \<Rightarrow> 'c usb \<Rightarrow> 'c usb" where
  "call_complete b rq act st s =
    (case rq_complete (requests s rq) of
       No_callback \<Rightarrow> s
     | Ep0in_complete \<Rightarrow> ep0in_complete b rq act st s
     | Gadget_complete \<Rightarrow> s\<lparr>events := events s @ [Completed rq act st]\<rparr>)"

text \<open>
  The wait for the active bit of the item to clear reads the item again and again while the
  controller works on.
\<close>

partial_function (option) wait_inactive :: "'c dma bus \<Rightarrow> ptr \<Rightarrow> 'c usb \<Rightarrow> 'c usb option" where
  "wait_inactive b it s =
    (let (v, s1) = usb_readl b (it + 4) s in
     if v AND INFO_ACTIVE \<noteq> 0 then wait_inactive b it s1 else Some s1)"

definition handle_ept_complete :: "'c dma bus \<Rightarrow> ptr \<Rightarrow> 'c usb \<Rightarrow> 'c usb option" where
  "handle_ept_complete b ept s =
    (let rq = ept_req (endpoints s ept) in
     if rq = 0 then Some s
     else do {
       let s1 = set_ept ept (\<lambda>e. e\<lparr>ept_req := 0\<rparr>) s;
       let it = rq_item (requests s1 rq);
       s2 \<leftarrow> wait_inactive b it s1;
       let nfo = qi_info (items (dma s2) it);
       Some (if nfo AND 0xff \<noteq> 0 then call_complete b rq 0 (- 1) s2
             else call_complete b rq (rq_length (requests s2 rq) - (drop_bit 16 nfo AND 0x7fff)) 0 s2)
     })"

section \<open>Control transfers\<close>

definition setup_ack :: "'c dma bus \<Rightarrow> 'c usb \<Rightarrow> 'c usb" where
  "setup_ack b s =
    snd (udc_request_queue b (ep0in s) (ep0req s) (set_req (ep0req s) (\<lambda>q. q\<lparr>rq_complete := No_callback, rq_length := 0\<rparr>) s))"

definition setup_tx :: "'c dma bus \<Rightarrow> u8 list \<Rightarrow> 'c usb \<Rightarrow> 'c usb" where
  "setup_tx b bs s =
    (let s1 = s\<lparr>usb_mem := wr (usb_mem s) (rq_buf (requests s (ep0req s))) bs\<rparr>;
         s2 = set_req (ep0req s) (\<lambda>q. q\<lparr>rq_complete := Ep0in_complete, rq_length := of_nat (length bs)\<rparr>) s1
     in snd (udc_request_queue b (ep0in s) (ep0req s) s2))"

record setup_packet =
  sp_type :: u8
  sp_request :: u8
  sp_value :: u16
  sp_index :: u16
  sp_length :: u16

definition half :: "u8 \<Rightarrow> u8 \<Rightarrow> u16" where
  "half lo hi = ucast lo OR push_bit 8 (ucast hi)"

definition setup_of :: "u8 list \<Rightarrow> setup_packet" where
  "setup_of d = \<lparr>sp_type = d ! 0, sp_request = d ! 1, sp_value = half (d ! 2) (d ! 3),
    sp_index = half (d ! 4) (d ! 5), sp_length = half (d ! 6) (d ! 7)\<rparr>"

definition notify :: "u32 \<Rightarrow> 'c usb \<Rightarrow> 'c usb option" where
  "notify event s = (if the_gadget s = None then None else Some (s\<lparr>events := events s @ [Notified event]\<rparr>))"

definition setup_stall :: "'c dma bus \<Rightarrow> ptr \<Rightarrow> 'c usb \<Rightarrow> 'c usb" where
  "setup_stall b ept s = usb_writel b (push_bit 16 1 OR push_bit 0 1) (USB_ENDPTCTRL (ept_num (endpoints s ept))) s"

definition set_configuration :: "'c dma bus \<Rightarrow> u16 \<Rightarrow> 'c usb \<Rightarrow> 'c usb option" where
  "set_configuration b val s =
    do {
      s1 \<leftarrow> (if val = 1 then
               (let sa = fold (\<lambda>e x. if ept_num (endpoints x e) = 0 then x else endpoint_enable b e (ucast val) x) (ept_list s) s;
                    sb = sa\<lparr>usb_config_value := 1\<rparr>;
                    sc = (if is_usb_connected sb then set_charger_state CHG_USB_HIGH sb else sb)
                in notify UDC_EVENT_ONLINE sc)
             else notify UDC_EVENT_OFFLINE ((usb_writel b 0 (USB_ENDPTCTRL 1) s)\<lparr>usb_config_value := 0\<rparr>));
      Some ((setup_ack b s1)\<lparr>host_online := val \<noteq> 0\<rparr>)
    }"

definition handle_setup :: "'c dma bus \<Rightarrow> ptr \<Rightarrow> 'c usb \<Rightarrow> 'c usb option" where
  "handle_setup b ept s0 =
    (let p = setup_of (setup_data (heads (dma s0) (ept_head (endpoints s0 ept))));
         s = usb_writel b (ept_bit (endpoints s0 ept)) USB_ENDPTSETUPSTAT s0;
         stall = Some (setup_stall b ept s)
     in if sp_type p = DEVICE_READ \<and> sp_request p = GET_STATUS then
          (if sp_length p = 2 then Some (setup_tx b [0, 0] s) else stall)
        else if sp_type p = DEVICE_READ \<and> sp_request p = GET_DESCRIPTOR then
          (case find (\<lambda>d. desc_tag d = sp_value p) (desc_list s) of
             Some d \<Rightarrow> Some (setup_tx b (take (unat (min (desc_len d) (sp_length p))) (desc_data d)) s)
           | None \<Rightarrow> stall)
        else if sp_type p = DEVICE_READ \<and> sp_request p = GET_CONFIGURATION then
          (if sp_value p = 0 \<and> sp_index p = 0 \<and> sp_length p = 1 then Some (setup_tx b [usb_config_value s] s) else stall)
        else if sp_type p = DEVICE_WRITE \<and> sp_request p = SET_CONFIGURATION then set_configuration b (sp_value p) s
        else if sp_type p = DEVICE_WRITE \<and> sp_request p = SET_ADDRESS then
          Some (setup_ack b (usb_writel b (push_bit 25 (ucast (sp_value p)) OR push_bit 24 1) USB_DEVICEADDR s))
        else if sp_type p = ENDPOINT_WRITE \<and> sp_request p = CLEAR_FEATURE \<and> sp_value p = 0 \<and> sp_length p = 0 then
          (case find (\<lambda>e. ucast (ept_num (endpoints s e)) = sp_index p AND 15 \<and> ept_is_in (endpoints s e) = (sp_index p AND 0x80 \<noteq> 0))
                  (ept_list s) of
             Some e \<Rightarrow> Some (setup_ack b (endpoint_enable b e 1 s))
           | None \<Rightarrow> stall)
        else stall)"

section \<open>The transceiver\<close>

fun ulpi_wait :: "'c dma bus \<Rightarrow> nat \<Rightarrow> 'c usb \<Rightarrow> nat \<times> 'c usb" where
  "ulpi_wait b 0 s = (0, s)"
| "ulpi_wait b (Suc k) s =
    (let (v, s1) = usb_readl b USB_ULPI_VIEWPORT s in if v AND ULPI_RUN = 0 then (Suc k, s1) else ulpi_wait b k s1)"

definition ulpi_read :: "'c dma bus \<Rightarrow> u32 \<Rightarrow> 'c usb \<Rightarrow> u32 \<times> 'c usb" where
  "ulpi_read b r s =
    (let (timeout, s1) = ulpi_wait b 10000 (usb_writel b (ULPI_RUN OR ULPI_READ OR ULPI_ADDR r) USB_ULPI_VIEWPORT s)
     in if timeout = 0 then (- 1, s1)
        else let (v, s2) = usb_readl b USB_ULPI_VIEWPORT s1 in (ULPI_DATA_READ v, s2))"

definition ulpi_write :: "'c dma bus \<Rightarrow> u32 \<Rightarrow> u32 \<Rightarrow> 'c usb \<Rightarrow> 'c usb" where
  "ulpi_write b val r s =
    snd (ulpi_wait b 10000 (usb_writel b (ULPI_RUN OR ULPI_WRITE OR ULPI_ADDR r OR ULPI_DATA val) USB_ULPI_VIEWPORT s))"

section \<open>Start-up\<close>

definition msm_hsusb_init :: "'c msm_hsusb_pdata \<Rightarrow> 'c usb \<Rightarrow> 'c usb" where
  "msm_hsusb_init new_pdata s = s\<lparr>pdata := Some new_pdata\<rparr>"

definition disable_pullup :: "'c dma bus \<Rightarrow> 'c usb \<Rightarrow> 'c usb" where
  "disable_pullup b s = usb_writel b 0x80000 USB_USBCMD s"

definition enable_pullup :: "'c dma bus \<Rightarrow> 'c usb \<Rightarrow> 'c usb" where
  "enable_pullup b s = usb_writel b 0x80001 USB_USBCMD s"

definition udc_reset :: "'c dma bus \<Rightarrow> 'c usb \<Rightarrow> 'c usb" where
  "udc_reset b s =
    (let s1 = ulpi_set_power True s;
         s2 = usb_writel b 0 USB_OTGSC s1;
         s3 = usb_writel b 0x81000000 USB_PORTSC s2;
         s4 = usb_writel b 0x80002 USB_USBCMD s3;
         s5 = usb_writel b (epts s4) USB_ENDPOINTLISTADDR s4;
         s6 = usb_writel b 0x02 USB_USBMODE s5
     in usb_writel b 0xffffffff USB_ENDPTFLUSH s6)"

definition zero_head :: ept_queue_head where
  "zero_head = \<lparr>qh_config = 0, qh_next = 0, qh_info = 0, setup_data = replicate 8 0\<rparr>"

definition udc_init :: "'c dma bus \<Rightarrow> udc_device \<Rightarrow> 'c usb \<Rightarrow> (int \<times> 'c usb) option" where
  "udc_init b dev s =
    do {
      (h, p) \<leftarrow> memalign (usb_heap s) 4096 4096;
      let s1 = s\<lparr>usb_heap := h, epts := p\<rparr>;
      let s2 = fold (\<lambda>k. set_head (p + 64 * of_nat k) (\<lambda>_. zero_head)) [0..<32] s1;
      let (usb_id, s3) = usb_readl b USB_ID (udc_reset b s2);
      (eo, s4) \<leftarrow> u_udc_endpoint_alloc 0 False 64 s3;
      (ei, s5) \<leftarrow> u_udc_endpoint_alloc 0 True 64 (s4\<lparr>ep0out := eo\<rparr>);
      (r, s6) \<leftarrow> udc_request_alloc (s5\<lparr>ep0in := ei\<rparr>);
      (h, buf) \<leftarrow> malloc (usb_heap s6) 4096;
      let s7 = set_req r (\<lambda>q. q\<lparr>rq_buf := buf\<rparr>) (s6\<lparr>ep0req := r, usb_heap := h\<rparr>);
      (d, s8) \<leftarrow> udc_descriptor_alloc TYPE_STRING 0 4 s7;
      (case d of None \<Rightarrow> None
       | Some desc \<Rightarrow>
           Some (0, (udc_descriptor_register (desc\<lparr>desc_data := (desc_data desc)[2 := 0x09, 3 := 0x04]\<rparr>) s8)
             \<lparr>the_device := Some dev\<rparr>))
    }"

section \<open>The interrupt\<close>

datatype handler_return = INT_NO_RESCHEDULE | INT_RESCHEDULE

text \<open>A reset: the pending requests are completed as errors.\<close>

fun fail_pending :: "'c dma bus \<Rightarrow> ptr list \<Rightarrow> 'c usb \<Rightarrow> 'c usb option" where
  "fail_pending b [] s = Some s"
| "fail_pending b (e # es) s =
    (let rq = ept_req (endpoints s e) in
     if rq = 0 then fail_pending b es s
     else do {
       s1 \<leftarrow> handle_ept_complete b e (set_item (rq_item (requests s rq)) (\<lambda>q. q\<lparr>qi_info := INFO_HALTED\<rparr>) s);
       fail_pending b es s1
     })"

definition handle_reset :: "'c dma bus \<Rightarrow> 'c usb \<Rightarrow> 'c usb option" where
  "handle_reset b s =
    (let (c, s1) = usb_readl b USB_ENDPTCOMPLETE s;
         s2 = usb_writel b c USB_ENDPTCOMPLETE s1;
         (t, s3) = usb_readl b USB_ENDPTSETUPSTAT s2;
         s4 = usb_writel b t USB_ENDPTSETUPSTAT s3;
         s5 = usb_writel b 0xffffffff USB_ENDPTFLUSH s4;
         s6 = usb_writel b 0 (USB_ENDPTCTRL 1) s5
     in do {
       s7 \<leftarrow> notify UDC_EVENT_OFFLINE (s6\<lparr>host_online := False, usb_config_value := 0\<rparr>);
       fail_pending b (ept_list s7) s7
     })"

definition handle_suspend :: "'c usb \<Rightarrow> 'c usb" where
  "handle_suspend s = (if is_usb_connected s then set_charger_state CHG_USB_HIGH s else s)"

definition handle_portchange :: "'c dma bus \<Rightarrow> 'c usb \<Rightarrow> 'c usb" where
  "handle_portchange b s =
    (let (v, s1) = usb_readl b USB_PORTSC s;
         s2 = s1\<lparr>usb_highspeed := drop_bit 26 v AND 3 = 2\<rparr>
     in if is_usb_connected s2 then set_charger_state (if usb_config_value s2 \<noteq> 0 then CHG_USB_HIGH else CHG_USB_LOW) s2 else s2)"

fun complete_epts :: "'c dma bus \<Rightarrow> u32 \<Rightarrow> ptr list \<Rightarrow> handler_return \<times> 'c usb \<Rightarrow> (handler_return \<times> 'c usb) option" where
  "complete_epts b n [] x = Some x"
| "complete_epts b n (e # es) (ret, s) =
    (if n AND ept_bit (endpoints s e) \<noteq> 0 then do {
       s1 \<leftarrow> handle_ept_complete b e s;
       complete_epts b n es (INT_RESCHEDULE, s1)
     } else complete_epts b n es (ret, s))"

definition handle_transfers :: "'c dma bus \<Rightarrow> 'c usb \<Rightarrow> (handler_return \<times> 'c usb) option" where
  "handle_transfers b s =
    (let (n, s1) = usb_readl b USB_ENDPTSETUPSTAT s in
     do {
       (ret, s2) \<leftarrow> (if n AND EPT_RX 0 \<noteq> 0 then map_option (Pair INT_RESCHEDULE) (handle_setup b (ep0out s1) s1)
                     else Some (INT_NO_RESCHEDULE, s1));
       let (c, s3) = usb_readl b USB_ENDPTCOMPLETE s2;
       let s4 = (if c \<noteq> 0 then usb_writel b c USB_ENDPTCOMPLETE s3 else s3);
       complete_epts b c (ept_list s4) (ret, s4)
     })"

definition udc_interrupt :: "'c dma bus \<Rightarrow> 'c usb \<Rightarrow> (handler_return \<times> 'c usb) option" where
  "udc_interrupt b s =
    (let (sts, s1) = usb_readl b USB_USBSTS s;
         s2 = usb_writel b sts USB_USBSTS s1;
         n = sts AND (STS_SLI OR STS_URI OR STS_PCI OR STS_UI OR STS_UEI)
     in if n = 0 then Some (INT_NO_RESCHEDULE, s2)
        else do {
          s3 \<leftarrow> (if n AND STS_URI \<noteq> 0 then handle_reset b s2 else Some s2);
          let s4 = (if n AND STS_SLI \<noteq> 0 then handle_suspend s3 else s3);
          let s5 = (if n AND STS_PCI \<noteq> 0 then handle_portchange b s4 else s4);
          if n AND STS_UI \<noteq> 0 \<or> n AND STS_UEI \<noteq> 0 then handle_transfers b s5 else Some (INT_NO_RESCHEDULE, s5)
        })"

section \<open>Going online\<close>

definition udc_register_gadget :: "udc_gadget \<Rightarrow> 'c usb \<Rightarrow> int \<times> 'c usb" where
  "udc_register_gadget gadget s =
    (case the_gadget s of Some _ \<Rightarrow> (- 1, s) | None \<Rightarrow> (0, s\<lparr>the_gadget := Some gadget\<rparr>))"

definition half_bytes :: "u16 \<Rightarrow> u8 list" where
  "half_bytes w = [ucast w, ucast (drop_bit 8 w)]"

definition udc_ept_desc_fill :: "udc_endpoint \<Rightarrow> u8 list" where
  "udc_ept_desc_fill e =
    [7, TYPE_ENDPOINT, ept_num e OR (if ept_is_in e then 0x80 else 0x00), 0x02, ucast (maxpkt e), ucast (drop_bit 8 (maxpkt e)),
     if ept_is_in e then 0x00 else 0x01]"

definition udc_ifc_desc_size :: "udc_gadget \<Rightarrow> u32" where
  "udc_ifc_desc_size g = 9 + ucast (ifc_endpoints g) * 7"

text \<open>The bytes that are filled in, from \<open>data + 9\<close> on; a gadget has an endpoint for each of its number.\<close>

definition udc_ifc_desc_fill :: "udc_gadget \<Rightarrow> 'c usb \<Rightarrow> (u8 list \<times> 'c usb) option" where
  "udc_ifc_desc_fill g s =
    do {
      (i, s1) \<leftarrow> udc_string_desc_alloc (ifc_string g) s;
      Some ([0x09, TYPE_INTERFACE, 0x00, 0x00, ifc_endpoints g, ifc_class g, ifc_subclass g, ifc_protocol g, ucast i] @
        concat (map (\<lambda>k. udc_ept_desc_fill (endpoints s1 (gadget_epts g ! k))) [0..<unat (ifc_endpoints g)]), s1)
    }"

definition put_bytes :: "nat \<Rightarrow> u8 list \<Rightarrow> u8 list \<Rightarrow> u8 list" where
  "put_bytes i bs d = take i d @ bs @ drop (i + length bs) d"

definition device_descriptor :: "udc_device \<Rightarrow> 'c usb \<Rightarrow> 'c usb option" where
  "device_descriptor dev s =
    do {
      (d, s1) \<leftarrow> udc_descriptor_alloc TYPE_DEVICE 0 18 s;
      (case d of None \<Rightarrow> None
       | Some desc \<Rightarrow> do {
           let d1 = put_bytes 2 [0x00, 0x02, 0x00, 0x00, 0x00, 0x40] (desc_data desc);
           let d2 = put_bytes 8 (half_bytes (vendor_id dev) @ half_bytes (product_id dev) @ half_bytes (version_id dev)) d1;
           (i, s2) \<leftarrow> udc_string_desc_alloc (manufacturer dev) s1;
           (j, s3) \<leftarrow> udc_string_desc_alloc (product dev) s2;
           (k, s4) \<leftarrow> udc_string_desc_alloc (serialno dev) s3;
           Some (udc_descriptor_register (desc\<lparr>desc_data := put_bytes 14 [ucast i, ucast j, ucast k, 1] d2\<rparr>) s4)
         })
    }"

definition configuration_descriptor :: "udc_gadget \<Rightarrow> 'c usb \<Rightarrow> 'c usb option" where
  "configuration_descriptor g s =
    do {
      let sz = 9 + udc_ifc_desc_size g;
      (d, s1) \<leftarrow> udc_descriptor_alloc TYPE_CONFIGURATION 0 sz s;
      (case d of None \<Rightarrow> None
       | Some desc \<Rightarrow> do {
           let d1 = (desc_data desc)[0 := 0x09, 2 := ucast sz, 3 := ucast (drop_bit 8 sz), 4 := 0x01, 5 := 0x01, 6 := 0x00,
             7 := 0x80, 8 := 0x80];
           (bs, s2) \<leftarrow> udc_ifc_desc_fill g s1;
           Some (udc_descriptor_register (desc\<lparr>desc_data := put_bytes 9 bs d1\<rparr>) s2)
         })
    }"

definition udc_start :: "'c dma bus \<Rightarrow> 'c usb \<Rightarrow> (int \<times> 'c usb) option" where
  "udc_start b s =
    (case the_device s of None \<Rightarrow> Some (- 1, s)
     | Some dev \<Rightarrow> case the_gadget s of None \<Rightarrow> Some (- 1, s)
       | Some g \<Rightarrow> do {
           s1 \<leftarrow> device_descriptor dev s;
           s2 \<leftarrow> configuration_descriptor g s1;
           let s3 = usb_writel b (STS_URI OR STS_SLI OR STS_UI OR STS_PCI) USB_USBINTR (s2\<lparr>irq_handler := True\<rparr>);
           Some (0, enable_pullup b (s3\<lparr>irq_unmasked := True\<rparr>))
         })"

definition udc_stop_usb :: "'c dma bus \<Rightarrow> 'c usb \<Rightarrow> int \<times> 'c usb" where
  "udc_stop_usb b s = (0, disable_pullup b ((usb_writel b 0 USB_USBINTR s)\<lparr>irq_unmasked := False\<rparr>))"

section \<open>The cable\<close>

definition is_usb_cable_connected :: "'c dma bus \<Rightarrow> 'c usb \<Rightarrow> int \<times> 'c usb" where
  "is_usb_cable_connected b s =
    (let (v, s1) = usb_readl b USB_OTGSC s in (if B_SESSION_VALID AND v \<noteq> 0 then 1 else 0, s1))"

definition usb_cable_status :: "'c dma bus \<Rightarrow> 'c usb \<Rightarrow> int \<times> 'c usb" where
  "usb_cable_status b s =
    (let (v, s1) = usb_readl b USB_PORTSC (usb_writel b 0x00080001 USB_USBCMD s)
     in (if push_bit 7 1 AND v = 0 then 1 else 0, snd (udc_stop_usb b s1)))"

definition usb_charger_change_state :: "'c dma bus \<Rightarrow> 'c usb \<Rightarrow> 'c usb" where
  "usb_charger_change_state b s =
    (if psy_wants_charging s then
       (if is_usb_connected s \<and> \<not> is_ac_connected s then usb_writel b 0x00080001 USB_USBCMD (set_charger_state CHG_USB_LOW s)
        else if \<not> is_usb_connected s \<and> is_ac_connected s then set_charger_state CHG_AC (usb_writel b 0x00080000 USB_USBCMD s)
        else s)
     else let (v, s1) = usb_readl b USB_USBCMD s in
       if v AND 0x01 = 0 then set_charger_state CHG_OFF (usb_writel b 0x00080001 USB_USBCMD s1) else s1)"

end
