(* ===== verification/Lk_Usbok.thy ===== *)
theory Lk_Usbok
  imports Lk_Fastok Lk_Hsusb
begin

text \<open>
  The driver of \<open>hsusb.c\<close> keeps what fastboot asks of a device controller: the terms of \<open>udc_ok\<close>. The
  controller is a parameter, the bus; \<open>controller_ok\<close> says what its documentation promises. The items
  the controller may still be filling with data from the host are \<open>filling\<close>: it takes one on when
  its endpoint is primed, writes memory only through the page pointers of those that are active,
  and never touches an item that is not.
\<close>

section \<open>The controller\<close>

definition item_bytes :: "ept_queue_item \<Rightarrow> u32" where
  "item_bytes q = drop_bit 16 (qi_info q) AND 0x7fff"

definition active :: "ept_queue_item \<Rightarrow> bool" where
  "active q \<longleftrightarrow> qi_info q AND INFO_ACTIVE \<noteq> 0"

text \<open>
  Byte \<open>i\<close> of a transfer lies in the first page from the offset of \<open>page0\<close> on, then in the page of
  \<open>page1\<close>. The driver does not set the pointers after them, so that more bytes may land anywhere.
\<close>

definition item_addr :: "ept_queue_item \<Rightarrow> nat \<Rightarrow> ptr" where
  "item_addr q i =
    (let o0 = unat (page0 q AND mask 12) + i
     in if o0 < 4096 then page0 q + of_nat i else (page1 q AND NOT (mask 12)) + of_nat (o0 - 4096))"

definition item_area :: "ept_queue_item \<Rightarrow> ptr set" where
  "item_area q =
    (if unat (page0 q AND mask 12) + unat (item_bytes q) \<le> 8192 then item_addr q ` {..< unat (item_bytes q)} else UNIV)"

definition fill_area :: "('c \<Rightarrow> ptr set) \<Rightarrow> 'c dma \<Rightarrow> ptr set" where
  "fill_area filling x = (\<Union>it \<in> {it \<in> filling (ctl x). active (items x it)}. item_area (items x it))"

text \<open>The items at the heads of the OUT endpoints whose bits are written to \<open>USB_ENDPTPRIME\<close>.\<close>

definition primed :: "ptr \<Rightarrow> u32 \<Rightarrow> 'c dma \<Rightarrow> ptr set" where
  "primed table v x = {qh_next (heads x (table + 128 * of_nat n)) |n. n < 16 \<and> bit v n}"

definition item_step :: "ept_queue_item \<Rightarrow> ept_queue_item \<Rightarrow> bool" where
  "item_step q q' \<longleftrightarrow> page0 q' = page0 q \<and> page1 q' = page1 q \<and> item_bytes q' \<le> item_bytes q \<and>
    (\<not> active q \<longrightarrow> q' = q)"

definition controller_step :: "('c \<Rightarrow> ptr set) \<Rightarrow> mem \<times> 'c dma \<Rightarrow> mem \<times> 'c dma \<Rightarrow> ptr set \<Rightarrow> bool" where
  "controller_step filling = (\<lambda>(m, x) (m', x') N.
    frame (fill_area filling x) m m' \<and> (\<forall>it. item_step (items x it) (items x' it)) \<and>
    filling (ctl x') \<subseteq> filling (ctl x) \<union> N)"

definition controller_ok :: "ptr \<Rightarrow> ('c \<Rightarrow> ptr set) \<Rightarrow> 'c dma bus \<Rightarrow> bool" where
  "controller_ok table filling b \<longleftrightarrow>
    (\<forall>a mc v mc'. bus_read b a mc = (v, mc') \<longrightarrow> controller_step filling mc mc' {}) \<and>
    (\<forall>a v mc. a \<noteq> USB_ENDPTPRIME \<longrightarrow> controller_step filling mc (bus_write b a v mc) {}) \<and>
    (\<forall>v mc. controller_step filling mc (bus_write b USB_ENDPTPRIME v mc) (primed table v (snd mc))) \<and>
    (\<forall>it mc v mc'. it < MSM_USB_BASE - 4 \<and> bus_read b (it + 4) mc = (v, mc') \<longrightarrow> v = qi_info (items (snd mc') it))"

section \<open>A transfer of at most a page needs two page pointers\<close>

lemma page_start: "(p :: u32) AND 0xfffff000 = push_bit 12 (drop_bit 12 p)"
proof -
  have m: "(0xfffff000 :: u32) = NOT (mask 12)" by (simp add: mask_eq_exp_minus_1)
  show ?thesis unfolding m by (rule bit_word_eqI) (auto simp: bit_simps)
qed

lemma page_split: "push_bit 12 (drop_bit 12 p) + (p AND mask 12) = (p :: u32)"
proof -
  have "push_bit 12 (drop_bit 12 p) AND (p AND mask 12) = 0"
    by (rule bit_word_eqI) (auto simp: bit_simps)
  then have "push_bit 12 (drop_bit 12 p) + (p AND mask 12) = push_bit 12 (drop_bit 12 p) OR (p AND mask 12)"
    using word_plus_and_or [of "push_bit 12 (drop_bit 12 p)" "p AND mask 12"] by simp
  also have "\<dots> = p" by (rule bit_word_eqI) (auto simp: bit_simps)
  finally show ?thesis .
qed

lemma next_page: "(push_bit 12 q + 0x1000 :: u32) AND NOT (mask 12) = push_bit 12 q + 0x1000"
proof -
  have "push_bit 12 q + 0x1000 = push_bit 12 (q + 1 :: u32)" by (simp add: push_bit_eq_mult distrib_right)
  moreover have "push_bit 12 r AND NOT (mask 12) = push_bit 12 r" for r :: u32
    by (rule bit_word_eqI) (auto simp: bit_simps)
  ultimately show ?thesis by simp
qed

lemma queued_addr:
  assumes "page0 q = p" and "page1 q = (p AND 0xfffff000) + 0x1000"
  shows "item_addr q i = p + of_nat i"
proof -
  let ?o = "p AND mask 12"
  have "push_bit 12 (drop_bit 12 p) = p - ?o" using page_split [of p] by (metis add_diff_cancel_right')
  then have p1: "page1 q AND NOT (mask 12) = p - ?o + 0x1000"
    unfolding assms(2) page_start next_page by simp
  have "p - ?o + 0x1000 + of_nat (unat ?o + i - 4096) = p + of_nat i" if "4096 \<le> unat ?o + i"
  proof -
    have "(of_nat (unat ?o + i - 4096) :: u32) = ?o + of_nat i - 4096" using that by (simp add: of_nat_diff)
    then show ?thesis by simp
  qed
  then show ?thesis unfolding item_addr_def Let_def assms(1) p1 by (simp add: not_less)
qed

lemma item_bytes_le: "item_bytes q \<le> 0x7fff"
  by (simp add: item_bytes_def word_and_le1)

lemma queued_bytes: "item_bytes \<lparr>qi_next = n, qi_info = INFO_BYTES len OR INFO_IOC OR INFO_ACTIVE, page0 = p, page1 = p'\<rparr> = len AND 0x7fff"
proof -
  have "drop_bit 16 (INFO_BYTES len OR INFO_IOC OR INFO_ACTIVE) AND 0x7fff = (len AND 0x7fff)"
  proof -
    have m: "(0x7fff :: u32) = mask 15" by (simp add: mask_eq_exp_minus_1)
    show ?thesis unfolding m INFO_BYTES_def INFO_IOC_def INFO_ACTIVE_def
      by (rule bit_word_eqI) (auto simp: bit_simps)
  qed
  then show ?thesis by (simp add: item_bytes_def)
qed

lemma queued_area:
  assumes "page0 q = p" and "page1 q = (p AND 0xfffff000) + 0x1000" and "item_bytes q \<le> len" and "len \<le> BUF_SIZE"
  shows "item_area q \<subseteq> area p (unat len)"
proof -
  have n: "unat (item_bytes q) \<le> unat len" "unat len \<le> 4096" using assms(3,4) by (simp_all add: word_le_nat_alt BUF_SIZE_def)
  have "p AND mask 12 \<le> mask 12" by (rule word_and_le1)
  then have "unat (p AND mask 12) \<le> 4095" by (simp add: word_le_nat_alt mask_eq_exp_minus_1)
  with n have "unat (page0 q AND mask 12) + unat (item_bytes q) \<le> 8192" unfolding assms(1) by linarith
  then have "item_area q = (\<lambda>i. p + of_nat i) ` {..< unat (item_bytes q)}"
    unfolding item_area_def using queued_addr [OF assms(1,2)] by auto
  moreover have "p + of_nat i \<in> area p (unat len)" if "i < unat (item_bytes q)" for i
    using that n by (intro area_I) simp_all
  ultimately show ?thesis by auto
qed

lemma item_step_area:
  assumes "item_step q q'" and "active q'"
  shows "active q" and "item_area q' \<subseteq> item_area q"
proof -
  show "active q" using assms by (auto simp: item_step_def)
  have p: "page0 q' = page0 q" "page1 q' = page1 q" and n: "item_bytes q' \<le> item_bytes q"
    using assms(1) by (simp_all add: item_step_def)
  have "item_addr q' = item_addr q" unfolding item_addr_def p by simp
  moreover have "unat (item_bytes q') \<le> unat (item_bytes q)" using n by (simp add: word_le_nat_alt)
  ultimately show "item_area q' \<subseteq> item_area q" unfolding item_area_def p by auto
qed

section \<open>The invariant\<close>

text \<open>
  Every endpoint has the bit and the queue head of its number; endpoint 0 only carries the driver's
  own request, the others only the gadget's; the controller only knows the items of the two; what
  it may fill for the driver is the buffer of 4096 bytes.
\<close>

definition ept_ok :: "ptr \<Rightarrow> udc_endpoint \<Rightarrow> bool" where
  "ept_ok table e \<longleftrightarrow> unat (ept_num e) < 16 \<and>
    (if ept_is_in e then ept_bit e = EPT_TX (ucast (ept_num e))
     else ept_bit e = EPT_RX (ucast (ept_num e)) \<and> ept_head e = table + 128 * ucast (ept_num e))"

definition the_item :: "'c usb \<Rightarrow> ptr \<Rightarrow> ept_queue_item" where
  "the_item s rq = items (dma s) (rq_item (requests s rq))"

definition requests_ok :: "ptr \<Rightarrow> ptr \<Rightarrow> 'c usb \<Rightarrow> bool" where
  "requests_ok rqg buf0 s \<longleftrightarrow> ep0req s \<noteq> rqg \<and> ep0req s \<noteq> 0 \<and> rqg \<noteq> 0 \<and>
    rq_item (requests s (ep0req s)) \<noteq> rq_item (requests s rqg) \<and>
    rq_item (requests s (ep0req s)) < MSM_USB_BASE - 4 \<and> rq_item (requests s rqg) < MSM_USB_BASE - 4 \<and>
    rq_buf (requests s (ep0req s)) = buf0"

definition epts_ok :: "ptr \<Rightarrow> ptr \<Rightarrow> 'c usb \<Rightarrow> bool" where
  "epts_ok table rqg s \<longleftrightarrow> (\<forall>e \<in> set (ept_list s) \<union> {ep0in s, ep0out s}. ept_ok table (endpoints s e) \<and>
    ept_req (endpoints s e) \<in> {0, if e \<in> {ep0in s, ep0out s} then ep0req s else rqg})"

definition board_ok :: "('c \<Rightarrow> ptr set) \<Rightarrow> 'c usb \<Rightarrow> bool" where
  "board_ok filling s \<longleftrightarrow>
    (\<forall>pd psy f st c. pdata s = Some pd \<and> power_supply pd = Some psy \<and> psy_set_state psy = Some f \<longrightarrow>
      filling (f st c) \<subseteq> filling c) \<and>
    (\<forall>pd f on c. pdata s = Some pd \<and> set_ulpi_state pd = Some f \<longrightarrow> filling (f on c) \<subseteq> filling c)"

definition own_callback_ok :: "'c usb \<Rightarrow> bool" where
  "own_callback_ok s \<longleftrightarrow> (\<forall>e \<in> {ep0in s, ep0out s}. ept_req (endpoints s e) = 0) \<or>
    rq_complete (requests s (ep0req s)) \<noteq> Gadget_complete"

definition own_item_ok :: "ptr \<Rightarrow> 'c usb \<Rightarrow> bool" where
  "own_item_ok buf0 s \<longleftrightarrow> (active (the_item s (ep0req s)) \<longrightarrow> item_area (the_item s (ep0req s)) \<subseteq> area buf0 4096)"

definition driver_ok :: "ptr \<Rightarrow> ('c \<Rightarrow> ptr set) \<Rightarrow> ptr \<Rightarrow> ptr \<Rightarrow> 'c usb \<Rightarrow> bool" where
  "driver_ok table filling rqg buf0 s \<longleftrightarrow> requests_ok rqg buf0 s \<and> epts_ok table rqg s \<and> board_ok filling s \<and> own_callback_ok s \<and>
    (\<forall>d \<in> set (desc_list s). length (desc_data d) \<le> 255) \<and>
    filling (ctl (dma s)) \<subseteq> {rq_item (requests s (ep0req s)), rq_item (requests s rqg)} \<and>
    (rq_item (requests s (ep0req s)) \<in> filling (ctl (dma s)) \<longrightarrow> own_item_ok buf0 s)"

definition gadget_epts_of :: "'c usb \<Rightarrow> ptr set" where
  "gadget_epts_of s = set (ept_list s) - {ep0in s, ep0out s}"

text \<open>What holds while the gadget waits for its transfer on the endpoint \<open>run_ept\<close>.\<close>

record 'c run =
  run_table :: ptr
  run_filling :: "'c \<Rightarrow> ptr set"
  run_req :: ptr
  run_buf0 :: ptr
  run_ept :: ptr
  run_buf :: ptr
  run_len :: u32
  run_mem :: mem
  run_list :: "ptr list"
  run_epts :: "ptr set"

definition run_area :: "'c run \<Rightarrow> ptr set" where
  "run_area R = area (run_buf R) (unat (run_len R))"

fun is_completion :: "gadget_event \<Rightarrow> bool" where
  "is_completion (Completed r n st) = True"
| "is_completion (Notified e) = False"

definition reported :: "'c usb \<Rightarrow> bool" where
  "reported s \<longleftrightarrow> (\<exists>e \<in> set (events s). is_completion e)"

fun event_ok :: "'c run \<Rightarrow> gadget_event \<Rightarrow> bool" where
  "event_ok R (Completed r n st) \<longleftrightarrow> r = run_req R \<and> n \<le> run_len R"
| "event_ok R (Notified e) \<longleftrightarrow> True"

definition running :: "'c run \<Rightarrow> 'c usb \<Rightarrow> bool" where
  "running R s \<longleftrightarrow> driver_ok (run_table R) (run_filling R) (run_req R) (run_buf0 R) s \<and>
    rq_complete (requests s (run_req R)) = Gadget_complete \<and> rq_length (requests s (run_req R)) = run_len R \<and>
    (active (the_item s (run_req R)) \<longrightarrow> item_area (the_item s (run_req R)) \<subseteq> run_area R) \<and>
    item_bytes (the_item s (run_req R)) \<le> run_len R \<and>
    frame (area (run_buf0 R) 4096 \<union> run_area R) (run_mem R) (usb_mem s) \<and>
    ept_list s = run_list R \<and> gadget_epts_of s = run_epts R \<and> run_ept R \<in> run_epts R \<and> (\<forall>e \<in> gadget_epts_of s - {run_ept R}. ept_req (endpoints s e) = 0) \<and>
    (\<forall>e \<in> set (events s). event_ok R e) \<and>
    (reported s \<longrightarrow> ept_req (endpoints s (run_ept R)) = 0 \<and> \<not> active (the_item s (run_req R)))"

section \<open>The controller keeps the invariant\<close>

lemma bus_fields [simp]:
  "requests_ok q p (s\<lparr>usb_mem := m, dma := x\<rparr>) = requests_ok q p s"
  "epts_ok t q (s\<lparr>usb_mem := m, dma := x\<rparr>) = epts_ok t q s"
  "board_ok f (s\<lparr>usb_mem := m, dma := x\<rparr>) = board_ok f s"
  "gadget_epts_of (s\<lparr>usb_mem := m, dma := x\<rparr>) = gadget_epts_of s"
  "reported (s\<lparr>usb_mem := m, dma := x\<rparr>) = reported s"
  "own_callback_ok (s\<lparr>usb_mem := m, dma := x\<rparr>) = own_callback_ok s"
  by (simp_all add: own_callback_ok_def reported_def requests_ok_def epts_ok_def board_ok_def gadget_epts_of_def)

lemma mem_fields [simp]:
  "requests_ok q p (s\<lparr>usb_mem := m\<rparr>) = requests_ok q p s" "epts_ok t q (s\<lparr>usb_mem := m\<rparr>) = epts_ok t q s"
  "board_ok f (s\<lparr>usb_mem := m\<rparr>) = board_ok f s" "gadget_epts_of (s\<lparr>usb_mem := m\<rparr>) = gadget_epts_of s"
  "reported (s\<lparr>usb_mem := m\<rparr>) = reported s" "the_item (s\<lparr>usb_mem := m\<rparr>) rq = the_item s rq"
  "own_item_ok p (s\<lparr>usb_mem := m\<rparr>) = own_item_ok p s" "own_callback_ok (s\<lparr>usb_mem := m\<rparr>) = own_callback_ok s"
  by (simp_all add: own_callback_ok_def own_item_ok_def requests_ok_def epts_ok_def board_ok_def gadget_epts_of_def reported_def the_item_def)

lemma fill_area_sub:
  assumes "running R s"
  shows "fill_area (run_filling R) (dma s) \<subseteq> area (run_buf0 R) 4096 \<union> run_area R"
  using assms unfolding running_def driver_ok_def fill_area_def the_item_def own_item_ok_def by blast

lemma controller_running:
  assumes run: "running R s" and step: "controller_step (run_filling R) (usb_mem s, dma s) (m', x') N"
    and N: "N \<subseteq> {rq_item (requests s (ep0req s)), rq_item (requests s (run_req R))}"
    and own: "rq_item (requests s (ep0req s)) \<in> N \<longrightarrow> own_item_ok (run_buf0 R) s"
  shows "running R (s\<lparr>usb_mem := m', dma := x'\<rparr>)"
proof -
  let ?s = "s\<lparr>usb_mem := m', dma := x'\<rparr>"
  have i: "item_step (the_item s rq) (the_item ?s rq)" for rq using step by (simp add: controller_step_def the_item_def)
  have act: "active (the_item ?s rq) \<Longrightarrow> active (the_item s rq) \<and> item_area (the_item ?s rq) \<subseteq> item_area (the_item s rq)" for rq
    using item_step_area [OF i] by blast
  have fr: "frame (area (run_buf0 R) 4096 \<union> run_area R) (usb_mem s) m'"
    using step frame_mono [OF _ fill_area_sub [OF run]] by (simp add: controller_step_def)
  have fill: "run_filling R (ctl x') \<subseteq> run_filling R (ctl (dma s)) \<union> N" using step by (simp add: controller_step_def)
  have bytes: "item_bytes (the_item ?s rq) \<le> item_bytes (the_item s rq)" for rq using i by (simp add: item_step_def)
  have old: "rq_item (requests s (ep0req s)) \<in> run_filling R (ctl (dma s)) \<longrightarrow> own_item_ok (run_buf0 R) s"
    "active (the_item s (run_req R)) \<longrightarrow> item_area (the_item s (run_req R)) \<subseteq> run_area R"
    "reported s \<longrightarrow> \<not> active (the_item s (run_req R))"
    using run by (simp_all add: running_def driver_ok_def)
  have "run_filling R (ctl x') \<subseteq> {rq_item (requests s (ep0req s)), rq_item (requests s (run_req R))}"
    using run fill N by (auto simp: running_def driver_ok_def)
  moreover have "own_item_ok (run_buf0 R) s \<Longrightarrow> own_item_ok (run_buf0 R) ?s"
    using act [of "ep0req s"] by (auto simp: own_item_ok_def)
  then have "rq_item (requests s (ep0req s)) \<in> run_filling R (ctl x') \<longrightarrow> own_item_ok (run_buf0 R) ?s"
    using old(1) own fill by blast
  ultimately have "driver_ok (run_table R) (run_filling R) (run_req R) (run_buf0 R) ?s"
    using run by (simp add: running_def driver_ok_def)
  moreover have "frame (area (run_buf0 R) 4096 \<union> run_area R) (run_mem R) m'"
    using run fr by (auto simp: running_def intro: frame_trans)
  moreover have "item_bytes (the_item ?s (run_req R)) \<le> run_len R"
    using run bytes by (auto simp: running_def intro: order_trans)
  moreover have "active (the_item ?s (run_req R)) \<longrightarrow> item_area (the_item ?s (run_req R)) \<subseteq> run_area R"
    using act [of "run_req R"] old(2) by blast
  moreover have "reported s \<longrightarrow> \<not> active (the_item ?s (run_req R))"
    using act [of "run_req R"] old(3) by blast
  ultimately show ?thesis
    using run by (simp add: running_def)
qed

lemma readl_running:
  assumes "controller_ok (run_table R) (run_filling R) b" and "running R s" and "usb_readl b a s = (v, s')"
  shows "running R s'"
proof -
  obtain m x where r: "bus_read b a (usb_mem s, dma s) = (v, m, x)" "s' = s\<lparr>usb_mem := m, dma := x\<rparr>"
    using assms(3) by (auto simp: usb_readl_def readl_def split: prod.splits)
  have "controller_step (run_filling R) (usb_mem s, dma s) (m, x) {}" using assms(1) r(1) unfolding controller_ok_def by blast
  then show ?thesis unfolding r(2) by (rule controller_running [OF assms(2)]) simp_all
qed

lemma writel_step:
  assumes "controller_step (run_filling R) (usb_mem s, dma s) (bus_write b a v (usb_mem s, dma s)) N" and "running R s"
    and "N \<subseteq> {rq_item (requests s (ep0req s)), rq_item (requests s (run_req R))}"
    and "rq_item (requests s (ep0req s)) \<in> N \<longrightarrow> own_item_ok (run_buf0 R) s"
  shows "running R (usb_writel b v a s)"
proof -
  obtain m x where w: "bus_write b a v (usb_mem s, dma s) = (m, x)" by (cases "bus_write b a v (usb_mem s, dma s)")
  then have "usb_writel b v a s = s\<lparr>usb_mem := m, dma := x\<rparr>" by (simp add: usb_writel_def writel_def)
  then show ?thesis using controller_running [OF assms(2) assms(1) [unfolded w] assms(3,4)] by simp
qed

lemma writel_running:
  assumes "controller_ok (run_table R) (run_filling R) b" and "running R s" and "a \<noteq> USB_ENDPTPRIME"
  shows "running R (usb_writel b v a s)"
  using assms unfolding controller_ok_def by (intro writel_step [where N = "{}"]) auto

text \<open>Priming an endpoint makes known the one item at its head.\<close>

lemma bit_of_ept: "bit (push_bit k (1 :: u32)) n \<longleftrightarrow> n = k \<and> n < 32"
  by (auto simp: bit_simps)

lemma primed_ept:
  assumes "ept_ok table e"
  shows "primed table (ept_bit e) x \<subseteq> {qh_next (heads x (ept_head e))}"
proof (cases "ept_is_in e")
  case True
  with assms have "ept_bit e = push_bit (unat (ucast (ept_num e) :: u32) + 16) 1" by (simp add: ept_ok_def EPT_TX_def)
  then have "\<not> bit (ept_bit e) n" if "n < 16" for n using that unfolding \<open>ept_bit e = _\<close> bit_of_ept by simp
  then show ?thesis by (auto simp: primed_def)
next
  case False
  let ?n = "unat (ucast (ept_num e) :: u32)"
  from False assms have e: "ept_bit e = push_bit ?n 1" "ept_head e = table + 128 * ucast (ept_num e)"
    by (simp_all add: ept_ok_def EPT_RX_def)
  have "table + 128 * of_nat n = ept_head e" if "bit (ept_bit e) n" for n
  proof -
    have "n = ?n" using that unfolding e(1) bit_of_ept by simp
    then show ?thesis unfolding e(2) by simp
  qed
  then show ?thesis by (auto simp: primed_def)
qed

section \<open>The driver keeps the invariant\<close>

lemma prime_running:
  assumes ok: "controller_ok (run_table R) (run_filling R) b" and run: "running R s"
    and e: "e \<in> set (ept_list s) \<union> {ep0in s, ep0out s}"
    and nxt: "qh_next (heads (dma s) (ept_head (endpoints s e))) \<in> {rq_item (requests s (ep0req s)), rq_item (requests s (run_req R))}"
    and own: "qh_next (heads (dma s) (ept_head (endpoints s e))) = rq_item (requests s (ep0req s)) \<longrightarrow> own_item_ok (run_buf0 R) s"
  shows "running R (usb_writel b (ept_bit (endpoints s e)) USB_ENDPTPRIME s)"
proof (rule writel_step [OF _ run])
  show "controller_step (run_filling R) (usb_mem s, dma s) (bus_write b USB_ENDPTPRIME (ept_bit (endpoints s e)) (usb_mem s, dma s))
      (primed (run_table R) (ept_bit (endpoints s e)) (dma s))"
    using ok unfolding controller_ok_def by (metis snd_conv)
  have "ept_ok (run_table R) (endpoints s e)" using run e by (auto simp: running_def driver_ok_def epts_ok_def)
  note p = primed_ept [OF this, of "dma s"]
  from p nxt show "primed (run_table R) (ept_bit (endpoints s e)) (dma s)
      \<subseteq> {rq_item (requests s (ep0req s)), rq_item (requests s (run_req R))}" by blast
  from p own show "rq_item (requests s (ep0req s)) \<in> primed (run_table R) (ept_bit (endpoints s e)) (dma s) \<longrightarrow>
      own_item_ok (run_buf0 R) s" by (metis singletonD subsetD)
qed

lemma queue_ep0_running:
  assumes ok: "controller_ok (run_table R) (run_filling R) b" and run: "running R s" and e: "e = ep0in s \<or> e = ep0out s"
    and len: "rq_length (requests s (ep0req s)) \<le> BUF_SIZE" and cb: "rq_complete (requests s (ep0req s)) \<noteq> Gadget_complete"
  shows "running R (snd (udc_request_queue b e (ep0req s) s))"
proof -
  let ?r = "requests s (ep0req s)"
  let ?q = "(items (dma s) (rq_item ?r))\<lparr>qi_next := TERMINATE, qi_info := INFO_BYTES (rq_length ?r) OR INFO_IOC OR INFO_ACTIVE,
    page0 := rq_buf ?r, page1 := (rq_buf ?r AND 0xfffff000) + 0x1000\<rparr>"
  define s3 where "s3 = set_ept e (\<lambda>x. x\<lparr>ept_req := ep0req s\<rparr>)
    (set_head (ept_head (endpoints s e)) (\<lambda>q. q\<lparr>qh_next := rq_item ?r, qh_info := 0\<rparr>) (set_item (rq_item ?r) (\<lambda>_. ?q) s))"
  have s3: "snd (udc_request_queue b e (ep0req s) s) = usb_writel b (ept_bit (endpoints s3 e)) USB_ENDPTPRIME s3"
    by (simp add: udc_request_queue_def s3_def Let_def set_item_def set_head_def)
  note d = running_def driver_ok_def
  have r: "requests_ok (run_req R) (run_buf0 R) s" using run by (simp add: d)
  have f: "requests s3 = requests s" "ept_list s3 = ept_list s" "ep0in s3 = ep0in s" "ep0out s3 = ep0out s" "ep0req s3 = ep0req s"
    "usb_mem s3 = usb_mem s" "events s3 = events s" "desc_list s3 = desc_list s" "pdata s3 = pdata s" "ctl (dma s3) = ctl (dma s)"
    "endpoints s3 = (endpoints s)(e := (endpoints s e)\<lparr>ept_req := ep0req s\<rparr>)"
    "items (dma s3) = (items (dma s))(rq_item ?r := ?q)"
    "qh_next (heads (dma s3) (ept_head (endpoints s e))) = rq_item ?r"
    by (simp_all add: s3_def set_ept_def set_head_def set_item_def)
  have q: "item_bytes ?q = rq_length ?r AND 0x7fff" by (simp add: item_bytes_def queued_bytes [unfolded item_bytes_def, simplified])
  have "item_area ?q \<subseteq> area (run_buf0 R) (unat (rq_length ?r))"
    using r q by (intro queued_area [OF _ _ _ len]) (simp_all add: requests_ok_def word_and_le2)
  also have "\<dots> \<subseteq> area (run_buf0 R) 4096" using len by (intro area_mono) (simp add: BUF_SIZE_def word_le_nat_alt)
  finally have ar: "item_area ?q \<subseteq> area (run_buf0 R) 4096" .
  have i: "the_item s3 (ep0req s) = ?q" "the_item s3 (run_req R) = the_item s (run_req R)"
    using r by (auto simp: the_item_def f requests_ok_def)
  have ge: "gadget_epts_of s3 = gadget_epts_of s" "reported s3 = reported s" by (simp_all add: gadget_epts_of_def reported_def f)
  have "epts_ok (run_table R) (run_req R) s" using run by (simp add: d)
  then have "epts_ok (run_table R) (run_req R) s3" using e by (auto simp: epts_ok_def f ept_ok_def)
  moreover have "requests_ok (run_req R) (run_buf0 R) s3 = requests_ok (run_req R) (run_buf0 R) s"
    "board_ok (run_filling R) s3 = board_ok (run_filling R) s"
    unfolding requests_ok_def board_ok_def f by (rule refl)+
  moreover have "own_callback_ok s3" using cb by (simp add: own_callback_ok_def f)
  moreover have own: "own_item_ok (run_buf0 R) s3" using ar unfolding own_item_ok_def f(5) i(1) by blast
  ultimately have dr: "driver_ok (run_table R) (run_filling R) (run_req R) (run_buf0 R) s3"
    using run unfolding driver_ok_def f by (simp add: d)
  have ne: "x \<noteq> e" if "x \<in> gadget_epts_of s" for x using that e by (auto simp: gadget_epts_of_def)
  have "running R s3"
    using run dr ne unfolding running_def ge i(2) f by (auto simp: f)
  then show ?thesis unfolding s3
    using e own by (intro prime_running [OF ok]) (auto simp: f)
qed

lemma running_fields [simp]:
  "running R (s\<lparr>usb_config_value := c\<rparr>) = running R s" "running R (s\<lparr>host_online := h\<rparr>) = running R s"
  "running R (s\<lparr>usb_highspeed := h\<rparr>) = running R s"
  "running R (s\<lparr>events := events s @ [Notified n]\<rparr>) = running R s"
  by (simp_all add: running_def driver_ok_def requests_ok_def epts_ok_def board_ok_def gadget_epts_of_def the_item_def reported_def
      own_item_ok_def own_callback_ok_def)

lemma set_req0_running:
  assumes "running R s" and "rq_item (f (requests s (ep0req s))) = rq_item (requests s (ep0req s))"
    and "rq_buf (f (requests s (ep0req s))) = rq_buf (requests s (ep0req s))"
    and "rq_complete (f (requests s (ep0req s))) \<noteq> Gadget_complete"
  shows "running R (set_req (ep0req s) f s)"
proof -
  let ?s = "set_req (ep0req s) f s"
  have ne: "run_req R \<noteq> ep0req s" using assms(1) by (auto simp: running_def driver_ok_def requests_ok_def)
  have i: "the_item ?s rq = the_item s rq" for rq using assms(2) by (simp add: the_item_def set_req_def)
  have u: "requests ?s (run_req R) = requests s (run_req R)" "rq_item (requests ?s (ep0req s)) = rq_item (requests s (ep0req s))"
    "rq_buf (requests ?s (ep0req s)) = rq_buf (requests s (ep0req s))" "rq_complete (requests ?s (ep0req s)) \<noteq> Gadget_complete"
    "ep0req ?s = ep0req s" "epts_ok t q ?s = epts_ok t q s" "board_ok g ?s = board_ok g s" "gadget_epts_of ?s = gadget_epts_of s"
    "reported ?s = reported s" "endpoints ?s = endpoints s" "events ?s = events s" "usb_mem ?s = usb_mem s" "dma ?s = dma s"
    "desc_list ?s = desc_list s" "ept_list ?s = ept_list s" for t q g
    using ne assms(2-4)
    by (simp_all add: set_req_def epts_ok_def board_ok_def gadget_epts_of_def reported_def)
  have "requests_ok (run_req R) (run_buf0 R) ?s"
    using assms(1) unfolding requests_ok_def u by (simp add: running_def driver_ok_def requests_ok_def u)
  moreover have "own_callback_ok ?s" by (simp add: own_callback_ok_def u)
  ultimately show ?thesis using assms(1) unfolding running_def driver_ok_def own_item_ok_def u i by simp
qed

lemma set_ept_running:
  assumes "running R s" and "f (endpoints s e) = (endpoints s e)\<lparr>ept_req := 0\<rparr>"
  shows "running R (set_ept e f s)"
proof -
  let ?s = "set_ept e f s"
  have u: "requests ?s = requests s" "ep0req ?s = ep0req s" "the_item ?s rq = the_item s rq" "board_ok g ?s = board_ok g s"
    "gadget_epts_of ?s = gadget_epts_of s" "reported ?s = reported s" "events ?s = events s" "usb_mem ?s = usb_mem s"
    "dma ?s = dma s" "desc_list ?s = desc_list s" "requests_ok q p ?s = requests_ok q p s" for rq g q p
    by (simp_all add: set_ept_def the_item_def board_ok_def gadget_epts_of_def reported_def requests_ok_def)
  have x: "ept_ok t (endpoints ?s y) = ept_ok t (endpoints s y)" "ept_req (endpoints ?s y) \<in> {0, ept_req (endpoints s y)}" for t y
    by (simp_all add: set_ept_def assms(2) ept_ok_def)
  have l: "ept_list ?s = ept_list s" "ep0in ?s = ep0in s" "ep0out ?s = ep0out s" by (simp_all add: set_ept_def)
  have "epts_ok (run_table R) (run_req R) s" using assms(1) by (simp add: running_def driver_ok_def)
  then have "epts_ok (run_table R) (run_req R) ?s" unfolding epts_ok_def l u x(1)
    using x(2) by (metis insert_iff singletonD)
  moreover have y: "ept_req (endpoints ?s x) = (if x = e then 0 else ept_req (endpoints s x))" for x
    using assms(2) by (simp add: set_ept_def)
  moreover have "own_callback_ok s" using assms(1) by (simp add: running_def driver_ok_def)
  then have "own_callback_ok ?s" unfolding own_callback_ok_def l u y by auto
  ultimately show ?thesis using assms(1) unfolding running_def driver_ok_def own_item_ok_def u l by simp
qed

lemma setup_ack_running:
  assumes "controller_ok (run_table R) (run_filling R) b" and "running R s"
  shows "running R (setup_ack b s)"
proof -
  let ?s = "set_req (ep0req s) (\<lambda>q. q\<lparr>rq_complete := No_callback, rq_length := 0\<rparr>) s"
  have f: "ep0req ?s = ep0req s" "ep0in ?s = ep0in s" "rq_length (requests ?s (ep0req s)) = 0" by (simp_all add: set_req_def)
  have "running R ?s" by (rule set_req0_running [OF assms(2)]) simp_all
  from queue_ep0_running [OF assms(1) this, of "ep0in s"] show ?thesis by (simp add: setup_ack_def f) (simp add: set_req_def)
qed

lemma ep0in_complete_running:
  assumes "controller_ok (run_table R) (run_filling R) b" and "running R s"
  shows "running R (ep0in_complete b (ep0req s) n st s)"
proof -
  let ?s = "set_req (ep0req s) (\<lambda>q. q\<lparr>rq_length := 0, rq_complete := No_callback\<rparr>) s"
  have f: "ep0req ?s = ep0req s" "ep0out ?s = ep0out s" "rq_length (requests ?s (ep0req s)) = 0" by (simp_all add: set_req_def)
  have "running R ?s" by (rule set_req0_running [OF assms(2)]) simp_all
  from queue_ep0_running [OF assms(1) this, of "ep0out s"] show ?thesis using assms(2) by (simp add: ep0in_complete_def f) (simp add: set_req_def)
qed

lemma buf0_write_running:
  assumes "running R s" and "length bs \<le> 4096"
  shows "running R (s\<lparr>usb_mem := wr (usb_mem s) (rq_buf (requests s (ep0req s))) bs\<rparr>)"
proof -
  let ?p = "rq_buf (requests s (ep0req s))"
  have "?p = run_buf0 R" using assms(1) by (simp add: running_def driver_ok_def requests_ok_def)
  then have "frame (area (run_buf0 R) 4096 \<union> run_area R) (usb_mem s) (wr (usb_mem s) ?p bs)"
    using assms(2) area_mono [of "length bs" 4096 "run_buf0 R"] by (intro frame_wr) auto
  then have "frame (area (run_buf0 R) 4096 \<union> run_area R) (run_mem R) (wr (usb_mem s) ?p bs)"
    using assms(1) by (auto simp: running_def intro: frame_trans)
  then show ?thesis using assms(1) by (simp add: running_def driver_ok_def)
qed

lemma setup_tx_running:
  assumes "controller_ok (run_table R) (run_filling R) b" and "running R s" and "length bs \<le> 255"
  shows "running R (setup_tx b bs s)"
proof -
  let ?s1 = "s\<lparr>usb_mem := wr (usb_mem s) (rq_buf (requests s (ep0req s))) bs\<rparr>"
  let ?s = "set_req (ep0req s) (\<lambda>q. q\<lparr>rq_complete := Ep0in_complete, rq_length := of_nat (length bs)\<rparr>) ?s1"
  have "running R ?s1" by (rule buf0_write_running) (use assms in simp_all)
  from set_req0_running [OF this, of "\<lambda>q. q\<lparr>rq_complete := Ep0in_complete, rq_length := of_nat (length bs)\<rparr>"]
  have r: "running R ?s" by simp
  have f: "ep0req ?s = ep0req s" "ep0in ?s = ep0in s" "rq_length (requests ?s (ep0req s)) = of_nat (length bs)"
    by (simp_all add: set_req_def)
  have "of_nat (length bs) \<le> BUF_SIZE" using assms(3) by (simp add: BUF_SIZE_def word_le_nat_alt unat_of_nat_u32)
  with queue_ep0_running [OF assms(1) r, of "ep0in s"] show ?thesis by (simp add: setup_tx_def f Let_def) (simp add: set_req_def)
qed

lemma wait_inactive_running:
  "wait_inactive b it s = Some s' \<Longrightarrow> controller_ok (run_table R) (run_filling R) b \<Longrightarrow> running R s \<Longrightarrow> it < MSM_USB_BASE - 4 \<Longrightarrow>
    running R s' \<and> (\<exists>m x. s' = s\<lparr>usb_mem := m, dma := x\<rparr>) \<and> \<not> active (items (dma s') it)"
proof (induction rule: wait_inactive.raw_induct [rotated 1, consumes 1, case_names step])
  case (step f b it s s')
  note IH = step(1) and eq = step(2) and ok = step(3) and run = step(4) and it = step(5)
  obtain v s1 where r: "usb_readl b (it + 4) s = (v, s1)" by (cases "usb_readl b (it + 4) s")
  then obtain m x where bus: "bus_read b (it + 4) (usb_mem s, dma s) = (v, m, x)" "s1 = s\<lparr>usb_mem := m, dma := x\<rparr>"
    by (auto simp: usb_readl_def readl_def split: prod.splits)
  have v: "v = qi_info (items x it)" using ok it bus(1) unfolding controller_ok_def by (metis snd_conv)
  have run1: "running R s1" by (rule readl_running [OF ok run r])
  show ?case
  proof (cases "v AND INFO_ACTIVE = 0")
    case True
    with eq r have "s' = s1" by simp
    with run1 bus(2) v True show ?thesis by (auto simp: active_def)
  next
    case False
    with eq r have "f b it s1 = Some s'" by simp
    from IH [OF this ok run1 it] bus(2) show ?thesis by auto
  qed
qed

lemma event_fields [simp]:
  "requests_ok q p (s\<lparr>events := es\<rparr>) = requests_ok q p s" "epts_ok t q (s\<lparr>events := es\<rparr>) = epts_ok t q s"
  "board_ok f (s\<lparr>events := es\<rparr>) = board_ok f s" "gadget_epts_of (s\<lparr>events := es\<rparr>) = gadget_epts_of s"
  "the_item (s\<lparr>events := es\<rparr>) rq = the_item s rq" "own_item_ok p (s\<lparr>events := es\<rparr>) = own_item_ok p s"
  "own_callback_ok (s\<lparr>events := es\<rparr>) = own_callback_ok s"
  by (simp_all add: own_callback_ok_def own_item_ok_def requests_ok_def epts_ok_def board_ok_def gadget_epts_of_def the_item_def)

lemma completed_running:
  assumes "running R s" and "n \<le> run_len R" and "ept_req (endpoints s (run_ept R)) = 0" and "\<not> active (the_item s (run_req R))"
  shows "running R (s\<lparr>events := events s @ [Completed (run_req R) n st]\<rparr>)"
  using assms by (simp add: running_def driver_ok_def)

lemma word_minus_le: "n \<le> k \<Longrightarrow> k - n \<le> (k :: u32)"
  by (simp add: word_sub_le)

lemma ept_req_cases:
  assumes "running R s" and "e \<in> set (run_list R) \<union> {ep0in s, ep0out s}"
  obtains (none) "ept_req (endpoints s e) = 0"
  | (own) "ept_req (endpoints s e) = ep0req s" "ep0req s \<noteq> 0" "rq_complete (requests s (ep0req s)) \<noteq> Gadget_complete"
      "rq_item (requests s (ep0req s)) < MSM_USB_BASE - 4"
  | (gadget) "e = run_ept R" "ept_req (endpoints s e) = run_req R" "run_req R \<noteq> 0"
      "rq_complete (requests s (run_req R)) = Gadget_complete" "rq_item (requests s (run_req R)) < MSM_USB_BASE - 4"
proof -
  have r: "requests_ok (run_req R) (run_buf0 R) s" and l: "ept_list s = run_list R" and c: "rq_complete (requests s (run_req R)) = Gadget_complete"
    and cb: "own_callback_ok s" and o: "\<forall>e \<in> gadget_epts_of s - {run_ept R}. ept_req (endpoints s e) = 0"
    using assms(1) by (simp_all add: running_def driver_ok_def)
  have x: "ept_req (endpoints s e) \<in> {0, if e \<in> {ep0in s, ep0out s} then ep0req s else run_req R}"
    using assms unfolding running_def driver_ok_def epts_ok_def by (metis (no_types))
  show thesis
  proof (cases "e \<in> {ep0in s, ep0out s}")
    case True
    with x r none own cb show thesis by (auto simp: requests_ok_def own_callback_ok_def)
  next
    case False
    with assms(2) l have "e \<in> gadget_epts_of s" by (auto simp: gadget_epts_of_def)
    with o x False r c none gadget show thesis by (cases "e = run_ept R") (auto simp: requests_ok_def)
  qed
qed

lemma handle_ept_complete_cases:
  assumes "handle_ept_complete b e s = Some s'" and "ept_req (endpoints s e) = rq" and "rq \<noteq> 0"
  obtains s2 n st where "wait_inactive b (rq_item (requests s rq)) (set_ept e (\<lambda>e. e\<lparr>ept_req := 0\<rparr>) s) = Some s2"
    "s' = call_complete b rq n st s2"
    "n = 0 \<or> n = rq_length (requests s2 rq) - item_bytes (items (dma s2) (rq_item (requests s rq)))"
proof -
  have r: "requests (set_ept e (\<lambda>e. e\<lparr>ept_req := 0\<rparr>) s) = requests s" by (simp add: set_ept_def)
  from assms show thesis
    by (auto simp: handle_ept_complete_def Let_def r item_bytes_def split: bind_splits if_splits intro: that)
qed

lemma handle_ept_complete_running:
  assumes ok: "controller_ok (run_table R) (run_filling R) b" and run: "running R s"
    and e: "e \<in> set (run_list R) \<union> {ep0in s, ep0out s}" and eq: "handle_ept_complete b e s = Some s'"
  shows "running R s'"
  using run e
proof (cases rule: ept_req_cases)
  case none
  with eq run show ?thesis by (simp add: handle_ept_complete_def)
next
  case own
  let ?s1 = "set_ept e (\<lambda>e. e\<lparr>ept_req := 0\<rparr>) s"
  have r1: "running R ?s1" by (rule set_ept_running [OF run]) simp
  have f1: "requests ?s1 = requests s" "ep0req ?s1 = ep0req s" by (simp_all add: set_ept_def)
  obtain s2 n st where w: "wait_inactive b (rq_item (requests s (ep0req s))) ?s1 = Some s2" and s': "s' = call_complete b (ep0req s) n st s2"
    by (rule handle_ept_complete_cases [OF eq own(1,2)])
  note w2 = wait_inactive_running [OF w ok r1 own(4)]
  then have f2: "requests s2 = requests s" "ep0req s2 = ep0req s" using f1 by auto
  have "running R (call_complete b (ep0req s) n st s2)"
    using w2 own(3) ep0in_complete_running [OF ok, of s2] unfolding f2
    by (cases "rq_complete (requests s (ep0req s))") (simp_all add: call_complete_def f2)
  with s' show ?thesis by simp
next
  case gadget
  let ?s1 = "set_ept e (\<lambda>e. e\<lparr>ept_req := 0\<rparr>) s"
  have r1: "running R ?s1" by (rule set_ept_running [OF run]) simp
  have f1: "requests ?s1 = requests s" "ep0req ?s1 = ep0req s" "ept_req (endpoints ?s1 (run_ept R)) = 0"
    using gadget(1) by (simp_all add: set_ept_def)
  obtain s2 n st where w: "wait_inactive b (rq_item (requests s (run_req R))) ?s1 = Some s2"
    and s': "s' = call_complete b (run_req R) n st s2"
    and n: "n = 0 \<or> n = rq_length (requests s2 (run_req R)) - item_bytes (items (dma s2) (rq_item (requests s (run_req R))))"
    by (rule handle_ept_complete_cases [OF eq gadget(2,3)])
  note w2 = wait_inactive_running [OF w ok r1 gadget(5)]
  then have f2: "requests s2 = requests s" "endpoints s2 = endpoints ?s1" using f1 by auto
  have len: "rq_length (requests s2 (run_req R)) = run_len R" "item_bytes (the_item s2 (run_req R)) \<le> run_len R"
    using w2 by (simp_all add: running_def)
  have "n \<le> run_len R"
    using n word_minus_le [OF len(2)] len(1) by (auto simp: the_item_def f2)
  with w2 f1(3) have "running R (s2\<lparr>events := events s2 @ [Completed (run_req R) n st]\<rparr>)"
    by (intro completed_running) (simp_all add: f2 the_item_def)
  then show ?thesis using gadget(4) by (simp add: s' call_complete_def f2)
qed

section \<open>The interrupt keeps the invariant\<close>

lemma not_prime [simp]: "USB_ENDPTCTRL n \<noteq> USB_ENDPTPRIME" "USB_ENDPTSETUPSTAT \<noteq> USB_ENDPTPRIME" "USB_DEVICEADDR \<noteq> USB_ENDPTPRIME"
  "USB_ENDPTCOMPLETE \<noteq> USB_ENDPTPRIME" "USB_ENDPTFLUSH \<noteq> USB_ENDPTPRIME" "USB_USBSTS \<noteq> USB_ENDPTPRIME"
proof -
  have n: "unat n < 256" using unsigned_less [of n] by simp
  have "(ucast n :: u32) = of_nat (unat n)" by simp
  then have "4 * ucast n = (of_nat (4 * unat n) :: u32)" by simp
  then have "unat (4 * ucast n :: u32) = 4 * unat n" using unat_of_nat_u32 [of "4 * unat n"] n by (simp del: of_nat_mult)
  with n have "4 * ucast n \<noteq> (- 16 :: u32)" by auto
  then have "16 + 4 * ucast n \<noteq> (0 :: u32)" by (metis add.commute eq_neg_iff_add_eq_0)
  then show "USB_ENDPTCTRL n \<noteq> USB_ENDPTPRIME" by (simp add: USB_ENDPTCTRL_def USB_ENDPTPRIME_def MSM_USB_BASE_def)
qed (simp_all add: USB_ENDPTSETUPSTAT_def USB_DEVICEADDR_def USB_ENDPTCOMPLETE_def USB_ENDPTFLUSH_def USB_USBSTS_def
    USB_ENDPTPRIME_def MSM_USB_BASE_def)

lemma set_head_running [simp]: "running R (set_head p f s) = running R s"
  by (simp add: running_def driver_ok_def own_item_ok_def own_callback_ok_def requests_ok_def epts_ok_def board_ok_def gadget_epts_of_def the_item_def reported_def
      set_head_def)

lemma set_charger_running:
  assumes "running R s"
  shows "running R (set_charger_state st s)"
proof -
  have "running R (set_ctl g s)" if "run_filling R (g (ctl (dma s))) \<subseteq> run_filling R (ctl (dma s))" for g
  proof -
    have u: "requests (set_ctl g s) = requests s" "ep0req (set_ctl g s) = ep0req s" "the_item (set_ctl g s) rq = the_item s rq"
      "requests_ok q p (set_ctl g s) = requests_ok q p s" "epts_ok t q (set_ctl g s) = epts_ok t q s"
      "board_ok f (set_ctl g s) = board_ok f s" "own_callback_ok (set_ctl g s) = own_callback_ok s" "gadget_epts_of (set_ctl g s) = gadget_epts_of s"
      "reported (set_ctl g s) = reported s" "desc_list (set_ctl g s) = desc_list s" "usb_mem (set_ctl g s) = usb_mem s"
      "events (set_ctl g s) = events s" "endpoints (set_ctl g s) = endpoints s" "ept_list (set_ctl g s) = ept_list s"
      "ctl (dma (set_ctl g s)) = g (ctl (dma s))" for rq q p t f
      by (simp_all add: set_ctl_def own_callback_ok_def requests_ok_def epts_ok_def board_ok_def gadget_epts_of_def the_item_def reported_def)
    show ?thesis using assms that unfolding running_def driver_ok_def own_item_ok_def u by auto
  qed
  moreover have "board_ok (run_filling R) s" using assms by (simp add: running_def driver_ok_def)
  ultimately show ?thesis
    using assms unfolding set_charger_state_def board_ok_def by (auto split: option.splits)
qed

lemma endpoint_enable_running:
  assumes "controller_ok (run_table R) (run_filling R) b" and "running R s"
  shows "running R (endpoint_enable b e y s)"
proof -
  obtain n s1 where r: "usb_readl b (USB_ENDPTCTRL (ept_num (endpoints s e))) s = (n, s1)" by (metis surj_pair)
  with readl_running [OF assms r] show ?thesis
    by (simp add: endpoint_enable_def Let_def r writel_running [OF assms(1)])
qed

lemma notify_running: "running R s \<Longrightarrow> notify n s = Some s' \<Longrightarrow> running R s'"
  by (auto simp: notify_def split: if_splits)

lemma set_configuration_running:
  assumes ok: "controller_ok (run_table R) (run_filling R) b" and "running R s" and "set_configuration b val s = Some s'"
  shows "running R s'"
proof -
  have "running R (fold (\<lambda>e x. if ept_num (endpoints x e) = 0 then x else endpoint_enable b e (ucast val) x) es s)" for es
    using assms(2) by (induction es arbitrary: s) (simp_all add: endpoint_enable_running [OF ok])
  then have "running R x" if "(if val = 1 then
               (let sa = fold (\<lambda>e x. if ept_num (endpoints x e) = 0 then x else endpoint_enable b e (ucast val) x) (ept_list s) s;
                    sb = sa\<lparr>usb_config_value := 1\<rparr>;
                    sc = (if is_usb_connected sb then set_charger_state CHG_USB_HIGH sb else sb)
                in notify UDC_EVENT_ONLINE sc)
             else notify UDC_EVENT_OFFLINE ((usb_writel b 0 (USB_ENDPTCTRL 1) s)\<lparr>usb_config_value := 0\<rparr>)) = Some x" for x
    using that assms(2) writel_running [OF ok]
    by (auto simp: Let_def split: if_splits elim!: notify_running [rotated] intro!: set_charger_running)
  with assms(3) setup_ack_running [OF ok] show ?thesis
    unfolding set_configuration_def by (elim bind_someE) auto
qed

lemma handle_setup_running:
  assumes ok: "controller_ok (run_table R) (run_filling R) b" and run: "running R s" and eq: "handle_setup b e s = Some s'"
  shows "running R s'"
proof -
  let ?p = "setup_of (setup_data (heads (dma s) (ept_head (endpoints s e))))"
  define s1 where "s1 = usb_writel b (ept_bit (endpoints s e)) USB_ENDPTSETUPSTAT s"
  have r1: "running R s1" unfolding s1_def by (rule writel_running [OF ok run]) simp
  have stall: "running R (setup_stall b e s1)" unfolding setup_stall_def by (rule writel_running [OF ok r1]) simp
  have d: "length (take k (desc_data x)) \<le> 255" if "x \<in> set (desc_list s1)" for x k
    using r1 that by (auto simp: running_def driver_ok_def min_def intro: le_trans)
  have find: "find P (desc_list s1) = Some x \<Longrightarrow> x \<in> set (desc_list s1)" for P x
    by (metis find_Some_iff nth_mem)
  show ?thesis
    using eq stall r1 setup_tx_running [OF ok r1] d find setup_ack_running [OF ok] endpoint_enable_running [OF ok r1]
      set_configuration_running [OF ok r1] writel_running [OF ok r1]
    unfolding handle_setup_def Let_def s1_def [symmetric]
    by (auto split: if_splits option.splits)
qed

lemma halt_running:
  assumes run: "running R s" and rq: "rq = ep0req s \<or> rq = run_req R"
  shows "running R (set_item (rq_item (requests s rq)) (\<lambda>q. q\<lparr>qi_info := INFO_HALTED\<rparr>) s)"
proof -
  let ?s = "set_item (rq_item (requests s rq)) (\<lambda>q. q\<lparr>qi_info := INFO_HALTED\<rparr>) s"
  have u: "requests ?s = requests s" "ep0req ?s = ep0req s" "requests_ok q p ?s = requests_ok q p s" "epts_ok t q ?s = epts_ok t q s"
    "board_ok f ?s = board_ok f s" "gadget_epts_of ?s = gadget_epts_of s" "reported ?s = reported s" "desc_list ?s = desc_list s"
    "own_callback_ok ?s = own_callback_ok s"
    "usb_mem ?s = usb_mem s" "events ?s = events s" "endpoints ?s = endpoints s" "ept_list ?s = ept_list s"
    "ctl (dma ?s) = ctl (dma s)" for q p t f
    by (simp_all add: set_item_def own_callback_ok_def requests_ok_def epts_ok_def board_ok_def gadget_epts_of_def reported_def)
  have i: "the_item ?s r = the_item s r \<or> (\<not> active (the_item ?s r) \<and> item_bytes (the_item ?s r) = 0)" for r
    by (simp add: the_item_def set_item_def active_def item_bytes_def INFO_HALTED_def INFO_ACTIVE_def)
  show ?thesis
    using run i [of "ep0req s"] i [of "run_req R"] unfolding running_def driver_ok_def own_item_ok_def u by auto
qed

lemma fail_pending_running:
  assumes "controller_ok (run_table R) (run_filling R) b"
  shows "running R s \<Longrightarrow> set es \<subseteq> set (run_list R) \<Longrightarrow> fail_pending b es s = Some s' \<Longrightarrow> running R s'"
proof (induction es arbitrary: s)
  case (Cons e es)
  show ?case
  proof (cases "ept_req (endpoints s e) = 0")
    case True
    with Cons show ?thesis by simp
  next
    case False
    let ?h = "set_item (rq_item (requests s (ept_req (endpoints s e)))) (\<lambda>q. q\<lparr>qi_info := INFO_HALTED\<rparr>) s"
    have e: "e \<in> set (run_list R) \<union> {ep0in s, ep0out s}" using Cons.prems(2) by simp
    have "ept_req (endpoints s e) = ep0req s \<or> ept_req (endpoints s e) = run_req R"
      using Cons.prems(1) e False by (cases rule: ept_req_cases) auto
    from halt_running [OF Cons.prems(1) this] have r: "running R ?h" by simp
    from False Cons.prems(3) obtain s1 where h: "handle_ept_complete b e ?h = Some s1" and f: "fail_pending b es s1 = Some s'"
      by (auto simp: Let_def split: bind_splits)
    have "e \<in> set (run_list R) \<union> {ep0in ?h, ep0out ?h}" using Cons.prems(2) by simp
    from handle_ept_complete_running [OF assms r this h] show ?thesis
      using Cons.IH Cons.prems(2) f by simp
  qed
qed simp

lemma run_list_eq: "running R s \<Longrightarrow> ept_list s = run_list R"
  by (simp add: running_def)

lemma handle_reset_running:
  assumes ok: "controller_ok (run_table R) (run_filling R) b" and run: "running R s" and eq: "handle_reset b s = Some s'"
  shows "running R s'"
proof -
  obtain c s1 where r1: "usb_readl b USB_ENDPTCOMPLETE s = (c, s1)" by (metis surj_pair)
  define s2 where "s2 = usb_writel b c USB_ENDPTCOMPLETE s1"
  obtain t s3 where r3: "usb_readl b USB_ENDPTSETUPSTAT s2 = (t, s3)" by (metis surj_pair)
  define s6 where "s6 = usb_writel b 0 (USB_ENDPTCTRL 1) (usb_writel b 0xffffffff USB_ENDPTFLUSH (usb_writel b t USB_ENDPTSETUPSTAT s3))"
  have "running R s2" unfolding s2_def by (intro writel_running [OF ok] readl_running [OF ok run r1]) simp
  from readl_running [OF ok this r3] have "running R s6" unfolding s6_def by (intro writel_running [OF ok]) simp_all
  moreover from eq obtain s7 where "notify UDC_EVENT_OFFLINE (s6\<lparr>host_online := False, usb_config_value := 0\<rparr>) = Some s7"
    and f: "fail_pending b (ept_list s7) s7 = Some s'"
    by (auto simp: handle_reset_def Let_def r1 s2_def [symmetric] r3 s6_def [symmetric] split: bind_splits)
  ultimately have "running R s7" by (elim notify_running [rotated]) simp
  with fail_pending_running [OF ok this _ f] show ?thesis by (simp add: run_list_eq)
qed

lemma complete_epts_running:
  assumes "controller_ok (run_table R) (run_filling R) b"
  shows "running R (snd x) \<Longrightarrow> set es \<subseteq> set (run_list R) \<Longrightarrow> complete_epts b n es x = Some y \<Longrightarrow> running R (snd y)"
proof (induction es arbitrary: x)
  case (Cons e es)
  obtain ret s where x: "x = (ret, s)" by (cases x)
  show ?case
  proof (cases "n AND ept_bit (endpoints s e) = 0")
    case True
    with Cons.prems(3) x have "complete_epts b n es (ret, s) = Some y" by simp
    with Cons.IH [of "(ret, s)"] Cons.prems(1,2) x show ?thesis by simp
  next
    case False
    with Cons.prems(3) x obtain s1 where h: "handle_ept_complete b e s = Some s1"
      and c: "complete_epts b n es (INT_RESCHEDULE, s1) = Some y" by (auto split: bind_splits)
    have "e \<in> set (run_list R) \<union> {ep0in s, ep0out s}" using Cons.prems(2) by simp
    from handle_ept_complete_running [OF assms _ this h] Cons.prems(1) x have "running R s1" by simp
    with Cons.IH [OF _ _ c] Cons.prems(2) show ?thesis by simp
  qed
qed simp

lemma handle_transfers_running:
  assumes ok: "controller_ok (run_table R) (run_filling R) b" and run: "running R s" and eq: "handle_transfers b s = Some y"
  shows "running R (snd y)"
proof -
  obtain n s1 where r1: "usb_readl b USB_ENDPTSETUPSTAT s = (n, s1)" by (metis surj_pair)
  note run1 = readl_running [OF ok run r1]
  let ?first = "if n AND EPT_RX 0 \<noteq> 0 then map_option (Pair INT_RESCHEDULE) (handle_setup b (ep0out s1) s1)
    else Some (INT_NO_RESCHEDULE, s1)"
  obtain ret s2 where f: "?first = Some (ret, s2)" and rest: "(let (c, s3) = usb_readl b USB_ENDPTCOMPLETE s2;
         s4 = (if c \<noteq> 0 then usb_writel b c USB_ENDPTCOMPLETE s3 else s3)
     in complete_epts b c (ept_list s4) (ret, s4)) = Some y"
    using eq unfolding handle_transfers_def Let_def r1 by (auto elim!: bind_pairE)
  have run2: "running R s2"
    using f run1 handle_setup_running [OF ok run1] by (auto split: if_splits)
  obtain c s3 where r3: "usb_readl b USB_ENDPTCOMPLETE s2 = (c, s3)" by (metis surj_pair)
  define s4 where "s4 = (if c \<noteq> 0 then usb_writel b c USB_ENDPTCOMPLETE s3 else s3)"
  have run4: "running R s4" using readl_running [OF ok run2 r3] unfolding s4_def by (simp add: writel_running [OF ok])
  from rest have "complete_epts b c (ept_list s4) (ret, s4) = Some y" by (simp add: r3 s4_def Let_def)
  from complete_epts_running [OF ok _ _ this] run4 show ?thesis by (simp add: run_list_eq)
qed

lemma handle_portchange_running:
  assumes ok: "controller_ok (run_table R) (run_filling R) b" and run: "running R s"
  shows "running R (handle_portchange b s)"
proof -
  obtain v s1 where r1: "usb_readl b USB_PORTSC s = (v, s1)" by (metis surj_pair)
  from readl_running [OF ok run r1] show ?thesis
    unfolding handle_portchange_def Let_def r1 by (simp add: set_charger_running)
qed

lemma udc_interrupt_running:
  assumes ok: "controller_ok (run_table R) (run_filling R) b" and run: "running R s" and eq: "udc_interrupt b s = Some y"
  shows "running R (snd y)"
proof -
  obtain sts s1 where r1: "usb_readl b USB_USBSTS s = (sts, s1)" by (metis surj_pair)
  define s2 where "s2 = usb_writel b sts USB_USBSTS s1"
  define n where "n = sts AND (STS_SLI OR STS_URI OR STS_PCI OR STS_UI OR STS_UEI)"
  have run2: "running R s2" unfolding s2_def by (intro writel_running [OF ok] readl_running [OF ok run r1]) simp
  note eq1 = eq [unfolded udc_interrupt_def r1 Let_def prod.case s2_def [symmetric] n_def [symmetric]]
  show ?thesis
  proof (cases "n = 0")
    case True
    with eq1 run2 show ?thesis by auto
  next
    case False
    let ?a = "if n AND STS_URI \<noteq> 0 then handle_reset b s2 else Some s2"
    from eq1 [unfolded if_not_P [OF False]] obtain s3 where s3: "?a = Some s3"
      and rest: "(let s4 = if n AND STS_SLI \<noteq> 0 then handle_suspend s3 else s3;
          s5 = if n AND STS_PCI \<noteq> 0 then handle_portchange b s4 else s4
        in if n AND STS_UI \<noteq> 0 \<or> n AND STS_UEI \<noteq> 0 then handle_transfers b s5 else Some (INT_NO_RESCHEDULE, s5)) = Some y"
      unfolding Let_def by (rule bind_someE)
    have "running R s3" using s3 run2 handle_reset_running [OF ok run2] by (auto split: if_splits)
    then have run4: "running R (if n AND STS_SLI \<noteq> 0 then handle_suspend s3 else s3)"
      by (simp add: handle_suspend_def set_charger_running)
    define s5 where "s5 = (let s4 = if n AND STS_SLI \<noteq> 0 then handle_suspend s3 else s3
      in if n AND STS_PCI \<noteq> 0 then handle_portchange b s4 else s4)"
    have run5: "running R s5" using handle_portchange_running [OF ok run4] run4 by (simp add: s5_def Let_def)
    have "(if n AND STS_UI \<noteq> 0 \<or> n AND STS_UEI \<noteq> 0 then handle_transfers b s5 else Some (INT_NO_RESCHEDULE, s5)) = Some y"
      using rest unfolding s5_def Let_def .
    then show ?thesis using handle_transfers_running [OF ok run5] run5 by (metis option.inject snd_conv)
  qed
qed

section \<open>The driver as a device of the contract\<close>

text \<open>
  The thread of the gadget sleeps until its completion is reported: what runs meanwhile is the
  interrupt handler, as often as the controller asks for it. A transfer that never completes is
  \<open>None\<close>.
\<close>

partial_function (option) wait_completed :: "'c dma bus \<Rightarrow> 'c usb \<Rightarrow> 'c usb option" where
  "wait_completed b s = (if reported s then Some s else Option.bind (udc_interrupt b s) (\<lambda>x. wait_completed b (snd x)))"

fun notification :: "gadget_event \<Rightarrow> u32 list" where
  "notification (Notified e) = [e]"
| "notification (Completed r n st) = []"

fun completion_of :: "gadget_event list \<Rightarrow> (u32 \<times> int) option" where
  "completion_of [] = None"
| "completion_of (Completed r n st # es) = Some (n, st)"
| "completion_of (Notified e # es) = completion_of es"

definition gadget_request :: "udc_request \<Rightarrow> usb_request \<Rightarrow> usb_request" where
  "gadget_request rq q = q\<lparr>rq_buf := req_buf rq, rq_length := req_len rq, rq_complete := Gadget_complete\<rparr>"

definition hsusb_queue :: "'c dma bus \<Rightarrow> ptr \<Rightarrow> ptr \<Rightarrow> udc_request \<Rightarrow> 'c usb machine \<Rightarrow> int \<times> 'c usb machine" where
  "hsusb_queue b rqg ept rq = (\<lambda>(m, d).
    let (r, s) = udc_request_queue b ept rqg (set_req rqg (gadget_request rq) (d\<lparr>usb_mem := m, events := []\<rparr>))
    in (r, usb_mem s, s))"

definition hsusb_complete :: "'c dma bus \<Rightarrow> 'c usb machine \<Rightarrow> 'c usb completion option" where
  "hsusb_complete b = (\<lambda>(m, d). do {
     s \<leftarrow> wait_completed b (d\<lparr>usb_mem := m\<rparr>);
     (n, st) \<leftarrow> completion_of (events s);
     Some \<lparr>actual = n, status = st, notified = concat (map notification (events s)), after = (usb_mem s, s\<lparr>events := []\<rparr>)\<rparr>
   })"

definition hsusb_udc :: "'c dma bus \<Rightarrow> ptr \<Rightarrow> (u32 \<Rightarrow> u32 \<Rightarrow> ptr) \<Rightarrow> 'c usb udc" where
  "hsusb_udc b rqg ea = \<lparr>udc_queue = hsusb_queue b rqg, udc_complete = (\<lambda>ept rq. hsusb_complete b),
    udc_ept_alloc = ea, udc_req_alloc = rqg, udc_register = 0\<rparr>"

text \<open>Between two transfers no endpoint of the gadget has a request and the controller fills nothing for it.\<close>

definition idle :: "ptr \<Rightarrow> ('c \<Rightarrow> ptr set) \<Rightarrow> ptr \<Rightarrow> ptr \<Rightarrow> ptr set \<Rightarrow> 'c usb \<Rightarrow> bool" where
  "idle table filling rqg buf0 chans s \<longleftrightarrow> driver_ok table filling rqg buf0 s \<and> gadget_epts_of s = chans \<and>
    (\<forall>e \<in> chans. ept_req (endpoints s e) = 0) \<and>
    (rq_item (requests s rqg) \<in> filling (ctl (dma s)) \<longrightarrow> \<not> active (the_item s rqg))"

definition hsusb_terms :: "ptr \<Rightarrow> ('c \<Rightarrow> ptr set) \<Rightarrow> ptr \<Rightarrow> ptr \<Rightarrow> ptr set \<Rightarrow> 'c usb udc_terms" where
  "hsusb_terms table filling rqg buf0 chans = \<lparr>driver_area = area buf0 4096, channels = chans,
    ready = idle table filling rqg buf0 chans\<rparr>"

lemma wait_completed_running:
  "wait_completed b s = Some s' \<Longrightarrow> controller_ok (run_table R) (run_filling R) b \<Longrightarrow> running R s \<Longrightarrow> running R s' \<and> reported s'"
proof (induction rule: wait_completed.raw_induct [rotated 1, consumes 1, case_names step])
  case (step f b s s')
  show ?case
  proof (cases "reported s")
    case True
    with step show ?thesis by simp
  next
    case False
    with step(2) obtain y where y: "udc_interrupt b s = Some y" "f b (snd y) = Some s'" by (auto split: bind_splits)
    from step(1) [OF y(2) step(3) udc_interrupt_running [OF step(3,4) y(1)]] show ?thesis .
  qed
qed

lemma reported_completion:
  assumes "completion_of es = Some (n, st)" and "\<forall>e \<in> set es. event_ok R e"
  shows "n \<le> run_len R"
  using assms by (induction es rule: completion_of.induct) auto

lemma running_done:
  assumes "running R s" and "reported s"
  shows "idle (run_table R) (run_filling R) (run_req R) (run_buf0 R) (run_epts R) (s\<lparr>events := []\<rparr>)"
proof -
  have "driver_ok (run_table R) (run_filling R) (run_req R) (run_buf0 R) (s\<lparr>events := []\<rparr>)"
    using assms(1) by (simp add: running_def driver_ok_def)
  moreover have "ept_req (endpoints s e) = 0" if "e \<in> run_epts R" for e
    using assms that by (cases "e = run_ept R") (simp_all add: running_def)
  ultimately show ?thesis using assms by (simp add: idle_def running_def)
qed

lemma queue_gadget_running:
  fixes m :: mem
  assumes ok: "controller_ok table filling b" and idle: "idle table filling rqg buf0 chans d" and e: "ept \<in> chans"
    and len: "req_len rq \<le> BUF_SIZE"
  defines "R \<equiv> \<lparr>run_table = table, run_filling = filling, run_req = rqg, run_buf0 = buf0, run_ept = ept, run_buf = req_buf rq,
    run_len = req_len rq, run_mem = m, run_list = ept_list d, run_epts = chans\<rparr>"
  shows "running R (snd (udc_request_queue b ept rqg (set_req rqg (gadget_request rq) (d\<lparr>usb_mem := m, events := []\<rparr>))))"
proof -
  define s where "s = set_req rqg (gadget_request rq) (d\<lparr>usb_mem := m, events := []\<rparr>)"
  let ?it = "rq_item (requests d rqg)"
  let ?q = "(items (dma d) ?it)\<lparr>qi_next := TERMINATE, qi_info := INFO_BYTES (req_len rq) OR INFO_IOC OR INFO_ACTIVE,
    page0 := req_buf rq, page1 := (req_buf rq AND 0xfffff000) + 0x1000\<rparr>"
  define s3 where "s3 = set_ept ept (\<lambda>x. x\<lparr>ept_req := rqg\<rparr>)
    (set_head (ept_head (endpoints d ept)) (\<lambda>q. q\<lparr>qh_next := ?it, qh_info := 0\<rparr>) (set_item ?it (\<lambda>_. ?q) s))"
  have s3: "snd (udc_request_queue b ept rqg s) = usb_writel b (ept_bit (endpoints s3 ept)) USB_ENDPTPRIME s3"
    by (simp add: udc_request_queue_def s3_def s_def Let_def set_item_def set_head_def set_req_def gadget_request_def)
  have f: "requests s3 = (requests d)(rqg := gadget_request rq (requests d rqg))" "ept_list s3 = ept_list d" "ep0in s3 = ep0in d"
    "ep0out s3 = ep0out d" "ep0req s3 = ep0req d" "usb_mem s3 = m" "events s3 = []" "desc_list s3 = desc_list d"
    "pdata s3 = pdata d" "ctl (dma s3) = ctl (dma d)"
    "endpoints s3 = (endpoints d)(ept := (endpoints d ept)\<lparr>ept_req := rqg\<rparr>)"
    "items (dma s3) = (items (dma d))(?it := ?q)"
    "qh_next (heads (dma s3) (ept_head (endpoints d ept))) = ?it"
    by (simp_all add: s3_def s_def set_ept_def set_head_def set_item_def set_req_def)
  have g: "rq_item (gadget_request rq x) = rq_item x" "rq_complete (gadget_request rq x) = Gadget_complete"
    "rq_length (gadget_request rq x) = req_len rq" for x by (simp_all add: gadget_request_def)
  have d: "driver_ok table filling rqg buf0 d" "gadget_epts_of d = chans" "\<forall>e \<in> chans. ept_req (endpoints d e) = 0"
    using idle by (simp_all add: idle_def)
  have r: "requests_ok rqg buf0 d" using d(1) by (simp add: driver_ok_def)
  have q: "item_bytes ?q = req_len rq AND 0x7fff" by (simp add: item_bytes_def queued_bytes [unfolded item_bytes_def, simplified])
  have ar: "item_area ?q \<subseteq> area (req_buf rq) (unat (req_len rq))"
    using q by (intro queued_area [OF _ _ _ len]) (simp_all add: word_and_le2)
  have i: "the_item s3 rqg = ?q" "the_item s3 (ep0req d) = the_item d (ep0req d)"
    using r by (auto simp: the_item_def f g requests_ok_def)
  have ge: "gadget_epts_of s3 = chans" "reported s3 = False" using d(2) by (simp_all add: gadget_epts_of_def reported_def f)
  have "requests_ok rqg buf0 s3" using r by (auto simp: requests_ok_def f g)
  moreover have "epts_ok table rqg s3"
    using d(1) e d(2) by (auto simp: driver_ok_def epts_ok_def f ept_ok_def gadget_epts_of_def)
  moreover have "board_ok filling s3 = board_ok filling d" unfolding board_ok_def f by (rule refl)
  moreover have "own_callback_ok d" using d(1) by (simp add: driver_ok_def)
  then have "own_callback_ok s3" using e d(2) r by (auto simp: own_callback_ok_def f g gadget_epts_of_def requests_ok_def)
  moreover have "rq_item (requests s3 rq') = rq_item (requests d rq')" for rq' by (simp add: f g)
  ultimately have dr: "driver_ok table filling rqg buf0 s3"
    using d(1) unfolding driver_ok_def own_item_ok_def f(5,8,10) i(2) by simp
  have "running R s3"
    using dr e d(3) ar q ge(2) i(1) unfolding running_def R_def run_area_def ge
    by (simp add: f g word_and_le2)
  moreover have "ept \<in> set (ept_list s3) \<union> {ep0in s3, ep0out s3}" using e d(2) by (auto simp: f gadget_epts_of_def)
  ultimately have "running R (usb_writel b (ept_bit (endpoints s3 ept)) USB_ENDPTPRIME s3)"
    using ok r by (intro prime_running) (auto simp: R_def f g requests_ok_def)
  then show ?thesis unfolding s_def [symmetric] s3 .
qed

lemma hsusb_keeps_terms:
  assumes ok: "controller_ok table filling b"
  shows "udc_ok (hsusb_terms table filling rqg buf0 chans) (hsusb_udc b rqg ea)"
  unfolding udc_ok_def
proof (intro allI impI, elim conjE, intro conjI impI allI)
  fix ept rq m d r m1 d1
  assume e: "ept \<in> channels (hsusb_terms table filling rqg buf0 chans)" and rdy: "ready (hsusb_terms table filling rqg buf0 chans) d"
    and len: "req_len rq \<le> BUF_SIZE" and q: "udc_queue (hsusb_udc b rqg ea) ept rq (m, d) = (r, m1, d1)"
  let ?d = "set_req rqg (gadget_request rq) (d\<lparr>usb_mem := m, events := []\<rparr>)"
  define R where "R = \<lparr>run_table = table, run_filling = filling, run_req = rqg, run_buf0 = buf0, run_ept = ept, run_buf = req_buf rq,
    run_len = req_len rq, run_mem = m, run_list = ept_list d, run_epts = chans\<rparr>"
  have R: "run_table R = table" "run_filling R = filling" "run_req R = rqg" "run_buf0 R = buf0" "run_epts R = chans"
    "run_len R = req_len rq" "run_area R = area (req_buf rq) (unat (req_len rq))" "run_mem R = m"
    by (simp_all add: R_def run_area_def)
  have r: "r = 0" "m1 = usb_mem d1" "d1 = snd (udc_request_queue b ept rqg ?d)"
    using q by (auto simp: hsusb_udc_def hsusb_queue_def udc_request_queue_def Let_def)
  have run: "running R d1"
    using queue_gadget_running [OF ok, of rqg buf0 chans d ept rq m] e rdy len by (simp add: hsusb_terms_def r(3) R_def)
  show "ready (hsusb_terms table filling rqg buf0 chans) d1" "frame (driver_area (hsusb_terms table filling rqg buf0 chans)) m m1"
    if "r < 0" using that r(1) by simp_all
  fix c
  assume "0 \<le> r \<and> udc_complete (hsusb_udc b rqg ea) ept rq (m1, d1) = Some c"
  then obtain s n st where w: "wait_completed b d1 = Some s" and n: "completion_of (events s) = Some (n, st)"
    and c: "actual c = n" "after c = (usb_mem s, s\<lparr>events := []\<rparr>)"
    by (auto simp: hsusb_udc_def hsusb_complete_def r(2) split: bind_splits)
  from wait_completed_running [OF w _ run] ok have run2: "running R s" "reported s" by (simp_all add: R)
  show "ready (hsusb_terms table filling rqg buf0 chans) (snd (after c))"
    using running_done [OF run2] by (simp add: c hsusb_terms_def R)
  show "actual c \<le> req_len rq"
    using reported_completion [OF n, of R] run2(1) by (simp add: c R running_def)
  show "frame (driver_area (hsusb_terms table filling rqg buf0 chans) \<union> area (req_buf rq) (unat (req_len rq))) m (fst (after c))"
    using run2(1) by (simp add: c R running_def hsusb_terms_def)
qed

end
