(* ===== verification/Lk_Usbstart.thy ===== *)
theory Lk_Usbstart
  imports Lk_Usbok
begin

text \<open>
  How the driver of the controller comes up: from a heap that hands out what nobody holds,
  \<open>udc_init\<close>, the allocation of endpoints and requests and \<open>udc_start\<close> lead to the state in which the
  transfers of a gadget may begin. The endpoints stay apart from each other: each has a number and
  direction of its own, and with it a queue head of its own.
\<close>

section \<open>What the heap hands out\<close>

definition claimed :: "heap \<Rightarrow> ptr set \<Rightarrow> bool" where
  "claimed h A \<longleftrightarrow> (\<exists>live. heap_reach h live \<and> dom live = A)"

lemma claimed_alloc:
  assumes "claimed h A" and "heap_alloc h sz al = Some (h', p)"
    and "al AND (al - 1) = 0" and "unat sz + 15 + unat (align_of al) < 2 ^ 32"
  shows "if p = 0 then h' = h else p \<notin> A \<and> claimed h' (insert p A) \<and> unat p \<le> 0x200000"
proof (cases "p = 0")
  case True
  from assms(1) obtain live where "heap_reach h live" by (auto simp: claimed_def)
  with heap_reach_inv have "heap_inv h live" by blast
  from heap_alloc_ok [OF this assms(3,4)] assms(2) True show ?thesis by auto
next
  case False
  from assms(1) obtain live where live: "heap_reach h live" "dom live = A" by (auto simp: claimed_def)
  from heap_reach_inv [OF live(1)] have inv: "heap_inv h live" and top: "base h = HEAP_START" "hlen h = HEAP_LEN" by simp_all
  note a = heap_alloc_same [OF inv assms(3,4,2) False]
  have reach: "heap_reach h' (live(p \<mapsto> block_at h' p))" by (rule reach_alloc [OF live(1) assms(3,4,2) False])
  moreover have "dom (live(p \<mapsto> block_at h' p)) = insert p A" using live(2) by simp
  ultimately have "claimed h' (insert p A)" unfolding claimed_def by blast
  moreover have "p \<notin> A" using a(2) live(2) by (metis domIff)
  moreover have "block_ok h' p (block_at h' p)"
    using a(1) unfolding heap_inv_def by (metis fun_upd_same)
  then have "unat p \<le> 0x200000"
    using a(4,5) top by (simp add: block_ok_def heap_top_def HEAP_START_def HEAP_LEN_def)
  ultimately show ?thesis using False by simp
qed

lemma claimed_malloc:
  assumes "claimed h A" and "malloc h sz = Some (h', p)" and "unat sz \<le> 0x10000"
  shows "if p = 0 then h' = h else p \<notin> A \<and> claimed h' (insert p A) \<and> unat p \<le> 0x200000"
  using claimed_alloc [OF assms(1) assms(2) [unfolded malloc_def]] assms(3) by (simp add: align_of_def)

section \<open>Starting\<close>

text \<open>
  What holds from the start of \<open>udc_init\<close> on: the endpoints are blocks of the heap, wired as their
  numbers ask and without requests; the controller fills nothing.
\<close>

definition ept_key :: "udc_endpoint \<Rightarrow> u8 \<times> bool" where
  "ept_key e = (ept_num e, ept_is_in e)"

definition wired :: "ptr \<Rightarrow> udc_endpoint \<Rightarrow> bool" where
  "wired table e \<longleftrightarrow> ept_ok table e \<and> ept_req e = 0 \<and>
    ept_head e = table + 64 * of_nat (2 * unat (ept_num e) + (if ept_is_in e then 1 else 0))"

definition starting :: "ptr \<Rightarrow> ('c \<Rightarrow> ptr set) \<Rightarrow> ptr set \<Rightarrow> 'c usb \<Rightarrow> bool" where
  "starting table filling A s \<longleftrightarrow> claimed (usb_heap s) A \<and> epts s = table \<and> filling (ctl (dma s)) = {} \<and> board_ok filling s \<and>
    (\<forall>d \<in> set (desc_list s). length (desc_data d) \<le> 255) \<and>
    set (ept_list s) \<subseteq> A \<and> (\<forall>e \<in> set (ept_list s). wired table (endpoints s e)) \<and>
    distinct (map (ept_key \<circ> endpoints s) (ept_list s))"

lemma starting_fields [simp]:
  "starting t f A (s\<lparr>ep0in := p\<rparr>) = starting t f A s" "starting t f A (s\<lparr>ep0out := p\<rparr>) = starting t f A s"
  "starting t f A (s\<lparr>ep0req := p\<rparr>) = starting t f A s" "starting t f A (s\<lparr>the_device := dv\<rparr>) = starting t f A s"
  "starting t f A (s\<lparr>the_gadget := gd\<rparr>) = starting t f A s" "starting t f A (s\<lparr>irq_handler := h\<rparr>) = starting t f A s"
  "starting t f A (s\<lparr>irq_unmasked := h\<rparr>) = starting t f A s" "starting t f A (s\<lparr>next_string_id := n\<rparr>) = starting t f A s"
  "starting t f A (s\<lparr>ept_alloc_table := n\<rparr>) = starting t f A s" "starting t f A (s\<lparr>requests := rs\<rparr>) = starting t f A s"
  by (simp_all add: starting_def board_ok_def)

text \<open>A write to a register other than \<open>USB_ENDPTPRIME\<close> only reaches the controller.\<close>

lemma writel_other [simp]:
  "requests (usb_writel b v a s) = requests s" "endpoints (usb_writel b v a s) = endpoints s"
  "ept_list (usb_writel b v a s) = ept_list s" "ep0in (usb_writel b v a s) = ep0in s" "ep0out (usb_writel b v a s) = ep0out s"
  "ep0req (usb_writel b v a s) = ep0req s" "usb_heap (usb_writel b v a s) = usb_heap s" "epts (usb_writel b v a s) = epts s"
  "desc_list (usb_writel b v a s) = desc_list s" "board_ok f (usb_writel b v a s) = board_ok f s"
  "ept_alloc_table (usb_writel b v a s) = ept_alloc_table s" "the_device (usb_writel b v a s) = the_device s"
  "the_gadget (usb_writel b v a s) = the_gadget s" "events (usb_writel b v a s) = events s"
  by (simp_all add: usb_writel_def board_ok_def split: prod.split)

lemma writel_quiet:
  assumes "controller_ok t f b" and "f (ctl (dma s)) = {}" and "a \<noteq> USB_ENDPTPRIME"
  shows "f (ctl (dma (usb_writel b v a s))) = {}"
proof -
  have "controller_step f (usb_mem s, dma s) (bus_write b a v (usb_mem s, dma s)) {}"
    using assms(1,3) unfolding controller_ok_def by blast
  with assms(2) show ?thesis by (auto simp: usb_writel_def writel_def controller_step_def split: prod.splits)
qed

lemma writel_starting:
  assumes "controller_ok t f b" and "starting t f A s" and "a \<noteq> USB_ENDPTPRIME"
  shows "starting t f A (usb_writel b v a s)"
  using assms(2) writel_quiet [OF assms(1) _ assms(3)] by (simp add: starting_def comp_def)

lemma readl_other [simp]:
  "ept_list (snd (usb_readl b a s)) = ept_list s" "epts (snd (usb_readl b a s)) = epts s" "usb_heap (snd (usb_readl b a s)) = usb_heap s"
  "ept_alloc_table (snd (usb_readl b a s)) = ept_alloc_table s" "the_gadget (snd (usb_readl b a s)) = the_gadget s"
  by (simp_all add: usb_readl_def split: prod.split)

lemma readl_starting:
  assumes "controller_ok t f b" and "starting t f A s"
  shows "starting t f A (snd (usb_readl b a s))"
proof -
  obtain v m x where r: "bus_read b a (usb_mem s, dma s) = (v, m, x)" by (metis surj_pair)
  then have "controller_step f (usb_mem s, dma s) (m, x) {}" using assms(1) unfolding controller_ok_def by blast
  with assms(2) have "f (ctl x) = {}" by (auto simp: controller_step_def starting_def)
  then show ?thesis using assms(2) by (simp add: usb_readl_def readl_def r starting_def comp_def)
qed

lemma not_prime_start [simp]: "USB_OTGSC \<noteq> USB_ENDPTPRIME" "USB_PORTSC \<noteq> USB_ENDPTPRIME" "USB_USBCMD \<noteq> USB_ENDPTPRIME"
  "USB_ENDPOINTLISTADDR \<noteq> USB_ENDPTPRIME" "USB_USBMODE \<noteq> USB_ENDPTPRIME" "USB_USBINTR \<noteq> USB_ENDPTPRIME"
  by (simp_all add: USB_OTGSC_def USB_PORTSC_def USB_USBCMD_def USB_ENDPOINTLISTADDR_def USB_USBMODE_def USB_USBINTR_def
      USB_ENDPTPRIME_def MSM_USB_BASE_def)

lemma set_head_other [simp]:
  "requests (set_head p g s) = requests s" "endpoints (set_head p g s) = endpoints s" "ept_list (set_head p g s) = ept_list s"
  "ep0in (set_head p g s) = ep0in s" "ep0out (set_head p g s) = ep0out s" "ep0req (set_head p g s) = ep0req s"
  "ept_alloc_table (set_head p g s) = ept_alloc_table s" "the_gadget (set_head p g s) = the_gadget s"
  "starting t f A (set_head p g s) = starting t f A s" "epts (set_head p g s) = epts s" "desc_list (set_head p g s) = desc_list s"
  "usb_heap (set_head p g s) = usb_heap s"
  by (simp_all add: set_head_def starting_def board_ok_def)

lemma set_heads_other:
  "let s' = fold (\<lambda>k. set_head (q k) g) ks s in starting t f A s' = starting t f A s \<and> ept_list s' = ept_list s \<and>
    desc_list s' = desc_list s \<and> ept_alloc_table s' = ept_alloc_table s \<and> epts s' = epts s"
  by (induction ks arbitrary: s) (simp_all add: Let_def)

section \<open>Endpoints\<close>

lemma ept_wired:
  assumes "num < 16"
  shows "wired t \<lparr>ept_bit = (if inp then EPT_TX (ucast (ucast num :: u8)) else EPT_RX (ucast (ucast num :: u8))),
    ept_head = t + 64 * (num * 2 + (if inp then 1 else 0)), ept_req = 0, ept_num = ucast num, ept_is_in = inp, maxpkt = x\<rparr>"
proof -
  have n: "unat num < 16" using assms by (simp add: word_less_nat_alt)
  then have u: "unat (ucast num :: u8) = unat num" by (simp add: unsigned_ucast_eq take_bit_nat_eq_self)
  have "(ucast (ucast num :: u8) :: u32) = num" unfolding word_unat_eq_iff using n by (simp add: unsigned_ucast_eq unsigned_take_bit_eq take_bit_nat_eq_self)
  then show ?thesis using n by (simp add: wired_def ept_ok_def u algebra_simps)
qed

lemma endpoint_alloc_starting:
  assumes st: "starting t f A s" and eq: "u_udc_endpoint_alloc num inp pkt s = Some (p, s')" and n: "num < 16"
    and new: "(ucast num, inp) \<notin> set (map (ept_key \<circ> endpoints s) (ept_list s))"
  shows "p \<noteq> 0 \<and> p \<notin> A \<and> starting t f (insert p A) s' \<and> ept_list s' = p # ept_list s \<and> requests s' = requests s \<and>
    ep0in s' = ep0in s \<and> ep0out s' = ep0out s \<and> ep0req s' = ep0req s \<and> ept_alloc_table s' = ept_alloc_table s \<and>
    ept_key (endpoints s' p) = (ucast num, inp) \<and> (\<forall>q. q \<noteq> p \<longrightarrow> endpoints s' q = endpoints s q) \<and> the_gadget s' = the_gadget s"
proof -
  let ?hd = "epts s + 64 * (num * 2 + (if inp then 1 else 0))"
  let ?e = "\<lparr>ept_bit = (if inp then EPT_TX (ucast (ucast num :: u8)) else EPT_RX (ucast (ucast num :: u8))),
    ept_head = ?hd, ept_req = 0, ept_num = ucast num, ept_is_in = inp, maxpkt = ucast pkt\<rparr>"
  from eq obtain h where h: "malloc (usb_heap s) 20 = Some (h, p)" "p \<noteq> 0"
    and s': "s' = set_head ?hd (\<lambda>q. q\<lparr>qh_config := CONFIG_MAX_PKT pkt OR CONFIG_ZLT OR (if \<not> inp \<and> num = 0 then CONFIG_IOS else 0)\<rparr>)
      (s\<lparr>usb_heap := h, endpoints := (endpoints s)(p := ?e), ept_list := p # ept_list s\<rparr>)"
    unfolding u_udc_endpoint_alloc_def Let_def by (elim bind_pairE) (simp split: if_splits)
  have "claimed (usb_heap s) A" using st by (simp add: starting_def)
  from claimed_malloc [OF this h(1)] h(2) have p: "p \<notin> A" "claimed h (insert p A)" by simp_all
  have np: "e \<noteq> p" if "e \<in> set (ept_list s)" for e using st that p(1) by (auto simp: starting_def)
  have "starting t f (insert p A) (s\<lparr>usb_heap := h, endpoints := (endpoints s)(p := ?e), ept_list := p # ept_list s\<rparr>)"
    using st p ept_wired [OF n, of t inp "ucast pkt"] new np
    by (auto simp: starting_def board_ok_def comp_def ept_key_def inj_on_def distinct_map)
  then show ?thesis unfolding s' using h(2) p(1) by (simp add: ept_key_def)
qed

lemma endpoint_alloc_public:
  assumes st: "starting t f A s" and eq: "udc_endpoint_alloc ty pkt s = Some (p, s')" and "p \<noteq> 0"
    and used: "\<forall>e \<in> set (ept_list s). ept_alloc_table s AND ept_bit (endpoints s e) \<noteq> 0"
  shows "p \<notin> A \<and> starting t f (insert p A) s' \<and> ept_list s' = p # ept_list s \<and> requests s' = requests s \<and>
    ep0in s' = ep0in s \<and> ep0out s' = ep0out s \<and> ep0req s' = ep0req s \<and> the_gadget s' = the_gadget s \<and>
    ept_is_in (endpoints s' p) = (ty = UDC_TYPE_BULK_IN) \<and>
    (\<forall>e \<in> set (ept_list s'). ept_alloc_table s' AND ept_bit (endpoints s' e) \<noteq> 0)"
proof -
  define inp where "inp = (ty = UDC_TYPE_BULK_IN)"
  let ?b = "\<lambda>n. if inp then EPT_TX n else EPT_RX n"
  define ns :: "u32 list" where "ns = [1, 2, 3, 4, 5, 6, 7, 8, 9, 10, 11, 12, 13, 14, 15]"
  define fd where "fd = find (\<lambda>n. ept_alloc_table s AND ?b n = 0) ns"
  note eq1 = eq [unfolded udc_endpoint_alloc_def inp_def [symmetric] ns_def [symmetric] Let_def fd_def [symmetric]]
  have "inp \<or> ty = UDC_TYPE_BULK_OUT" using eq1 \<open>p \<noteq> 0\<close> by (cases inp; cases "ty = UDC_TYPE_BULK_OUT"; simp)
  then have eq2: "(case fd of None \<Rightarrow> Some (0, s)
      | Some n \<Rightarrow> do { (ept, s1) \<leftarrow> u_udc_endpoint_alloc n inp pkt s;
          Some (ept, if ept \<noteq> 0 then s1\<lparr>ept_alloc_table := ept_alloc_table s1 OR ?b n\<rparr> else s1) }) = Some (p, s')"
    using eq1 by (cases inp) simp_all
  with \<open>p \<noteq> 0\<close> obtain n where fn: "fd = Some n" by (cases fd) simp_all
  from eq2 [unfolded fn option.case] obtain s1 where a: "u_udc_endpoint_alloc n inp pkt s = Some (p, s1)"
    and s': "s' = s1\<lparr>ept_alloc_table := ept_alloc_table s1 OR ?b n\<rparr>"
    by (rule bind_pairE) (use \<open>p \<noteq> 0\<close> in auto)
  note n = fn [unfolded fd_def]
  from n obtain i where "i < length ns" "ept_alloc_table s AND ?b n = 0" "n = ns ! i" by (auto simp: find_Some_iff)
  then have "n \<in> set ns" "ept_alloc_table s AND ?b n = 0" by simp_all
  then have n16: "n < 16" and free: "ept_alloc_table s AND ?b n = 0" by (auto simp: ns_def)
  have n8: "ucast (ucast n :: u8) = n"
    using n16 unfolding word_unat_eq_iff by (simp add: unsigned_ucast_eq unsigned_take_bit_eq take_bit_nat_eq_self word_less_nat_alt)
  have bit: "ept_bit x = (if ept_is_in x then EPT_TX (ucast (ept_num x)) else EPT_RX (ucast (ept_num x)))" if "wired t x" for x
    using that by (auto simp: wired_def ept_ok_def split: if_splits)
  have w: "\<forall>e \<in> set (ept_list s). wired t (endpoints s e)" using st by (simp add: starting_def)
  have new: "(ucast n, inp) \<notin> set (map (ept_key \<circ> endpoints s) (ept_list s))"
  proof
    assume "(ucast n, inp) \<in> set (map (ept_key \<circ> endpoints s) (ept_list s))"
    then obtain e where "e \<in> set (ept_list s)" "ept_num (endpoints s e) = ucast n" "ept_is_in (endpoints s e) = inp"
      by (auto simp: ept_key_def)
    with bit w n8 have "ept_bit (endpoints s e) = ?b n" by auto
    with used free \<open>e \<in> set (ept_list s)\<close> show False by auto
  qed
  note r = endpoint_alloc_starting [OF st a n16 new]
  have "wired t (endpoints s1 p)" "ept_num (endpoints s1 p) = ucast n" "ept_is_in (endpoints s1 p) = inp"
    using r by (simp_all add: starting_def ept_key_def)
  then have bp: "ept_bit (endpoints s1 p) = ?b n" using bit [of "endpoints s1 p"] n8 by simp
  have nz: "?b n \<noteq> 0"
  proof -
    have "bit (?b n) (if inp then unat n + 16 else unat n)"
      using n16 by (auto simp: EPT_TX_def EPT_RX_def bit_simps word_less_nat_alt)
    moreover have "bit x k \<Longrightarrow> x \<noteq> 0" for x :: u32 and k by auto
    ultimately show ?thesis by blast
  qed
  have more: "x AND y \<noteq> 0 \<Longrightarrow> (x OR z) AND y \<noteq> (0 :: u32)" for x y z
    unfolding bit_eq_iff by (auto simp: bit_simps)
  have own: "(x OR z) AND z = (z :: u32)" for x z by (rule bit_word_eqI) (auto simp: bit_simps)
  have "(ept_alloc_table s1 OR ?b n) AND ept_bit (endpoints s1 e) \<noteq> 0" if "e \<in> set (ept_list s1)" for e
  proof (cases "e = p")
    case True
    then show ?thesis unfolding True bp own using nz by blast
  next
    case False
    with r that have "e \<in> set (ept_list s)" "endpoints s1 e = endpoints s e" "ept_alloc_table s1 = ept_alloc_table s" by auto
    with used more show ?thesis by simp
  qed
  moreover have "ept_is_in (endpoints s1 p) = inp" using r by (simp add: ept_key_def)
  ultimately show ?thesis using r unfolding s' by (simp add: inp_def)
qed

section \<open>Requests and descriptors\<close>

lemma request_alloc_starting:
  assumes st: "starting t f A s" and eq: "udc_request_alloc s = Some (r, s')"
  defines "it \<equiv> rq_item (requests s' r)"
  shows "r \<noteq> 0 \<and> r \<notin> A \<and> (it \<noteq> 0 \<longrightarrow> it \<notin> A \<and> it \<noteq> r \<and> unat it \<le> 0x200000) \<and>
    starting t f (if it = 0 then insert r A else {it, r} \<union> A) s' \<and> ept_list s' = ept_list s \<and> endpoints s' = endpoints s \<and>
    (\<forall>q. q \<noteq> r \<longrightarrow> requests s' q = requests s q) \<and> ep0in s' = ep0in s \<and> ep0out s' = ep0out s \<and> ep0req s' = ep0req s \<and>
    ept_alloc_table s' = ept_alloc_table s \<and> the_gadget s' = the_gadget s"
proof -
  from eq obtain h1 h2 i where h: "malloc (usb_heap s) 20 = Some (h1, r)" "r \<noteq> 0" "memalign h1 32 32 = Some (h2, i)"
    and s': "s' = set_req r (\<lambda>q. q\<lparr>rq_buf := 0, rq_length := 0, rq_item := i\<rparr>) (s\<lparr>usb_heap := h2\<rparr>)"
    unfolding udc_request_alloc_def Let_def by (auto split: bind_splits if_splits)
  have it: "it = i" by (simp add: it_def s' set_req_def)
  have "claimed (usb_heap s) A" using st by (simp add: starting_def)
  from claimed_malloc [OF this h(1)] h(2) have r: "r \<notin> A" "claimed h1 (insert r A)" by simp_all
  from claimed_alloc [OF r(2) h(3) [unfolded memalign_def]]
  have i: "if i = 0 then h2 = h1 else i \<notin> insert r A \<and> claimed h2 (insert i (insert r A)) \<and> unat i \<le> 0x200000"
    by (simp add: align_of_def)
  then have "starting t f (if i = 0 then insert r A else {i, r} \<union> A) (s\<lparr>usb_heap := h2\<rparr>)"
    using st r by (auto simp: starting_def board_ok_def split: if_splits)
  then show ?thesis
    using i r(1) h(2) unfolding it by (auto simp: s' set_req_def split: if_splits)
qed

lemma descriptor_alloc_starting:
  assumes st: "starting t f A s" and eq: "udc_descriptor_alloc ty num len s = Some (d, s')"
  shows "\<exists>A' h. A \<subseteq> A' \<and> starting t f A' s' \<and> s' = s\<lparr>usb_heap := h\<rparr> \<and>
    (\<forall>x. d = Some x \<longrightarrow> length (desc_data x) = unat len \<and> unat len \<le> 255 \<and> 2 \<le> unat len)"
proof (cases "len > 255 \<or> len < 2 \<or> num > 255 \<or> ty > 255")
  case True
  with eq st show ?thesis by (auto simp: udc_descriptor_alloc_def intro!: exI [of _ A] exI [of _ "usb_heap s"])
next
  case False
  then have len: "unat len \<le> 255" "2 \<le> unat len" by (simp_all add: not_less word_le_nat_alt)
  from eq False obtain h p where h: "malloc (usb_heap s) (8 + len) = Some (h, p)" and s': "s' = s\<lparr>usb_heap := h\<rparr>"
    and d: "\<forall>x. d = Some x \<longrightarrow> length (desc_data x) = unat len"
    unfolding udc_descriptor_alloc_def Let_def by (auto split: bind_splits if_splits)
  have cl: "claimed (usb_heap s) A" using st by (simp add: starting_def)
  have "unat (8 + len) \<le> 0x10000" using len by (simp add: unat_word_ariths)
  from claimed_malloc [OF cl h this] have "\<exists>A'. A \<subseteq> A' \<and> claimed h A'" using cl by (auto split: if_splits)
  then obtain A' where A': "A \<subseteq> A'" "claimed h A'" by blast
  then have "starting t f A' s'" using st unfolding s' by (auto simp: starting_def board_ok_def)
  with A'(1) s' d len show ?thesis by blast
qed

section \<open>\<open>udc_init\<close>\<close>

text \<open>The driver before \<open>udc_init\<close>: its static variables.\<close>

definition fresh_usb :: "('c \<Rightarrow> ptr set) \<Rightarrow> 'c usb \<Rightarrow> bool" where
  "fresh_usb filling s \<longleftrightarrow> (\<exists>A. claimed (usb_heap s) A) \<and> filling (ctl (dma s)) = {} \<and> board_ok filling s \<and>
    desc_list s = [] \<and> ept_list s = [] \<and> ept_alloc_table s = EPT_TX 0 OR EPT_RX 0"

lemma board_fields [simp]:
  "board_ok f (set_ctl g s) = board_ok f s" "board_ok f (s\<lparr>usb_heap := h\<rparr>) = board_ok f s" "board_ok f (set_req r q s) = board_ok f s"
  "board_ok f (udc_descriptor_register d s) = board_ok f s" "board_ok f (s\<lparr>usb_heap := h, epts := p\<rparr>) = board_ok f s"
  by (simp_all add: board_ok_def set_ctl_def set_req_def udc_descriptor_register_def)

lemma set_ctl_starting:
  assumes "starting t f A s" and "f (g (ctl (dma s))) \<subseteq> f (ctl (dma s))"
  shows "starting t f A (set_ctl g s)"
  using assms unfolding starting_def board_fields by (simp add: set_ctl_def)

lemma ulpi_starting:
  assumes st: "starting t f A s"
  shows "starting t f A (ulpi_set_power e s)"
proof -
  have "board_ok f s" using st by (simp add: starting_def)
  then have "f (g e c) \<subseteq> f c" if "pdata s = Some pd" "set_ulpi_state pd = Some g" for pd g c
    using that unfolding board_ok_def by blast
  then show ?thesis
    unfolding ulpi_set_power_def using st by (auto split: option.split intro!: set_ctl_starting)
qed

lemma ulpi_other [simp]:
  "ept_list (ulpi_set_power e s) = ept_list s" "ept_alloc_table (ulpi_set_power e s) = ept_alloc_table s"
  "epts (ulpi_set_power e s) = epts s" "desc_list (ulpi_set_power e s) = desc_list s"
  by (simp_all add: ulpi_set_power_def set_ctl_def split: option.split)

lemma reset_starting:
  assumes "controller_ok t f b" and "starting t f A s"
  shows "starting t f A (udc_reset b s)" "ept_list (udc_reset b s) = ept_list s" "epts (udc_reset b s) = epts s"
    "ept_alloc_table (udc_reset b s) = ept_alloc_table s" "desc_list (udc_reset b s) = desc_list s"
  using ulpi_starting [OF assms(2)] by (simp_all add: udc_reset_def Let_def writel_starting [OF assms(1)])

lemma starting_register:
  assumes "starting t f A s" and "length (desc_data d) \<le> 255"
  shows "starting t f A (udc_descriptor_register d s)"
  using assms unfolding starting_def board_fields by (simp add: udc_descriptor_register_def)

lemma set_req_other [simp]:
  "ept_list (set_req r g s) = ept_list s" "endpoints (set_req r g s) = endpoints s" "ep0in (set_req r g s) = ep0in s"
  "ep0out (set_req r g s) = ep0out s" "ep0req (set_req r g s) = ep0req s" "ept_alloc_table (set_req r g s) = ept_alloc_table s"
  "usb_heap (set_req r g s) = usb_heap s" "epts (set_req r g s) = epts s" "starting t f A (set_req r g s) = starting t f A s"
  "usb_mem (set_req r g s) = usb_mem s" "desc_list (set_req r g s) = desc_list s"
  unfolding starting_def board_fields by (simp_all add: set_req_def)

lemma starting_heap:
  assumes "starting t f A s" and "claimed h A'" and "A \<subseteq> A'"
  shows "starting t f A' (s\<lparr>usb_heap := h\<rparr>)"
  using assms unfolding starting_def board_fields by auto

lemma ept_bit_nz: "n < 16 \<Longrightarrow> EPT_TX n \<noteq> 0" "n < 16 \<Longrightarrow> EPT_RX n \<noteq> 0"
proof -
  have z: "bit x k \<Longrightarrow> x \<noteq> 0" for x :: u32 and k by auto
  show "EPT_TX n \<noteq> 0" if "n < 16" using that by (intro z [of _ "unat n + 16"]) (simp add: EPT_TX_def bit_simps word_less_nat_alt)
  show "EPT_RX n \<noteq> 0" if "n < 16" using that by (intro z [of _ "unat n"]) (simp add: EPT_RX_def bit_simps word_less_nat_alt)
qed

lemma udc_init_steps:
  assumes "udc_init b dev s = Some (r, s')"
  obtains h p eo s4 ei s5 rq s6 h7 buf desc s8 where
    "memalign (usb_heap s) 4096 4096 = Some (h, p)"
    "u_udc_endpoint_alloc 0 False 64
      (snd (usb_readl b USB_ID (udc_reset b (fold (\<lambda>k. set_head (p + 64 * of_nat k) (\<lambda>_. zero_head)) [0..<32] (s\<lparr>usb_heap := h, epts := p\<rparr>)))))
      = Some (eo, s4)"
    "u_udc_endpoint_alloc 0 True 64 (s4\<lparr>ep0out := eo\<rparr>) = Some (ei, s5)"
    "udc_request_alloc (s5\<lparr>ep0in := ei\<rparr>) = Some (rq, s6)" "malloc (usb_heap s6) 4096 = Some (h7, buf)"
    "udc_descriptor_alloc TYPE_STRING 0 4 (set_req rq (\<lambda>q. q\<lparr>rq_buf := buf\<rparr>) (s6\<lparr>ep0req := rq, usb_heap := h7\<rparr>)) = Some (Some desc, s8)"
    "r = 0" "s' = (udc_descriptor_register (desc\<lparr>desc_data := (desc_data desc)[2 := 0x09, 3 := 0x04]\<rparr>) s8)\<lparr>the_device := Some dev\<rparr>"
  using assms unfolding udc_init_def Let_def case_prod_beta by (elim bind_someE) (auto split: option.splits intro: that)

lemma epts_kept:
  "u_udc_endpoint_alloc n i k s = Some (p, s') \<Longrightarrow> epts s' = epts s"
  "udc_request_alloc s = Some (p, s') \<Longrightarrow> epts s' = epts s"
  "udc_descriptor_alloc ty n k s = Some (d, s') \<Longrightarrow> epts s' = epts s"
  "epts (fold (\<lambda>k. set_head (q k) g) ks s) = epts s"
  "epts (udc_reset b s) = epts s"
  subgoal by (auto simp: u_udc_endpoint_alloc_def Let_def split: bind_splits if_splits)
  subgoal by (auto simp: udc_request_alloc_def Let_def split: bind_splits if_splits)
  subgoal by (auto simp: udc_descriptor_alloc_def Let_def split: bind_splits if_splits)
  subgoal using set_heads_other [of q g ks s] by (simp add: Let_def)
  subgoal by (simp add: udc_reset_def Let_def)
  done

lemma init_starting:
  fixes s :: "'c usb"
  assumes fresh: "fresh_usb f s" and eq: "udc_init b dev s = Some (r, s')" and ok: "controller_ok (epts s') f b"
  defines "it0 \<equiv> rq_item (requests s' (ep0req s'))"
  shows "\<exists>A. starting (epts s') f A s' \<and> ept_list s' = [ep0in s', ep0out s'] \<and> ep0req s' \<in> A \<and> ep0req s' \<noteq> 0 \<and>
    (it0 \<noteq> 0 \<longrightarrow> it0 \<in> A \<and> unat it0 \<le> 0x200000) \<and>
    (\<forall>e \<in> set (ept_list s'). ept_alloc_table s' AND ept_bit (endpoints s' e) \<noteq> 0)"
  using eq
proof (cases rule: udc_init_steps)
  case (1 h p eo s4 ei s5 rq s6 h7 buf desc s8)
  let ?s1 = "s\<lparr>usb_heap := h, epts := p\<rparr>"
  let ?s2 = "fold (\<lambda>k. set_head (p + 64 * of_nat k) (\<lambda>_. zero_head)) [0..<32] ?s1"
  let ?s7 = "set_req rq (\<lambda>q. q\<lparr>rq_buf := buf\<rparr>) (s6\<lparr>ep0req := rq, usb_heap := h7\<rparr>)"
  from fresh obtain A0 where cl: "claimed (usb_heap s) A0" by (auto simp: fresh_usb_def)
  from claimed_alloc [OF cl 1(1) [unfolded memalign_def]] cl obtain A1 where "claimed h A1"
    by (auto simp: align_of_def split: if_splits)
  then have "starting p f A1 ?s1" using fresh unfolding starting_def board_fields by (simp add: fresh_usb_def)
  then have st2: "starting p f A1 ?s2" "ept_list ?s2 = []" "ept_alloc_table ?s2 = EPT_TX 0 OR EPT_RX 0"
    using set_heads_other [of "\<lambda>k. p + 64 * of_nat k" "\<lambda>_. zero_head" "[0..<32]" ?s1, where t = p and f = f and A = A1] fresh
    by (simp_all add: Let_def fresh_usb_def)
  have "epts s' = p"
    using epts_kept(1) [OF 1(2)] epts_kept(1) [OF 1(3)] epts_kept(2) [OF 1(4)] epts_kept(3) [OF 1(6)]
    by (simp add: 1(8) udc_descriptor_register_def epts_kept(4,5))
  then have okp: "controller_ok p f b" using ok by simp
  note st3 = reset_starting [OF okp st2(1)]
  note st3' = readl_starting [OF okp st3(1)]
  have a4: "eo \<notin> A1 \<and> starting p f (insert eo A1) s4 \<and> ept_list s4 = [eo] \<and> ept_alloc_table s4 = EPT_TX 0 OR EPT_RX 0 \<and>
      ept_key (endpoints s4 eo) = (0, False)"
    using endpoint_alloc_starting [OF st3' 1(2)] st2 st3 by simp
  then have a5: "ei \<noteq> eo \<and> starting p f ({ei, eo} \<union> A1) s5 \<and> ept_list s5 = [ei, eo] \<and> ept_alloc_table s5 = EPT_TX 0 OR EPT_RX 0 \<and>
      ep0out s5 = eo \<and> ept_key (endpoints s5 ei) = (0, True) \<and> ept_key (endpoints s5 eo) = (0, False)"
    using endpoint_alloc_starting [OF _ 1(3), of p f "insert eo A1"] by (auto simp: insert_commute)
  let ?it = "rq_item (requests s6 rq)"
  obtain A6 where a6: "starting p f A6 s6" "rq \<in> A6" "rq \<noteq> 0" "?it \<noteq> 0 \<longrightarrow> ?it \<in> A6 \<and> unat ?it \<le> 0x200000"
    "ept_list s6 = [ei, eo]" "endpoints s6 = endpoints s5" "ep0in s6 = ei" "ep0out s6 = eo" "ept_alloc_table s6 = EPT_TX 0 OR EPT_RX 0"
    using request_alloc_starting [OF _ 1(4), of p f "{ei, eo} \<union> A1"] a5 by (auto split: if_splits)
  from a6(1) have "claimed (usb_heap s6) A6" by (simp add: starting_def)
  from claimed_malloc [OF this 1(5)] this obtain A7 where "claimed h7 A7" "A6 \<subseteq> A7" by (auto split: if_splits)
  with starting_heap [of p f A6 "s6\<lparr>ep0req := rq\<rparr>"] a6(1) have st7: "starting p f A7 ?s7" by simp
  from descriptor_alloc_starting [OF this 1(6)] obtain A8 h8 where st8: "A7 \<subseteq> A8" "starting p f A8 s8"
    "s8 = ?s7\<lparr>usb_heap := h8\<rparr>" "length (desc_data desc) \<le> 255" by auto
  have st9: "starting p f A8 s'" unfolding 1(8) using starting_register [OF st8(2)] st8(4) by simp
  have f: "ept_list s' = [ei, eo]" "endpoints s' = endpoints s5" "ep0in s' = ei" "ep0out s' = eo" "ep0req s' = rq"
    "ept_alloc_table s' = EPT_TX 0 OR EPT_RX 0" "rq_item (requests s' rq) = ?it"
    by (simp_all add: 1(8) st8(3) udc_descriptor_register_def set_req_def a6)
  have "ept_bit (endpoints s5 ei) = EPT_TX 0" "ept_bit (endpoints s5 eo) = EPT_RX 0"
    using a5 by (auto simp: starting_def wired_def ept_ok_def ept_key_def)
  then have "\<forall>e \<in> set (ept_list s'). ept_alloc_table s' AND ept_bit (endpoints s' e) \<noteq> 0"
    using ept_bit_nz [of 0] unfolding f by (simp add: bit.conj_disj_distrib2 or_eq_0_iff)
  with st9 f a6 \<open>A6 \<subseteq> A7\<close> st8(1) \<open>epts s' = p\<close> show ?thesis unfolding it0_def by auto
qed

section \<open>\<open>udc_start\<close>\<close>

text \<open>Building descriptors takes memory and string numbers and adds to the list, no more.\<close>

definition described :: "'c usb \<Rightarrow> 'c usb \<Rightarrow> bool" where
  "described s s' \<longleftrightarrow> s' = s\<lparr>usb_heap := usb_heap s', desc_list := desc_list s', next_string_id := next_string_id s'\<rparr>"

definition describing :: "ptr \<Rightarrow> ('c \<Rightarrow> ptr set) \<Rightarrow> 'c usb \<Rightarrow> 'c usb \<Rightarrow> bool" where
  "describing t f s s' \<longleftrightarrow> described s s' \<and> ((\<exists>A. starting t f A s) \<longrightarrow> (\<exists>A. starting t f A s'))"

lemma described_refl [simp]: "described s s"
  by (simp add: described_def)

lemma described_fields:
  assumes "described s s'"
  shows "requests s' = requests s" "endpoints s' = endpoints s" "ept_list s' = ept_list s" "ep0in s' = ep0in s"
    "ep0out s' = ep0out s" "ep0req s' = ep0req s" "epts s' = epts s" "usb_mem s' = usb_mem s" "the_gadget s' = the_gadget s"
    "ept_alloc_table s' = ept_alloc_table s" "dma s' = dma s"
  by (subst assms [unfolded described_def]; simp)+

lemma describing_refl [simp]: "describing t f s s"
  by (simp add: describing_def)

lemma describing_trans: "describing t f s s1 \<Longrightarrow> describing t f s1 s2 \<Longrightarrow> describing t f s s2"
proof -
  have "described s s2" if "described s s1" "described s1 s2"
  proof -
    note a = that(1) [unfolded described_def] and b = that(2) [unfolded described_def]
    show ?thesis unfolding described_def by (subst b, subst a) simp
  qed
  then show "describing t f s s1 \<Longrightarrow> describing t f s1 s2 \<Longrightarrow> describing t f s s2" by (auto simp: describing_def)
qed

lemma alloc_describing:
  assumes "udc_descriptor_alloc ty num len s = Some (d, s')"
  shows "describing t f s s'" and "desc_list s' = desc_list s"
    and "d = Some x \<Longrightarrow> length (desc_data x) = unat len \<and> 2 \<le> unat len \<and> unat len \<le> 255 \<and> desc_len x = ucast len \<and>
      desc_tag x = ucast (push_bit 8 ty OR num) \<and> desc_data x ! 1 = ucast ty"
proof -
  have "described s s' \<and> desc_list s' = desc_list s"
    using assms by (auto simp: udc_descriptor_alloc_def described_def Let_def split: if_splits bind_splits)
  moreover have "\<exists>A. starting t f A s'" if "starting t f A s" for A
    using descriptor_alloc_starting [OF that assms] by blast
  ultimately show "describing t f s s'" "desc_list s' = desc_list s" by (auto simp: describing_def)
  show "d = Some x \<Longrightarrow> length (desc_data x) = unat len \<and> 2 \<le> unat len \<and> unat len \<le> 255 \<and> desc_len x = ucast len \<and>
      desc_tag x = ucast (push_bit 8 ty OR num) \<and> desc_data x ! 1 = ucast ty"
    using assms by (auto simp: udc_descriptor_alloc_def Let_def not_less word_le_nat_alt split: if_splits bind_splits)
qed

lemma register_describing:
  assumes "length (desc_data d) \<le> 255"
  shows "describing t f s (udc_descriptor_register d s)"
  using starting_register [OF _ assms, of t f _ s] unfolding describing_def
  by (auto simp: described_def udc_descriptor_register_def)

lemma length_expand [simp]: "length (expand_ascii m p k i d) = length d"
  by (induction k arbitrary: p i d) simp_all

lemma string_describing:
  assumes "udc_string_desc_alloc str s = Some (i, s')"
  shows "describing t f s s'"
proof (cases "next_string_id s > 255 \<or> str = 0")
  case True
  with assms have "s' = s" by (simp add: udc_string_desc_alloc_def split: if_splits)
  then show ?thesis by simp
next
  case False
  with assms obtain len d s1 where d: "udc_descriptor_alloc TYPE_STRING (next_string_id s) (len * 2 + 2) s = Some (d, s1)"
    and s': "(case d of None \<Rightarrow> Some (0, s1)
        | Some desc \<Rightarrow>
            let s2 = s1\<lparr>next_string_id := next_string_id s1 + 1\<rparr>;
                desc1 = desc\<lparr>desc_data := expand_ascii (usb_mem s2) str (unat len) 2 (desc_data desc)\<rparr>
            in Some (ucast (desc_tag desc1 AND 0xff), udc_descriptor_register desc1 s2)) = Some (i, s')"
    unfolding udc_string_desc_alloc_def by (auto split: bind_splits)
  note a = alloc_describing [OF d]
  show ?thesis
  proof (cases d)
    case None
    with s' a(1) show ?thesis by simp
  next
    case (Some desc)
    have "describing t f s1 (s1\<lparr>next_string_id := next_string_id s1 + 1\<rparr>)"
      unfolding describing_def described_def by simp
    moreover have "describing t f (s1\<lparr>next_string_id := next_string_id s1 + 1\<rparr>) s'"
      using s' a(3) [OF Some] unfolding Some Let_def by (auto intro!: register_describing)
    ultimately show ?thesis using a(1) describing_trans by blast
  qed
qed

lemma length_put_bytes: "i + length bs \<le> length d \<Longrightarrow> length (put_bytes i bs d) = length d"
  by (simp add: put_bytes_def)

lemma device_describing:
  assumes "device_descriptor dev s = Some s'"
  shows "describing t f s s'"
proof -
  from assms obtain d s1 where a: "udc_descriptor_alloc TYPE_DEVICE 0 18 s = Some (Some d, s1)"
    and b: "do {
           (i, s2) \<leftarrow> udc_string_desc_alloc (manufacturer dev) s1;
           (j, s3) \<leftarrow> udc_string_desc_alloc (product dev) s2;
           (k, s4) \<leftarrow> udc_string_desc_alloc (serialno dev) s3;
           Some (udc_descriptor_register (d\<lparr>desc_data := put_bytes 14 [ucast i, ucast j, ucast k, 1]
             (put_bytes 8 (half_bytes (vendor_id dev) @ half_bytes (product_id dev) @ half_bytes (version_id dev))
               (put_bytes 2 [0x00, 0x02, 0x00, 0x00, 0x00, 0x40] (desc_data d)))\<rparr>) s4)
         } = Some s'"
    unfolding device_descriptor_def Let_def by (elim bind_pairE) (auto split: option.splits)
  note d = alloc_describing [OF a]
  from d(3) have l: "length (desc_data d) = 18" by simp
  from b obtain i s2 j s3 k s4 where s: "udc_string_desc_alloc (manufacturer dev) s1 = Some (i, s2)"
    "udc_string_desc_alloc (product dev) s2 = Some (j, s3)" "udc_string_desc_alloc (serialno dev) s3 = Some (k, s4)"
    and s': "s' = udc_descriptor_register (d\<lparr>desc_data := put_bytes 14 [ucast i, ucast j, ucast k, 1]
             (put_bytes 8 (half_bytes (vendor_id dev) @ half_bytes (product_id dev) @ half_bytes (version_id dev))
               (put_bytes 2 [0x00, 0x02, 0x00, 0x00, 0x00, 0x40] (desc_data d)))\<rparr>) s4"
    by (elim bind_pairE) auto
  have "describing t f s4 s'" unfolding s' using l by (intro register_describing) (simp add: length_put_bytes half_bytes_def)
  moreover have "describing t f s1 s2" "describing t f s2 s3" "describing t f s3 s4" "describing t f s s1"
    using s [THEN string_describing] d(1) by blast+
  ultimately show ?thesis using describing_trans by blast
qed

text \<open>The bytes of the configuration: its header, then those of the interface and its endpoints.\<close>

definition config_header :: "u32 \<Rightarrow> u8 list" where
  "config_header sz = [0x09, 2, ucast sz, ucast (drop_bit 8 sz), 0x01, 0x01, 0x00, 0x80, 0x80]"

lemma header_fields:
  assumes "9 \<le> length d"
  shows "take 9 (d[0 := a, 2 := b, 3 := c, 4 := e, 5 := f, 6 := g, 7 := h, 8 := i]) = [a, d ! 1, b, c, e, f, g, h, i]"
proof -
  have "Suc (Suc (Suc (Suc (Suc (Suc (Suc (Suc (Suc 0)))))))) \<le> length d" using assms by simp
  then obtain x0 x1 x2 x3 x4 x5 x6 x7 x8 r where "d = x0 # x1 # x2 # x3 # x4 # x5 # x6 # x7 # x8 # r"
    unfolding Suc_le_length_iff by blast
  then show ?thesis by (simp add: numeral_eq_Suc)
qed

lemma length_ept_desc [simp]: "length (udc_ept_desc_fill e) = 7"
  by (simp add: udc_ept_desc_fill_def)

lemma config_built:
  fixes s s' :: "'c usb"
  assumes "configuration_descriptor g s = Some s'"
  obtains d i and s1 s2 :: "'c usb" where "describing t f s s'" "udc_string_desc_alloc (ifc_string g) s1 = Some (i, s2)" "endpoints s2 = endpoints s"
    "desc_list s' = d # desc_list s2" "desc_tag d = 0x200" "unat (desc_len d) = length (desc_data d)"
    "desc_data d = config_header (18 + 7 * ucast (ifc_endpoints g)) @
      [0x09, TYPE_INTERFACE, 0x00, 0x00, ifc_endpoints g, ifc_class g, ifc_subclass g, ifc_protocol g, ucast i] @
      concat (map (\<lambda>k. udc_ept_desc_fill (endpoints s (gadget_epts g ! k))) [0..<unat (ifc_endpoints g)])"
    "18 + 7 * unat (ifc_endpoints g) \<le> 255"
proof -
  define sz where "sz = 9 + udc_ifc_desc_size g"
  have sz: "sz = 18 + 7 * ucast (ifc_endpoints g)" by (simp add: sz_def udc_ifc_desc_size_def)
  from assms obtain d s1 where a: "udc_descriptor_alloc TYPE_CONFIGURATION 0 sz s = Some (Some d, s1)"
    and b: "do {
        (bs, s2) \<leftarrow> udc_ifc_desc_fill g s1;
        Some (udc_descriptor_register (d\<lparr>desc_data := put_bytes 9 bs ((desc_data d)[0 := 0x09, 2 := ucast sz,
          3 := ucast (drop_bit 8 sz), 4 := 0x01, 5 := 0x01, 6 := 0x00, 7 := 0x80, 8 := 0x80])\<rparr>) s2) } = Some s'"
    unfolding configuration_descriptor_def Let_def sz_def [symmetric] by (elim bind_pairE) (auto split: option.splits)
  note d = alloc_describing [OF a]
  have usz: "unat sz = 18 + 7 * unat (ifc_endpoints g)"
  proof -
    have n: "unat (ifc_endpoints g) < 256" using unsigned_less [of "ifc_endpoints g"] by simp
    have "sz = of_nat (18 + 7 * unat (ifc_endpoints g))" by (simp add: sz)
    then show ?thesis using unat_of_nat_u32 [of "18 + 7 * unat (ifc_endpoints g)"] n by simp
  qed
  let ?es = "concat (map (\<lambda>k. udc_ept_desc_fill (endpoints s (gadget_epts g ! k))) [0..<unat (ifc_endpoints g)])"
  from described_fields(2) d(1) have e1: "endpoints s1 = endpoints s" by (auto simp: describing_def)
  from b obtain i s2 where i: "udc_string_desc_alloc (ifc_string g) s1 = Some (i, s2)"
    and s': "s' = udc_descriptor_register (d\<lparr>desc_data := put_bytes 9
        ([0x09, TYPE_INTERFACE, 0x00, 0x00, ifc_endpoints g, ifc_class g, ifc_subclass g, ifc_protocol g, ucast i] @
          concat (map (\<lambda>k. udc_ept_desc_fill (endpoints s2 (gadget_epts g ! k))) [0..<unat (ifc_endpoints g)]))
        ((desc_data d)[0 := 0x09, 2 := ucast sz, 3 := ucast (drop_bit 8 sz), 4 := 0x01, 5 := 0x01, 6 := 0x00, 7 := 0x80, 8 := 0x80])\<rparr>) s2"
    unfolding udc_ifc_desc_fill_def by (auto split: bind_splits)
  have "describing t f s1 s2" by (rule string_describing [OF i])
  then have e2: "endpoints s2 = endpoints s" using described_fields(2) [of s1 s2] e1 by (simp add: describing_def)
  let ?d1 = "(desc_data d)[0 := 0x09, 2 := ucast sz, 3 := ucast (drop_bit 8 sz), 4 := 0x01, 5 := 0x01, 6 := 0x00, 7 := 0x80, 8 := 0x80]"
  let ?bs = "[0x09, TYPE_INTERFACE, 0x00, 0x00, ifc_endpoints g, ifc_class g, ifc_subclass g, ifc_protocol g, ucast i] @ ?es"
  have l: "length (desc_data d) = 18 + 7 * unat (ifc_endpoints g)" "desc_data d ! 1 = 2" "desc_tag d = 0x200"
    "18 + 7 * unat (ifc_endpoints g) \<le> 255" "desc_len d = ucast sz"
    using d(3) [OF refl] usz by (simp_all add: TYPE_CONFIGURATION_def)
  have les: "length ?es = 7 * unat (ifc_endpoints g)" by (simp add: length_concat comp_def sum_list_triv)
  have "take 9 ?d1 = config_header sz"
    using l(1,2) by (subst header_fields) (simp_all add: config_header_def)
  then have dd: "put_bytes 9 ?bs ?d1 = config_header sz @ ?bs" using l(1) les by (simp add: put_bytes_def)
  have len: "length (put_bytes 9 ?bs ?d1) = length (desc_data d)" using l(1) les by (simp add: length_put_bytes)
  show thesis
  proof (rule that [OF _ i e2])
    have "describing t f s2 s'"
      unfolding s' e2 using len l(1,4) by (intro register_describing) (simp del: append_Cons append.simps)
    then show "describing t f s s'" using d(1) string_describing [OF i] describing_trans by blast
    show "desc_list s' = d\<lparr>desc_data := put_bytes 9 ?bs ?d1\<rparr> # desc_list s2"
      by (simp add: s' e2 udc_descriptor_register_def)
    show "unat (desc_len (d\<lparr>desc_data := put_bytes 9 ?bs ?d1\<rparr>)) = length (desc_data (d\<lparr>desc_data := put_bytes 9 ?bs ?d1\<rparr>))"
      using l len usz by (simp add: unsigned_ucast_eq take_bit_nat_eq_self)
  qed (use l dd sz in simp_all)
qed

lemma start_starting:
  assumes ok: "controller_ok t f b" and st: "starting t f A s" and eq: "udc_start b s = Some (r, s')"
  shows "(\<exists>A'. starting t f A' s') \<and> requests s' = requests s \<and> endpoints s' = endpoints s \<and> ept_list s' = ept_list s \<and>
    ep0in s' = ep0in s \<and> ep0out s' = ep0out s \<and> ep0req s' = ep0req s \<and> epts s' = epts s"
proof (cases "the_device s = None \<or> the_gadget s = None")
  case True
  with eq have "s' = s" by (auto simp: udc_start_def split: option.splits)
  with st show ?thesis by blast
next
  case False
  with eq obtain dev g s1 s2 where d: "device_descriptor dev s = Some s1" "configuration_descriptor g s1 = Some s2"
    and s': "s' = enable_pullup b ((usb_writel b (STS_URI OR STS_SLI OR STS_UI OR STS_PCI) USB_USBINTR (s2\<lparr>irq_handler := True\<rparr>))
      \<lparr>irq_unmasked := True\<rparr>)"
    unfolding udc_start_def Let_def by (auto split: option.splits bind_splits)
  have c: "describing t f s1 s2" using d(2) by (rule config_built)
  with device_describing [OF d(1), of t f] have a: "describing t f s s2" by (rule describing_trans)
  with st obtain A' where "starting t f A' s2" by (auto simp: describing_def)
  then have "starting t f A' s'" unfolding s' enable_pullup_def by (simp add: writel_starting [OF ok])
  with a described_fields [of s s2] show ?thesis by (auto simp: s' enable_pullup_def describing_def)
qed

section \<open>Ready for transfers\<close>

text \<open>What the driver is as soon as it has started, with the two endpoints and the request of a gadget.\<close>

lemma started_idle:
  assumes "starting t f A s" and "ept_list s = [ep, ep', ep0in s, ep0out s]" and "ep \<notin> {ep0in s, ep0out s}" and "ep' \<notin> {ep0in s, ep0out s}"
    and "ep0req s \<noteq> rq" and "ep0req s \<noteq> 0" and "rq \<noteq> 0"
    and "rq_item (requests s (ep0req s)) \<noteq> rq_item (requests s rq)"
    and "unat (rq_item (requests s (ep0req s))) \<le> 0x200000" and "unat (rq_item (requests s rq)) \<le> 0x200000"
  shows "idle t f rq (rq_buf (requests s (ep0req s))) {ep', ep} s"
proof -
  have low: "x < MSM_USB_BASE - 4" if "unat x \<le> 0x200000" for x :: u32
    using that by (simp add: MSM_USB_BASE_def word_less_nat_alt)
  have w: "\<forall>e \<in> set (ept_list s). wired t (endpoints s e)" and fl: "f (ctl (dma s)) = {}" and bd: "board_ok f s"
    and dl: "\<forall>d \<in> set (desc_list s). length (desc_data d) \<le> 255" using assms(1) by (simp_all add: starting_def)
  have "requests_ok rq (rq_buf (requests s (ep0req s))) s" using assms(5-10) low by (simp add: requests_ok_def)
  moreover have "epts_ok t rq s" using w assms(2) by (auto simp: epts_ok_def wired_def)
  moreover have "own_callback_ok s" using w assms(2) by (auto simp: own_callback_ok_def wired_def)
  ultimately have "driver_ok t f rq (rq_buf (requests s (ep0req s))) s" using bd dl fl by (simp add: driver_ok_def)
  moreover have "gadget_epts_of s = {ep', ep}" using assms(2-4) by (auto simp: gadget_epts_of_def)
  ultimately show ?thesis using w fl assms(2) by (auto simp: idle_def wired_def)
qed

lemma usb_becomes_idle:
  fixes s0 :: "'c usb"
  assumes fresh: "fresh_usb f s0" and init: "udc_init b dev s0 = Some (r0, s1)" and ok: "controller_ok (epts s1) f b"
    and i: "udc_endpoint_alloc UDC_TYPE_BULK_IN 512 s1 = Some (ei, s2)" "ei \<noteq> 0"
    and o: "udc_endpoint_alloc UDC_TYPE_BULK_OUT 512 s2 = Some (eo, s3)" "eo \<noteq> 0"
    and q: "udc_request_alloc s3 = Some (rq, s4)" and g: "udc_register_gadget g s4 = (r5, s5)" and st: "udc_start b s5 = Some (r6, s6)"
    and items: "rq_item (requests s1 (ep0req s1)) \<noteq> 0" "rq_item (requests s4 rq) \<noteq> 0"
  shows "idle (epts s1) f rq (rq_buf (requests s1 (ep0req s1))) {ei, eo} s6"
proof -
  let ?t = "epts s1" and ?e0 = "ep0req s1" and ?it0 = "rq_item (requests s1 (ep0req s1))"
  obtain A1 where a1: "starting ?t f A1 s1" "ept_list s1 = [ep0in s1, ep0out s1]" "?e0 \<in> A1" "?e0 \<noteq> 0" "?it0 \<in> A1" "unat ?it0 \<le> 0x200000"
    "\<forall>e \<in> set (ept_list s1). ept_alloc_table s1 AND ept_bit (endpoints s1 e) \<noteq> 0"
    using init_starting [OF fresh init ok] items(1) by blast
  have own: "ep0in s1 \<in> A1" "ep0out s1 \<in> A1" using a1(1,2) by (auto simp: starting_def)
  note a2 = endpoint_alloc_public [OF a1(1) i a1(7)]
  then have st2: "starting ?t f (insert ei A1) s2" and us2: "\<forall>e \<in> set (ept_list s2). ept_alloc_table s2 AND ept_bit (endpoints s2 e) \<noteq> 0"
    by simp_all
  note a3 = endpoint_alloc_public [OF st2 o us2]
  then have st3: "starting ?t f (insert eo (insert ei A1)) s3" by simp
  note a4 = request_alloc_starting [OF st3 q]
  have f4: "ept_list s4 = [eo, ei, ep0in s4, ep0out s4]" "ep0in s4 = ep0in s1" "ep0out s4 = ep0out s1" "ep0req s4 = ?e0"
    "requests s4 ?e0 = requests s1 ?e0" "rq \<noteq> ?e0" "rq \<noteq> 0" "rq_item (requests s4 rq) \<noteq> ?it0" "unat (rq_item (requests s4 rq)) \<le> 0x200000"
    using a4 a3 a2 a1(2,3,5) items(2) by auto
  obtain A4 where "starting ?t f A4 s4" using a4 by blast
  moreover have s5: "s5 = s4 \<or> s5 = s4\<lparr>the_gadget := Some g\<rparr>" using g by (auto simp: udc_register_gadget_def split: option.splits)
  ultimately have "starting ?t f A4 s5" by auto
  note a6 = start_starting [OF ok this st]
  have f5: "requests s5 = requests s4" "ept_list s5 = ept_list s4" "ep0in s5 = ep0in s4" "ep0out s5 = ep0out s4" "ep0req s5 = ep0req s4"
    using s5 by auto
  from a6 obtain A6 where st6: "starting ?t f A6 s6" by blast
  have f6: "requests s6 = requests s4" "ept_list s6 = ept_list s4" "ep0in s6 = ep0in s4" "ep0out s6 = ep0out s4" "ep0req s6 = ep0req s4"
    using a6 f5 by simp_all
  have "idle ?t f rq (rq_buf (requests s6 (ep0req s6))) {ei, eo} s6"
  proof (rule started_idle [OF st6])
    show "eo \<notin> {ep0in s6, ep0out s6}" "ei \<notin> {ep0in s6, ep0out s6}" using a2 a3 own unfolding f6 f4 by auto
  qed (use f4 a1(4,6) in \<open>simp_all add: f6\<close>)
  then show ?thesis by (simp add: f6 f4)
qed

end
