(* ===== verification/Lk_Usb.thy ===== *)
theory Lk_Usb
  imports Lk_Usbstart Lk_Boot
begin

text \<open>
  The properties of the driver of the USB device controller, alone and under fastboot, each with an
  application to a small controller that halts every item it is given.
\<close>

section \<open>A small controller\<close>

definition halt_items :: "unit dma \<Rightarrow> unit dma" where
  "halt_items x = x\<lparr>items := \<lambda>it. if active (items x it) then (items x it)\<lparr>qi_info := INFO_HALTED\<rparr> else items x it\<rparr>"

definition sim_bus :: "unit dma bus" where
  "sim_bus = \<lparr>bus_read = (\<lambda>a (m, x).
      (if a = USB_USBSTS then STS_UI else if a = USB_ENDPTCOMPLETE then 0xffffffff
       else if a < MSM_USB_BASE then qi_info (items (halt_items x) (a - 4)) else 0, m, halt_items x)),
    bus_write = (\<lambda>a v (m, x). (m, halt_items x))\<rparr>"

definition no_filling :: "unit \<Rightarrow> ptr set" where
  "no_filling c = {}"

lemma sim_controller_ok: "controller_ok t no_filling sim_bus"
proof -
  have i: "item_step q (q\<lparr>qi_info := INFO_HALTED\<rparr>)" if "active q" for q
    using that by (simp add: item_step_def item_bytes_def INFO_HALTED_def)
  have r: "item_step q q" for q by (simp add: item_step_def)
  have h: "controller_step no_filling (m, x) (m, halt_items x) N" for m x N
    using i r by (simp add: controller_step_def no_filling_def halt_items_def)
  have a: "it + 4 < MSM_USB_BASE" if "it < MSM_USB_BASE - 4" for it :: ptr
  proof -
    have "unat it < 0xA07FFFFC" using that by (simp add: MSM_USB_BASE_def word_less_nat_alt)
    then show ?thesis by (simp add: MSM_USB_BASE_def word_less_nat_alt unat_word_ariths)
  qed
  have "a' + 4 \<noteq> USB_USBSTS \<and> a' + 4 \<noteq> USB_ENDPTCOMPLETE" if "a' + 4 < MSM_USB_BASE" for a' :: ptr
    using that by (auto simp: USB_USBSTS_def USB_ENDPTCOMPLETE_def MSM_USB_BASE_def)
  with a h show ?thesis
    by (auto simp: controller_ok_def sim_bus_def)
qed

section \<open>A heap with room\<close>

text \<open>One free chunk, from which some more blocks of up to 12 KB may be cut.\<close>

definition room :: "nat \<Rightarrow> heap \<Rightarrow> bool" where
  "room k h \<longleftrightarrow> (\<exists>c n. one_chunk 0x9000 c n h \<and> 0x100000 \<le> unat c \<and> unat c + unat n = 0x200000 \<and> 12 + k * 0x3000 < unat n)"

lemma one_chunk_alloc:
  assumes "one_chunk l c n h" and "al AND (al - 1) = 0" and "alloc_total sz al = k" and "k \<le> n" and "k + 12 < n"
    and "c + k \<noteq> l" and "c + k \<noteq> 0" and "k \<noteq> 0"
  obtains h' where "heap_alloc h sz al = Some (h', payload c (align_of al))" "one_chunk l (c + k) (n - k) h'"
proof -
  have w: "alloc_walk h k c = Some c"
    using assms(1,4) by (subst alloc_walk.simps) (simp add: one_chunk_def)
  show thesis
    using assms w that
    by (auto simp: heap_alloc_def alloc_from_def one_chunk_def list_next_def list_delete_def payload_def align_of_def
        list_add_tail_def heap_create_free_chunk_def Let_def SIZEOF_FREE_HEAP_CHUNK_def SIZEOF_ALLOC_STRUCT_BEGIN_def)
qed

lemma room_alloc:
  assumes "room (Suc k) h" and "al AND (al - 1) = 0" and "unat al \<le> 4096" and "unat sz \<le> 4096"
  obtains h' p where "heap_alloc h sz al = Some (h', p)" "p \<noteq> 0" "room k h'"
proof -
  from assms(1) obtain c n where c: "one_chunk 0x9000 c n h" "0x100000 \<le> unat c" "unat c + unat n = 0x200000"
    "12 + Suc k * 0x3000 < unat n" by (auto simp: room_def)
  have al: "unat (align_of al) \<le> 4096" using assms(3) by (auto simp: align_of_def)
  have "unat (alloc_total sz al) = need sz al" using assms(4) al by (intro alloc_total_need) simp
  moreover have "0 < (unat sz + 12 + 3) div 4 * 4" "(unat sz + 12 + 3) div 4 * 4 \<le> unat sz + 15" by linarith+
  ultimately have t: "0 < unat (alloc_total sz al)" "unat (alloc_total sz al) \<le> 0x2400"
    using al assms(4) unfolding need_def by linarith+
  let ?t = "alloc_total sz al"
  have t12: "unat (?t + 12) = unat ?t + 12" using t(2) by (simp add: unat_word_ariths)
  have ct: "unat (c + ?t) = unat c + unat ?t" using t(2) c by (simp add: unat_word_ariths)
  have "?t \<le> n" "?t + 12 < n" using t c(4) by (simp_all add: word_le_nat_alt word_less_nat_alt t12)
  moreover have "c + ?t \<noteq> 0x9000" "c + ?t \<noteq> 0" "?t \<noteq> 0" using ct c(2) t(1) by auto
  ultimately obtain h' where h': "heap_alloc h sz al = Some (h', payload c (align_of al))" "one_chunk 0x9000 (c + ?t) (n - ?t) h'"
    by (rule one_chunk_alloc [OF c(1) assms(2) refl])
  have "unat (payload c (align_of al)) \<ge> 12" using payload_bounds(1) [OF assms(2), of c] c al by simp
  then have "payload c (align_of al) \<noteq> 0" by auto
  moreover have "unat (n - ?t) = unat n - unat ?t" using \<open>?t \<le> n\<close> by (rule unat_sub)
  then have "room k h'" unfolding room_def using h'(2) ct c t by (intro exI [of _ "c + ?t"] exI [of _ "n - ?t"]) auto
  ultimately show thesis using h'(1) that by blast
qed

lemma sim_heap: "\<exists>h. heap_reach h (\<lambda>_. None) \<and> room 84 h"
proof -
  obtain h0 :: heap where h0: "free_list h0 = 0x9000" by (metis heap.select_convs(3))
  have "\<exists>h. heap_init h0 = Some h \<and> one_chunk 0x9000 0x100000 0x100000 h"
    unfolding heap_init_def heap_insert_free_chunk_def
    by (simp add: Let_def h0 HEAP_START_def HEAP_LEN_def heap_create_free_chunk_def insert_walk.simps
        list_initialize_def list_add_tail_def list_prev_type_def list_prev_def container_or_null_def one_chunk_def)
  then obtain h where h: "heap_init h0 = Some h" "one_chunk 0x9000 0x100000 0x100000 h" by blast
  have "heap_reach h (\<lambda>_. None)" by (rule reach_init [OF _ _ h(1)]) (simp_all add: h0)
  moreover have "room 84 h" unfolding room_def using h(2) by (intro exI [of _ "0x100000"]) simp
  ultimately show ?thesis by blast
qed

text \<open>The driver comes up when the heap has room.\<close>

definition grows :: "nat \<Rightarrow> 'c usb \<Rightarrow> 'c usb \<Rightarrow> bool" where
  "grows k s s' \<longleftrightarrow> room k (usb_heap s') \<and> ept_alloc_table s' = ept_alloc_table s \<and> next_string_id s' = next_string_id s \<and>
    the_device s' = the_device s \<and> the_gadget s' = the_gadget s"

lemma room_malloc:
  assumes "room (Suc k) h" and "unat sz \<le> 4096"
  obtains h' p where "malloc h sz = Some (h', p)" "p \<noteq> 0" "room k h'"
  using room_alloc [OF assms(1), of 0 sz] assms(2) unfolding malloc_def by auto

lemma room_endpoint:
  assumes "room (Suc k) (usb_heap s)"
  obtains p s' where "u_udc_endpoint_alloc num inp pkt s = Some (p, s')" "p \<noteq> 0" "grows k s s'"
proof -
  obtain h p where "malloc (usb_heap s) 20 = Some (h, p)" "p \<noteq> 0" "room k h" by (rule room_malloc [OF assms, of 20]) simp_all
  then show thesis using that by (simp add: u_udc_endpoint_alloc_def grows_def set_head_def Let_def)
qed

lemma room_request:
  assumes "room (Suc (Suc k)) (usb_heap s)"
  obtains p s' where "udc_request_alloc s = Some (p, s')" "p \<noteq> 0" "rq_item (requests s' p) \<noteq> 0" "grows k s s'"
proof -
  obtain h p where h: "malloc (usb_heap s) 20 = Some (h, p)" "p \<noteq> 0" "room (Suc k) h" by (rule room_malloc [OF assms, of 20]) simp_all
  obtain h' i where "heap_alloc h 32 32 = Some (h', i)" "i \<noteq> 0" "room k h'" by (rule room_alloc [OF h(3), of 32 32]) simp_all
  with h show thesis using that by (simp add: udc_request_alloc_def memalign_def grows_def set_req_def)
qed

lemma room_descriptor:
  assumes "room (Suc k) (usb_heap s)" and "2 \<le> len" "len \<le> 255" "num \<le> 255" "ty \<le> 255"
  obtains d s' where "udc_descriptor_alloc ty num len s = Some (Some d, s')" "grows k s s'"
proof -
  have "unat (8 + len) \<le> 4096" using assms(3) by (simp add: word_le_nat_alt unat_word_ariths)
  then obtain h p where "malloc (usb_heap s) (8 + len) = Some (h, p)" "p \<noteq> 0" "room k h" by (rule room_malloc [OF assms(1)])
  with assms(2-5) show thesis
    using that by (simp add: udc_descriptor_alloc_def grows_def Let_def not_less [symmetric])
qed

lemma grows_trans: "grows k s s1 \<Longrightarrow> grows k' s1 s2 \<Longrightarrow> grows k' s s2"
  by (simp add: grows_def)

lemma cleared_heads:
  "usb_heap (fold (\<lambda>k. set_head (q k) z) ks s) = usb_heap s" "ept_alloc_table (fold (\<lambda>k. set_head (q k) z) ks s) = ept_alloc_table s"
  "the_gadget (fold (\<lambda>k. set_head (q k) z) ks s) = the_gadget s"
  by (induction ks arbitrary: s) simp_all

lemma ulpi_same [simp]:
  "usb_heap (ulpi_set_power y s) = usb_heap s" "the_gadget (ulpi_set_power y s) = the_gadget s"
  by (simp_all add: ulpi_set_power_def set_ctl_def split: option.split)

lemma init_succeeds:
  assumes "room (k + 7) (usb_heap s)"
  obtains s' where "udc_init b dev s = Some (0, s')" "room k (usb_heap s')" "ept_alloc_table s' = ept_alloc_table s"
    "the_device s' = Some dev" "the_gadget s' = the_gadget s" "rq_item (requests s' (ep0req s')) \<noteq> 0"
proof -
  from assms have "room (Suc (k + 6)) (usb_heap s)" by (simp add: ac_simps)
  then obtain h p where h: "heap_alloc (usb_heap s) 4096 4096 = Some (h, p)" "room (k + 6) h"
    by (rule room_alloc [where al = 4096 and sz = 4096]) auto
  define s3 where "s3 = snd (usb_readl b USB_ID (udc_reset b (fold (\<lambda>k. set_head (p + 64 * of_nat k) (\<lambda>_. zero_head)) [0..<32]
    (s\<lparr>usb_heap := h, epts := p\<rparr>))))"
  have s3: "usb_heap s3 = h" "ept_alloc_table s3 = ept_alloc_table s" "the_gadget s3 = the_gadget s"
    by (simp_all add: s3_def udc_reset_def Let_def cleared_heads)
  then have "room (Suc (k + 5)) (usb_heap s3)" using h(2) by (simp add: ac_simps)
  then obtain eo s4 where s4: "u_udc_endpoint_alloc 0 False 64 s3 = Some (eo, s4)" "grows (k + 5) s3 s4"
    by (rule room_endpoint [where num = 0 and inp = False and pkt = 64]) auto
  then have "room (Suc (k + 4)) (usb_heap (s4\<lparr>ep0out := eo\<rparr>))" by (simp add: grows_def ac_simps)
  then obtain ei s5 where s5: "u_udc_endpoint_alloc 0 True 64 (s4\<lparr>ep0out := eo\<rparr>) = Some (ei, s5)" "grows (k + 4) (s4\<lparr>ep0out := eo\<rparr>) s5"
    by (rule room_endpoint [where num = 0 and inp = True and pkt = 64]) auto
  then have "room (Suc (Suc (k + 2))) (usb_heap (s5\<lparr>ep0in := ei\<rparr>))"
    by (simp add: grows_def numeral_eq_Suc)
  then obtain rq s6 where s6: "udc_request_alloc (s5\<lparr>ep0in := ei\<rparr>) = Some (rq, s6)" "rq_item (requests s6 rq) \<noteq> 0"
    "grows (k + 2) (s5\<lparr>ep0in := ei\<rparr>) s6" by (rule room_request)
  then have "room (Suc (k + 1)) (usb_heap s6)" by (simp add: grows_def numeral_eq_Suc)
  then obtain h7 buf where h7: "malloc (usb_heap s6) 4096 = Some (h7, buf)" "room (k + 1) h7" by (rule room_malloc [where sz = 4096]) auto
  define s7 where "s7 = set_req rq (\<lambda>q. q\<lparr>rq_buf := buf\<rparr>) (s6\<lparr>ep0req := rq, usb_heap := h7\<rparr>)"
  have "room (Suc k) (usb_heap s7)" using h7(2) by (simp add: s7_def)
  then obtain d s8 where s8: "udc_descriptor_alloc TYPE_STRING 0 4 s7 = Some (Some d, s8)" "grows k s7 s8"
    by (rule room_descriptor [where ty = TYPE_STRING and num = 0 and len = 4]) (auto simp: TYPE_STRING_def)
  have "described s7 s8" using alloc_describing(1) [OF s8(1), of 0 "\<lambda>_. {}"] by (simp add: describing_def)
  then have "requests s8 = requests s7" "ep0req s8 = ep0req s7" by (simp_all add: described_fields)
  moreover have "udc_init b dev s = Some (0, (udc_descriptor_register (d\<lparr>desc_data := (desc_data d)[2 := 0x09, 3 := 0x04]\<rparr>) s8)
      \<lparr>the_device := Some dev\<rparr>)"
    using h s4 s5 s6 h7 s8 unfolding udc_init_def memalign_def by (simp add: s3_def [symmetric] s7_def [symmetric] Let_def case_prod_beta)
  ultimately show thesis
    using that s8(2) s6(2,3) s5(2) s4(2) s3 by (simp add: grows_def udc_descriptor_register_def s7_def set_req_def)
qed

lemma no_string [simp]: "udc_string_desc_alloc 0 s = Some (0, s)"
  by (simp add: udc_string_desc_alloc_def)

lemma start_succeeds:
  assumes "room (Suc (Suc k)) (usb_heap s)" and "the_device s = Some dev" "manufacturer dev = 0" "product dev = 0" "serialno dev = 0"
    and "the_gadget s = Some g" "ifc_string g = 0" "ifc_endpoints g = 2"
  obtains s' where "udc_start b s = Some (0, s')"
proof -
  obtain d s1 where d: "udc_descriptor_alloc TYPE_DEVICE 0 18 s = Some (Some d, s1)" "grows (Suc k) s s1"
    by (rule room_descriptor [OF assms(1), where ty = TYPE_DEVICE and num = 0 and len = 18]) (auto simp: TYPE_DEVICE_def)
  then obtain s2 where s2: "device_descriptor dev s = Some s2" "room (Suc k) (usb_heap s2)"
    using assms(3-5) by (simp add: device_descriptor_def grows_def udc_descriptor_register_def)
  have sz: "9 + udc_ifc_desc_size g = 32" by (simp add: udc_ifc_desc_size_def assms(8))
  obtain c s3 where c: "udc_descriptor_alloc TYPE_CONFIGURATION 0 32 s2 = Some (Some c, s3)"
    by (rule room_descriptor [OF s2(2), where ty = TYPE_CONFIGURATION and num = 0 and len = 32]) (auto simp: TYPE_CONFIGURATION_def)
  then have "\<exists>s4. configuration_descriptor g s2 = Some s4"
    by (simp add: configuration_descriptor_def Let_def sz udc_ifc_desc_fill_def assms(7))
  then show thesis using that s2(1) assms(2,6) by (auto simp: udc_start_def Let_def)
qed

definition sim_usb :: "heap \<Rightarrow> unit usb" where
  "sim_usb h = \<lparr>usb_mem = sim_memory,
    dma = \<lparr>heads = (\<lambda>_. zero_head), items = (\<lambda>_. \<lparr>qi_next = 0, qi_info = 0, page0 = 0, page1 = 0\<rparr>), ctl = ()\<rparr>,
    usb_heap = h, desc_list = [], next_string_id = 1,
    endpoints = (\<lambda>_. \<lparr>ept_bit = 0, ept_head = 0, ept_req = 0, ept_num = 0, ept_is_in = False, maxpkt = 0\<rparr>),
    requests = (\<lambda>_. \<lparr>rq_buf = 0, rq_length = 0, rq_complete = No_callback, rq_item = 0\<rparr>),
    ept_list = [], epts = 0, host_online = False, usb_highspeed = False, the_device = None, the_gadget = None, pdata = None,
    ept_alloc_table = EPT_TX 0 OR EPT_RX 0, ep0in = 0, ep0out = 0, ep0req = 0, usb_config_value = 0,
    irq_handler = False, irq_unmasked = False, events = []\<rparr>"

definition sim_device :: udc_device where
  "sim_device = \<lparr>vendor_id = 0x18d1, product_id = 0xD00D, version_id = 0x0100, manufacturer = 0, product = 0, serialno = 0\<rparr>"

definition sim_gadget :: "ptr \<Rightarrow> ptr \<Rightarrow> udc_gadget" where
  "sim_gadget ei eo = \<lparr>ifc_class = 0xff, ifc_subclass = 0x42, ifc_protocol = 0x03, ifc_endpoints = 2, ifc_string = 0, gadget_epts = [ei, eo]\<rparr>"

lemma alloc_endpoint_1:
  assumes "room (Suc k) (usb_heap s)" and "ty = UDC_TYPE_BULK_IN \<or> ty = UDC_TYPE_BULK_OUT"
    and "ept_alloc_table s AND (if ty = UDC_TYPE_BULK_IN then EPT_TX 1 else EPT_RX 1) = 0"
  obtains p s' where "udc_endpoint_alloc ty 512 s = Some (p, s')" "p \<noteq> 0" "room k (usb_heap s')"
    "ept_alloc_table s' = ept_alloc_table s OR (if ty = UDC_TYPE_BULK_IN then EPT_TX 1 else EPT_RX 1)"
    "the_device s' = the_device s" "the_gadget s' = the_gadget s"
proof -
  obtain p s' where p: "u_udc_endpoint_alloc 1 (ty = UDC_TYPE_BULK_IN) 512 s = Some (p, s')" "p \<noteq> 0" "grows k s s'"
    by (rule room_endpoint [OF assms(1), where num = 1 and inp = "ty = UDC_TYPE_BULK_IN" and pkt = 512]) auto
  then have "udc_endpoint_alloc ty 512 s = Some (p, s'\<lparr>ept_alloc_table := ept_alloc_table s' OR
      (if ty = UDC_TYPE_BULK_IN then EPT_TX 1 else EPT_RX 1)\<rparr>)"
    using assms(2,3) by (simp add: udc_endpoint_alloc_def Let_def)
  then show thesis by (rule that) (use p in \<open>simp_all add: grows_def\<close>)
qed

definition started_by :: "'c dma bus \<Rightarrow> udc_device \<Rightarrow> (ptr \<Rightarrow> ptr \<Rightarrow> udc_gadget) \<Rightarrow> 'c usb \<Rightarrow> ptr \<times> ptr \<times> ptr \<Rightarrow> 'c usb \<times> 'c usb \<times> 'c usb \<Rightarrow> bool" where
  "started_by b dev g s0 = (\<lambda>(ei, eo, rq) (s1, s4, s6). (\<exists>s2 s3 s5. udc_init b dev s0 = Some (0, s1) \<and>
    udc_endpoint_alloc UDC_TYPE_BULK_IN 512 s1 = Some (ei, s2) \<and> udc_endpoint_alloc UDC_TYPE_BULK_OUT 512 s2 = Some (eo, s3) \<and>
    udc_request_alloc s3 = Some (rq, s4) \<and> udc_register_gadget (g ei eo) s4 = (0, s5) \<and> udc_start b s5 = Some (0, s6)))"

lemma sim_started:
  obtains h ei eo rq s1 s4 s6 where "started_by sim_bus sim_device sim_gadget (sim_usb h) (ei, eo, rq) (s1, s4, s6)" "fresh_usb no_filling (sim_usb h)"
    "ei \<noteq> 0" "eo \<noteq> 0" "rq_item (requests s1 (ep0req s1)) \<noteq> 0" "rq_item (requests s4 rq) \<noteq> 0"
proof -
  obtain h where h: "heap_reach h (\<lambda>_. None)" "room 84 h" using sim_heap by blast
  have fresh: "fresh_usb no_filling (sim_usb h)"
    using h(1) by (auto simp: fresh_usb_def claimed_def sim_usb_def no_filling_def board_ok_def)
  have "room (77 + 7) (usb_heap (sim_usb h))" using h(2) by (simp add: sim_usb_def)
  then obtain s1 where s1: "udc_init sim_bus sim_device (sim_usb h) = Some (0, s1)" "room 77 (usb_heap s1)"
    "ept_alloc_table s1 = EPT_TX 0 OR EPT_RX 0" "the_device s1 = Some sim_device" "the_gadget s1 = None"
    "rq_item (requests s1 (ep0req s1)) \<noteq> 0"
    by (rule init_succeeds [where b = sim_bus and dev = sim_device]) (auto simp: sim_usb_def)
  then have "room (Suc 76) (usb_heap s1)" by simp
  then obtain ei s2 where s2: "udc_endpoint_alloc UDC_TYPE_BULK_IN 512 s1 = Some (ei, s2)" "ei \<noteq> 0" "room 76 (usb_heap s2)"
    "ept_alloc_table s2 = EPT_TX 0 OR EPT_RX 0 OR EPT_TX 1" "the_device s2 = Some sim_device" "the_gadget s2 = None"
    by (rule alloc_endpoint_1 [where ty = UDC_TYPE_BULK_IN]) (auto simp: s1 EPT_TX_def EPT_RX_def or.assoc)
  then have "room (Suc 75) (usb_heap s2)" by simp
  then obtain eo s3 where s3: "udc_endpoint_alloc UDC_TYPE_BULK_OUT 512 s2 = Some (eo, s3)" "eo \<noteq> 0" "room 75 (usb_heap s3)"
    "the_device s3 = Some sim_device" "the_gadget s3 = None"
    by (rule alloc_endpoint_1 [where ty = UDC_TYPE_BULK_OUT])
      (auto simp: s2 EPT_TX_def EPT_RX_def UDC_TYPE_BULK_IN_def UDC_TYPE_BULK_OUT_def)
  then have "room (Suc (Suc 73)) (usb_heap s3)" by simp
  then obtain rq s4 where s4: "udc_request_alloc s3 = Some (rq, s4)" "rq_item (requests s4 rq) \<noteq> 0" "grows 73 s3 s4"
    by (rule room_request) auto
  define s5 where "s5 = s4\<lparr>the_gadget := Some (sim_gadget ei eo)\<rparr>"
  have s5: "udc_register_gadget (sim_gadget ei eo) s4 = (0, s5)" "the_device s5 = Some sim_device" "room (Suc (Suc 71)) (usb_heap s5)"
    "the_gadget s5 = Some (sim_gadget ei eo)"
    using s4(3) s3 by (simp_all add: udc_register_gadget_def s5_def grows_def)
  obtain s6 where "udc_start sim_bus s5 = Some (0, s6)"
    by (rule start_succeeds [OF s5(3,2) _ _ _ s5(4)]) (auto simp: sim_device_def sim_gadget_def)
  then show thesis using that [OF _ fresh s2(2) s3(2) s1(6) s4(2)] s1(1) s2(1) s3(1) s4(1) s5(1) by (auto simp: started_by_def)
qed

section \<open>The contract of fastboot\<close>

text \<open>
  C15: the driver keeps what the protocol asks of a device controller: a transfer on one of its
  endpoints reports at most the bytes asked for, and changes no memory but the buffer of the request and
  the driver's own 4096 bytes, whatever the host does meanwhile with control transfers, resets or
  suspends; afterwards the driver is ready again. It rests on what the controller is documented to
  do: to write through the pages of active items only, of those it was primed with.
\<close>

theorem usb_driver_keeps_contract:
  assumes "controller_ok tbl filling b"
  shows "udc_ok (hsusb_terms tbl filling rqg buf0 chans) (hsusb_udc b rqg ea)"
  by (rule hsusb_keeps_terms [OF assms])

text \<open>A driver with two endpoints of a gadget.\<close>

definition sim_ept :: "u8 \<Rightarrow> bool \<Rightarrow> udc_endpoint" where
  "sim_ept n inp = \<lparr>ept_bit = (if inp then EPT_TX (ucast n) else EPT_RX (ucast n)), ept_head = 0x60000 + 128 * ucast n + (if inp then 64 else 0),
    ept_req = 0, ept_num = n, ept_is_in = inp, maxpkt = 512\<rparr>"

definition sim_ready :: "unit usb" where
  "sim_ready = (sim_usb (fheap sim_fastboot))\<lparr>
    endpoints := (\<lambda>e. if e = 1 then sim_ept 1 True else if e = 2 then sim_ept 1 False else if e = 3 then sim_ept 0 True else sim_ept 0 False),
    ept_list := [2, 1, 3, 4], ep0in := 3, ep0out := 4, epts := 0x60000, ep0req := 5, the_gadget := Some (sim_gadget 1 2),
    requests := (\<lambda>r. \<lparr>rq_buf = 0x40000, rq_length = 0, rq_complete = No_callback, rq_item = (if r = 5 then 0x70000 else 0x70040)\<rparr>)\<rparr>"

lemma sim_ready_idle: "idle 0x60000 no_filling 3 0x40000 {1, 2} sim_ready"
proof -
  have "ept_ok 0x60000 (sim_ept 1 True)" "ept_ok 0x60000 (sim_ept 1 False)" "ept_ok 0x60000 (sim_ept 0 True)" "ept_ok 0x60000 (sim_ept 0 False)"
    by (simp_all add: ept_ok_def sim_ept_def)
  moreover have "ept_req (sim_ept n i) = 0" for n i by (simp add: sim_ept_def)
  ultimately show ?thesis
    by (auto simp: idle_def driver_ok_def requests_ok_def epts_ok_def board_ok_def own_callback_ok_def gadget_epts_of_def
        no_filling_def sim_ready_def sim_usb_def MSM_USB_BASE_def)
qed

text \<open>What is asked of the endpoint for data to the device fails at once.\<close>

definition halt :: "unit usb \<Rightarrow> unit usb" where
  "halt s = s\<lparr>dma := halt_items (dma s)\<rparr>"

lemma halt_items_twice [simp]: "halt_items (halt_items x) = halt_items x"
  by (simp add: halt_items_def fun_eq_iff active_def INFO_HALTED_def INFO_ACTIVE_def)

lemma halt_simps [simp]:
  "halt (halt s) = halt s" "ept_list (halt s) = ept_list s" "endpoints (halt s) = endpoints s" "requests (halt s) = requests s"
  "usb_mem (halt s) = usb_mem s" "events (halt s) = events s" "halt s\<lparr>events := es\<rparr> = halt (s\<lparr>events := es\<rparr>)"
  "set_ept e g (halt s) = halt (set_ept e g s)"
  by (simp_all add: halt_def set_ept_def)

lemma sim_readl: "usb_readl sim_bus a s = (if a = USB_USBSTS then STS_UI else if a = USB_ENDPTCOMPLETE then 0xffffffff
    else if a < MSM_USB_BASE then qi_info (items (dma (halt s)) (a - 4)) else 0, halt s)"
  by (simp add: usb_readl_def readl_def sim_bus_def halt_def)

lemma sim_writel [simp]: "usb_writel sim_bus v a s = halt s"
  by (simp add: usb_writel_def writel_def sim_bus_def halt_def)

lemma sim_interrupt: "udc_interrupt sim_bus s = complete_epts sim_bus 0xffffffff (ept_list s) (INT_NO_RESCHEDULE, halt s)"
proof -
  have "USB_ENDPTSETUPSTAT \<noteq> USB_USBSTS" "USB_ENDPTSETUPSTAT \<noteq> USB_ENDPTCOMPLETE" "\<not> USB_ENDPTSETUPSTAT < MSM_USB_BASE"
    "USB_ENDPTCOMPLETE \<noteq> USB_USBSTS"
    by (simp_all add: USB_ENDPTSETUPSTAT_def USB_USBSTS_def USB_ENDPTCOMPLETE_def MSM_USB_BASE_def)
  then show ?thesis
    by (simp add: udc_interrupt_def handle_transfers_def sim_readl Let_def STS_SLI_def STS_URI_def STS_PCI_def STS_UI_def STS_UEI_def)
qed

lemma sim_complete:
  assumes "ept_req (endpoints s e) = rq" and "rq \<noteq> 0" and "rq_item (requests s rq) = 0x70040" and "rq_complete (requests s rq) = Gadget_complete"
    and "qi_info (items (dma (halt s)) 0x70040) = INFO_HALTED"
  shows "handle_ept_complete sim_bus e (halt s) =
    Some (halt (set_ept e (\<lambda>e. e\<lparr>ept_req := 0\<rparr>) (s\<lparr>events := events s @ [Completed rq 0 (- 1)]\<rparr>)))"
proof -
  have "usb_readl sim_bus 0x70044 x = (qi_info (items (dma (halt x)) 0x70040), halt x)" for x
    by (simp add: sim_readl USB_USBSTS_def USB_ENDPTCOMPLETE_def MSM_USB_BASE_def)
  moreover have "dma (halt (set_ept e g s)) = dma (halt s)" for g by (simp add: halt_def set_ept_def)
  moreover have "requests (set_ept e g s) = requests s" for g by (simp add: set_ept_def)
  ultimately show ?thesis
    using assms by (simp add: handle_ept_complete_def Let_def wait_inactive.simps call_complete_def INFO_HALTED_def INFO_ACTIVE_def)
      (simp add: halt_def set_ept_def)
qed

lemma sim_nothing: "ept_req (endpoints s e) = 0 \<Longrightarrow> handle_ept_complete sim_bus e s = Some s"
  by (simp add: handle_ept_complete_def)

lemma sim_transfer:
  shows "\<exists>d1 d2. udc_queue (hsusb_udc sim_bus 3 ea) 2 rq (m, sim_ready) = (0, m, d1) \<and>
    udc_complete (hsusb_udc sim_bus 3 ea) 2 rq (m, d1) = Some \<lparr>actual = 0, status = - 1, notified = [], after = (m, d2)\<rparr>"
proof -
  define s where "s = set_req 3 (gadget_request rq) (sim_ready\<lparr>usb_mem := m, events := []\<rparr>)"
  define d1 where "d1 = snd (udc_request_queue sim_bus 2 3 s)"
  have d1: "d1 = halt d1" "usb_mem d1 = m" "events d1 = []" "ept_list d1 = [2, 1, 3, 4]" "rq_item (requests d1 3) = 0x70040"
    "rq_complete (requests d1 3) = Gadget_complete" "endpoints d1 = (endpoints sim_ready)(2 := (sim_ept 1 False)\<lparr>ept_req := 3\<rparr>)"
    by (simp_all add: d1_def s_def udc_request_queue_def Let_def set_req_def set_item_def set_head_def set_ept_def gadget_request_def)
      (simp_all add: sim_ready_def halt_def)
  have i: "qi_info (items (dma (halt d1)) 0x70040) = INFO_HALTED"
  proof -
    have "(x OR INFO_ACTIVE) AND INFO_ACTIVE = INFO_ACTIVE" for x by (rule bit_word_eqI) (auto simp: bit_simps)
    then have "(x OR y OR INFO_ACTIVE) AND INFO_ACTIVE \<noteq> 0" for x y by (simp add: INFO_ACTIVE_def or.assoc [symmetric])
    moreover have "requests s 3 = gadget_request rq (requests sim_ready 3)" "rq_item (requests sim_ready 3) = 0x70040"
      by (simp_all add: s_def set_req_def sim_ready_def)
    ultimately show ?thesis
      by (simp add: d1_def udc_request_queue_def Let_def set_item_def set_head_def set_ept_def gadget_request_def halt_def halt_items_def active_def)
  qed
  have q: "udc_queue (hsusb_udc sim_bus 3 ea) 2 rq (m, sim_ready) = (0, m, d1)"
    using d1(2) by (simp add: hsusb_udc_def hsusb_queue_def s_def [symmetric] d1_def udc_request_queue_def Let_def)
  have ept: "ept_bit (sim_ept 1 True) \<noteq> 0" "ept_bit (sim_ept 1 False) \<noteq> 0"
    "ept_bit (sim_ept 0 True) \<noteq> 0" "ept_bit (sim_ept 0 False) \<noteq> 0"
    by (simp_all add: sim_ept_def EPT_TX_def EPT_RX_def)
  define s4 where "s4 = halt (set_ept 2 (\<lambda>e. e\<lparr>ept_req := 0\<rparr>) (d1\<lparr>events := events d1 @ [Completed 3 0 (- 1)]\<rparr>))"
  have "handle_ept_complete sim_bus 2 d1 = Some s4"
    using sim_complete [of d1 2 3] d1 i by (simp add: s4_def)
  moreover have s4: "ept_req (endpoints s4 e) = 0" "ept_bit (endpoints s4 e) = ept_bit (endpoints d1 e)" "events s4 = [Completed 3 0 (- 1)]"
    "usb_mem s4 = m" for e
    using d1 by (simp_all add: s4_def set_ept_def) (simp_all add: sim_ready_def sim_ept_def)
  moreover have "0xffffffff AND ept_bit (endpoints d1 e) \<noteq> 0" for e
  proof -
    have "(0xffffffff :: u32) = - 1" by simp
    then have "0xffffffff AND x = (x :: u32)" for x by (simp only: and.left_neutral)
    then show ?thesis using d1(7) ept by (simp add: sim_ready_def sim_ept_def)
  qed
  ultimately have "udc_interrupt sim_bus d1 = Some (INT_RESCHEDULE, s4)"
    using d1(1,4) by (simp add: sim_interrupt sim_nothing)
  moreover have "\<not> reported d1" "reported s4" using d1(3) s4(3) by (simp_all add: reported_def)
  ultimately have "wait_completed sim_bus d1 = Some s4" by (simp add: wait_completed.simps)
  moreover have "d1\<lparr>usb_mem := m\<rparr> = d1" using d1(2) by simp
  ultimately show ?thesis
    using q s4 by (intro exI [of _ d1] exI [of _ "s4\<lparr>events := []\<rparr>"]) (simp add: hsusb_udc_def hsusb_complete_def)
qed

theorem usb_driver_keeps_contract_witness:
  "\<exists>d1 c. udc_queue (hsusb_udc sim_bus 3 (\<lambda>ty n. ty)) 2 \<lparr>req_buf = 0x20000, req_len = 64\<rparr> (sim_memory, sim_ready) = (0, sim_memory, d1) \<and>
    udc_complete (hsusb_udc sim_bus 3 (\<lambda>ty n. ty)) 2 \<lparr>req_buf = 0x20000, req_len = 64\<rparr> (sim_memory, d1) = Some c \<and>
    actual c \<le> 64 \<and> idle 0x60000 no_filling 3 0x40000 {1, 2} (snd (after c))"
proof -
  let ?K = "hsusb_terms 0x60000 no_filling 3 0x40000 {1, 2} :: unit usb udc_terms" and ?u = "hsusb_udc sim_bus 3 (\<lambda>ty n. ty)"
  let ?rq = "\<lparr>req_buf = 0x20000, req_len = 64\<rparr>"
  obtain d1 d2 where q: "udc_queue ?u 2 ?rq (sim_memory, sim_ready) = (0, sim_memory, d1)"
    and c: "udc_complete ?u 2 ?rq (sim_memory, d1) = Some \<lparr>actual = 0, status = - 1, notified = [], after = (sim_memory, d2)\<rparr>"
    using sim_transfer by blast
  have "udc_ok ?K ?u" by (rule usb_driver_keeps_contract [OF sim_controller_ok])
  moreover have "2 \<in> channels ?K" "ready ?K sim_ready" "req_len ?rq \<le> BUF_SIZE"
    using sim_ready_idle by (simp_all add: hsusb_terms_def BUF_SIZE_def)
  ultimately have "ready ?K d2" using q c unfolding udc_ok_def by fastforce
  then show ?thesis using q c by (auto simp: hsusb_terms_def)
qed

section \<open>Fastboot over the driver\<close>







section \<open>Coming up\<close>

text \<open>
  C17: the calls with which the boot loader brings the driver up, on a heap that hands out memory
  nobody holds, lead to the state in which transfers on the two endpoints may begin: the premises of
  the contract are not assumed but established by the code.
\<close>

theorem usb_becomes_ready:
  assumes "fresh_usb filling s0" and "started_by b dev g s0 (ei, eo, rq) (s1, s4, s6)" and "controller_ok (epts s1) filling b"
    and "ei \<noteq> 0" and "eo \<noteq> 0" and "rq_item (requests s1 (ep0req s1)) \<noteq> 0" and "rq_item (requests s4 rq) \<noteq> 0"
  shows "idle (epts s1) filling rq (rq_buf (requests s1 (ep0req s1))) {ei, eo} s6"
  using assms(2) usb_becomes_idle [OF assms(1) _ assms(3) _ assms(4) _ assms(5) _ _ _ assms(6,7)]
  by (auto simp: started_by_def)

theorem usb_becomes_ready_witness:
  "\<exists>h ei eo rq s1 s4 s6. started_by sim_bus sim_device sim_gadget (sim_usb h) (ei, eo, rq) (s1, s4, s6) \<and> ei \<noteq> 0 \<and> eo \<noteq> 0 \<and>
    idle (epts s1) no_filling rq (rq_buf (requests s1 (ep0req s1))) {ei, eo} s6"
proof -
  obtain h ei eo rq s1 s4 s6 where s: "started_by sim_bus sim_device sim_gadget (sim_usb h) (ei, eo, rq) (s1, s4, s6)"
    "fresh_usb no_filling (sim_usb h)" "ei \<noteq> 0" "eo \<noteq> 0" "rq_item (requests s1 (ep0req s1)) \<noteq> 0" "rq_item (requests s4 rq) \<noteq> 0"
    by (rule sim_started)
  from usb_becomes_ready [OF s(2,1) sim_controller_ok s(3-6)] s(1,3,4) show ?thesis by blast
qed

section \<open>Endpoints\<close>

lemma head_index:
  assumes "k < 32" and "q \<in> area (t + 64 * of_nat k) 64"
  shows "unat (q - t) div 64 = k"
proof -
  define d where "d = q - (t + 64 * of_nat k)"
  have d: "unat d < 64" using assms(2) by (simp add: area_def d_def)
  have "q - t = of_nat (64 * k + unat d)" by (simp add: d_def)
  then have "unat (q - t) = 64 * k + unat d" using unat_of_nat_u32 [of "64 * k + unat d"] assms(1) d by simp
  with d show ?thesis by simp
qed

lemma wired_head:
  assumes "wired t e"
  obtains k where "k < 32" "k = 2 * unat (ept_num e) + (if ept_is_in e then 1 else 0)" "ept_head e = t + 64 * of_nat k"
  using assms that by (auto simp: wired_def ept_ok_def)

lemma heads_apart:
  assumes "starting t f A s" and "e \<in> set (ept_list s)" and "e' \<in> set (ept_list s)" and "e \<noteq> e'"
  shows "area (ept_head (endpoints s e)) 64 \<inter> area (ept_head (endpoints s e')) 64 = {}"
proof -
  have w: "wired t (endpoints s e)" "wired t (endpoints s e')" and "distinct (map (ept_key \<circ> endpoints s) (ept_list s))"
    using assms by (simp_all add: starting_def)
  then have "ept_key (endpoints s e) \<noteq> ept_key (endpoints s e')" using assms(2-4) by (auto simp: distinct_map inj_on_def)
  then have key: "ept_num (endpoints s e) \<noteq> ept_num (endpoints s e') \<or> ept_is_in (endpoints s e) \<noteq> ept_is_in (endpoints s e')"
    by (auto simp: ept_key_def)
  obtain k where k: "k < 32" "k = 2 * unat (ept_num (endpoints s e)) + (if ept_is_in (endpoints s e) then 1 else 0)"
    "ept_head (endpoints s e) = t + 64 * of_nat k" using w(1) by (rule wired_head)
  obtain k' where k': "k' < 32" "k' = 2 * unat (ept_num (endpoints s e')) + (if ept_is_in (endpoints s e') then 1 else 0)"
    "ept_head (endpoints s e') = t + 64 * of_nat k'" using w(2) by (rule wired_head)
  have "k = k' \<Longrightarrow> unat (ept_num (endpoints s e)) = unat (ept_num (endpoints s e')) \<and> ept_is_in (endpoints s e) = ept_is_in (endpoints s e')"
    using k(2) k'(2) by (auto split: if_splits) presburger+
  with key have "k \<noteq> k'" by (auto simp: word_unat_eq_iff)
  then show ?thesis unfolding k(3) k'(3) using head_index [OF k(1)] head_index [OF k'(1)] by blast
qed

text \<open>
  C18: the endpoints are what their types say, for any sequence of allocations: a new one is added in
  front with the direction asked for, its number is below 16 and its bit is marked as used; no two
  endpoints share a number and direction, and the queue heads the controller reads do not overlap
  and lie in the 2048 bytes of the table.
\<close>

theorem endpoints_stay_apart:
  assumes "starting tbl filling A s" and "\<forall>e \<in> set (ept_list s). ept_alloc_table s AND ept_bit (endpoints s e) \<noteq> 0"
    and "udc_endpoint_alloc ty pkt s = Some (p, s')" and "p \<noteq> 0"
  shows "starting tbl filling (insert p A) s' \<and> ept_list s' = p # ept_list s \<and> p \<notin> A \<and>
    ept_is_in (endpoints s' p) = (ty = UDC_TYPE_BULK_IN) \<and>
    (\<forall>e \<in> set (ept_list s'). unat (ept_num (endpoints s' e)) < 16 \<and> ept_alloc_table s' AND ept_bit (endpoints s' e) \<noteq> 0 \<and>
      (\<forall>q \<in> area (ept_head (endpoints s' e)) 64. unat (q - tbl) < 2048) \<and>
      (\<forall>e' \<in> set (ept_list s'). e \<noteq> e' \<longrightarrow>
        area (ept_head (endpoints s' e)) 64 \<inter> area (ept_head (endpoints s' e')) 64 = {}))"
proof -
  note a = endpoint_alloc_public [OF assms(1,3,4,2)]
  then have st: "starting tbl filling (insert p A) s'" by blast
  have "unat (ept_num (endpoints s' e)) < 16 \<and> (\<forall>q \<in> area (ept_head (endpoints s' e)) 64. unat (q - tbl) < 2048)"
    if "e \<in> set (ept_list s')" for e
  proof -
    have w: "wired tbl (endpoints s' e)" using st that by (simp add: starting_def)
    then obtain k where k: "k < 32" "ept_head (endpoints s' e) = tbl + 64 * of_nat k" by (rule wired_head)
    have "unat (q - tbl) < 2048" if "q \<in> area (ept_head (endpoints s' e)) 64" for q
      using head_index [OF k(1) that [unfolded k(2)]] k(1) by (simp add: div_less_iff_less_mult)
    with w show ?thesis by (simp add: wired_def ept_ok_def)
  qed
  then show ?thesis using a heads_apart [OF st] by blast
qed

lemma sim_init_done:
  obtains h s1 p s2 where "udc_init sim_bus sim_device (sim_usb h) = Some (0, s1)" "fresh_usb no_filling (sim_usb h)"
    "udc_endpoint_alloc UDC_TYPE_BULK_IN 512 s1 = Some (p, s2)" "p \<noteq> 0"
  by (rule sim_started) (auto simp: started_by_def intro: that)

theorem endpoints_stay_apart_witness:
  "\<exists>h s1 p s2. udc_init sim_bus sim_device (sim_usb h) = Some (0, s1) \<and> udc_endpoint_alloc UDC_TYPE_BULK_IN 512 s1 = Some (p, s2) \<and>
    length (ept_list s2) = 3 \<and> ept_is_in (endpoints s2 p)"
proof -
  obtain h s1 p s2 where s: "udc_init sim_bus sim_device (sim_usb h) = Some (0, s1)" "fresh_usb no_filling (sim_usb h)"
    "udc_endpoint_alloc UDC_TYPE_BULK_IN 512 s1 = Some (p, s2)" "p \<noteq> 0" by (rule sim_init_done)
  from init_starting [OF s(2,1) sim_controller_ok] obtain A where "starting (epts s1) no_filling A s1"
    "\<forall>e \<in> set (ept_list s1). ept_alloc_table s1 AND ept_bit (endpoints s1 e) \<noteq> 0" "length (ept_list s1) = 2" by auto
  from endpoints_stay_apart [OF this(1,2) s(3,4)] this(3) s(1,3) show ?thesis by fastforce
qed

section \<open>The configuration a host reads\<close>

text \<open>A host walks the descriptors of a configuration by their lengths.\<close>

function split_descs :: "u8 list \<Rightarrow> u8 list list" where
  "split_descs d = (if d = [] \<or> hd d = 0 then [] else take (unat (hd d)) d # split_descs (drop (unat (hd d)) d))"
  by pat_completeness auto

termination
  by (relation "measure length") (auto simp: unat_gt_0)

declare split_descs.simps [simp del]

definition read_ept_desc :: "u8 list \<Rightarrow> u8 \<times> bool \<times> u16" where
  "read_ept_desc d = (d ! 2 AND 15, d ! 2 AND 0x80 \<noteq> 0, half (d ! 4) (d ! 5))"

lemma split_concat:
  "\<forall>x \<in> set xs. x \<noteq> [] \<and> unat (hd x) = length x \<Longrightarrow> split_descs (concat xs) = xs"
proof (induction xs)
  case (Cons x xs)
  then have "hd x \<noteq> 0" by auto
  with Cons show ?case by (subst split_descs.simps) simp
qed (simp add: split_descs.simps)

lemma half_bytes_join: "half (ucast w) (ucast (drop_bit 8 w)) = w"
  unfolding half_def by (rule bit_word_eqI) (auto simp: bit_simps)

lemma half_of_nat:
  assumes "n < 2 ^ 16"
  shows "half (ucast (of_nat n :: u32)) (ucast (drop_bit 8 (of_nat n :: u32))) = of_nat n"
proof -
  have w: "half (ucast w) (ucast (drop_bit 8 w)) = ucast w" for w :: u32
    unfolding half_def by (rule bit_word_eqI) (auto simp: bit_simps)
  have "ucast (of_nat n :: u32) = (of_nat n :: u16)" using assms by (simp add: unsigned_of_nat take_bit_nat_eq_self)
  with w [of "of_nat n"] show ?thesis by (rule trans)
qed

lemma read_ept_fill:
  assumes "unat (ept_num e) < 16"
  shows "read_ept_desc (udc_ept_desc_fill e) = (ept_num e, ept_is_in e, maxpkt e)"
proof -
  let ?n = "ept_num e"
  have t: "take_bit 4 ?n = ?n" using assms by (simp add: word_unat_eq_iff unsigned_take_bit_eq take_bit_nat_eq_self)
  have n: "k < 4" if "bit ?n k" for k using that t by (metis bit_take_bit_iff)
  have m: "(15 :: u8) = mask 4" by (simp add: mask_eq_exp_minus_1)
  have "(0x80 :: u8) = 2 ^ 7" by simp
  then have b: "bit (0x80 :: u8) k \<longleftrightarrow> k = 7" for k by (simp only: bit_exp_iff) auto
  note bits = bit_and_iff bit_or_iff bit_mask_iff bit_0_eq
  have "bit ((?n OR 0x80) AND mask 4) k = bit ?n k" "bit (?n AND mask 4) k = bit ?n k" "\<not> bit (?n AND 0x80) k"
    "bit ((?n OR 0x80) AND 0x80) k = bit (0x80 :: u8) k" for k
    using n [of k] b [of k] unfolding bits by auto
  then have "(?n OR 0x80) AND 15 = ?n" "?n AND 15 = ?n" "?n AND 0x80 = 0" "(?n OR 0x80) AND 0x80 = 0x80"
    unfolding m by (simp_all add: bit_eq_iff)
  then show ?thesis by (simp add: read_ept_desc_def udc_ept_desc_fill_def half_bytes_join)
qed

text \<open>
  C19: after \<open>udc_start\<close>, a host that asks for the configuration gets it, cut off at the length it
  asks for: the whole walks by its lengths into the configuration, the interface and one endpoint
  descriptor for each endpoint of the gadget, the total length is right, and the endpoint
  descriptors read back as the number, direction and packet size of the endpoints.
\<close>

theorem configuration_read_back:
  assumes "udc_start b s = Some (0, s')" and "the_gadget s = Some g" and "length (gadget_epts g) = unat (ifc_endpoints g)"
    and "\<forall>e \<in> set (gadget_epts g). unat (ept_num (endpoints s e)) < 16" and "desc_list x = desc_list s'"
    and "setup_of (setup_data (heads (dma x) (ept_head (endpoints x e0)))) =
      \<lparr>sp_type = DEVICE_READ, sp_request = GET_DESCRIPTOR, sp_value = 0x200, sp_index = i, sp_length = n\<rparr>"
  shows "\<exists>conf ifc es. handle_setup b e0 x = Some (setup_tx b (take (unat n) (concat (conf # ifc # es)))
      (usb_writel b (ept_bit (endpoints x e0)) USB_ENDPTSETUPSTAT x)) \<and>
    split_descs (concat (conf # ifc # es)) = conf # ifc # es \<and> half (conf ! 2) (conf ! 3) = of_nat (length (concat (conf # ifc # es))) \<and>
    take 4 (drop 4 ifc) = [ifc_endpoints g, ifc_class g, ifc_subclass g, ifc_protocol g] \<and>
    map read_ept_desc es = map (\<lambda>e. (ept_num (endpoints s e), ept_is_in (endpoints s e), maxpkt (endpoints s e))) (gadget_epts g)"
proof -
  from assms(1,2) obtain dev s1 s2 where dev: "device_descriptor dev s = Some s1" "configuration_descriptor g s1 = Some s2"
    and l: "desc_list s' = desc_list s2"
    by (auto simp: udc_start_def enable_pullup_def Let_def split: option.splits bind_splits)
  have e1: "endpoints s1 = endpoints s"
    using device_describing [OF dev(1), of 0 "\<lambda>_. {}"] described_fields(2) [of s s1] by (simp add: describing_def)
  obtain d ds and j :: u32 where d: "desc_list s2 = d # ds" "desc_tag d = 0x200" "unat (desc_len d) = length (desc_data d)"
    "desc_data d = config_header (18 + 7 * ucast (ifc_endpoints g)) @
      [0x09, TYPE_INTERFACE, 0x00, 0x00, ifc_endpoints g, ifc_class g, ifc_subclass g, ifc_protocol g, ucast j] @
      concat (map (\<lambda>k. udc_ept_desc_fill (endpoints s1 (gadget_epts g ! k))) [0..<unat (ifc_endpoints g)])"
    "18 + 7 * unat (ifc_endpoints g) \<le> 255"
    by (rule config_built [OF dev(2), where t = 0 and f = "\<lambda>_. {}"]) blast
  let ?conf = "config_header (18 + 7 * ucast (ifc_endpoints g))"
  let ?ifc = "[0x09, TYPE_INTERFACE, 0x00, 0x00, ifc_endpoints g, ifc_class g, ifc_subclass g, ifc_protocol g, ucast j]"
  let ?es = "map (\<lambda>k. udc_ept_desc_fill (endpoints s1 (gadget_epts g ! k))) [0..<unat (ifc_endpoints g)]"
  have es: "?es = map (udc_ept_desc_fill \<circ> endpoints s) (gadget_epts g)"
    using assms(3) by (simp add: e1 list_eq_iff_nth_eq)
  have data: "desc_data d = concat (?conf # ?ifc # ?es)" using d(4) by simp
  have "handle_setup b e0 x = Some (setup_tx b (take (unat (min (desc_len d) n)) (desc_data d))
      (usb_writel b (ept_bit (endpoints x e0)) USB_ENDPTSETUPSTAT x))"
  proof -
    have "find (\<lambda>d. desc_tag d = 0x200) (desc_list x) = Some d" using d(1,2) assms(5) l by simp
    then show ?thesis
      unfolding handle_setup_def Let_def assms(6)
      by (simp add: DEVICE_READ_def GET_STATUS_def GET_DESCRIPTOR_def)
  qed
  moreover have "take (unat (min (desc_len d) n)) (desc_data d) = take (unat n) (desc_data d)"
    using d(3) by (simp add: min_def word_le_nat_alt)
  moreover have "split_descs (concat (?conf # ?ifc # ?es)) = ?conf # ?ifc # ?es"
    by (rule split_concat) (auto simp: config_header_def udc_ept_desc_fill_def)
  moreover have "half (?conf ! 2) (?conf ! 3) = of_nat (length (concat (?conf # ?ifc # ?es)))"
  proof -
    have "length (concat ?es) = 7 * unat (ifc_endpoints g)" by (simp add: length_concat comp_def sum_list_triv)
    then have "length (concat (?conf # ?ifc # ?es)) = 18 + 7 * unat (ifc_endpoints g)" by (simp add: config_header_def)
    moreover have "(18 + 7 * ucast (ifc_endpoints g) :: u32) = of_nat (18 + 7 * unat (ifc_endpoints g))" by simp
    moreover have "config_header sz ! 2 = ucast sz" "config_header sz ! 3 = ucast (drop_bit 8 sz)" for sz
      by (simp_all add: config_header_def)
    moreover have "18 + 7 * unat (ifc_endpoints g) < 2 ^ 16" using d(5) by simp
    ultimately show ?thesis using half_of_nat by metis
  qed
  moreover have "map read_ept_desc ?es = map (\<lambda>e. (ept_num (endpoints s e), ept_is_in (endpoints s e), maxpkt (endpoints s e))) (gadget_epts g)"
    unfolding es using assms(4) by (simp add: read_ept_fill)
  ultimately show ?thesis unfolding data by (intro exI [of _ ?conf] exI [of _ ?ifc] exI [of _ ?es]) simp
qed

lemma start_endpoints: "udc_start b s = Some (0, s') \<Longrightarrow> endpoints s' = endpoints s"
proof -
  assume "udc_start b s = Some (0, s')"
  then obtain dev g s1 s2 where d: "device_descriptor dev s = Some s1" "configuration_descriptor g s1 = Some s2"
    and e: "endpoints s' = endpoints s2"
    by (auto simp: udc_start_def enable_pullup_def Let_def split: option.splits bind_splits)
  have "describing 0 (\<lambda>_. {}) s1 s2" using d(2) by (rule config_built)
  with device_describing [OF d(1), of 0 "\<lambda>_. {}"] have "describing 0 (\<lambda>_. {}) s s2" by (rule describing_trans)
  with e described_fields(2) [of s s2] show ?thesis by (simp add: describing_def)
qed

theorem configuration_read_back_witness:
  "\<exists>h ei eo rq s1 s4 s6 conf ifc es. started_by sim_bus sim_device sim_gadget (sim_usb h) (ei, eo, rq) (s1, s4, s6) \<and>
    split_descs (concat (conf # ifc # es)) = conf # ifc # es \<and> length es = 2 \<and>
    handle_setup sim_bus 0 (set_head (ept_head (endpoints s6 0)) (\<lambda>q. q\<lparr>setup_data := [0x80, 6, 0, 2, 0, 0, 9, 0]\<rparr>) s6) =
      Some (setup_tx sim_bus (take 9 (concat (conf # ifc # es)))
        (halt (set_head (ept_head (endpoints s6 0)) (\<lambda>q. q\<lparr>setup_data := [0x80, 6, 0, 2, 0, 0, 9, 0]\<rparr>) s6)))"
proof -
  obtain h ei eo rq s1 s4 s6 where s: "started_by sim_bus sim_device sim_gadget (sim_usb h) (ei, eo, rq) (s1, s4, s6)"
    "fresh_usb no_filling (sim_usb h)" "ei \<noteq> 0" "eo \<noteq> 0" "rq_item (requests s1 (ep0req s1)) \<noteq> 0" "rq_item (requests s4 rq) \<noteq> 0"
    by (rule sim_started)
  then obtain s2 s3 s5 where c: "udc_init sim_bus sim_device (sim_usb h) = Some (0, s1)"
    "udc_endpoint_alloc UDC_TYPE_BULK_IN 512 s1 = Some (ei, s2)" "udc_endpoint_alloc UDC_TYPE_BULK_OUT 512 s2 = Some (eo, s3)"
    "udc_request_alloc s3 = Some (rq, s4)" "udc_register_gadget (sim_gadget ei eo) s4 = (0, s5)" "udc_start sim_bus s5 = Some (0, s6)"
    by (auto simp: started_by_def)
  have g: "the_gadget s5 = Some (sim_gadget ei eo)" using c(5) by (auto simp: udc_register_gadget_def split: option.splits)
  have "idle (epts s1) no_filling rq (rq_buf (requests s1 (ep0req s1))) {ei, eo} s6"
    by (rule usb_becomes_idle [OF s(2) c(1) sim_controller_ok c(2) s(3) c(3) s(4) c(4,5,6) s(5,6)])
  then have "\<forall>e \<in> {ei, eo}. ept_ok (epts s1) (endpoints s6 e)" by (auto simp: idle_def driver_ok_def epts_ok_def gadget_epts_of_def)
  then have n: "\<forall>e \<in> set (gadget_epts (sim_gadget ei eo)). unat (ept_num (endpoints s5 e)) < 16"
    using start_endpoints [OF c(6)] by (simp add: ept_ok_def sim_gadget_def)
  let ?x = "set_head (ept_head (endpoints s6 0)) (\<lambda>q. q\<lparr>setup_data := [0x80, 6, 0, 2, 0, 0, 9, 0]\<rparr>) s6"
  have p: "setup_of (setup_data (heads (dma ?x) (ept_head (endpoints ?x 0)))) =
      \<lparr>sp_type = DEVICE_READ, sp_request = GET_DESCRIPTOR, sp_value = 0x200, sp_index = 0, sp_length = 9\<rparr>"
    by (simp add: setup_of_def half_def DEVICE_READ_def GET_DESCRIPTOR_def set_head_def)
  have l: "length (gadget_epts (sim_gadget ei eo)) = unat (ifc_endpoints (sim_gadget ei eo))" by (simp add: sim_gadget_def)
  have "desc_list ?x = desc_list s6" by simp
  from configuration_read_back [OF c(6) g l n this p] obtain conf ifc es where r: "split_descs (concat (conf # ifc # es)) = conf # ifc # es"
    "map read_ept_desc es = map (\<lambda>e. (ept_num (endpoints s5 e), ept_is_in (endpoints s5 e), maxpkt (endpoints s5 e))) (gadget_epts (sim_gadget ei eo))"
    "handle_setup sim_bus 0 ?x = Some (setup_tx sim_bus (take (unat (9 :: u16)) (concat (conf # ifc # es)))
      (usb_writel sim_bus (ept_bit (endpoints ?x 0)) USB_ENDPTSETUPSTAT ?x))" by blast
  have r3: "handle_setup sim_bus 0 ?x = Some (setup_tx sim_bus (take 9 (concat (conf # ifc # es))) (halt ?x))"
    unfolding r(3) by simp
  from r(2) have "length es = 2" by (auto simp: sim_gadget_def dest: map_eq_imp_length_eq)
  with r(1) r3 s(1) show ?thesis by blast
qed

end
