(* ===== verification/Spec2Isabelle.thy ===== *)
theory Spec2Isabelle
  imports Lk_Libc Lk_Kernel Lk_Storage Lk_Boot Lk_Usb
begin

text \<open>
  A verification development of the boot loader lk for HTC devices with an MSM7200A processor.

  \<^bold>\<open>The program.\<close> lk is a small kernel with a boot loader on top. \<open>kernel\<close> has threads, wait queues,
  timers, events, mutexes and deferred calls, all built on the intrusive lists of \<open>include/list.h\<close>;
  \<open>lib/heap\<close> and \<open>lib/libc\<close> give it memory and strings; \<open>platform/msm_shared/nand_wince.c\<close> drives the
  NAND flash through command lists for the data mover and offers partitions, described by the table
  of \<open>lib/ptable\<close>. The application \<open>app/aboot\<close> decides what to boot, reads messages from the recovery
  system, prepares the parameters for the Linux kernel, and offers the fastboot protocol over USB,
  through the device controller driver \<open>platform/msm_shared/hsusb.c\<close>.

  \<^bold>\<open>Theories.\<close> Each models one part, in the order of the code: its types and constants, then one
  definition per function under the name it has in the source. A function whose name starts with
  an underscore has the prefix \<open>u\<close> before it; \<open>udc_stop\<close> of the driver is \<open>udc_stop_usb\<close>. A loop of a function is a definition of its own
  with the suffix \<open>_loop\<close>, or the name of what it does.

  \<^item> \<open>Lk_Prelude\<close>: bytes, words of 32 bits, memory as a function from addresses to bytes, strings in
    memory (\<open>cstr\<close>), ranges that do not meet (\<open>sep\<close>), and the lemmas all the others use.
  \<^item> \<open>Lk_Mem\<close>, \<open>Lk_Ctype\<close>, \<open>Lk_String\<close>, \<open>Lk_Printf\<close>: \<open>lib/libc\<close> (memory and string functions, character
    classes, \<open>atoi.c\<close>, \<open>rand.c\<close>, \<open>printf.c\<close>).
  \<^item> \<open>Lk_List\<close>: \<open>include/list.h\<close>, with the locale \<open>node_lists\<close> for what a list promises its users and
    its interpretation on the operations here.
  \<^item> \<open>Lk_Heap\<close>: \<open>lib/heap/heap.c\<close> and \<open>lib/libc/malloc.c\<close>.
  \<^item> \<open>Lk_Libc\<close>: the properties of these, with their witnesses.
  \<^item> \<open>Lk_Kstate\<close>, \<open>Lk_Timer\<close>, \<open>Lk_Thread\<close>, \<open>Lk_Event\<close>, \<open>Lk_Mutex\<close>, \<open>Lk_Dpc\<close>, \<open>Lk_Tick\<close>: the state and the
    operations of \<open>kernel\<close>. \<open>Lk_Kinv\<close> and \<open>Lk_Ktimers\<close> have the invariants of the queues and of the
    timers; \<open>Lk_Kernel\<close> has the kernel as a step relation and its properties.
  \<^item> \<open>Lk_Reg\<close>: \<open>include/reg.h\<close>. \<open>Lk_Nand\<close>, \<open>Lk_Flash\<close>: \<open>nand_wince.c\<close> and the constants of its headers.
    \<open>Lk_Ptable\<close>: \<open>lib/ptable\<close>. \<open>Lk_Nandops\<close> walks the command lists the way the data mover does,
    \<open>Lk_Flashok\<close> and \<open>Lk_Flashend\<close> have the correctness and the termination of the partition
    operations, \<open>Lk_Nandsim\<close> a small device, \<open>Lk_Storage\<close> the properties.
  \<^item> \<open>Lk_Fastboot\<close>: \<open>app/aboot/fastboot.c\<close>. \<open>Lk_Fastok\<close>: what a host can do through it, with the locale
    \<open>fastboot_handlers\<close> for the handlers a boot loader adds. \<open>Lk_Atags\<close>: the parameters for the
    kernel. \<open>Lk_Aboot\<close>: \<open>app/aboot/aboot.c\<close> and the choices of the target. \<open>Lk_Recovery\<close>:
    \<open>app/aboot/recovery.c\<close> and the start of the boot loader. \<open>Lk_Boot\<close>: the properties.
  \<^item> \<open>Lk_Hsusb\<close>: \<open>msm_shared/hsusb.c\<close> and its headers. \<open>Lk_Usbok\<close>: what the controller is asked to do
    (\<open>controller_ok\<close>), the invariant of a transfer (\<open>running\<close>) that every function of the driver keeps,
    and the driver as a device of the contract \<open>udc_ok\<close> of fastboot. \<open>Lk_Usbstart\<close>: how it comes up.
    \<open>Lk_Usb\<close>: the properties, alone and under fastboot.

  \<^bold>\<open>State.\<close> The C library, the flash driver and the boot loader work on one byte memory \<open>mem\<close>; a
  global or a local array of the code is an address in the state. Kernel objects are in records
  under their addresses (\<open>Lk_Kstate\<close>), and so are the headers of heap chunks, the list nodes, and
  the endpoints, requests and queue structures of the USB driver:
  their fields are only used through their type in the code. Integers have the width of the code
  and wrap around; \<open>char\<close> is unsigned, as the compiler for this processor has it. String literals
  are where \<open>lit\<close> puts them. Variadic arguments are a list.

  \<^bold>\<open>Hardware.\<close> What a device does when a register is read or written is a parameter, the \<open>bus\<close>; for
  fastboot alone, what the USB driver and the host do is the parameter \<open>udc\<close>. The properties name what they ask of
  them: \<open>Lk_Nandops\<close> and \<open>Lk_Flashok\<close> that the data mover carries out the list it is given, and only
  that, \<open>Lk_Flashend\<close> only that it answers, \<open>udc_ok\<close> that a transfer changes no memory but the
  buffer of a read, and no more of it than it was asked for. A small device or controller that
  satisfies each is part of the development. The driver of \<open>hsusb.c\<close> keeps \<open>udc_ok\<close>, so that under
  fastboot only the controller itself is left as a parameter: \<open>controller_ok\<close> asks that it writes
  memory only through the two page pointers the driver sets in the items it was primed with, while
  they are active, and never touches an item that is not.

  \<^bold>\<open>What the lemmas show.\<close> The list operations refine operations on sequences; the heap keeps its
  chunks a partition of its area, of used and free ones, with no two free ones adjacent. Every
  operation of the kernel, in any order, keeps each thread on exactly the queue its state asks for
  and each timer with its sleeper or waiter; a mutex has one holder; ticks wake sleepers in time.
  \<open>vsnprintf\<close> writes what a specification of the format says, and printed numbers read back. The
  flash driver's command lists parse as the transfers they are meant for; a write that reports
  success has put the image into erased pages of its partition in order, skipping bad blocks, and
  no operation touches a page outside its partition. Fastboot writes nowhere but its buffers and
  the download area, over any device of the contract and over the driver here, whatever the host does
  meanwhile with control transfers, resets and suspends; the driver comes up from its static
  variables to the state in which transfers may begin, its endpoints have numbers and queue heads of
  their own, and the configuration a host reads parses back to them. The command with the longest matching name runs; the parameters for the
  kernel read back as the list that was meant.

  \<^bold>\<open>Loops and fuel.\<close> A loop over memory or hardware that may not end is an option, with \<open>None\<close> for
  not ending, and the properties show \<open>Some\<close>. \<open>walk\<close> follows at most 256 pointers to lists of 64
  commands: the driver fills a kilobyte of each, and its longest list is shorter. \<open>parse_tags\<close> is
  given 8 tags: \<open>boot_linux\<close> writes at most 7.

  \<^bold>\<open>Not modelled.\<close> Diagnostics (\<open>dprintf\<close>, the \<open>dump\<close> functions, the heap's self test) have no effect
  on the state described here. A context switch is the return of a function into another thread's
  frame; registers and stacks are not there. While fastboot waits for a transfer the USB
  controller's interrupt may notify it of a change; a notification between two transfers is not
  possible in the model, and the events \<open>txn_done\<close> and \<open>usb_online\<close> are reduced to what the thread sees
  of them. Of \<open>platform_exit\<close> and of the board's functions the model has the effects on memory.
  The interrupt handler of the USB driver runs only while a transfer is waited for, the sleeps, clock
  switches and cache maintenance of the driver are left out, and so is \<open>dev/usb\<close>, a second stack for
  other devices. Clocks, GPIO, I2C, displays, the other processor, the MMU and the caches, and the startup code
  in assembly are hardware. \<open>nand.c\<close> and the other target are not part of this build.
\<close>

end
